(* ===== verification/Prelude.thy ===== *)
theory Prelude
  imports Main "HOL-Library.Word" "HOL-Library.Code_Target_Nat"
begin

text \<open>
  Shared vocabulary of the WarheadFix development: the machine types of
  \<^verbatim>\<open>src/src/common/Define.h\<close>, the arithmetic of \<^verbatim>\<open>size_t\<close> on a 64-bit target, the
  list operations that stand for \<^verbatim>\<open>memcpy\<close>, \<^verbatim>\<open>memmove\<close> and
  \<^verbatim>\<open>std::vector::resize\<close>, the conversions between bytes and characters, and the lemma
  collections the component theories feed and use.
\<close>

section \<open>Machine types\<close>

type_synonym u8 = "8 word"
type_synonym u16 = "16 word"
type_synonym u32 = "32 word"
type_synonym u64 = "64 word"

text \<open>The collections: \<open>list_mem\<close> for memory-like list operations, \<open>size_t\<close> for
  64-bit size arithmetic that is known not to wrap.\<close>

named_theorems list_mem \<open>rewrite rules for segments, overwrites and resizes of byte lists\<close>
named_theorems size_t_simps \<open>size_t arithmetic below the modulus\<close>

section \<open>Arithmetic of size_t\<close>

definition size_t_mod :: nat where
  "size_t_mod = 2 ^ 64"

definition sz_add :: "nat \<Rightarrow> nat \<Rightarrow> nat" where
  "sz_add a b = (a + b) mod size_t_mod"

definition sz_sub :: "nat \<Rightarrow> nat \<Rightarrow> nat" where
  "sz_sub a b = (a + (size_t_mod - b mod size_t_mod)) mod size_t_mod"

definition sz_mul :: "nat \<Rightarrow> nat \<Rightarrow> nat" where
  "sz_mul a b = (a * b) mod size_t_mod"

lemma size_t_mod_pos [simp]: "0 < size_t_mod"
  by (simp add: size_t_mod_def)

lemma sz_add_exact [size_t_simps]: "a + b < size_t_mod \<Longrightarrow> sz_add a b = a + b"
  by (simp add: sz_add_def)

lemma sz_sub_exact [size_t_simps]:
  assumes "b \<le> a" and "a < size_t_mod"
  shows "sz_sub a b = a - b"
proof -
  have "a + (size_t_mod - b) = (a - b) + size_t_mod"
    using assms by simp
  then have "(a + (size_t_mod - b)) mod size_t_mod = a - b"
    using assms by (simp only: mod_add_self2) simp
  then show ?thesis
    using assms by (simp add: sz_sub_def)
qed

lemma sz_mul_exact [size_t_simps]: "a * b < size_t_mod \<Longrightarrow> sz_mul a b = a * b"
  by (simp add: sz_mul_def)

lemma sz_add_less [simp]: "sz_add a b < size_t_mod"
  by (simp add: sz_add_def)

section \<open>Memory-like operations on lists\<close>

definition segment :: "nat \<Rightarrow> nat \<Rightarrow> 'a list \<Rightarrow> 'a list" where
  "segment pos len xs = take len (drop pos xs)"

text \<open>\<open>blit pos src dst\<close> is the destination after \<^verbatim>\<open>memcpy(dst + pos, src, |src|)\<close>.\<close>

definition blit :: "nat \<Rightarrow> 'a list \<Rightarrow> 'a list \<Rightarrow> 'a list" where
  "blit pos src dst = take pos dst @ src @ drop (pos + length src) dst"

text \<open>\<^verbatim>\<open>std::vector::resize(n, x)\<close>.\<close>

definition vec_resize :: "nat \<Rightarrow> 'a \<Rightarrow> 'a list \<Rightarrow> 'a list" where
  "vec_resize n x xs = take n xs @ replicate (n - length xs) x"

lemma length_segment [simp]: "length (segment pos len xs) = min len (length xs - pos)"
  by (simp add: segment_def)

lemma segment_0 [simp]: "segment pos 0 xs = []"
  by (simp add: segment_def)

lemma segment_all [simp]: "segment 0 (length xs) xs = xs"
  by (simp add: segment_def)

lemma segment_segment [list_mem]:
  "p + l \<le> len \<Longrightarrow> segment p l (segment pos len xs) = segment (pos + p) l xs"
  by (simp add: segment_def drop_take add.commute min_def)

lemma segment_append [list_mem]:
  "segment pos (m + n) xs = segment pos m xs @ segment (pos + m) n xs"
  by (simp add: segment_def take_add add.commute)

lemma length_blit [simp]: "pos + length src \<le> length dst \<Longrightarrow> length (blit pos src dst) = length dst"
  by (simp add: blit_def)

lemma segment_blit_same [list_mem]:
  "pos + length src \<le> length dst \<Longrightarrow> segment pos (length src) (blit pos src dst) = src"
  by (simp add: segment_def blit_def)

lemma segment_blit_before [list_mem]:
  "p + n \<le> pos \<Longrightarrow> pos \<le> length dst \<Longrightarrow> segment p n (blit pos src dst) = segment p n dst"
  by (simp add: segment_def blit_def take_drop)

lemma segment_blit_after [list_mem]:
  assumes "pos + length src \<le> p" and "pos \<le> length dst"
  shows "segment p n (blit pos src dst) = segment p n dst"
proof -
  have "drop p (blit pos src dst) = drop (p - pos - length src) (drop (pos + length src) dst)"
    using assms by (simp add: blit_def)
  also have "\<dots> = drop p dst"
    using assms by simp
  finally show ?thesis by (simp add: segment_def)
qed

lemma take_blit [list_mem]: "pos \<le> length dst \<Longrightarrow> take pos (blit pos src dst) = take pos dst"
  by (simp add: blit_def)

lemma take_blit_end [list_mem]:
  "pos \<le> length dst \<Longrightarrow> take (pos + length src) (blit pos src dst) = take pos dst @ src"
  by (simp add: blit_def)

lemma length_vec_resize [simp]: "length (vec_resize n x xs) = n"
  by (simp add: vec_resize_def)

lemma vec_resize_id [list_mem]: "vec_resize (length xs) x xs = xs"
  by (simp add: vec_resize_def)

lemma take_vec_resize [list_mem]: "m \<le> n \<Longrightarrow> m \<le> length xs \<Longrightarrow> take m (vec_resize n x xs) = take m xs"
  by (simp add: vec_resize_def min_def)

lemma segment_vec_resize [list_mem]:
  "p + m \<le> n \<Longrightarrow> p + m \<le> length xs \<Longrightarrow> segment p m (vec_resize n x xs) = segment p m xs"
  by (auto simp: segment_def vec_resize_def min_def drop_take)

lemma segment_Suc: "pos < length xs \<Longrightarrow> segment pos (Suc n) xs = xs ! pos # segment (Suc pos) n xs"
  by (simp add: segment_def Cons_nth_drop_Suc [symmetric])

section \<open>Bytes and characters\<close>

text \<open>The source converts freely between \<^verbatim>\<open>uint8*\<close> and \<^verbatim>\<open>char*\<close>; both are one byte.
  A HOL \<open>char\<close> is a byte as well, so the two casts are a bijection. \<open>schar\<close> is the
  numeric value of a (signed) \<^verbatim>\<open>char\<close> in an arithmetic expression.\<close>

definition char_of_byte :: "u8 \<Rightarrow> char" where
  "char_of_byte b = char_of (unat b)"

definition byte_of_char :: "char \<Rightarrow> u8" where
  "byte_of_char c = of_char c"

definition schar :: "char \<Rightarrow> int" where
  "schar c = (let n = (of_char c :: int) in if n < 128 then n else n - 256)"

lemma unat_u8: "unat (b :: u8) < 256"
proof -
  have "unat b < 2 ^ LENGTH(8)" by (rule unsigned_less)
  then show ?thesis by simp
qed

lemma char_of_byte_of_char [simp]: "char_of_byte (byte_of_char c) = c"
proof -
  have "unat (of_char c :: u8) = of_char c mod 256"
    using unat_of_nat [of "of_char c", where 'a = 8] by (simp only: of_nat_of_char) simp
  then show ?thesis by (simp add: char_of_byte_def byte_of_char_def)
qed

lemma byte_of_char_of_byte [simp]: "byte_of_char (char_of_byte b) = b"
proof -
  have "(of_char (char_of (unat b)) :: u8) = of_nat (of_char (char_of (unat b) :: char))"
    by (simp only: of_nat_of_char)
  also have "\<dots> = of_nat (unat b mod 256)"
    by (simp only: of_char_of)
  also have "unat b mod 256 = unat b"
    using unat_u8 [of b] by simp
  finally show ?thesis by (simp add: char_of_byte_def byte_of_char_def)
qed

lemma byte_of_char_eq_iff [simp]: "byte_of_char c = byte_of_char d \<longleftrightarrow> c = d"
  by (metis char_of_byte_of_char)

lemma char_of_byte_eq_iff [simp]: "char_of_byte a = char_of_byte b \<longleftrightarrow> a = b"
  by (metis byte_of_char_of_byte)

lemma char_byte_comp [simp]: "char_of_byte \<circ> byte_of_char = id" "byte_of_char \<circ> char_of_byte = id"
  by (simp_all add: fun_eq_iff)

abbreviation chars :: "u8 list \<Rightarrow> string" where
  "chars \<equiv> map char_of_byte"

abbreviation bytes :: "string \<Rightarrow> u8 list" where
  "bytes \<equiv> map byte_of_char"

lemma chars_bytes [simp]: "chars (bytes s) = s"
  by (simp add: comp_def)

lemma bytes_chars [simp]: "bytes (chars bs) = bs"
  by (simp add: comp_def)

section \<open>Results with an error\<close>

text \<open>Fallible code returns \<open>Inl error\<close> or \<open>Inr result\<close>; \<open>err_bind\<close> is the
  sequencing of two such steps.\<close>

fun err_bind :: "'e + 'a \<Rightarrow> ('a \<Rightarrow> 'e + 'b) \<Rightarrow> 'e + 'b" where
  "err_bind (Inl e) f = Inl e"
| "err_bind (Inr x) f = f x"

definition err_check :: "bool \<Rightarrow> 'e \<Rightarrow> 'e + unit" where
  "err_check p e = (if p then Inr () else Inl e)"

lemma err_check_simps [simp]: "err_check True e = Inr ()" "err_check False e = Inl e"
  by (simp_all add: err_check_def)

lemma err_bind_Inr_iff: "err_bind m f = Inr y \<longleftrightarrow> (\<exists>x. m = Inr x \<and> f x = Inr y)"
  by (cases m) simp_all

lemma err_bind_assoc: "err_bind (err_bind m f) g = err_bind m (\<lambda>x. err_bind (f x) g)"
  by (cases m) simp_all

section \<open>Signed integers\<close>

text \<open>A signed integer of \<open>bits\<close> bits is an \<open>int\<close>; \<open>int_wrap\<close> is the reduction to
  its width, \<open>cdiv\<close> and \<open>crem\<close> are the truncating division and its remainder.\<close>

definition int_wrap :: "nat \<Rightarrow> int \<Rightarrow> int" where
  "int_wrap bits k = (k + 2 ^ (bits - 1)) mod 2 ^ bits - 2 ^ (bits - 1)"

definition cdiv :: "int \<Rightarrow> int \<Rightarrow> int" where
  "cdiv a b = (if 0 \<le> a then a div b else - ((- a) div b))"

definition crem :: "int \<Rightarrow> int \<Rightarrow> int" where
  "crem a b = a - b * cdiv a b"

lemma int_wrap_id:
  assumes "- (2 ^ (bits - 1)) \<le> k" and "k < 2 ^ (bits - 1)" and "0 < bits"
  shows "int_wrap bits k = k"
proof -
  have "(2::int) ^ bits = 2 * 2 ^ (bits - 1)" using assms(3) by (cases bits) simp_all
  then show ?thesis using assms by (simp add: int_wrap_def)
qed

lemma int_wrap_32: "- 2147483648 \<le> k \<Longrightarrow> k < 2147483648 \<Longrightarrow> int_wrap 32 k = k"
  by (rule int_wrap_id) simp_all

lemma cdiv_nonneg: "0 \<le> a \<Longrightarrow> cdiv a b = a div b"
  by (simp add: cdiv_def)

end
