(* ===== verification/Message_Buffer.thy ===== *)
theory Message_Buffer
  imports Prelude
begin

text \<open>
  \<^verbatim>\<open>src/src/common/Utilities/MessageBuffer.h\<close>: the byte buffer between a socket and
  its session. \<open>_rpos\<close> and \<open>_wpos\<close> delimit the active bytes of \<open>_storage\<close>. An
  operation that reaches outside the storage is undefined behaviour in the source; the model
  makes it the value \<open>None\<close>. The theory shows that under the invariant no operation is
  undefined, and that the buffer is a FIFO of bytes.
\<close>

section \<open>State and operations\<close>

record MessageBuffer =
  mb_wpos :: nat
  mb_rpos :: nat
  mb_storage :: "u8 list"

definition MessageBuffer_default :: MessageBuffer where
  "MessageBuffer_default = \<lparr>mb_wpos = 0, mb_rpos = 0, mb_storage = vec_resize 4096 0 []\<rparr>"

definition MessageBuffer_sized :: "nat \<Rightarrow> MessageBuffer" where
  "MessageBuffer_sized initialSize = \<lparr>mb_wpos = 0, mb_rpos = 0, mb_storage = vec_resize initialSize 0 []\<rparr>"

definition MessageBuffer_Reset :: "MessageBuffer \<Rightarrow> MessageBuffer" where
  "MessageBuffer_Reset b = b\<lparr>mb_wpos := 0, mb_rpos := 0\<rparr>"

definition MessageBuffer_Resize :: "nat \<Rightarrow> MessageBuffer \<Rightarrow> MessageBuffer" where
  "MessageBuffer_Resize n b = b\<lparr>mb_storage := vec_resize n 0 (mb_storage b)\<rparr>"

definition MessageBuffer_ReadCompleted :: "nat \<Rightarrow> MessageBuffer \<Rightarrow> MessageBuffer" where
  "MessageBuffer_ReadCompleted n b = b\<lparr>mb_rpos := sz_add (mb_rpos b) n\<rparr>"

definition MessageBuffer_WriteCompleted :: "nat \<Rightarrow> MessageBuffer \<Rightarrow> MessageBuffer" where
  "MessageBuffer_WriteCompleted n b = b\<lparr>mb_wpos := sz_add (mb_wpos b) n\<rparr>"

definition MessageBuffer_GetActiveSize :: "MessageBuffer \<Rightarrow> nat" where
  "MessageBuffer_GetActiveSize b = sz_sub (mb_wpos b) (mb_rpos b)"

definition MessageBuffer_GetRemainingSpace :: "MessageBuffer \<Rightarrow> nat" where
  "MessageBuffer_GetRemainingSpace b = sz_sub (length (mb_storage b)) (mb_wpos b)"

definition MessageBuffer_GetBufferSize :: "MessageBuffer \<Rightarrow> nat" where
  "MessageBuffer_GetBufferSize b = length (mb_storage b)"

text \<open>Reading \<open>n\<close> bytes at an offset of the base pointer, and \<^verbatim>\<open>memcpy\<close> to one.\<close>

definition mem_read :: "nat \<Rightarrow> nat \<Rightarrow> u8 list \<Rightarrow> u8 list option" where
  "mem_read pos n m = (if pos + n \<le> length m then Some (segment pos n m) else None)"

definition mem_write :: "nat \<Rightarrow> u8 list \<Rightarrow> u8 list \<Rightarrow> u8 list option" where
  "mem_write pos src m = (if pos + length src \<le> length m then Some (blit pos src m) else None)"

definition MessageBuffer_Normalize :: "MessageBuffer \<Rightarrow> MessageBuffer option" where
  "MessageBuffer_Normalize b =
     (if mb_rpos b \<noteq> 0 then
        (let moved = (if mb_rpos b \<noteq> mb_wpos b then
                        Option.bind (mem_read (mb_rpos b) (MessageBuffer_GetActiveSize b) (mb_storage b))
                          (\<lambda>d. mem_write 0 d (mb_storage b))
                      else Some (mb_storage b))
         in map_option
              (\<lambda>st. b\<lparr>mb_storage := st, mb_wpos := sz_sub (mb_wpos b) (mb_rpos b), mb_rpos := 0\<rparr>) moved)
      else Some b)"

definition MessageBuffer_EnsureFreeSpace :: "MessageBuffer \<Rightarrow> MessageBuffer" where
  "MessageBuffer_EnsureFreeSpace b =
     (if MessageBuffer_GetRemainingSpace b = 0
      then b\<lparr>mb_storage := vec_resize (sz_mul (length (mb_storage b)) 3 div 2) 0 (mb_storage b)\<rparr>
      else b)"

definition MessageBuffer_Write :: "u8 list \<Rightarrow> MessageBuffer \<Rightarrow> MessageBuffer option" where
  "MessageBuffer_Write data b =
     (if data \<noteq> [] then
        map_option (\<lambda>st. MessageBuffer_WriteCompleted (length data) (b\<lparr>mb_storage := st\<rparr>))
          (mem_write (mb_wpos b) data (mb_storage b))
      else Some b)"

text \<open>\<^verbatim>\<open>Move()\<close> gives the storage away; a moved-from vector is empty.\<close>

definition MessageBuffer_Move :: "MessageBuffer \<Rightarrow> u8 list \<times> MessageBuffer" where
  "MessageBuffer_Move b = (mb_storage b, \<lparr>mb_wpos = 0, mb_rpos = 0, mb_storage = []\<rparr>)"

definition MessageBuffer_copy :: "MessageBuffer \<Rightarrow> MessageBuffer" where
  "MessageBuffer_copy right =
     \<lparr>mb_wpos = mb_wpos right, mb_rpos = mb_rpos right, mb_storage = mb_storage right\<rparr>"

definition MessageBuffer_move_ctor :: "MessageBuffer \<Rightarrow> MessageBuffer \<times> MessageBuffer" where
  "MessageBuffer_move_ctor right =
     (let w = mb_wpos right; r = mb_rpos right; (st, right') = MessageBuffer_Move right
      in (\<lparr>mb_wpos = w, mb_rpos = r, mb_storage = st\<rparr>, right'))"

text \<open>What an asynchronous read does between \<^verbatim>\<open>async_read_some\<close> and its handler: the
  socket fills bytes at the write pointer, then the handler calls \<open>WriteCompleted\<close>.\<close>

definition MessageBuffer_fill :: "u8 list \<Rightarrow> MessageBuffer \<Rightarrow> MessageBuffer option" where
  "MessageBuffer_fill data b =
     map_option (\<lambda>st. b\<lparr>mb_storage := st\<rparr>) (mem_write (mb_wpos b) data (mb_storage b))"

section \<open>The invariant and the active bytes\<close>

definition mb_invar :: "MessageBuffer \<Rightarrow> bool" where
  "mb_invar b \<longleftrightarrow> mb_rpos b \<le> mb_wpos b \<and> mb_wpos b \<le> length (mb_storage b)
     \<and> length (mb_storage b) < size_t_mod div 4"

definition mb_active :: "MessageBuffer \<Rightarrow> u8 list" where
  "mb_active b = segment (mb_rpos b) (mb_wpos b - mb_rpos b) (mb_storage b)"

lemma mb_invar_bounds:
  assumes "mb_invar b"
  shows "mb_rpos b \<le> mb_wpos b" "mb_wpos b \<le> length (mb_storage b)"
    "length (mb_storage b) * 3 < size_t_mod" "mb_wpos b < size_t_mod" "length (mb_storage b) < size_t_mod"
  using assms by (auto simp: mb_invar_def size_t_mod_def)

lemma GetActiveSize_eq: "mb_invar b \<Longrightarrow> MessageBuffer_GetActiveSize b = length (mb_active b)"
  by (simp add: MessageBuffer_GetActiveSize_def mb_active_def sz_sub_exact mb_invar_bounds)
     (use mb_invar_bounds in fastforce)

lemma GetRemainingSpace_eq:
  "mb_invar b \<Longrightarrow> MessageBuffer_GetRemainingSpace b = length (mb_storage b) - mb_wpos b"
  by (simp add: MessageBuffer_GetRemainingSpace_def sz_sub_exact mb_invar_bounds)

lemma Reset_active: "mb_active (MessageBuffer_Reset b) = []" "mb_invar b \<Longrightarrow> mb_invar (MessageBuffer_Reset b)"
  by (simp_all add: mb_active_def MessageBuffer_Reset_def mb_invar_def)

lemma Normalize_correct:
  assumes inv: "mb_invar b"
  obtains b' where "MessageBuffer_Normalize b = Some b'" "mb_invar b'" "mb_rpos b' = 0"
    "mb_active b' = mb_active b" "length (mb_storage b') = length (mb_storage b)"
proof -
  note bs = mb_invar_bounds [OF inv]
  let ?n = "mb_wpos b - mb_rpos b"
  have act: "MessageBuffer_GetActiveSize b = ?n" "sz_sub (mb_wpos b) (mb_rpos b) = ?n"
    using bs by (simp_all add: MessageBuffer_GetActiveSize_def sz_sub_exact)
  show ?thesis
  proof (cases "mb_rpos b = 0")
    case True
    then show ?thesis using inv that [of b] by (simp add: MessageBuffer_Normalize_def)
  next
    case rpos: False
    show ?thesis
    proof (cases "mb_rpos b = mb_wpos b")
      case True
      then show ?thesis using rpos inv act bs
        by (intro that [of "b\<lparr>mb_wpos := 0, mb_rpos := 0\<rparr>"])
           (simp_all add: MessageBuffer_Normalize_def mb_active_def mb_invar_def)
    next
      case False
      let ?d = "segment (mb_rpos b) ?n (mb_storage b)"
      have len: "length ?d = ?n" using bs by simp
      let ?b' = "b\<lparr>mb_storage := blit 0 ?d (mb_storage b), mb_wpos := ?n, mb_rpos := 0\<rparr>"
      have eq: "MessageBuffer_Normalize b = Some ?b'"
        using rpos False bs act len by (simp add: MessageBuffer_Normalize_def mem_read_def mem_write_def)
      have "mb_active ?b' = mb_active b"
        using bs segment_blit_same [of 0 ?d "mb_storage b"] len by (simp add: mb_active_def)
      then show ?thesis
        using eq bs inv len by (intro that [of ?b']) (simp_all add: mb_invar_def)
    qed
  qed
qed

lemma EnsureFreeSpace_active:
  assumes "mb_invar b"
  shows "mb_active (MessageBuffer_EnsureFreeSpace b) = mb_active b"
    and "mb_rpos (MessageBuffer_EnsureFreeSpace b) = mb_rpos b"
    and "mb_wpos (MessageBuffer_EnsureFreeSpace b) = mb_wpos b"
proof -
  note bs = mb_invar_bounds [OF assms]
  have "length (mb_storage b) \<le> sz_mul (length (mb_storage b)) 3 div 2"
    using bs by (simp add: sz_mul_exact)
  then show "mb_active (MessageBuffer_EnsureFreeSpace b) = mb_active b"
    using bs by (simp add: MessageBuffer_EnsureFreeSpace_def mb_active_def segment_vec_resize)
qed (simp_all add: MessageBuffer_EnsureFreeSpace_def)

lemma EnsureFreeSpace_length:
  assumes "mb_invar b"
  shows "length (mb_storage (MessageBuffer_EnsureFreeSpace b)) =
    (if mb_wpos b = length (mb_storage b) then length (mb_storage b) * 3 div 2 else length (mb_storage b))"
proof -
  note bs = mb_invar_bounds [OF assms]
  have "MessageBuffer_GetRemainingSpace b = 0 \<longleftrightarrow> mb_wpos b = length (mb_storage b)"
    using bs by (auto simp: GetRemainingSpace_eq [OF assms])
  then show ?thesis using bs
    by (simp add: MessageBuffer_EnsureFreeSpace_def sz_mul_exact)
qed

lemma Normalize_EnsureFreeSpace:
  assumes inv: "mb_invar b" and two: "2 \<le> length (mb_storage b)"
  obtains b1 where "MessageBuffer_Normalize b = Some b1"
    "mb_active (MessageBuffer_EnsureFreeSpace b1) = mb_active b"
    "mb_rpos (MessageBuffer_EnsureFreeSpace b1) = 0"
    "mb_wpos (MessageBuffer_EnsureFreeSpace b1) = length (mb_active b)"
    "mb_wpos (MessageBuffer_EnsureFreeSpace b1) < length (mb_storage (MessageBuffer_EnsureFreeSpace b1))"
    "length (mb_storage (MessageBuffer_EnsureFreeSpace b1)) =
       (if length (mb_active b) = length (mb_storage b) then length (mb_storage b) * 3 div 2
        else length (mb_storage b))"
proof (rule Normalize_correct [OF inv])
  fix b1
  assume b1: "MessageBuffer_Normalize b = Some b1" "mb_invar b1" "mb_rpos b1 = 0"
    "mb_active b1 = mb_active b" "length (mb_storage b1) = length (mb_storage b)"
  have w: "mb_wpos b1 = length (mb_active b)"
    using GetActiveSize_eq [OF b1(2)] b1 mb_invar_bounds [OF b1(2)]
    by (simp add: MessageBuffer_GetActiveSize_def sz_sub_exact)
  have "mb_wpos b1 \<le> length (mb_storage b1)" using mb_invar_bounds [OF b1(2)] by simp
  then show ?thesis
    using b1 w two
    by (intro that [OF b1(1)]) (auto simp: EnsureFreeSpace_active EnsureFreeSpace_length)
qed

lemma fill_correct:
  assumes inv: "mb_invar b" and room: "length d \<le> MessageBuffer_GetRemainingSpace b"
  obtains b' where "map_option (MessageBuffer_WriteCompleted (length d)) (MessageBuffer_fill d b) = Some b'"
    "mb_invar b'" "mb_active b' = mb_active b @ d"
    "length (mb_storage b') = length (mb_storage b)" "mb_wpos b' = mb_wpos b + length d" "mb_rpos b' = mb_rpos b"
proof -
  note bs = mb_invar_bounds [OF inv]
  have fits: "mb_wpos b + length d \<le> length (mb_storage b)"
    using room bs by (simp add: GetRemainingSpace_eq [OF inv])
  let ?st = "blit (mb_wpos b) d (mb_storage b)"
  let ?b' = "b\<lparr>mb_storage := ?st, mb_wpos := mb_wpos b + length d\<rparr>"
  have eq: "map_option (MessageBuffer_WriteCompleted (length d)) (MessageBuffer_fill d b) = Some ?b'"
    using fits bs by (simp add: MessageBuffer_fill_def mem_write_def MessageBuffer_WriteCompleted_def sz_add_exact)
  have "mb_active ?b' = segment (mb_rpos b) ((mb_wpos b - mb_rpos b) + length d) ?st"
    using bs by (simp add: mb_active_def)
  also have "\<dots> = mb_active b @ d"
    using bs fits by (simp only: segment_append) (simp add: segment_blit_before segment_blit_same mb_active_def)
  finally show ?thesis
    using that [OF eq] inv fits by (simp add: mb_invar_def)
qed

lemma Write_eq_fill:
  "d \<noteq> [] \<Longrightarrow> MessageBuffer_Write d b
     = map_option (MessageBuffer_WriteCompleted (length d)) (MessageBuffer_fill d b)"
  by (simp add: MessageBuffer_Write_def MessageBuffer_fill_def option.map_comp comp_def)

lemma Write_correct:
  assumes "mb_invar b" and "length d \<le> MessageBuffer_GetRemainingSpace b"
  shows "\<exists>b'. MessageBuffer_Write d b = Some b' \<and> mb_invar b' \<and> mb_active b' = mb_active b @ d
    \<and> MessageBuffer_GetRemainingSpace b' = MessageBuffer_GetRemainingSpace b - length d"
proof (cases "d = []")
  case True
  then show ?thesis using assms by (simp add: MessageBuffer_Write_def)
next
  case False
  show ?thesis
    using assms
  proof (rule fill_correct)
    fix b'
    assume "map_option (MessageBuffer_WriteCompleted (length d)) (MessageBuffer_fill d b) = Some b'"
      "mb_invar b'" "mb_active b' = mb_active b @ d"
      "length (mb_storage b') = length (mb_storage b)" "mb_wpos b' = mb_wpos b + length d"
    with False assms show ?thesis
      by (intro exI [of _ b']) (simp add: Write_eq_fill [OF False] GetRemainingSpace_eq)
  qed
qed

lemma ReadCompleted_correct:
  assumes "mb_invar b" and "n \<le> MessageBuffer_GetActiveSize b"
  shows "mb_invar (MessageBuffer_ReadCompleted n b) \<and>
    mb_active (MessageBuffer_ReadCompleted n b) = drop n (mb_active b)"
proof -
  note bs = mb_invar_bounds [OF assms(1)]
  have n: "mb_rpos b + n \<le> mb_wpos b"
    using assms(2) bs by (simp add: MessageBuffer_GetActiveSize_def sz_sub_exact)
  then have "sz_add (mb_rpos b) n = mb_rpos b + n" using bs by (simp add: sz_add_exact)
  then show ?thesis using n bs assms(1)
    by (simp add: MessageBuffer_ReadCompleted_def mb_active_def mb_invar_def segment_def drop_take add.commute)
qed

section \<open>The interface a socket relies on\<close>

text \<open>A FIFO of bytes: what is written is appended, what is consumed is dropped from the
  front. The client lemmas are about a packet that is written in pieces and sent in pieces.\<close>

locale byte_fifo =
  fixes active :: "'b \<Rightarrow> u8 list"
    and invar :: "'b \<Rightarrow> bool"
    and room :: "'b \<Rightarrow> nat"
    and size_of :: "'b \<Rightarrow> nat"
    and put :: "u8 list \<Rightarrow> 'b \<Rightarrow> 'b option"
    and consume :: "nat \<Rightarrow> 'b \<Rightarrow> 'b"
  assumes size_of_active: "invar b \<Longrightarrow> size_of b = length (active b)"
    and put_active: "invar b \<Longrightarrow> length d \<le> room b \<Longrightarrow>
      \<exists>b'. put d b = Some b' \<and> invar b' \<and> active b' = active b @ d \<and> room b' = room b - length d"
    and consume_active: "invar b \<Longrightarrow> n \<le> size_of b \<Longrightarrow>
      invar (consume n b) \<and> active (consume n b) = drop n (active b)"
begin

lemma put_chunks:
  "invar b \<Longrightarrow> sum_list (map length ds) \<le> room b \<Longrightarrow>
    \<exists>b'. fold (\<lambda>d s. Option.bind s (put d)) ds (Some b) = Some b' \<and> invar b'
      \<and> active b' = active b @ concat ds"
proof (induction ds arbitrary: b)
  case Nil
  then show ?case by simp
next
  case (Cons d ds)
  then have "length d \<le> room b" by simp
  with Cons.prems put_active [of b d] obtain b1
    where b1: "put d b = Some b1" "invar b1" "active b1 = active b @ d" "room b1 = room b - length d"
    by blast
  with Cons.prems have "sum_list (map length ds) \<le> room b1" by simp
  with Cons.IH [OF b1(2)] b1 show ?case by simp
qed

text \<open>Sending in pieces: whatever the sizes the transport accepts, the bytes taken from the
  front, in order, are the active bytes.\<close>

lemma consume_pieces:
  "invar b \<Longrightarrow> sum_list ns \<le> size_of b \<Longrightarrow>
    active (fold consume ns b) = drop (sum_list ns) (active b) \<and> invar (fold consume ns b)"
proof (induction ns arbitrary: b)
  case Nil
  then show ?case by simp
next
  case (Cons n ns)
  then have c: "invar (consume n b)" "active (consume n b) = drop n (active b)"
    using consume_active [of b n] by auto
  moreover have "sum_list ns \<le> size_of (consume n b)"
    using Cons.prems c by (simp add: size_of_active)
  ultimately show ?case using Cons.IH [of "consume n b"] by (simp add: add.commute)
qed

end

interpretation mbuf: byte_fifo mb_active mb_invar MessageBuffer_GetRemainingSpace
  MessageBuffer_GetActiveSize MessageBuffer_Write MessageBuffer_ReadCompleted
proof unfold_locales
  show "\<And>b. mb_invar b \<Longrightarrow> MessageBuffer_GetActiveSize b = length (mb_active b)"
    by (rule GetActiveSize_eq)
next
  fix b and d :: "u8 list"
  assume "mb_invar b" "length d \<le> MessageBuffer_GetRemainingSpace b"
  then show "\<exists>b'. MessageBuffer_Write d b = Some b' \<and> mb_invar b' \<and> mb_active b' = mb_active b @ d
      \<and> MessageBuffer_GetRemainingSpace b' = MessageBuffer_GetRemainingSpace b - length d"
    by (rule Write_correct)
next
  fix b n
  assume "mb_invar b" "n \<le> MessageBuffer_GetActiveSize b"
  then show "mb_invar (MessageBuffer_ReadCompleted n b) \<and>
      mb_active (MessageBuffer_ReadCompleted n b) = drop n (mb_active b)"
    by (rule ReadCompleted_correct)
qed

section \<open>Properties\<close>

text \<open>Preparing a buffer for the next receive (\<open>Normalize\<close>, then \<open>EnsureFreeSpace\<close>)
  keeps the unread bytes and their order, moves them to the front, keeps the invariant and always
  leaves room for at least one byte, however full the buffer was.\<close>

theorem normalize_ensure_space:
  assumes "mb_invar b" and "2 \<le> MessageBuffer_GetBufferSize b"
    and "MessageBuffer_GetBufferSize b * 3 div 2 < size_t_mod div 4"
  shows "\<exists>b1. MessageBuffer_Normalize b = Some b1
    \<and> (let b2 = MessageBuffer_EnsureFreeSpace b1 in
        mb_invar b2 \<and> mb_active b2 = mb_active b \<and> mb_rpos b2 = 0
        \<and> 0 < MessageBuffer_GetRemainingSpace b2
        \<and> MessageBuffer_GetBufferSize b \<le> MessageBuffer_GetBufferSize b2)"
proof -
  have two: "2 \<le> length (mb_storage b)" using assms(2) by (simp add: MessageBuffer_GetBufferSize_def)
  obtain b1 where b1: "MessageBuffer_Normalize b = Some b1"
    "mb_active (MessageBuffer_EnsureFreeSpace b1) = mb_active b"
    "mb_rpos (MessageBuffer_EnsureFreeSpace b1) = 0"
    "mb_wpos (MessageBuffer_EnsureFreeSpace b1) = length (mb_active b)"
    "mb_wpos (MessageBuffer_EnsureFreeSpace b1) < length (mb_storage (MessageBuffer_EnsureFreeSpace b1))"
    "length (mb_storage (MessageBuffer_EnsureFreeSpace b1)) =
       (if length (mb_active b) = length (mb_storage b) then length (mb_storage b) * 3 div 2
        else length (mb_storage b))"
    by (rule Normalize_EnsureFreeSpace [OF assms(1) two])
  let ?b2 = "MessageBuffer_EnsureFreeSpace b1"
  have bound: "length (mb_storage ?b2) < size_t_mod div 4"
    using b1(6) assms(1,3) by (simp add: mb_invar_def MessageBuffer_GetBufferSize_def)
  have inv: "mb_invar ?b2" unfolding mb_invar_def b1(3) using b1(5) bound by simp
  have "0 < MessageBuffer_GetRemainingSpace ?b2" unfolding GetRemainingSpace_eq [OF inv] using b1(5) by simp
  then show ?thesis using inv b1 by (auto simp: Let_def MessageBuffer_GetBufferSize_def)
qed

theorem normalize_ensure_space_witness:
  "\<exists>b1. MessageBuffer_Normalize \<lparr>mb_wpos = 2, mb_rpos = 0, mb_storage = [7, 8]\<rparr> = Some b1
    \<and> (let b2 = MessageBuffer_EnsureFreeSpace b1 in
        mb_invar b2 \<and> mb_active b2 = [7, 8] \<and> mb_rpos b2 = 0
        \<and> 0 < MessageBuffer_GetRemainingSpace b2
        \<and> Suc (Suc 0) \<le> MessageBuffer_GetBufferSize b2)"
  using normalize_ensure_space [of "\<lparr>mb_wpos = 2, mb_rpos = 0, mb_storage = [7, 8]\<rparr>"]
  by (simp add: mb_invar_def MessageBuffer_GetBufferSize_def size_t_mod_def mb_active_def segment_def)

end
