(* ===== verification/String_Util.thy ===== *)
theory String_Util
  imports Prelude
begin

text \<open>
  The string helpers of \<^verbatim>\<open>src/src/common/Utilities\<close>: \<^verbatim>\<open>Util.cpp\<close>
  (\<open>StringEqualI\<close>), \<^verbatim>\<open>StringFormat.cpp\<close> (\<open>Trim\<close>, \<open>TrimRightInPlace\<close>),
  \<^verbatim>\<open>Tokenize.cpp\<close> and \<^verbatim>\<open>StringConvert.h\<close> (the integral and the boolean
  converter). Strings are lists of characters; \<^verbatim>\<open>std::isspace\<close>, \<^verbatim>\<open>std::tolower\<close>,
  \<^verbatim>\<open>std::from_chars\<close> and \<^verbatim>\<open>std::to_chars\<close> are the standard library's, in the
  classic locale. Shown: \<open>Trim\<close> removes exactly the outer white space, \<open>Tokenize\<close> is
  splitting at the separator, and the integral converter round-trips every value of every
  integral type of at most 64 bits.
\<close>

section \<open>Character classes and decimal text\<close>

definition isspace :: "char \<Rightarrow> bool" where
  "isspace c \<longleftrightarrow> (let n = (of_char c :: nat) in n = 32 \<or> (9 \<le> n \<and> n \<le> 13))"

definition tolower :: "char \<Rightarrow> char" where
  "tolower c = (let n = (of_char c :: nat) in if 65 \<le> n \<and> n \<le> 90 then char_of (n + 32) else c)"

definition digit_char :: "nat \<Rightarrow> char" where
  "digit_char d = char_of (48 + d)"

fun dec_nat :: "nat \<Rightarrow> string" where
  "dec_nat n = (if n < 10 then [digit_char n] else dec_nat (n div 10) @ [digit_char (n mod 10)])"

declare dec_nat.simps [simp del]

lemma digit_chars:
    "digit_char 0 = CHR ''0''"
    "digit_char (Suc 0) = CHR ''1''"
    "digit_char 2 = CHR ''2''"
    "digit_char 3 = CHR ''3''"
    "digit_char 4 = CHR ''4''"
    "digit_char 5 = CHR ''5''"
    "digit_char 6 = CHR ''6''"
    "digit_char 7 = CHR ''7''"
    "digit_char 8 = CHR ''8''"
    "digit_char 9 = CHR ''9''"
  by code_simp+

lemma dec_nat_rec: "n < 10 \<Longrightarrow> dec_nat n = [digit_char n]"
    "10 \<le> n \<Longrightarrow> dec_nat n = dec_nat (n div 10) @ [digit_char (n mod 10)]"
  by (simp_all add: dec_nat.simps [of n])

definition dec_int :: "int \<Rightarrow> string" where
  "dec_int k = (if k < 0 then CHR ''-'' # dec_nat (nat (- k)) else dec_nat (nat k))"

primrec find_idx :: "'a \<Rightarrow> 'a list \<Rightarrow> nat option" where
  "find_idx c [] = None"
| "find_idx c (x # xs) = (if x = c then Some 0 else map_option Suc (find_idx c xs))"

text \<open>\<^verbatim>\<open>str.find(c, start)\<close>; \<^verbatim>\<open>npos\<close> is \<open>None\<close>.\<close>

definition find_from :: "'a \<Rightarrow> 'a list \<Rightarrow> nat \<Rightarrow> nat option" where
  "find_from c xs start = map_option ((+) start) (find_idx c (drop start xs))"

section \<open>Util.cpp and StringFormat.cpp\<close>

definition StringEqualI :: "string \<Rightarrow> string \<Rightarrow> bool" where
  "StringEqualI a b \<longleftrightarrow> list_all2 (\<lambda>c1 c2. tolower c1 = tolower c2) a b"

text \<open>The two loops of \<open>Trim\<close>: the forward scan yields the offset of \<^verbatim>\<open>first\<close>, the
  backward scan, started at \<^verbatim>\<open>end\<close>, the offset of \<^verbatim>\<open>last\<close>.\<close>

primrec Trim_first :: "string \<Rightarrow> nat" where
  "Trim_first [] = 0"
| "Trim_first (c # cs) = (if isspace c then Suc (Trim_first cs) else 0)"

primrec Trim_last :: "string \<Rightarrow> nat \<Rightarrow> nat" where
  "Trim_last s 0 = 0"
| "Trim_last s (Suc l) = (if isspace (s ! l) then Trim_last s l else l)"

definition Trim :: "string \<Rightarrow> string" where
  "Trim s =
     (let first = Trim_first s; fin = length s in
      if first = fin then []
      else
        (let last = Trim_last s fin in
         if first \<noteq> 0 \<or> last + 1 \<noteq> fin then segment first (last + 1 - first) s
         else s))"

text \<open>\<open>TrimRightInPlace\<close>: \<open>n\<close> is \<^verbatim>\<open>pos + 1\<close>.\<close>

primrec TrimRight_loop :: "string \<Rightarrow> nat \<Rightarrow> nat" where
  "TrimRight_loop str 0 = 0"
| "TrimRight_loop str (Suc pos) = (if isspace (str ! pos) then TrimRight_loop str pos else Suc pos)"

definition TrimRightInPlace :: "string \<Rightarrow> string" where
  "TrimRightInPlace str = vec_resize (TrimRight_loop str (length str)) (CHR 0x00) str"

section \<open>Tokenize.cpp\<close>

lemma find_idx_Some:
  assumes "find_idx c xs = Some i"
  shows "i < length xs" "xs ! i = c" "c \<notin> set (take i xs)"
proof -
  have "i < length xs \<and> xs ! i = c \<and> c \<notin> set (take i xs)"
    using assms by (induction xs arbitrary: i) (auto split: if_splits)
  then show "i < length xs" "xs ! i = c" "c \<notin> set (take i xs)" by simp_all
qed

lemma find_idx_None: "find_idx c xs = None \<longleftrightarrow> c \<notin> set xs"
  by (induction xs) auto

lemma find_from_bounds: "find_from c xs s = Some e \<Longrightarrow> s \<le> e \<and> e < length xs"
  by (auto simp: find_from_def dest!: find_idx_Some(1))

function Tokenize_loop :: "string \<Rightarrow> char \<Rightarrow> bool \<Rightarrow> nat \<Rightarrow> string list \<Rightarrow> string list" where
  "Tokenize_loop str sep keepEmpty start tokens =
     (case find_from sep str start of
        Some fin \<Rightarrow>
          Tokenize_loop str sep keepEmpty (fin + 1)
            (if keepEmpty \<or> start < fin then tokens @ [segment start (fin - start) str] else tokens)
      | None \<Rightarrow>
          (if keepEmpty \<or> start < length str then tokens @ [drop start str] else tokens))"
  by pat_completeness auto
termination
  by (relation "measure (\<lambda>(str, sep, k, start, ts). Suc (length str) - start)")
     (auto dest: find_from_bounds)

declare Tokenize_loop.simps [simp del]

definition Tokenize :: "string \<Rightarrow> char \<Rightarrow> bool \<Rightarrow> string list" where
  "Tokenize str sep keepEmpty = Tokenize_loop str sep keepEmpty 0 []"

section \<open>StringConvert.h\<close>

datatype errc = invalid_argument | result_out_of_range

text \<open>The value of a character as a digit of a base.\<close>

definition digit_val :: "nat \<Rightarrow> char \<Rightarrow> nat option" where
  "digit_val base c =
     (let n = (of_char c :: nat);
          d = (if 48 \<le> n \<and> n \<le> 57 then n - 48
               else if 97 \<le> n \<and> n \<le> 122 then n - 87
               else if 65 \<le> n \<and> n \<le> 90 then n - 55
               else 36)
      in if d < base then Some d else None)"

fun span_digits :: "nat \<Rightarrow> string \<Rightarrow> nat list \<times> string" where
  "span_digits base [] = ([], [])"
| "span_digits base (c # cs) =
     (case digit_val base c of
        None \<Rightarrow> ([], c # cs)
      | Some d \<Rightarrow> (case span_digits base cs of (ds, rest) \<Rightarrow> (d # ds, rest)))"

definition digits_val :: "nat \<Rightarrow> nat list \<Rightarrow> nat" where
  "digits_val base ds = foldl (\<lambda>v d. v * base + d) 0 ds"

definition in_int_range :: "bool \<Rightarrow> nat \<Rightarrow> int \<Rightarrow> bool" where
  "in_int_range sg bits v \<longleftrightarrow>
     (if sg then - (2 ^ (bits - 1)) \<le> v \<and> v < 2 ^ (bits - 1) else 0 \<le> v \<and> v < 2 ^ bits)"

text \<open>\<^verbatim>\<open>std::from_chars\<close> for an integral type given by its signedness and width: the
  offset of \<^verbatim>\<open>ptr\<close>, the error code (\<open>None\<close> is \<^verbatim>\<open>std::errc()\<close>) and the value.\<close>

definition from_chars :: "bool \<Rightarrow> nat \<Rightarrow> nat \<Rightarrow> string \<Rightarrow> nat \<times> errc option \<times> int" where
  "from_chars sg bits base str =
     (let neg = (sg \<and> str \<noteq> [] \<and> hd str = CHR ''-'');
          body = (if neg then tl str else str);
          (ds, rest) = span_digits base body;
          v = (if neg then - int (digits_val base ds) else int (digits_val base ds))
      in if ds = [] then (0, Some invalid_argument, 0)
         else if in_int_range sg bits v then (length str - length rest, None, v)
         else (length str - length rest, Some result_out_of_range, 0))"

definition FromString_int :: "bool \<Rightarrow> nat \<Rightarrow> string \<Rightarrow> nat \<Rightarrow> int option" where
  "FromString_int sg bits str0 base0 =
     (let (base, str) =
            (if base0 = 0 then
               (if StringEqualI (take 2 str0) ''0x'' then (16, drop 2 str0)
                else if StringEqualI (take 2 str0) ''0b'' then (2, drop 2 str0)
                else (10, str0))
             else (base0, str0))
      in if base0 = 0 \<and> str = [] then None
         else
           (let (ptr, ec, val) = from_chars sg bits base str
            in if ptr = length str \<and> ec = None then Some val else None))"

text \<open>\<open>ToString\<close> prints into a buffer of 20 characters and asserts that this succeeded;
  \<open>None\<close> is the failed assertion.\<close>

definition ToString_int :: "int \<Rightarrow> string option" where
  "ToString_int val = (let s = dec_int val in if length s \<le> 20 then Some s else None)"

definition FromString_bool :: "string \<Rightarrow> int \<Rightarrow> bool option" where
  "FromString_bool str strict =
     (if strict \<noteq> 0 then
        (if str = ''1'' then Some True else if str = ''0'' then Some False else None)
      else
        (if str = ''1'' \<or> StringEqualI str ''y'' \<or> StringEqualI str ''on'' \<or> StringEqualI str ''yes''
            \<or> StringEqualI str ''true'' then Some True
         else if str = ''0'' \<or> StringEqualI str ''n'' \<or> StringEqualI str ''off'' \<or> StringEqualI str ''no''
            \<or> StringEqualI str ''false'' then Some False
         else None))"

definition ToString_bool :: "bool \<Rightarrow> string" where
  "ToString_bool val = (if val then ''1'' else ''0'')"

section \<open>Facts about trimming\<close>

lemma Trim_first_facts:
  "Trim_first s \<le> length s \<and> (\<forall>c \<in> set (take (Trim_first s) s). isspace c)
    \<and> (Trim_first s < length s \<longrightarrow> \<not> isspace (s ! Trim_first s))"
  by (induction s) auto

lemma Trim_last_facts:
  "i < n \<Longrightarrow> \<not> isspace (s ! i) \<Longrightarrow>
    i \<le> Trim_last s n \<and> Trim_last s n < n \<and> \<not> isspace (s ! Trim_last s n)
      \<and> (\<forall>j. Trim_last s n < j \<and> j < n \<longrightarrow> isspace (s ! j))"
  by (induction n) (auto simp: less_Suc_eq)

lemma TrimRight_loop_take:
  "n \<le> length str \<Longrightarrow> take (TrimRight_loop str n) str = rev (dropWhile isspace (rev (take n str)))"
  by (induction n) (simp_all add: take_Suc_conv_app_nth)

lemma TrimRight_loop_le: "TrimRight_loop str n \<le> n"
  by (induction n) auto

lemma TrimRightInPlace_eq: "TrimRightInPlace str = rev (dropWhile isspace (rev str))"
  using TrimRight_loop_take [of "length str" str] TrimRight_loop_le [of str "length str"]
  by (simp add: TrimRightInPlace_def vec_resize_def)

lemma Trim_segment: "Trim s = (if Trim_first s = length s then []
    else segment (Trim_first s) (Trim_last s (length s) + 1 - Trim_first s) s)"
  by (auto simp: Trim_def Let_def segment_def)

lemma Trim_decomposition:
  "\<exists>ws1 ws2. s = ws1 @ Trim s @ ws2 \<and> (\<forall>c \<in> set (ws1 @ ws2). isspace c)
    \<and> (Trim s \<noteq> [] \<longrightarrow> \<not> isspace (hd (Trim s)) \<and> \<not> isspace (last (Trim s)))"
proof (cases "Trim_first s = length s")
  case True
  then show ?thesis using Trim_first_facts [of s]
    by (intro exI [of _ s] exI [of _ "[]"]) (simp add: Trim_segment)
next
  case False
  define f l where "f = Trim_first s" and "l = Trim_last s (length s)"
  have f: "f < length s" "\<not> isspace (s ! f)" "\<forall>c \<in> set (take f s). isspace c"
    using Trim_first_facts [of s] False by (auto simp: f_def)
  have l: "f \<le> l" "l < length s" "\<not> isspace (s ! l)" "\<And>j. l < j \<Longrightarrow> j < length s \<Longrightarrow> isspace (s ! j)"
    using Trim_last_facts [OF f(1,2)] by (auto simp: l_def)
  have t: "Trim s = segment f (l + 1 - f) s" using False by (simp add: Trim_segment f_def l_def)
  have "drop f s = segment f (l + 1 - f) s @ drop (l + 1 - f) (drop f s)"
    by (simp only: segment_def append_take_drop_id)
  then have "s = take f s @ Trim s @ drop (l + 1) s"
    using l(1) t append_take_drop_id [of f s] by simp
  moreover have "\<forall>c \<in> set (drop (l + 1) s). isspace c"
    using l by (auto simp: in_set_conv_nth)
  moreover have "hd (Trim s) = s ! f" "last (Trim s) = s ! l"
    using l f t by (simp_all add: segment_def hd_drop_conv_nth last_conv_nth)
  ultimately show ?thesis using f l
    by (intro exI [of _ "take f s"] exI [of _ "drop (l + 1) s"]) auto
qed

lemma Trim_dropWhile: "Trim s = rev (dropWhile isspace (rev (dropWhile isspace s)))"
proof -
  obtain ws1 ws2 where s: "s = ws1 @ Trim s @ ws2" and ws: "\<forall>c \<in> set (ws1 @ ws2). isspace c"
    and ends: "Trim s \<noteq> [] \<longrightarrow> \<not> isspace (hd (Trim s)) \<and> \<not> isspace (last (Trim s))"
    using Trim_decomposition by blast
  define t where "t = Trim s"
  have st: "s = ws1 @ t @ ws2" using s by (simp add: t_def)
  show ?thesis
  proof (cases "t = []")
    case True
    then have "dropWhile isspace s = []" using st ws by (auto simp: dropWhile_eq_Nil_conv)
    then show ?thesis using True by (simp only: t_def) simp
  next
    case False
    then have "\<not> isspace (hd t)" "\<not> isspace (last t)" using ends by (simp_all add: t_def)
    with False have d: "dropWhile isspace (t @ xs) = t @ xs" "dropWhile isspace (rev t) = rev t" for xs
      by (cases t, simp_all) (cases t rule: rev_cases, simp_all)
    have "dropWhile isspace (ws1 @ t @ ws2) = t @ ws2" using ws d(1) by (subst dropWhile_append2) auto
    then have "dropWhile isspace s = t @ ws2" by (simp add: st)
    moreover have "dropWhile isspace (rev ws2 @ rev t) = rev t" using ws d(2) by (subst dropWhile_append2) auto
    ultimately show ?thesis by (simp add: t_def)
  qed
qed

lemma Trim_spaced:
  assumes "t \<noteq> []" and "\<not> isspace (hd t)" and "\<not> isspace (last t)"
    and "\<forall>c \<in> set ws1. isspace c" and "\<forall>c \<in> set ws2. isspace c"
  shows "Trim (ws1 @ t @ ws2) = t"
proof -
  have d: "dropWhile isspace (t @ xs) = t @ xs" for xs using assms(1,2) by (cases t) simp_all
  have r: "dropWhile isspace (rev t) = rev t" using assms(1,3) by (cases t rule: rev_cases) simp_all
  have "dropWhile isspace (rev ws2 @ rev t) = rev t" using assms(5) r by (subst dropWhile_append2) auto
  then show ?thesis using assms(4) by (simp add: Trim_dropWhile dropWhile_append2 d)
qed

lemma find_idx_append: "c \<notin> set xs \<Longrightarrow> find_idx c (xs @ c # ys) = Some (length xs)"
  by (induction xs) auto

section \<open>Facts about tokens\<close>

fun split_on :: "'a \<Rightarrow> 'a list \<Rightarrow> 'a list list" where
  "split_on sep [] = [[]]"
| "split_on sep (c # cs) =
     (if c = sep then [] # split_on sep cs
      else (c # hd (split_on sep cs)) # tl (split_on sep cs))"

fun join_with :: "'a \<Rightarrow> 'a list list \<Rightarrow> 'a list" where
  "join_with sep [] = []"
| "join_with sep [t] = t"
| "join_with sep (t # ts) = t @ sep # join_with sep ts"

lemma split_on_not_Nil [simp]: "split_on sep xs \<noteq> []"
  by (cases xs) auto

lemma split_on_no_sep: "sep \<notin> set xs \<Longrightarrow> split_on sep xs = [xs]"
  by (induction xs) auto

lemma split_on_append: "sep \<notin> set xs \<Longrightarrow> split_on sep (xs @ sep # ys) = xs # split_on sep ys"
  by (induction xs) auto

lemma sep_notin_split_on: "t \<in> set (split_on sep xs) \<Longrightarrow> sep \<notin> set t"
proof (induction xs arbitrary: t)
  case Nil
  then show ?case by simp
next
  case (Cons c cs)
  have "hd (split_on sep cs) \<in> set (split_on sep cs)" by simp
  moreover have "set (tl (split_on sep cs)) \<subseteq> set (split_on sep cs)"
    by (cases "split_on sep cs") auto
  ultimately show ?case using Cons by (auto split: if_splits)
qed

lemma join_split_on: "join_with sep (split_on sep xs) = xs"
proof (induction xs)
  case Nil
  then show ?case by simp
next
  case (Cons c cs)
  obtain t ts where r: "split_on sep cs = t # ts" by (cases "split_on sep cs") auto
  show ?case using Cons r by (cases ts) auto
qed

lemma Tokenize_loop_split:
  "start \<le> length str \<Longrightarrow>
    Tokenize_loop str sep k start ts =
      ts @ (if k then split_on sep (drop start str) else filter (\<lambda>t. t \<noteq> []) (split_on sep (drop start str)))"
proof (induction str sep k start ts rule: Tokenize_loop.induct)
  case (1 str sep k start ts)
  show ?case
  proof (cases "find_from sep str start")
    case None
    then have "sep \<notin> set (drop start str)" by (simp add: find_from_def find_idx_None)
    with None show ?thesis
      by (simp add: Tokenize_loop.simps [of str sep k start ts] split_on_no_sep)
  next
    case (Some e)
    then obtain i where i: "find_idx sep (drop start str) = Some i" "e = start + i"
      by (auto simp: find_from_def)
    note f = find_idx_Some [OF i(1)]
    have dec: "drop start str = segment start i str @ sep # drop (e + 1) str"
      using f i(2) id_take_nth_drop [OF f(1)] by (simp add: segment_def add.commute)
    have seg: "segment start (e - start) str = segment start i str" "sep \<notin> set (segment start i str)"
      using f i(2) by (simp_all add: segment_def)
    have nil: "start < e \<longleftrightarrow> segment start i str \<noteq> []" using f(1) i(2) by (auto simp: segment_def)
    have "e + 1 \<le> length str" using f(1) i(2) by simp
    from 1(1) [OF Some this] show ?thesis
      using Some seg nil
      by (simp add: Tokenize_loop.simps [of str sep k start ts] dec split_on_append)
  qed
qed

lemma Tokenize_keepEmpty: "Tokenize str sep True = split_on sep str"
  by (simp add: Tokenize_def Tokenize_loop_split)

lemma Tokenize_skipEmpty: "Tokenize str sep False = filter (\<lambda>t. t \<noteq> []) (split_on sep str)"
  by (simp add: Tokenize_def Tokenize_loop_split)

section \<open>Facts about conversions\<close>

lemma digit_val_digit_char [simp]: "d < 10 \<Longrightarrow> digit_val 10 (digit_char d) = Some d"
  by (simp add: digit_val_def digit_char_def of_char_of)

lemma span_digits_map: "\<forall>d \<in> set ds. d < 10 \<Longrightarrow> span_digits 10 (map digit_char ds) = (ds, [])"
  by (induction ds) auto

lemma dec_nat_digits:
  "\<exists>ds. ds \<noteq> [] \<and> dec_nat n = map digit_char ds \<and> (\<forall>d \<in> set ds. d < 10) \<and> digits_val 10 ds = n"
proof (induction n rule: dec_nat.induct)
  case (1 n)
  show ?case
  proof (cases "n < 10")
    case True
    then show ?thesis
      by (intro exI [of _ "[n]"]) (simp add: dec_nat.simps [of n] digits_val_def)
  next
    case False
    then obtain ds where "ds \<noteq> []" "dec_nat (n div 10) = map digit_char ds" "\<forall>d \<in> set ds. d < 10"
      "digits_val 10 ds = n div 10"
      using 1 by blast
    with False show ?thesis
      by (intro exI [of _ "ds @ [n mod 10]"]) (simp add: dec_nat.simps [of n] digits_val_def)
  qed
qed

lemma dec_nat_chars: "set (dec_nat n) \<subseteq> digit_char ` {..<10}"
proof -
  obtain ds where "dec_nat n = map digit_char ds" "\<forall>d \<in> set ds. d < 10" using dec_nat_digits by blast
  then show ?thesis by auto
qed

lemma dec_int_chars: "c \<in> set (dec_int v) \<Longrightarrow> c = CHR ''-'' \<or> c \<in> digit_char ` {..<10}"
  using dec_nat_chars by (auto simp: dec_int_def split: if_splits)

lemma digit_char_code: "c \<in> digit_char ` {..<10} \<Longrightarrow> 48 \<le> (of_char c :: nat) \<and> (of_char c :: nat) \<le> 57"
  by (auto simp: digit_char_def)

lemma dec_int_nonempty [simp]: "dec_int v \<noteq> []"
  by (simp add: dec_int_def) (metis dec_nat_digits map_is_Nil_conv)

lemma dec_int_not_special:
  assumes "c \<in> set (dec_int v)"
  shows "\<not> isspace c" "c \<noteq> CHR ''#''" "c \<noteq> CHR ''=''" "c \<noteq> CHR 0x22"
proof -
  have "c = CHR ''-'' \<or> 48 \<le> (of_char c :: nat) \<and> (of_char c :: nat) \<le> 57"
    using dec_int_chars [OF assms] digit_char_code by blast
  then show "\<not> isspace c" "c \<noteq> CHR ''#''" "c \<noteq> CHR ''=''" "c \<noteq> CHR 0x22"
    by (auto simp: isspace_def)
qed

lemma length_dec_nat: "n < 10 ^ Suc k \<Longrightarrow> length (dec_nat n) \<le> Suc k"
proof (induction k arbitrary: n)
  case 0
  then show ?case by (simp add: dec_nat.simps)
next
  case (Suc k)
  then have "n div 10 < 10 ^ Suc k" by (simp add: less_mult_imp_div_less mult.commute)
  with Suc.IH [of "n div 10"] show ?case by (subst dec_nat.simps) simp
qed

lemma dec_nat_head: "hd (dec_nat n) \<noteq> CHR ''-''" "dec_nat n \<noteq> []"
proof -
  obtain ds where ds: "ds \<noteq> []" "dec_nat n = map digit_char ds" "\<forall>d \<in> set ds. d < 10"
    using dec_nat_digits by blast
  have "digit_char d \<noteq> CHR ''-''" if "d < 10" for d
    using digit_val_digit_char [OF that] by (auto simp: digit_val_def)
  then show "hd (dec_nat n) \<noteq> CHR ''-''" "dec_nat n \<noteq> []"
    using ds by (auto simp: hd_map)
qed

lemma from_chars_dec_int:
  assumes "in_int_range sg bits v"
  shows "from_chars sg bits 10 (dec_int v) = (length (dec_int v), None, v)"
proof -
  obtain ds where ds: "ds \<noteq> []" "dec_nat (nat \<bar>v\<bar>) = map digit_char ds" "\<forall>d \<in> set ds. d < 10"
    "digits_val 10 ds = nat \<bar>v\<bar>"
    using dec_nat_digits by blast
  have sp: "span_digits 10 (dec_nat (nat \<bar>v\<bar>)) = (ds, [])"
    using ds by (simp add: span_digits_map)
  show ?thesis
  proof (cases "v < 0")
    case True
    then have "sg" using assms by (auto simp: in_int_range_def split: if_splits)
    with True sp ds assms show ?thesis by (simp add: from_chars_def dec_int_def)
  next
    case False
    with sp ds assms dec_nat_head [of "nat v"] show ?thesis by (simp add: from_chars_def dec_int_def)
  qed
qed

lemma length_dec_int:
  assumes "in_int_range sg bits v" and "0 < bits" and "bits \<le> 64"
  shows "length (dec_int v) \<le> 20"
proof -
  have pow: "(2::int) ^ bits \<le> 2 ^ 64" "(2::int) ^ (bits - 1) \<le> 2 ^ 63"
    using assms(3) by (intro power_increasing; simp)+
  show ?thesis
  proof (cases "v < 0")
    case True
    then have "- v \<le> 2 ^ 63" using assms(1) pow by (auto simp: in_int_range_def split: if_splits)
    then have "nat (- v) < 10 ^ Suc 18" by simp
    then show ?thesis using True length_dec_nat [of "nat (- v)" 18] by (simp add: dec_int_def)
  next
    case False
    then have "v < 2 ^ 64" using assms(1) pow by (auto simp: in_int_range_def split: if_splits)
    then have "nat v < 10 ^ Suc 19" using False by simp
    then show ?thesis using False length_dec_nat [of "nat v" 19] by (simp add: dec_int_def)
  qed
qed

section \<open>Properties\<close>

text \<open>\<open>Trim\<close> removes white space only, at the two ends only, and all of it: the
  argument is white space, then the result, then white space, and a result that is not empty
  neither starts nor ends with white space. \<open>TrimRightInPlace\<close> does the same at the right
  end.\<close>

theorem trim_correct:
  "\<exists>ws1 ws2. s = ws1 @ Trim s @ ws2 \<and> list_all isspace (ws1 @ ws2)
    \<and> (Trim s = [] \<or> \<not> isspace (hd (Trim s)) \<and> \<not> isspace (last (Trim s)))
    \<and> TrimRightInPlace s = rev (dropWhile isspace (rev s))"
  using Trim_decomposition [of s] by (auto simp: list_all_iff TrimRightInPlace_eq)

theorem trim_correct_witness:
  "Trim '' a b '' = ''a b'' \<and> (\<exists>ws1 ws2. '' a b '' = ws1 @ Trim '' a b '' @ ws2 \<and> list_all isspace (ws1 @ ws2))"
proof
  show "Trim '' a b '' = ''a b''" by code_simp
  show "\<exists>ws1 ws2. '' a b '' = ws1 @ Trim '' a b '' @ ws2 \<and> list_all isspace (ws1 @ ws2)"
    using trim_correct [of "'' a b ''"] by blast
qed

text \<open>\<open>Tokenize\<close> keeping empty tokens splits the string at every separator: no token
  contains the separator and joining the tokens with it gives the string back. Without empty tokens the
  result is the same list less its empty tokens.\<close>

theorem tokenize_correct:
  "join_with sep (Tokenize str sep True) = str
    \<and> list_all (\<lambda>t. sep \<notin> set t) (Tokenize str sep True)
    \<and> Tokenize str sep False = filter (\<lambda>t. t \<noteq> []) (Tokenize str sep True)"
  by (auto simp: Tokenize_keepEmpty Tokenize_skipEmpty join_split_on list_all_iff dest: sep_notin_split_on)

text \<open>An integer of any type up to 64 bits survives \<open>ToString\<close> and \<open>StringTo\<close>: its
  text fits the 20 characters of the conversion buffer and parses back to it in base 10.\<close>

theorem to_from_string_int:
  assumes "in_int_range sg bits v" and "0 < bits" and "bits \<le> 64"
  shows "\<exists>s. ToString_int v = Some s \<and> FromString_int sg bits s 10 = Some v"
  using length_dec_int [OF assms] from_chars_dec_int [OF assms(1)]
  by (simp add: ToString_int_def FromString_int_def Let_def)

theorem to_from_string_int_witness:
  "\<exists>s. ToString_int (- 32768) = Some s \<and> FromString_int True 16 s 10 = Some (- 32768)"
  by (rule to_from_string_int) (simp_all add: in_int_range_def)

end
