(* ===== verification/Log_Core.thy ===== *)
theory Log_Core
  imports String_Util
begin

text \<open>
  The part of \<^verbatim>\<open>src/src/common/Logging/Log.h\<close> and \<^verbatim>\<open>Log.cpp\<close> that every log
  statement runs through: the lookup of a logger by its dotted name, the level check and the
  macros \<^verbatim>\<open>LOG_INFO\<close> to \<^verbatim>\<open>LOG_CRIT\<close>, with the second formatting of the message by
  \<^verbatim>\<open>fmt::format\<close> without arguments. A log statement is the list of lines it delivers to
  sinks. Loading the loggers from the configuration is in theory \<open>Logging\<close>.
\<close>

section \<open>Levels, sinks and loggers\<close>

text \<open>\<^verbatim>\<open>enum class LogLevel : uint8\<close>; a cast may give it any value of its type.\<close>

type_synonym LogLevel = nat

abbreviation Level_Trace :: LogLevel where "Level_Trace \<equiv> 0"
abbreviation Level_Debug :: LogLevel where "Level_Debug \<equiv> 1"
abbreviation Level_Info :: LogLevel where "Level_Info \<equiv> 2"
abbreviation Level_Warning :: LogLevel where "Level_Warning \<equiv> 3"
abbreviation Level_Error :: LogLevel where "Level_Error \<equiv> 4"
abbreviation Level_Critical :: LogLevel where "Level_Critical \<equiv> 5"
abbreviation Level_Disabled :: LogLevel where "Level_Disabled \<equiv> 6"
abbreviation Level_Max :: LogLevel where "Level_Max \<equiv> 7"

text \<open>A sink with its level and pattern, a file sink also with its path, size, number of files
  and whether it rotates on open.\<close>

datatype Log_sink =
    ConsoleSink (sink_level: LogLevel) (sink_pattern: string)
  | FileSink string nat nat bool (sink_level: LogLevel) (sink_pattern: string)

record spd_logger =
  lg_level :: LogLevel
  lg_sinks :: "Log_sink list"

text \<open>The state of the \<open>Log\<close> singleton and of the registry of loggers. An entry
  \<open>Some None\<close> of the sink list is a shared pointer that was moved away.\<close>

record Log =
  lowestLogLevel :: LogLevel
  m_logsDir :: string
  sinkList :: "string \<rightharpoonup> Log_sink option"
  loggers :: "string \<rightharpoonup> spd_logger"

definition Log_new :: Log where
  "Log_new = \<lparr>lowestLogLevel = Level_Critical, m_logsDir = [], sinkList = Map.empty, loggers = Map.empty\<rparr>"

section \<open>Formatting without arguments\<close>

text \<open>\<^verbatim>\<open>parse_format_string\<close> of the fmt library when there are no arguments: doubled braces
  stand for one, any replacement field and any unmatched brace throws.\<close>

fun fmt_vformat :: "string \<Rightarrow> string option" where
  "fmt_vformat [] = Some []"
| "fmt_vformat (c # cs) =
     (if c = CHR ''{'' \<or> c = CHR ''}'' then
        (case cs of d # ds \<Rightarrow> if d = c then map_option ((#) c) (fmt_vformat ds) else None | [] \<Rightarrow> None)
      else map_option ((#) c) (fmt_vformat cs))"

section \<open>Finding a logger\<close>

definition find_last_of :: "char \<Rightarrow> string \<Rightarrow> nat option" where
  "find_last_of c s = map_option (\<lambda>i. length s - 1 - i) (find_idx c (rev s))"

definition LOGGER_ROOT :: string where
  "LOGGER_ROOT = ''root''"

lemma find_last_of_split:
  assumes "find_last_of c s = Some i"
  shows "i < length s" "s = take i s @ c # drop (Suc i) s" "c \<notin> set (drop (Suc i) s)"
proof -
  obtain j where j: "find_idx c (rev s) = Some j" and i: "i = length s - 1 - j"
    using assms by (auto simp: find_last_of_def)
  note b = find_idx_Some [OF j]
  show "i < length s" using b(1) i by simp
  have "s ! i = c" using b(1,2) i by (simp add: rev_nth)
  then show "s = take i s @ c # drop (Suc i) s" using \<open>i < length s\<close> id_take_nth_drop by blast
  have "Suc (length s - Suc j) = length s - j" using b(1) by simp
  then have "drop (Suc i) s = rev (take j (rev s))" using i by (simp add: take_rev)
  then show "c \<notin> set (drop (Suc i) s)" using b(3) by simp
qed

function GetLoggerByType :: "Log \<Rightarrow> string \<Rightarrow> (string \<times> spd_logger) option" where
  "GetLoggerByType lg type =
     (case loggers lg type of
        Some l \<Rightarrow> Some (type, l)
      | None \<Rightarrow>
          (if type = LOGGER_ROOT then None
           else GetLoggerByType lg
                  (case find_last_of (CHR ''.'') type of None \<Rightarrow> LOGGER_ROOT | Some found \<Rightarrow> take found type)))"
  by pat_completeness auto
termination
  by (relation "measure (\<lambda>(lg, type). if type = LOGGER_ROOT then 0 else Suc (length type))")
     (auto dest: find_last_of_split(1) split: option.splits)

declare GetLoggerByType.simps [simp del]

definition ShouldLog :: "Log \<Rightarrow> string \<Rightarrow> LogLevel \<Rightarrow> bool" where
  "ShouldLog lg type level =
     (if level < lowestLogLevel lg then False
      else case GetLoggerByType lg type of
             None \<Rightarrow> False
           | Some (_, l) \<Rightarrow> lg_level l \<noteq> Level_Disabled \<and> lg_level l \<le> level)"

section \<open>Log statements\<close>

text \<open>A line at a sink. \<open>WrongFormat\<close> is the report of a failed formatting, whose text names
  the source line.\<close>

datatype log_text = Message string | WrongFormat

datatype log_event = Log_line Log_sink LogLevel log_text

text \<open>\<open>Log::Write\<close>; the logger and its sinks apply their own levels.\<close>

definition Log_Write :: "Log \<Rightarrow> string \<Rightarrow> LogLevel \<Rightarrow> log_text \<Rightarrow> log_event list" where
  "Log_Write lg flt level message =
     (case GetLoggerByType lg flt of
        None \<Rightarrow> []
      | Some (_, l) \<Rightarrow>
          (if lg_level l \<le> level
           then map (\<lambda>s. Log_line s level message) (filter (\<lambda>s. sink_level s \<le> level) (lg_sinks l))
           else []))"

text \<open>\<open>outMessage\<close> formats its message once more; \<open>None\<close> is the exception.\<close>

definition outMessage :: "Log \<Rightarrow> string \<Rightarrow> LogLevel \<Rightarrow> string \<Rightarrow> log_event list option" where
  "outMessage lg flt level msg =
     map_option (\<lambda>m. Log_Write lg flt level (Message m)) (fmt_vformat msg)"

text \<open>The argument is the formatted message, \<open>None\<close> when evaluating it throws.\<close>

definition LOG_EXCEPTION_FREE :: "Log \<Rightarrow> string \<Rightarrow> LogLevel \<Rightarrow> string option \<Rightarrow> log_event list" where
  "LOG_EXCEPTION_FREE lg flt level msg =
     (case Option.bind msg (outMessage lg flt level) of
        Some out \<Rightarrow> out
      | None \<Rightarrow> Log_Write lg ''server'' Level_Error WrongFormat)"

definition LOG_MSG_BODY :: "Log \<Rightarrow> string \<Rightarrow> LogLevel \<Rightarrow> string option \<Rightarrow> log_event list" where
  "LOG_MSG_BODY lg flt level msg =
     (if ShouldLog lg flt level then LOG_EXCEPTION_FREE lg flt level msg else [])"

text \<open>\<^verbatim>\<open>FMT_LOG_ERROR\<close>: the text on the console, or the exception of the second
  formatting.\<close>

definition FMT_LOG_ERROR :: "string \<Rightarrow> string option" where
  "FMT_LOG_ERROR msg = fmt_vformat (msg @ [CHR 0x0A])"

section \<open>Names of loggers\<close>

text \<open>The names tried for a type: the type itself, its dotted prefixes from the longest to the
  shortest, and the root logger.\<close>

definition logger_path :: "string \<Rightarrow> string list" where
  "logger_path type =
     (let toks = split_on (CHR ''.'') type
      in map (\<lambda>k. join_with (CHR ''.'') (take k toks)) (rev [1..<Suc (length toks)]) @ [LOGGER_ROOT])"

lemma split_on_snoc: "sep \<notin> set ys \<Longrightarrow> split_on sep (xs @ sep # ys) = split_on sep xs @ [ys]"
  by (induction xs) (simp_all add: split_on_no_sep)

lemma logger_path_dot:
  assumes "find_last_of (CHR ''.'') type = Some i"
  shows "logger_path type = type # logger_path (take i type)"
proof -
  note s = find_last_of_split [OF assms]
  have eq: "split_on (CHR ''.'') type = split_on (CHR ''.'') (take i type) @ [drop (Suc i) type]"
    using split_on_snoc [OF s(3), of "take i type"] s(2) by simp
  have "join_with (CHR ''.'') (split_on (CHR ''.'') type) = type" by (rule join_split_on)
  then show ?thesis by (auto simp: logger_path_def Let_def eq Suc_le_eq)
qed

lemma find_last_of_None: "find_last_of c s = None \<longleftrightarrow> c \<notin> set s"
  by (simp add: find_last_of_def find_idx_None)

lemma logger_path_plain: "find_last_of (CHR ''.'') type = None \<Longrightarrow> logger_path type = [type, LOGGER_ROOT]"
  by (simp add: find_last_of_None logger_path_def split_on_no_sep)

lemma find_logger_path:
  "GetLoggerByType lg type = Option.bind (List.find (\<lambda>n. loggers lg n \<noteq> None) (logger_path type))
     (\<lambda>n. map_option (Pair n) (loggers lg n))"
proof (induction lg type rule: GetLoggerByType.induct)
  case (1 lg type)
  show ?case
  proof (cases "loggers lg type")
    case None
    show ?thesis
    proof (cases "find_last_of (CHR ''.'') type")
      case none: None
      have "GetLoggerByType lg LOGGER_ROOT = map_option (Pair LOGGER_ROOT) (loggers lg LOGGER_ROOT)"
        by (subst GetLoggerByType.simps) (simp split: option.split)
      then show ?thesis using None none
        by (subst GetLoggerByType.simps) (auto simp: logger_path_plain)
    next
      case (Some i)
      then have "type \<noteq> LOGGER_ROOT" by (auto simp: LOGGER_ROOT_def find_last_of_def)
      then show ?thesis using None Some 1
        by (subst GetLoggerByType.simps) (simp add: logger_path_dot)
    qed
  next
    case (Some l)
    have "\<exists>ns. logger_path type = type # ns"
      by (cases "find_last_of (CHR ''.'') type") (auto simp: logger_path_plain logger_path_dot)
    then show ?thesis using Some by (subst GetLoggerByType.simps) auto
  qed
qed

section \<open>Braces in messages\<close>

definition double_braces :: "string \<Rightarrow> string" where
  "double_braces m = concat (map (\<lambda>c. if c = CHR ''{'' \<or> c = CHR ''}'' then [c, c] else [c]) m)"

lemma fmt_vformat_double: "fmt_vformat (double_braces m) = Some m"
  by (induction m) (simp_all add: double_braces_def)

lemma fmt_vformat_length: "fmt_vformat m = Some m' \<Longrightarrow> length m' \<le> length m"
  by (induction m arbitrary: m' rule: fmt_vformat.induct) (force split: if_splits list.splits)+

lemma fmt_vformat_plain:
  "fmt_vformat m = Some m \<longleftrightarrow> CHR ''{'' \<notin> set m \<and> CHR ''}'' \<notin> set m"
proof (induction m)
  case (Cons c cs)
  show ?case
  proof (cases "c = CHR ''{'' \<or> c = CHR ''}''")
    case True
    then have "fmt_vformat (c # cs) \<noteq> Some (c # cs)"
      by (auto split: list.splits dest: fmt_vformat_length)
    then show ?thesis using True by auto
  next
    case False
    then show ?thesis using Cons by auto
  qed
qed simp

lemma fmt_vformat_field:
  "CHR ''{'' \<notin> set a \<Longrightarrow> CHR ''}'' \<notin> set a \<Longrightarrow> fmt_vformat (a @ CHR ''{'' # CHR ''}'' # b) = None"
  by (induction a) auto

section \<open>Properties\<close>

text \<open>C22: The logger used for a message type is the first one registered among the type itself,
  its dotted prefixes from the longest to the shortest and the root logger; without any of them
  there is none. (Stated over the list of names that this gives.)\<close>

theorem get_logger_by_type_longest_prefix:
  "GetLoggerByType lg type =
     (case filter (\<lambda>n. loggers lg n \<noteq> None) (logger_path type) of
        [] \<Rightarrow> None
      | n # _ \<Rightarrow> map_option (Pair n) (loggers lg n))"
proof -
  have "List.find P ns = (case filter P ns of [] \<Rightarrow> None | n # _ \<Rightarrow> Some n)" for P :: "string \<Rightarrow> bool" and ns
    by (induction ns) auto
  then show ?thesis by (simp add: find_logger_path split: list.split)
qed

text \<open>The second formatting changes nothing exactly for messages without braces, and it undoes
  the doubling of braces; but a replacement field in the text (in an argument, such as a value sent
  by a client) makes the statement report a wrong format at the \<open>server\<close> logger instead of the
  message.\<close>

theorem second_formatting:
  assumes "CHR ''{'' \<notin> set a" and "CHR ''}'' \<notin> set a"
  shows "(fmt_vformat m = Some m \<longleftrightarrow> CHR ''{'' \<notin> set m \<and> CHR ''}'' \<notin> set m)
    \<and> fmt_vformat (double_braces m) = Some m
    \<and> LOG_MSG_BODY lg flt level (Some (a @ ''{}'' @ b)) =
        (if ShouldLog lg flt level then Log_Write lg ''server'' Level_Error WrongFormat else [])
    \<and> LOG_MSG_BODY lg flt level (Some a) =
        (if ShouldLog lg flt level then Log_Write lg flt level (Message a) else [])"
proof (intro conjI)
  have "fmt_vformat a = Some a" using assms by (simp add: fmt_vformat_plain)
  then show "LOG_MSG_BODY lg flt level (Some a) =
      (if ShouldLog lg flt level then Log_Write lg flt level (Message a) else [])"
    by (simp add: LOG_MSG_BODY_def LOG_EXCEPTION_FREE_def outMessage_def)
  show "LOG_MSG_BODY lg flt level (Some (a @ ''{}'' @ b)) =
      (if ShouldLog lg flt level then Log_Write lg ''server'' Level_Error WrongFormat else [])"
    using assms by (simp add: fmt_vformat_field LOG_MSG_BODY_def LOG_EXCEPTION_FREE_def outMessage_def)
qed (rule fmt_vformat_plain fmt_vformat_double)+

theorem second_formatting_witness:
  "LOG_EXCEPTION_FREE Log_new ''fix.message'' Level_Info (Some (''SenderCompID = '' @ ''{}'')) = []
    \<and> LOG_MSG_BODY (Log_new\<lparr>lowestLogLevel := 0, loggers := [''root'' \<mapsto> \<lparr>lg_level = 0, lg_sinks = [ConsoleSink 0 ''%v'']\<rparr>]\<rparr>)
          ''fix.message'' Level_Info (Some (''SenderCompID = '' @ ''{}'' @ []))
        = [Log_line (ConsoleSink 0 ''%v'') Level_Error WrongFormat]"
proof -
  let ?lg = "Log_new\<lparr>lowestLogLevel := 0, loggers := [''root'' \<mapsto> \<lparr>lg_level = 0, lg_sinks = [ConsoleSink 0 ''%v'']\<rparr>]\<rparr>"
  have "ShouldLog ?lg ''fix.message'' Level_Info" by code_simp
  moreover have "Log_Write ?lg ''server'' Level_Error WrongFormat = [Log_line (ConsoleSink 0 ''%v'') Level_Error WrongFormat]"
    by code_simp
  moreover have "LOG_EXCEPTION_FREE Log_new ''fix.message'' Level_Info (Some (''SenderCompID = '' @ ''{}'')) = []"
    by code_simp
  ultimately show ?thesis
    using second_formatting [of "''SenderCompID = ''" "[]" ?lg "''fix.message''" Level_Info "[]"] by simp
qed

end
