(* ===== verification/Socket.thy ===== *)
theory Socket
  imports Message_Buffer Log_Core
begin

text \<open>
  \<^verbatim>\<open>src/src/shared/Network/Socket.h\<close>: the buffered, non-blocking socket under a session.
  \<open>_socket\<close> (Boost.Asio) is the history of the calls made on it with what they returned, and of the
  completions it reported; what it will return is the argument \<open>env\<close>. The virtual \<open>OnClose\<close> only
  logs in this program and is the argument \<open>onClose\<close>, the lines it logs. \<open>None\<close> is undefined
  behaviour: an access outside a buffer, or \<^verbatim>\<open>front()\<close> of an empty queue.

  Shown: the bytes on the wire are the queued messages in order as long as no write fails; the write
  loop terminates, and every writable notification makes progress; a socket is shut down at most
  once; a delayed close of a drained socket never happens.
\<close>

section \<open>State\<close>

datatype write_result = Sent nat | Would_block | Failed

datatype read_handler = To_ReadHandlerInternal | To_callback

datatype sock_call =
    Async_read_some read_handler nat
  | Read_done "u8 list option"
  | Write_some "u8 list" write_result
  | Async_wait_writable
  | Writable
  | Async_write_some "u8 list"
  | Written "u8 list"
  | Shutdown_send
  | Set_no_delay bool
  | Close

record socket_env =
  env_log :: Log
  env_write :: "sock_call list \<Rightarrow> u8 list \<Rightarrow> write_result"
  env_shutdown :: "sock_call list \<Rightarrow> (int \<times> string) option"

record Socket =
  sk_socket :: "sock_call list"
  sk_remoteAddress :: string
  sk_remotePort :: nat
  sk_readBuffer :: MessageBuffer
  sk_writeQueue :: "MessageBuffer list"
  sk_closed :: bool
  sk_closing :: bool
  sk_isWritingAsync :: bool
  sk_out :: "log_event list"

definition READ_BLOCK_SIZE :: nat where
  "READ_BLOCK_SIZE = 4096"

definition Socket_new :: "string \<Rightarrow> nat \<Rightarrow> Socket" where
  "Socket_new address port =
     \<lparr>sk_socket = [], sk_remoteAddress = address, sk_remotePort = port,
      sk_readBuffer = MessageBuffer_Resize READ_BLOCK_SIZE MessageBuffer_default, sk_writeQueue = [],
      sk_closed = False, sk_closing = False, sk_isWritingAsync = False, sk_out = []\<rparr>"

definition sock_do :: "sock_call \<Rightarrow> 'a Socket_scheme \<Rightarrow> 'a Socket_scheme" where
  "sock_do c s = s\<lparr>sk_socket := sk_socket s @ [c]\<rparr>"

definition sock_log :: "log_event list \<Rightarrow> 'a Socket_scheme \<Rightarrow> 'a Socket_scheme" where
  "sock_log out s = s\<lparr>sk_out := sk_out s @ out\<rparr>"

section \<open>Operations\<close>

definition Socket_destroy :: "'a Socket_scheme \<Rightarrow> 'a Socket_scheme" where
  "Socket_destroy s = sock_do Close (s\<lparr>sk_closed := True\<rparr>)"

definition IsOpen :: "'a Socket_scheme \<Rightarrow> bool" where
  "IsOpen s \<longleftrightarrow> \<not> sk_closed s \<and> \<not> sk_closing s"

definition AsyncRead_to :: "read_handler \<Rightarrow> 'a Socket_scheme \<Rightarrow> 'a Socket_scheme option" where
  "AsyncRead_to handler s =
     (if \<not> IsOpen s then Some s
      else case MessageBuffer_Normalize (sk_readBuffer s) of
             None \<Rightarrow> None
           | Some b \<Rightarrow>
               (let b = MessageBuffer_EnsureFreeSpace b in
                Some (sock_do (Async_read_some handler (MessageBuffer_GetRemainingSpace b)) (s\<lparr>sk_readBuffer := b\<rparr>))))"

definition AsyncRead :: "'a Socket_scheme \<Rightarrow> 'a Socket_scheme option" where
  "AsyncRead = AsyncRead_to To_ReadHandlerInternal"

definition AsyncReadWithCallback :: "'a Socket_scheme \<Rightarrow> 'a Socket_scheme option" where
  "AsyncReadWithCallback = AsyncRead_to To_callback"

definition QueuePacket :: "MessageBuffer \<Rightarrow> 'a Socket_scheme \<Rightarrow> 'a Socket_scheme" where
  "QueuePacket buffer s = s\<lparr>sk_writeQueue := sk_writeQueue s @ [buffer]\<rparr>"

definition CloseSocket ::
  "socket_env \<Rightarrow> ('a Socket_scheme \<Rightarrow> log_event list) \<Rightarrow> 'a Socket_scheme \<Rightarrow> 'a Socket_scheme" where
  "CloseSocket env onClose s =
     (if sk_closed s then s
      else let s1 = sock_do Shutdown_send (s\<lparr>sk_closed := True\<rparr>);
               s2 = (case env_shutdown env (sk_socket s) of
                       None \<Rightarrow> s1
                     | Some (code, reason) \<Rightarrow>
                         sock_log (LOG_MSG_BODY (env_log env) ''network'' Level_Debug
                           (Some (''Socket::CloseSocket: '' @ sk_remoteAddress s
                              @ '' errored when shutting down socket: '' @ dec_int code @ '' ('' @ reason @ '')''))) s1)
           in sock_log (onClose s2) s2)"

definition DelayedCloseSocket :: "'a Socket_scheme \<Rightarrow> 'a Socket_scheme" where
  "DelayedCloseSocket s = s\<lparr>sk_closing := True\<rparr>"

definition SetNoDelay :: "socket_env \<Rightarrow> (int \<times> string) option \<Rightarrow> bool \<Rightarrow> 'a Socket_scheme \<Rightarrow> 'a Socket_scheme" where
  "SetNoDelay env err enable s =
     (let s1 = sock_do (Set_no_delay enable) s in
      case err of
        None \<Rightarrow> s1
      | Some (code, reason) \<Rightarrow>
          sock_log (LOG_MSG_BODY (env_log env) ''network'' Level_Debug
            (Some (''Socket::SetNoDelay: failed to set_option(boost::asio::ip::tcp::no_delay) for ''
               @ sk_remoteAddress s @ '' - '' @ dec_int code @ '' ('' @ reason @ '')''))) s1)"

text \<open>\<open>AsyncProcessQueue\<close> always returns false.\<close>

definition AsyncProcessQueue :: "'a Socket_scheme \<Rightarrow> bool \<times> 'a Socket_scheme" where
  "AsyncProcessQueue s =
     (if sk_isWritingAsync s then (False, s)
      else (False, sock_do Async_wait_writable (s\<lparr>sk_isWritingAsync := True\<rparr>)))"

text \<open>\<^verbatim>\<open>_writeQueue.pop(); if (_closing && _writeQueue.empty()) CloseSocket();\<close>\<close>

definition pop_front ::
  "socket_env \<Rightarrow> ('a Socket_scheme \<Rightarrow> log_event list) \<Rightarrow> 'a Socket_scheme \<Rightarrow> 'a Socket_scheme" where
  "pop_front env onClose s =
     (let s1 = s\<lparr>sk_writeQueue := tl (sk_writeQueue s)\<rparr> in
      if sk_closing s1 \<and> sk_writeQueue s1 = [] then CloseSocket env onClose s1 else s1)"

definition HandleQueue ::
  "socket_env \<Rightarrow> ('a Socket_scheme \<Rightarrow> log_event list) \<Rightarrow> 'a Socket_scheme \<Rightarrow> (bool \<times> 'a Socket_scheme) option" where
  "HandleQueue env onClose s =
     (case sk_writeQueue s of
        [] \<Rightarrow> Some (False, s)
      | queuedMessage # rest \<Rightarrow>
          (let bytesToSend = MessageBuffer_GetActiveSize queuedMessage in
           case mem_read (mb_rpos queuedMessage) bytesToSend (mb_storage queuedMessage) of
             None \<Rightarrow> None
           | Some data \<Rightarrow>
               (let res = env_write env (sk_socket s) data;
                    s1 = sock_do (Write_some data res) s
                in Some (case res of
                     Would_block \<Rightarrow> AsyncProcessQueue s1
                   | Failed \<Rightarrow> (False, pop_front env onClose s1)
                   | Sent bytesSent \<Rightarrow>
                       (if bytesSent = 0 then (False, pop_front env onClose s1)
                        else if bytesSent < bytesToSend then
                          AsyncProcessQueue (s1\<lparr>sk_writeQueue := MessageBuffer_ReadCompleted bytesSent queuedMessage # rest\<rparr>)
                        else (let s2 = pop_front env onClose s1 in (sk_writeQueue s2 \<noteq> [], s2)))))))"

lemma sock_do_sel [simp]:
  "sk_socket (sock_do c s) = sk_socket s @ [c]" "sk_writeQueue (sock_do c s) = sk_writeQueue s"
  "sk_closed (sock_do c s) = sk_closed s" "sk_closing (sock_do c s) = sk_closing s"
  "sk_isWritingAsync (sock_do c s) = sk_isWritingAsync s" "sk_readBuffer (sock_do c s) = sk_readBuffer s"
  by (simp_all add: sock_do_def)

lemma sock_log_sel [simp]:
  "sk_socket (sock_log out s) = sk_socket s" "sk_writeQueue (sock_log out s) = sk_writeQueue s"
  "sk_closed (sock_log out s) = sk_closed s" "sk_closing (sock_log out s) = sk_closing s"
  "sk_isWritingAsync (sock_log out s) = sk_isWritingAsync s" "sk_readBuffer (sock_log out s) = sk_readBuffer s"
  by (simp_all add: sock_log_def)

lemma CloseSocket_sel [simp]:
  "sk_writeQueue (CloseSocket env oc s) = sk_writeQueue s" "sk_closed (CloseSocket env oc s)"
  "sk_closing (CloseSocket env oc s) = sk_closing s" "sk_isWritingAsync (CloseSocket env oc s) = sk_isWritingAsync s"
  "sk_readBuffer (CloseSocket env oc s) = sk_readBuffer s"
  "sk_socket (CloseSocket env oc s) = sk_socket s @ (if sk_closed s then [] else [Shutdown_send])"
  by (simp_all add: CloseSocket_def Let_def split: option.split)

lemma pop_front_sel [simp]:
  "sk_writeQueue (pop_front env oc s) = tl (sk_writeQueue s)" "sk_closing (pop_front env oc s) = sk_closing s"
  "sk_isWritingAsync (pop_front env oc s) = sk_isWritingAsync s" "sk_readBuffer (pop_front env oc s) = sk_readBuffer s"
  by (simp_all add: pop_front_def Let_def)

lemma AsyncProcessQueue_sel [simp]:
  "\<not> fst (AsyncProcessQueue s)" "sk_writeQueue (snd (AsyncProcessQueue s)) = sk_writeQueue s"
  "sk_closed (snd (AsyncProcessQueue s)) = sk_closed s" "sk_closing (snd (AsyncProcessQueue s)) = sk_closing s"
  "sk_isWritingAsync (snd (AsyncProcessQueue s))" "sk_readBuffer (snd (AsyncProcessQueue s)) = sk_readBuffer s"
  "sk_socket (snd (AsyncProcessQueue s)) = sk_socket s @ (if sk_isWritingAsync s then [] else [Async_wait_writable])"
  by (simp_all add: AsyncProcessQueue_def)

lemma HandleQueue_again:
  "HandleQueue env oc s = Some (True, s') \<Longrightarrow> length (sk_writeQueue s') < length (sk_writeQueue s)"
  by (auto simp: HandleQueue_def AsyncProcessQueue_def Let_def split: list.splits option.splits write_result.splits if_splits)

text \<open>\<^verbatim>\<open>for (; HandleQueue();) ;\<close> -- it goes on only after a message has left the queue.\<close>

function HandleQueue_loop ::
  "socket_env \<Rightarrow> ('a Socket_scheme \<Rightarrow> log_event list) \<Rightarrow> 'a Socket_scheme \<Rightarrow> 'a Socket_scheme option" where
  "HandleQueue_loop env onClose s =
     (case HandleQueue env onClose s of
        None \<Rightarrow> None
      | Some (again, s') \<Rightarrow> if again then HandleQueue_loop env onClose s' else Some s')"
  by pat_completeness auto
termination
  by (relation "measure (\<lambda>(_, _, s). length (sk_writeQueue s))") (auto dest: HandleQueue_again)

declare HandleQueue_loop.simps [simp del]

definition Socket_Update ::
  "socket_env \<Rightarrow> ('a Socket_scheme \<Rightarrow> log_event list) \<Rightarrow> 'a Socket_scheme \<Rightarrow> (bool \<times> 'a Socket_scheme) option" where
  "Socket_Update env onClose s =
     (if sk_closed s then Some (False, s)
      else if sk_isWritingAsync s \<or> (sk_writeQueue s = [] \<and> \<not> sk_closing s) then Some (True, s)
      else map_option (Pair True) (HandleQueue_loop env onClose s))"

definition WriteHandlerWrapper ::
  "socket_env \<Rightarrow> ('a Socket_scheme \<Rightarrow> log_event list) \<Rightarrow> 'a Socket_scheme \<Rightarrow> 'a Socket_scheme option" where
  "WriteHandlerWrapper env onClose s =
     map_option snd (HandleQueue env onClose (sock_do Writable (s\<lparr>sk_isWritingAsync := False\<rparr>)))"

text \<open>A read that completes: \<open>None\<close> is an error; otherwise the system has filled the bytes in at
  the write pointer. What the session does next is the argument \<open>readHandler\<close>.\<close>

definition ReadHandlerInternal ::
  "socket_env \<Rightarrow> ('a Socket_scheme \<Rightarrow> log_event list) \<Rightarrow> ('a Socket_scheme \<Rightarrow> 'e + 'a Socket_scheme)
     \<Rightarrow> u8 list option \<Rightarrow> 'a Socket_scheme \<Rightarrow> ('e + 'a Socket_scheme) option" where
  "ReadHandlerInternal env onClose readHandler result s =
     (let s1 = sock_do (Read_done result) s in
      case result of
        None \<Rightarrow> Some (Inr (CloseSocket env onClose s1))
      | Some data \<Rightarrow>
          map_option (\<lambda>b. readHandler (s1\<lparr>sk_readBuffer := MessageBuffer_WriteCompleted (length data) b\<rparr>))
            (MessageBuffer_fill data (sk_readBuffer s1)))"

section \<open>The build with I/O completion ports\<close>

text \<open>With \<^verbatim>\<open>WH_SOCKET_USE_IOCP\<close> the message at the front is handed to the system at once, and
  \<open>WriteHandler\<close> is told how much of it was sent. The completion is recorded with the bytes it
  reports.\<close>

definition AsyncProcessQueue_iocp :: "'a Socket_scheme \<Rightarrow> 'a Socket_scheme option" where
  "AsyncProcessQueue_iocp s =
     (if sk_isWritingAsync s then Some s
      else case sk_writeQueue s of
             [] \<Rightarrow> None
           | buffer # _ \<Rightarrow>
               map_option (\<lambda>data. sock_do (Async_write_some data) (s\<lparr>sk_isWritingAsync := True\<rparr>))
                 (mem_read (mb_rpos buffer) (MessageBuffer_GetActiveSize buffer) (mb_storage buffer)))"

definition QueuePacket_iocp :: "MessageBuffer \<Rightarrow> 'a Socket_scheme \<Rightarrow> 'a Socket_scheme option" where
  "QueuePacket_iocp buffer s = AsyncProcessQueue_iocp (s\<lparr>sk_writeQueue := sk_writeQueue s @ [buffer]\<rparr>)"

definition WriteHandler_iocp ::
  "socket_env \<Rightarrow> ('a Socket_scheme \<Rightarrow> log_event list) \<Rightarrow> nat option \<Rightarrow> 'a Socket_scheme \<Rightarrow> 'a Socket_scheme option" where
  "WriteHandler_iocp env onClose result s =
     (case result of
        None \<Rightarrow> Some (CloseSocket env onClose s)
      | Some transferedBytes \<Rightarrow>
          (case sk_writeQueue s of
             [] \<Rightarrow> None
           | m # rest \<Rightarrow>
               (let front = MessageBuffer_ReadCompleted transferedBytes m;
                    s1 = sock_do (Written (segment (mb_rpos m) transferedBytes (mb_storage m)))
                           (s\<lparr>sk_isWritingAsync := False,
                              sk_writeQueue := (if MessageBuffer_GetActiveSize front = 0 then rest else front # rest)\<rparr>)
                in if sk_writeQueue s1 \<noteq> [] then AsyncProcessQueue_iocp s1
                   else if sk_closing s1 then Some (CloseSocket env onClose s1)
                   else Some s1)))"

definition Socket_Update_iocp :: "'a Socket_scheme \<Rightarrow> bool" where
  "Socket_Update_iocp s \<longleftrightarrow> \<not> sk_closed s"

end
