(* ===== verification/Socket_Proofs.thy ===== *)
theory Socket_Proofs
  imports Socket
begin

text \<open>
  The socket as a byte stream: the contract \<open>byte_stream\<close>, interpreted on both builds of
  \<^verbatim>\<open>Socket.h\<close>, and the progress of a draining socket. \<open>socket_op\<close> and \<open>iocp_op\<close> are the
  ways the program and the system call into a socket.
\<close>

section \<open>Runs\<close>

inductive runs :: "('op \<Rightarrow> 's \<Rightarrow> bool) \<Rightarrow> ('op \<Rightarrow> 's \<Rightarrow> 's option) \<Rightarrow> 's \<Rightarrow> 'op list \<Rightarrow> 's \<Rightarrow> bool"
  for ok :: "'op \<Rightarrow> 's \<Rightarrow> bool" and step :: "'op \<Rightarrow> 's \<Rightarrow> 's option"
  where
    runs_nil: "runs ok step s [] s"
  | runs_step: "ok op s \<Longrightarrow> step op s = Some s' \<Longrightarrow> runs ok step s' ops s'' \<Longrightarrow> runs ok step s (op # ops) s''"

inductive_simps runs_Nil_iff [simp]: "runs ok step s [] s'"
inductive_simps runs_Cons_iff: "runs ok step s (op # ops) s'"

primrec run_ops :: "('op \<Rightarrow> 's \<Rightarrow> bool) \<Rightarrow> ('op \<Rightarrow> 's \<Rightarrow> 's option) \<Rightarrow> 'op list \<Rightarrow> 's \<Rightarrow> 's option" where
  "run_ops ok step [] s = Some s"
| "run_ops ok step (op # ops) s = (if ok op s then Option.bind (step op s) (run_ops ok step ops) else None)"

lemma run_ops_runs: "run_ops ok step ops s = Some s' \<longleftrightarrow> runs ok step s ops s'"
  by (induction ops arbitrary: s) (auto simp: runs_Cons_iff Option.bind_eq_Some_conv)

text \<open>The contract of a byte stream: no step is undefined, and as long as nothing is lost the bytes
  sent and the bytes pending together are what was queued.\<close>

locale byte_stream =
  fixes inv :: "'s \<Rightarrow> bool" and ok :: "'op \<Rightarrow> 's \<Rightarrow> bool" and step :: "'op \<Rightarrow> 's \<Rightarrow> 's option"
    and sent :: "'s \<Rightarrow> u8 list" and pending :: "'s \<Rightarrow> u8 list" and queued :: "'op \<Rightarrow> u8 list"
    and lossless :: "'s \<Rightarrow> bool"
  assumes step_defined: "inv s \<Longrightarrow> ok op s \<Longrightarrow> \<exists>s'. step op s = Some s'"
    and step_inv: "inv s \<Longrightarrow> ok op s \<Longrightarrow> step op s = Some s' \<Longrightarrow> inv s'"
    and step_lossless: "inv s \<Longrightarrow> ok op s \<Longrightarrow> step op s = Some s' \<Longrightarrow> lossless s' \<Longrightarrow> lossless s"
    and step_bytes: "inv s \<Longrightarrow> ok op s \<Longrightarrow> step op s = Some s' \<Longrightarrow> lossless s' \<Longrightarrow>
      sent s' @ pending s' = sent s @ pending s @ queued op"
begin

lemma runs_inv: "runs ok step s ops s' \<Longrightarrow> inv s \<Longrightarrow> inv s'"
  by (induction rule: runs.induct) (auto dest: step_inv)

lemma runs_lossless: "runs ok step s ops s' \<Longrightarrow> inv s \<Longrightarrow> lossless s' \<Longrightarrow> lossless s"
  by (induction rule: runs.induct) (auto dest: step_lossless step_inv)

lemma runs_bytes:
  "runs ok step s ops s' \<Longrightarrow> inv s \<Longrightarrow> lossless s' \<Longrightarrow>
     sent s' @ pending s' = sent s @ pending s @ concat (map queued ops)"
proof (induction rule: runs.induct)
  case (runs_step op s s' ops s'')
  have inv': "inv s'" using runs_step step_inv by blast
  then have "lossless s'" using runs_step runs_lossless by blast
  then have "sent s' @ pending s' = sent s @ pending s @ queued op" using runs_step step_bytes by blast
  then show ?case using runs_step inv' by (simp add: append_assoc [symmetric] del: append_assoc)
qed simp

end

section \<open>The stream of a socket\<close>

datatype socket_op = Op_queue MessageBuffer | Op_update | Op_writable | Op_close | Op_delayed_close

fun socket_step :: "socket_env \<Rightarrow> ('a Socket_scheme \<Rightarrow> log_event list) \<Rightarrow> socket_op \<Rightarrow> 'a Socket_scheme \<Rightarrow> 'a Socket_scheme option" where
  "socket_step env onClose (Op_queue m) s = Some (QueuePacket m s)"
| "socket_step env onClose Op_update s = map_option snd (Socket_Update env onClose s)"
| "socket_step env onClose Op_writable s = WriteHandlerWrapper env onClose s"
| "socket_step env onClose Op_close s = Some (CloseSocket env onClose s)"
| "socket_step env onClose Op_delayed_close s = Some (DelayedCloseSocket s)"

text \<open>What \<open>write_some\<close> promises: it sends at most what it was given.\<close>

definition kernel_ok :: "socket_env \<Rightarrow> bool" where
  "kernel_ok env \<longleftrightarrow> (\<forall>h d k. env_write env h d = Sent k \<longrightarrow> k \<le> length d)"

text \<open>When an operation can happen: messages are well-formed, and a notification answers a wait.\<close>

fun op_fits :: "socket_op \<Rightarrow> 'a Socket_scheme \<Rightarrow> bool" where
  "op_fits (Op_queue m) s = mb_invar m"
| "op_fits Op_writable s = sk_isWritingAsync s"
| "op_fits _ s = True"

definition op_ok :: "socket_env \<Rightarrow> socket_op \<Rightarrow> 'a Socket_scheme \<Rightarrow> bool" where
  "op_ok env op s \<longleftrightarrow> kernel_ok env \<and> op_fits op s"

fun op_bytes :: "socket_op \<Rightarrow> u8 list" where
  "op_bytes (Op_queue m) = mb_active m"
| "op_bytes _ = []"

fun call_bytes :: "sock_call \<Rightarrow> u8 list" where
  "call_bytes (Write_some d (Sent k)) = take k d"
| "call_bytes (Written d) = d"
| "call_bytes _ = []"

fun call_loses :: "sock_call \<Rightarrow> bool" where
  "call_loses (Write_some d Failed) = (d \<noteq> [])"
| "call_loses (Write_some d (Sent k)) = (k = 0 \<and> d \<noteq> [])"
| "call_loses _ = False"

definition sent_bytes :: "'a Socket_scheme \<Rightarrow> u8 list" where
  "sent_bytes s = concat (map call_bytes (sk_socket s))"

definition pending_bytes :: "'a Socket_scheme \<Rightarrow> u8 list" where
  "pending_bytes s = concat (map mb_active (sk_writeQueue s))"

definition no_loss :: "'a Socket_scheme \<Rightarrow> bool" where
  "no_loss s \<longleftrightarrow> (\<forall>c \<in> set (sk_socket s). \<not> call_loses c)"

definition sock_inv :: "'a Socket_scheme \<Rightarrow> bool" where
  "sock_inv s \<longleftrightarrow> (\<forall>m \<in> set (sk_writeQueue s). mb_invar m)
     \<and> count_list (sk_socket s) Shutdown_send = (if sk_closed s then 1 else 0)
     \<and> count_list (sk_socket s) Async_wait_writable
         = count_list (sk_socket s) Writable + (if sk_isWritingAsync s then 1 else 0)"

lemma mem_read_active:
  assumes "mb_invar m"
  shows "mem_read (mb_rpos m) (MessageBuffer_GetActiveSize m) (mb_storage m) = Some (mb_active m)"
  using mb_invar_bounds [OF assms]
  by (simp add: MessageBuffer_GetActiveSize_def sz_sub_exact mem_read_def mb_active_def)

lemma pop_front_closed: "sk_closed (pop_front env oc s) \<longleftrightarrow> sk_closed s \<or> sk_closing s \<and> tl (sk_writeQueue s) = []"
  by (auto simp: pop_front_def Let_def)

lemma pop_front_calls:
  "sk_socket (pop_front env oc s) = sk_socket s
     @ (if sk_closing s \<and> tl (sk_writeQueue s) = [] \<and> \<not> sk_closed s then [Shutdown_send] else [])"
  by (simp add: pop_front_def Let_def)

lemma tl_member: "x \<in> set (tl xs) \<Longrightarrow> x \<in> set xs"
  by (cases xs) simp_all

lemma pop_front_inv: "sock_inv s \<Longrightarrow> sock_inv (pop_front env oc s)"
  by (auto simp: sock_inv_def pop_front_closed pop_front_calls dest: tl_member)

lemma CloseSocket_inv: "sock_inv s \<Longrightarrow> sock_inv (CloseSocket env oc s)"
  by (auto simp: sock_inv_def)

lemma Write_some_inv: "sock_inv s \<Longrightarrow> sock_inv (sock_do (Write_some d r) s)"
  by (auto simp: sock_inv_def)

lemma AsyncProcessQueue_inv: "sock_inv s \<Longrightarrow> sock_inv (snd (AsyncProcessQueue s))"
  by (auto simp: sock_inv_def)

lemma stream_simps [simp]:
  "sent_bytes (sock_do c s) = sent_bytes s @ call_bytes c" "no_loss (sock_do c s) \<longleftrightarrow> no_loss s \<and> \<not> call_loses c"
  "sent_bytes (pop_front env oc s) = sent_bytes s" "no_loss (pop_front env oc s) = no_loss s"
  "sent_bytes (CloseSocket env oc s) = sent_bytes s" "no_loss (CloseSocket env oc s) = no_loss s"
  "sent_bytes (snd (AsyncProcessQueue s)) = sent_bytes s" "no_loss (snd (AsyncProcessQueue s)) = no_loss s"
  by (auto simp: sent_bytes_def no_loss_def pop_front_calls)

lemma stream_update_simps [simp]:
  "sent_bytes (s\<lparr>sk_writeQueue := q\<rparr>) = sent_bytes s" "no_loss (s\<lparr>sk_writeQueue := q\<rparr>) = no_loss s"
  "sent_bytes (s\<lparr>sk_isWritingAsync := w\<rparr>) = sent_bytes s" "no_loss (s\<lparr>sk_isWritingAsync := w\<rparr>) = no_loss s"
  "sent_bytes (s\<lparr>sk_closing := w\<rparr>) = sent_bytes s" "no_loss (s\<lparr>sk_closing := w\<rparr>) = no_loss s"
  by (simp_all add: sent_bytes_def no_loss_def)

lemma HandleQueue_step:
  assumes k: "kernel_ok env" and inv: "sock_inv s"
  shows "\<exists>again s'. HandleQueue env oc s = Some (again, s') \<and> sock_inv s'
    \<and> (no_loss s' \<longrightarrow> no_loss s \<and> sent_bytes s' @ pending_bytes s' = sent_bytes s @ pending_bytes s)"
proof (cases "sk_writeQueue s")
  case Nil
  then show ?thesis using inv by (auto simp: HandleQueue_def)
next
  case (Cons m q)
  have m: "mb_invar m" "\<forall>m \<in> set q. mb_invar m" using inv Cons by (auto simp: sock_inv_def)
  note act = mem_read_active [OF m(1)] GetActiveSize_eq [OF m(1)]
  define r where "r = env_write env (sk_socket s) (mb_active m)"
  let ?s1 = "sock_do (Write_some (mb_active m) r) s"
  have s1: "sock_inv ?s1" using inv by (rule Write_some_inv)
  have drop: "mb_invar (MessageBuffer_ReadCompleted n m)" "mb_active (MessageBuffer_ReadCompleted n m) = drop n (mb_active m)"
    if "n < length (mb_active m)" for n using ReadCompleted_correct [OF m(1), of n] that act by auto
  show ?thesis
  proof (cases r)
    case (Sent n)
    then have n: "n \<le> length (mb_active m)" using k by (auto simp: kernel_ok_def r_def)
    consider "n = 0" | "0 < n" "n < length (mb_active m)" | "0 < n" "n = length (mb_active m)" using n by linarith
    then show ?thesis
    proof cases
      case 2
      have "sock_inv (?s1\<lparr>sk_writeQueue := MessageBuffer_ReadCompleted n m # q\<rparr>)"
        using s1 m drop 2 by (simp add: sock_inv_def)
      from AsyncProcessQueue_inv [OF this] show ?thesis using 2 Sent Cons act drop
        by (auto simp: HandleQueue_def r_def [symmetric] Let_def pending_bytes_def AsyncProcessQueue_def)
    qed (use s1 Sent Cons act pop_front_inv [OF s1] in
        \<open>auto simp: HandleQueue_def r_def [symmetric] Let_def pending_bytes_def\<close>)
  qed (use s1 Cons act pop_front_inv [OF s1] AsyncProcessQueue_inv [OF s1] in
      \<open>auto simp: HandleQueue_def r_def [symmetric] Let_def pending_bytes_def AsyncProcessQueue_def\<close>)
qed

lemma HandleQueue_loop_step:
  assumes "kernel_ok env" and "sock_inv s"
  shows "\<exists>s'. HandleQueue_loop env oc s = Some s' \<and> sock_inv s'
    \<and> (no_loss s' \<longrightarrow> no_loss s \<and> sent_bytes s' @ pending_bytes s' = sent_bytes s @ pending_bytes s)"
  using assms(2)
proof (induction "length (sk_writeQueue s)" arbitrary: s rule: less_induct)
  case less
  obtain again s1 where one: "HandleQueue env oc s = Some (again, s1)" "sock_inv s1"
      "no_loss s1 \<longrightarrow> no_loss s \<and> sent_bytes s1 @ pending_bytes s1 = sent_bytes s @ pending_bytes s"
    using HandleQueue_step [OF assms(1) less.prems] by blast
  show ?case
  proof (cases again)
    case True
    then have "length (sk_writeQueue s1) < length (sk_writeQueue s)" using one(1) HandleQueue_again [of env oc s s1] by simp
    from less.hyps [OF this one(2)] obtain s' where "HandleQueue_loop env oc s1 = Some s'" "sock_inv s'"
        "no_loss s' \<longrightarrow> no_loss s1 \<and> sent_bytes s' @ pending_bytes s' = sent_bytes s1 @ pending_bytes s1" by blast
    with True one show ?thesis by (subst HandleQueue_loop.simps) auto
  qed (use one in \<open>subst HandleQueue_loop.simps, auto\<close>)
qed

lemma socket_step_correct:
  assumes inv: "sock_inv s" and ok: "op_ok env op s"
  shows "\<exists>s'. socket_step env oc op s = Some s' \<and> sock_inv s'
    \<and> (no_loss s' \<longrightarrow> no_loss s \<and> sent_bytes s' @ pending_bytes s' = sent_bytes s @ pending_bytes s @ op_bytes op)"
proof -
  have k: "kernel_ok env" and ok: "op_fits op s" using ok by (simp_all add: op_ok_def)
  show ?thesis
  proof (cases op)
    case (Op_queue m)
    then show ?thesis using inv ok by (auto simp: QueuePacket_def sock_inv_def pending_bytes_def)
  next
    case Op_update
    then show ?thesis using HandleQueue_loop_step [OF k inv, of oc] inv by (auto simp: Socket_Update_def)
  next
    case Op_writable
    have "sock_inv (sock_do Writable (s\<lparr>sk_isWritingAsync := False\<rparr>))" using inv ok Op_writable by (auto simp: sock_inv_def)
    from HandleQueue_step [OF k this, of oc] Op_writable show ?thesis by (auto simp: WriteHandlerWrapper_def pending_bytes_def)
  next
    case Op_close
    then show ?thesis using CloseSocket_inv [OF inv] by (auto simp: pending_bytes_def)
  next
    case Op_delayed_close
    then show ?thesis using inv by (auto simp: DelayedCloseSocket_def sock_inv_def pending_bytes_def)
  qed
qed

interpretation socket_stream: byte_stream sock_inv "op_ok env" "socket_step env oc" sent_bytes pending_bytes op_bytes no_loss
  for env :: socket_env and oc :: "'a Socket_scheme \<Rightarrow> log_event list"
proof
  fix s :: "'a Socket_scheme" and op s'
  assume "sock_inv s" "op_ok env op s"
  note step = socket_step_correct [OF this, of oc]
  show "\<exists>s'. socket_step env oc op s = Some s'" using step by blast
  assume s': "socket_step env oc op s = Some s'"
  show "sock_inv s'" using step s' by auto
  assume "no_loss s'"
  then show "no_loss s" "sent_bytes s' @ pending_bytes s' = sent_bytes s @ pending_bytes s @ op_bytes op"
    using step s' by auto
qed

lemma Socket_new_inv: "sock_inv (Socket_new a p)" "sent_bytes (Socket_new a p) = []" "pending_bytes (Socket_new a p) = []"
  by (simp_all add: Socket_new_def sock_inv_def sent_bytes_def pending_bytes_def)

section \<open>Progress\<close>

text \<open>A peer that keeps reading: every write takes at least a byte.\<close>

definition eager :: "socket_env \<Rightarrow> bool" where
  "eager env \<longleftrightarrow> (\<forall>h d. \<exists>k \<le> length d. env_write env h d = Sent k \<and> (d \<noteq> [] \<longrightarrow> 0 < k))"

lemma eager_kernel_ok: "eager env \<Longrightarrow> kernel_ok env"
  unfolding eager_def kernel_ok_def by (metis write_result.inject)

text \<open>The next thing that happens to a socket with work to do: the notification it waits for, or the
  next update of its thread.\<close>

definition pump_step :: "socket_env \<Rightarrow> ('a Socket_scheme \<Rightarrow> log_event list) \<Rightarrow> 'a Socket_scheme \<Rightarrow> 'a Socket_scheme option" where
  "pump_step env oc s = (if sk_isWritingAsync s then WriteHandlerWrapper env oc s else map_option snd (Socket_Update env oc s))"

primrec pump :: "nat \<Rightarrow> socket_env \<Rightarrow> ('a Socket_scheme \<Rightarrow> log_event list) \<Rightarrow> 'a Socket_scheme \<Rightarrow> 'a Socket_scheme option" where
  "pump 0 env oc s = Some s"
| "pump (Suc n) env oc s = (case pump_step env oc s of None \<Rightarrow> None | Some s' \<Rightarrow> pump n env oc s')"

text \<open>What holds while a socket drains.\<close>

definition draining :: "bool \<Rightarrow> 'a Socket_scheme \<Rightarrow> bool" where
  "draining closing s \<longleftrightarrow> sock_inv s \<and> no_loss s \<and> (\<forall>m \<in> set (sk_writeQueue s). mb_active m \<noteq> []) \<and> sk_closing s = closing
     \<and> (if sk_writeQueue s = [] then closing \<longrightarrow> sk_closed s else \<not> sk_closed s)"

lemma HandleQueue_progress:
  assumes e: "eager env" and inv: "draining closing s" and q: "sk_writeQueue s \<noteq> []"
  shows "\<exists>again s'. HandleQueue env oc s = Some (again, s') \<and> draining closing s'
    \<and> length (pending_bytes s') < length (pending_bytes s)
    \<and> sent_bytes s' @ pending_bytes s' = sent_bytes s @ pending_bytes s"
proof -
  have si: "sock_inv s" using inv by (simp add: draining_def)
  obtain m q where mq: "sk_writeQueue s = m # q" using q by (cases "sk_writeQueue s") simp_all
  have m: "mb_invar m" "mb_active m \<noteq> []" "\<forall>m \<in> set q. mb_active m \<noteq> []" "no_loss s" "sk_closing s = closing" "\<not> sk_closed s"
    using inv mq by (auto simp: draining_def sock_inv_def)
  obtain k where k: "env_write env (sk_socket s) (mb_active m) = Sent k" "0 < k" "k \<le> length (mb_active m)"
    using e m(2) unfolding eager_def by blast
  obtain again s' where s': "HandleQueue env oc s = Some (again, s')" "sock_inv s'"
      "no_loss s' \<longrightarrow> sent_bytes s' @ pending_bytes s' = sent_bytes s @ pending_bytes s"
    using HandleQueue_step [OF eager_kernel_ok [OF e] si] by blast
  note act = mem_read_active [OF m(1)] GetActiveSize_eq [OF m(1)]
  have drop: "mb_active (MessageBuffer_ReadCompleted k m) = drop k (mb_active m)"
    using ReadCompleted_correct [OF m(1), of k] k act by simp
  have "draining closing s' \<and> length (pending_bytes s') < length (pending_bytes s)"
    using s'(1,2) k m mq act drop
    by (auto simp: HandleQueue_def Let_def draining_def pending_bytes_def AsyncProcessQueue_def pop_front_closed split: if_splits)
  then show ?thesis using s' by (auto simp: draining_def)
qed

lemma HandleQueue_loop_progress:
  assumes e: "eager env" and inv: "draining closing s" and q: "sk_writeQueue s \<noteq> []"
  shows "\<exists>s'. HandleQueue_loop env oc s = Some s' \<and> draining closing s'
    \<and> length (pending_bytes s') < length (pending_bytes s)
    \<and> sent_bytes s' @ pending_bytes s' = sent_bytes s @ pending_bytes s"
  using inv q
proof (induction "length (pending_bytes s)" arbitrary: s rule: less_induct)
  case less
  obtain again s1 where one: "HandleQueue env oc s = Some (again, s1)" "draining closing s1"
      "length (pending_bytes s1) < length (pending_bytes s)"
      "sent_bytes s1 @ pending_bytes s1 = sent_bytes s @ pending_bytes s"
    using HandleQueue_progress [OF e less.prems] by blast
  show ?case
  proof (cases "again \<and> sk_writeQueue s1 \<noteq> []")
    case True
    with less.hyps [OF one(3,2)] obtain s' where "HandleQueue_loop env oc s1 = Some s'" "draining closing s'"
        "length (pending_bytes s') < length (pending_bytes s1)"
        "sent_bytes s' @ pending_bytes s' = sent_bytes s1 @ pending_bytes s1" by blast
    with True one show ?thesis by (subst HandleQueue_loop.simps) auto
  next
    case False
    then have "HandleQueue_loop env oc s = Some s1"
      using one(1) by (subst HandleQueue_loop.simps) (auto simp: HandleQueue_loop.simps [of env oc s1] HandleQueue_def)
    with one show ?thesis by blast
  qed
qed

lemma pump_step_progress:
  assumes e: "eager env" and inv: "draining closing s" and q: "sk_writeQueue s \<noteq> []"
  shows "\<exists>s'. pump_step env oc s = Some s' \<and> draining closing s'
    \<and> length (pending_bytes s') < length (pending_bytes s)
    \<and> sent_bytes s' @ pending_bytes s' = sent_bytes s @ pending_bytes s"
proof (cases "sk_isWritingAsync s")
  case True
  let ?t = "sock_do Writable (s\<lparr>sk_isWritingAsync := False\<rparr>)"
  have "draining closing ?t" "sk_writeQueue ?t \<noteq> []" using inv q True by (auto simp: draining_def sock_inv_def)
  from HandleQueue_progress [OF e this, of oc] True show ?thesis
    by (auto simp: pump_step_def WriteHandlerWrapper_def pending_bytes_def)
next
  case False
  then show ?thesis using HandleQueue_loop_progress [OF e inv q, of oc] inv q
    by (auto simp: pump_step_def Socket_Update_def draining_def)
qed

lemma pump_step_idle:
  assumes "draining closing s" and "sk_writeQueue s = []"
  shows "\<exists>s'. pump_step env oc s = Some s' \<and> draining closing s' \<and> sk_writeQueue s' = [] \<and> sent_bytes s' = sent_bytes s"
  using assms
  by (cases closing) (auto simp: pump_step_def WriteHandlerWrapper_def HandleQueue_def Socket_Update_def draining_def sock_inv_def)

lemma pump_idle:
  "draining closing s \<Longrightarrow> sk_writeQueue s = [] \<Longrightarrow>
     \<exists>s'. pump n env oc s = Some s' \<and> draining closing s' \<and> sk_writeQueue s' = [] \<and> sent_bytes s' = sent_bytes s"
proof (induction n arbitrary: s)
  case (Suc n)
  obtain s1 where "pump_step env oc s = Some s1" "draining closing s1" "sk_writeQueue s1 = []" "sent_bytes s1 = sent_bytes s"
    using pump_step_idle [OF Suc.prems] by blast
  with Suc.IH [OF this(2,3)] show ?case by auto
qed simp

lemma pump_drains:
  assumes e: "eager env"
  shows "draining closing s \<Longrightarrow> length (pending_bytes s) \<le> n \<Longrightarrow>
     \<exists>s'. pump n env oc s = Some s' \<and> draining closing s' \<and> sk_writeQueue s' = [] \<and> sent_bytes s' = sent_bytes s @ pending_bytes s"
proof (induction n arbitrary: s)
  case 0
  then have "sk_writeQueue s = []" by (cases "sk_writeQueue s") (auto simp: pending_bytes_def draining_def)
  then show ?case using 0 by (auto simp: pending_bytes_def)
next
  case (Suc n)
  show ?case
  proof (cases "sk_writeQueue s = []")
    case True
    with pump_idle [OF Suc.prems(1), of "Suc n" env oc] show ?thesis by (simp add: pending_bytes_def)
  next
    case False
    obtain s1 where s1: "pump_step env oc s = Some s1" "draining closing s1" "length (pending_bytes s1) \<le> n"
        "sent_bytes s1 @ pending_bytes s1 = sent_bytes s @ pending_bytes s"
      using pump_step_progress [OF e Suc.prems(1) False, of oc] Suc.prems(2) by auto
    with Suc.IH [OF s1(2,3)] show ?thesis by auto
  qed
qed

section \<open>The stream with completion ports\<close>

datatype iocp_op = Iocp_queue MessageBuffer | Iocp_written "nat option" | Iocp_close | Iocp_delayed_close

fun iocp_step :: "socket_env \<Rightarrow> ('a Socket_scheme \<Rightarrow> log_event list) \<Rightarrow> iocp_op \<Rightarrow> 'a Socket_scheme \<Rightarrow> 'a Socket_scheme option" where
  "iocp_step env onClose (Iocp_queue m) s = QueuePacket_iocp m s"
| "iocp_step env onClose (Iocp_written r) s = WriteHandler_iocp env onClose r s"
| "iocp_step env onClose Iocp_close s = Some (CloseSocket env onClose s)"
| "iocp_step env onClose Iocp_delayed_close s = Some (DelayedCloseSocket s)"

text \<open>A completion answers a write and reports at most the bytes handed over.\<close>

fun iocp_ok :: "iocp_op \<Rightarrow> 'a Socket_scheme \<Rightarrow> bool" where
  "iocp_ok (Iocp_queue m) s = mb_invar m"
| "iocp_ok (Iocp_written r) s = (sk_isWritingAsync s
     \<and> (case r of None \<Rightarrow> True | Some n \<Rightarrow> n \<le> length (mb_active (hd (sk_writeQueue s)))))"
| "iocp_ok _ s = True"

fun iocp_bytes :: "iocp_op \<Rightarrow> u8 list" where
  "iocp_bytes (Iocp_queue m) = mb_active m"
| "iocp_bytes _ = []"

definition iocp_inv :: "'a Socket_scheme \<Rightarrow> bool" where
  "iocp_inv s \<longleftrightarrow> (\<forall>m \<in> set (sk_writeQueue s). mb_invar m) \<and> (sk_isWritingAsync s \<longleftrightarrow> sk_writeQueue s \<noteq> [])"

lemma AsyncProcessQueue_iocp_step:
  assumes "\<forall>m \<in> set (sk_writeQueue s). mb_invar m" and "sk_writeQueue s \<noteq> []"
  obtains s' where "AsyncProcessQueue_iocp s = Some s'" "iocp_inv s'" "sent_bytes s' = sent_bytes s" "pending_bytes s' = pending_bytes s"
proof (cases "sk_isWritingAsync s")
  case True
  then show ?thesis using assms by (intro that [of s]) (auto simp: AsyncProcessQueue_iocp_def iocp_inv_def)
next
  case False
  obtain m q where "sk_writeQueue s = m # q" using assms(2) by (cases "sk_writeQueue s") simp_all
  with False assms show ?thesis
    by (intro that [of "sock_do (Async_write_some (mb_active m)) (s\<lparr>sk_isWritingAsync := True\<rparr>)"])
       (auto simp: AsyncProcessQueue_iocp_def mem_read_active iocp_inv_def pending_bytes_def)
qed

lemma WriteHandler_iocp_step:
  assumes inv: "iocp_inv s" and ok: "iocp_ok (Iocp_written (Some n)) s"
  shows "\<exists>s'. WriteHandler_iocp env oc (Some n) s = Some s' \<and> iocp_inv s'
    \<and> sent_bytes s' @ pending_bytes s' = sent_bytes s @ pending_bytes s"
proof -
  have "sk_writeQueue s \<noteq> []" using inv ok by (simp add: iocp_inv_def)
  then obtain m q where q: "sk_writeQueue s = m # q" by (cases "sk_writeQueue s") simp_all
  have m: "mb_invar m" "\<forall>m \<in> set q. mb_invar m" "n \<le> length (mb_active m)" using inv ok q by (auto simp: iocp_inv_def)
  let ?f = "MessageBuffer_ReadCompleted n m"
  have f: "mb_invar ?f" "mb_active ?f = drop n (mb_active m)"
    using ReadCompleted_correct [OF m(1), of n] m GetActiveSize_eq [OF m(1)] by simp_all
  have w: "segment (mb_rpos m) n (mb_storage m) = take n (mb_active m)"
    using m(3) by (auto simp: mb_active_def segment_def min_def split: if_splits)
  let ?q = "if MessageBuffer_GetActiveSize ?f = 0 then q else ?f # q"
  let ?s = "sock_do (Written (take n (mb_active m))) (s\<lparr>sk_isWritingAsync := False, sk_writeQueue := ?q\<rparr>)"
  have inv': "\<forall>m \<in> set (sk_writeQueue ?s). mb_invar m" using m f by simp
  have bytes: "sent_bytes ?s @ pending_bytes ?s = sent_bytes s @ pending_bytes s"
    using f q GetActiveSize_eq [OF f(1)] by (auto simp: pending_bytes_def)
  show ?thesis
  proof (cases "?q = []")
    case True
    then have "iocp_inv ?s" by (simp add: iocp_inv_def)
    then have "iocp_inv (CloseSocket env oc ?s)" by (simp add: iocp_inv_def)
    with \<open>iocp_inv ?s\<close> True bytes show ?thesis
      unfolding WriteHandler_iocp_def q option.case list.case Let_def w by (simp add: pending_bytes_def)
  next
    case False
    then have "sk_writeQueue ?s \<noteq> []" by simp
    from AsyncProcessQueue_iocp_step [OF inv' this] obtain s' where "AsyncProcessQueue_iocp ?s = Some s'" "iocp_inv s'"
        "sent_bytes s' = sent_bytes ?s" "pending_bytes s' = pending_bytes ?s" .
    with False bytes show ?thesis unfolding WriteHandler_iocp_def q option.case list.case Let_def w by simp
  qed
qed

lemma iocp_step_correct:
  assumes inv: "iocp_inv s" and ok: "iocp_ok op s"
  shows "\<exists>s'. iocp_step env oc op s = Some s' \<and> iocp_inv s'
    \<and> sent_bytes s' @ pending_bytes s' = sent_bytes s @ pending_bytes s @ iocp_bytes op"
proof (cases op)
  case (Iocp_queue m)
  let ?s = "s\<lparr>sk_writeQueue := sk_writeQueue s @ [m]\<rparr>"
  have "\<forall>m \<in> set (sk_writeQueue ?s). mb_invar m" "sk_writeQueue ?s \<noteq> []" using inv ok Iocp_queue by (auto simp: iocp_inv_def)
  from AsyncProcessQueue_iocp_step [OF this] obtain s' where "AsyncProcessQueue_iocp ?s = Some s'" "iocp_inv s'"
      "sent_bytes s' = sent_bytes ?s" "pending_bytes s' = pending_bytes ?s" .
  then show ?thesis using Iocp_queue by (simp add: QueuePacket_iocp_def pending_bytes_def)
next
  case (Iocp_written r)
  show ?thesis
  proof (cases r)
    case None
    then show ?thesis using Iocp_written inv by (simp add: WriteHandler_iocp_def iocp_inv_def pending_bytes_def)
  next
    case (Some n)
    then show ?thesis using WriteHandler_iocp_step [OF inv, of n env oc] ok Iocp_written by simp
  qed
qed (use inv in \<open>auto simp: iocp_inv_def pending_bytes_def DelayedCloseSocket_def\<close>)

interpretation iocp_stream: byte_stream iocp_inv iocp_ok "iocp_step env oc" sent_bytes pending_bytes iocp_bytes "\<lambda>_. True"
  for env :: socket_env and oc :: "'a Socket_scheme \<Rightarrow> log_event list"
proof
  fix s :: "'a Socket_scheme" and op s'
  assume "iocp_inv s" "iocp_ok op s"
  note step = iocp_step_correct [OF this, of env oc]
  show "\<exists>s'. iocp_step env oc op s = Some s'" using step by blast
  assume "iocp_step env oc op s = Some s'"
  then show "iocp_inv s'" "sent_bytes s' @ pending_bytes s' = sent_bytes s @ pending_bytes s @ iocp_bytes op"
    using step by auto
qed

section \<open>Properties\<close>

text \<open>C8: As long as no write fails, the bytes on the wire followed by the bytes still queued are the
  queued messages in the order of \<open>QueuePacket\<close>, whatever the order of updates, notifications and
  closes; no step is undefined; the socket is shut down at most once, and exactly when it is closed;
  there is at most one outstanding wait for writability, and exactly when \<open>_isWritingAsync\<close> is set.\<close>

theorem socket_fifo:
  assumes "runs (op_ok env) (socket_step env oc) (Socket_new address port) ops s"
  shows "(no_loss s \<longrightarrow> sent_bytes s @ pending_bytes s = concat (map op_bytes ops))
    \<and> (\<forall>op. op_ok env op s \<longrightarrow> (\<exists>s'. socket_step env oc op s = Some s'))
    \<and> count_list (sk_socket s) Shutdown_send = (if sk_closed s then 1 else 0)
    \<and> count_list (sk_socket s) Async_wait_writable
        = count_list (sk_socket s) Writable + (if sk_isWritingAsync s then 1 else 0)"
proof -
  have inv: "sock_inv s" using socket_stream.runs_inv [OF assms] Socket_new_inv by blast
  then have "\<forall>op. op_ok env op s \<longrightarrow> (\<exists>s'. socket_step env oc op s = Some s')"
    using socket_stream.step_defined by blast
  with inv show ?thesis using socket_stream.runs_bytes [OF assms] Socket_new_inv by (simp add: sock_inv_def)
qed

text \<open>A peer that takes three bytes at a time, and one whose second write fails.\<close>

definition slow_peer :: socket_env where
  "slow_peer = \<lparr>env_log = Log_new, env_write = \<lambda>h d. Sent (min 3 (length d)), env_shutdown = \<lambda>h. None\<rparr>"

definition failing_peer :: socket_env where
  "failing_peer =
     \<lparr>env_log = Log_new,
      env_write = \<lambda>h d. if Async_wait_writable \<notin> set h then Sent (min 2 (length d))
        else if filter (\<lambda>c. case c of Write_some _ Failed \<Rightarrow> True | _ \<Rightarrow> False) h = [] then Failed else Sent (length d),
      env_shutdown = \<lambda>h. None\<rparr>"

definition queued_packet :: "u8 list \<Rightarrow> MessageBuffer" where
  "queued_packet d = \<lparr>mb_wpos = length d, mb_rpos = 0, mb_storage = d\<rparr>"

lemma slow_peer_ok: "eager slow_peer" "kernel_ok slow_peer"
  by (auto simp: slow_peer_def eager_def kernel_ok_def)

definition fresh_socket :: "MessageBuffer \<Rightarrow> Socket" where
  "fresh_socket b = \<lparr>sk_socket = [], sk_remoteAddress = [], sk_remotePort = 1, sk_readBuffer = b, sk_writeQueue = [],
     sk_closed = False, sk_closing = False, sk_isWritingAsync = False, sk_out = []\<rparr>"

lemma Socket_new_fresh: "Socket_new [] 1 = fresh_socket (sk_readBuffer (Socket_new [] 1))"
  by (simp add: Socket_new_def fresh_socket_def)

definition slow_ops :: "socket_op list" where
  "slow_ops = [Op_queue (queued_packet [1, 2]), Op_queue (queued_packet [3, 4, 5, 6]), Op_update, Op_writable, Op_close, Op_close]"

theorem socket_fifo_witness:
  "\<exists>s. runs (op_ok slow_peer) (socket_step slow_peer (\<lambda>_. [])) (Socket_new [] 1) slow_ops s \<and> no_loss s
     \<and> sent_bytes s @ pending_bytes s = concat (map op_bytes slow_ops) \<and> sent_bytes s = [1, 2, 3, 4, 5, 6]
     \<and> count_list (sk_socket s) Shutdown_send = 1"
proof -
  have "case run_ops op_fits (socket_step slow_peer (\<lambda>_. [])) slow_ops (fresh_socket b) of None \<Rightarrow> False
      | Some s \<Rightarrow> no_loss s \<and> sent_bytes s = [1, 2, 3, 4, 5, 6] \<and> sk_closed s" for b by code_simp
  from this [of "sk_readBuffer (Socket_new [] 1)"] obtain s where s: "run_ops op_fits (socket_step slow_peer (\<lambda>_. [])) slow_ops (Socket_new [] 1) = Some s"
      "no_loss s" "sent_bytes s = [1, 2, 3, 4, 5, 6]" "sk_closed s"
    unfolding Socket_new_fresh [symmetric] by (auto split: option.splits)
  have "op_ok slow_peer = (op_fits :: _ \<Rightarrow> Socket \<Rightarrow> bool)" by (auto simp: op_ok_def slow_peer_ok fun_eq_iff)
  then have run: "runs (op_ok slow_peer) (socket_step slow_peer (\<lambda>_. [])) (Socket_new [] 1) slow_ops s"
    using s(1) by (simp add: run_ops_runs)
  from socket_fifo [OF run] s run show ?thesis by auto
qed

text \<open>C30: With completion ports nothing is ever dropped: the bytes written and the bytes pending are
  the queued messages in order after every run, and no step is undefined.\<close>

theorem iocp_fifo:
  assumes "runs iocp_ok (iocp_step env oc) (Socket_new address port) ops s"
  shows "sent_bytes s @ pending_bytes s = concat (map iocp_bytes ops)
    \<and> (\<forall>op. iocp_ok op s \<longrightarrow> (\<exists>s'. iocp_step env oc op s = Some s'))
    \<and> (sk_isWritingAsync s \<longleftrightarrow> sk_writeQueue s \<noteq> [])"
proof -
  have new: "iocp_inv (Socket_new address port)" by (simp add: Socket_new_def iocp_inv_def)
  have "iocp_inv s" using iocp_stream.runs_inv [OF assms new] .
  moreover from this have "\<forall>op. iocp_ok op s \<longrightarrow> (\<exists>s'. iocp_step env oc op s = Some s')"
    using iocp_stream.step_defined by blast
  ultimately show ?thesis using iocp_stream.runs_bytes [OF assms new] Socket_new_inv by (simp add: iocp_inv_def)
qed

theorem iocp_fifo_witness:
  "\<exists>s. runs iocp_ok (iocp_step slow_peer (\<lambda>_. [])) (Socket_new [] 1)
       [Iocp_queue (queued_packet [1, 2]), Iocp_queue (queued_packet [3]), Iocp_written (Some 1), Iocp_written (Some 1)] s
     \<and> sent_bytes s @ pending_bytes s = [1, 2, 3] \<and> sk_isWritingAsync s"
proof -
  let ?ops = "[Iocp_queue (queued_packet [1, 2]), Iocp_queue (queued_packet [3]), Iocp_written (Some 1), Iocp_written (Some 1)]"
  have "case run_ops iocp_ok (iocp_step slow_peer (\<lambda>_. [])) ?ops (fresh_socket b) of None \<Rightarrow> False
      | Some s \<Rightarrow> sk_isWritingAsync s" for b by code_simp
  from this [of "sk_readBuffer (Socket_new [] 1)"] obtain s where
      s: "run_ops iocp_ok (iocp_step slow_peer (\<lambda>_. [])) ?ops (Socket_new [] 1) = Some s" "sk_isWritingAsync s"
    unfolding Socket_new_fresh [symmetric] by (auto split: option.splits)
  have run: "runs iocp_ok (iocp_step slow_peer (\<lambda>_. [])) (Socket_new [] 1) ?ops s" using s(1) unfolding run_ops_runs .
  have "concat (map iocp_bytes ?ops) = [1, 2, 3]" by code_simp
  with iocp_fifo [OF run] s run show ?thesis by auto
qed

text \<open>C13: A peer that keeps reading gets everything: with writes that take at least one byte each, an
  open socket with non-empty messages has sent its whole queue after at most as many notifications and
  updates as it had bytes pending, and a socket marked for a delayed close is then closed.\<close>

theorem socket_drains:
  assumes "eager env" and "sock_inv s" and "no_loss s" and "\<not> sk_closed s" and "sk_writeQueue s \<noteq> []"
    and "\<forall>m \<in> set (sk_writeQueue s). mb_active m \<noteq> []"
  shows "\<exists>s'. pump (length (pending_bytes s)) env oc s = Some s' \<and> sk_writeQueue s' = []
    \<and> sent_bytes s' = sent_bytes s @ pending_bytes s \<and> (sk_closing s \<longrightarrow> sk_closed s')"
proof -
  have "draining (sk_closing s) s" using assms by (simp add: draining_def)
  from pump_drains [OF assms(1) this order_refl, of oc] show ?thesis by (auto simp: draining_def)
qed

theorem socket_drains_witness:
  "\<exists>s'. pump 6 slow_peer (\<lambda>_. []) (DelayedCloseSocket (QueuePacket (queued_packet [1, 2, 3, 4, 5, 6]) (Socket_new [] 1))) = Some s'
     \<and> sk_writeQueue s' = [] \<and> sent_bytes s' = [1, 2, 3, 4, 5, 6] \<and> sk_closed s'"
proof -
  let ?s = "DelayedCloseSocket (QueuePacket (queued_packet [1, 2, 3, 4, 5, 6]) (Socket_new [] 1))"
  have s: "sock_inv ?s" "no_loss ?s" "\<not> sk_closed ?s" "sk_writeQueue ?s \<noteq> []" "\<forall>m \<in> set (sk_writeQueue ?s). mb_active m \<noteq> []"
      and "sk_closing ?s" "length (pending_bytes ?s) = 6" "sent_bytes ?s @ pending_bytes ?s = [1, 2, 3, 4, 5, 6]"
    by (simp_all add: Socket_new_def DelayedCloseSocket_def QueuePacket_def queued_packet_def sock_inv_def no_loss_def mb_invar_def
        mb_active_def segment_def pending_bytes_def sent_bytes_def size_t_mod_def)
  with socket_drains [OF slow_peer_ok(1) s, of "\<lambda>_. []"] show ?thesis by auto
qed

text \<open>\<open>DelayedCloseSocket\<close> on an open socket whose write queue is already empty has no effect
  but to stop reading: no number of updates closes it.\<close>

theorem delayed_close_idle:
  assumes "\<not> sk_closed s" and "sk_writeQueue s = []" and "\<not> sk_isWritingAsync s"
  shows "\<not> IsOpen (DelayedCloseSocket s) \<and> pump n env oc (DelayedCloseSocket s) = Some (DelayedCloseSocket s)
    \<and> \<not> sk_closed (DelayedCloseSocket s) \<and> AsyncRead (DelayedCloseSocket s) = Some (DelayedCloseSocket s)"
proof -
  let ?s = "DelayedCloseSocket s"
  have "HandleQueue_loop env oc ?s = Some ?s"
    using assms by (subst HandleQueue_loop.simps) (simp add: HandleQueue_def DelayedCloseSocket_def)
  then have "pump_step env oc ?s = Some ?s"
    using assms by (auto simp: pump_step_def Socket_Update_def DelayedCloseSocket_def)
  then have "pump n env oc ?s = Some ?s" by (induction n) simp_all
  then show ?thesis using assms by (simp add: IsOpen_def AsyncRead_def AsyncRead_to_def DelayedCloseSocket_def)
qed

theorem delayed_close_idle_witness:
  "\<not> sk_closed (Socket_new [] 1)
   \<and> pump 100 slow_peer (\<lambda>_. []) (DelayedCloseSocket (Socket_new [] 1)) = Some (DelayedCloseSocket (Socket_new [] 1))
   \<and> \<not> sk_closed (DelayedCloseSocket (Socket_new [] 1))"
proof -
  have "\<not> sk_closed (Socket_new [] 1)" "sk_writeQueue (Socket_new [] 1) = []" "\<not> sk_isWritingAsync (Socket_new [] 1)"
    by (simp_all add: Socket_new_def)
  from delayed_close_idle [OF this] this show ?thesis by blast
qed

lemma failing_run:
  "case run_ops op_fits (socket_step failing_peer (\<lambda>_. []))
     [Op_queue (queued_packet [1, 2, 3, 4]), Op_queue (queued_packet [5]), Op_update, Op_writable, Op_update] (fresh_socket b) of
     Some s \<Rightarrow> sent_bytes s = [1, 2, 5] \<and> pending_bytes s = [] \<and> \<not> sk_closed s \<and> \<not> sk_closing s
   | None \<Rightarrow> False"
  by code_simp

text \<open>A failed write drops the message at the front even when a part of it has been sent: the
  next message follows directly on the part.\<close>

theorem failed_write_splices:
  "case run_ops op_fits (socket_step failing_peer (\<lambda>_. []))
     [Op_queue (queued_packet [1, 2, 3, 4]), Op_queue (queued_packet [5]), Op_update, Op_writable, Op_update] (Socket_new [] 1) of
     Some s \<Rightarrow> sent_bytes s = [1, 2, 5] \<and> pending_bytes s = [] \<and> \<not> sk_closed s \<and> \<not> sk_closing s
   | None \<Rightarrow> False"
  using failing_run [of "sk_readBuffer (Socket_new [] 1)"] unfolding Socket_new_fresh [symmetric] .

end
