(* ===== verification/Hffix_Numbers.thy ===== *)
theory Hffix_Numbers
  imports String_Util
begin

text \<open>
  The conversions of \<^verbatim>\<open>namespace details\<close> of \<^verbatim>\<open>src/deps/hffix/hffix.hpp\<close>, between
  integers, decimal floats, dates and their ASCII text. An \<^verbatim>\<open>Int_type\<close> of \<open>bits\<close> bits is
  an \<open>int\<close> that every operation of the source reduces to its width (two's complement);
  division and remainder truncate as in C++. A writer gets the number of characters between
  \<^verbatim>\<open>buffer\<close> and \<^verbatim>\<open>end\<close> and returns the text written, or \<open>None\<close> when it throws
  \<^verbatim>\<open>std::out_of_range\<close>. Shown: the texts are the decimal numerals, written exactly when they
  fit, and parsing them gives the number back; the same for decimal floats.
\<close>

section \<open>Characters\<close>

definition char_plus :: "char \<Rightarrow> int \<Rightarrow> char" where
  "char_plus c k = char_of (nat ((of_char c + k) mod 256))"

section \<open>Parsing\<close>

definition atoi_step :: "nat \<Rightarrow> int \<Rightarrow> char \<Rightarrow> int" where
  "atoi_step bits val c = int_wrap bits (int_wrap bits (val * 10) + int_wrap bits (schar c - 48))"

definition atoi :: "nat \<Rightarrow> string \<Rightarrow> int" where
  "atoi bits s =
     (let isnegative = (s \<noteq> [] \<and> hd s = CHR ''-'');
          val = foldl (atoi_step bits) 0 (if isnegative then tl s else s)
      in if isnegative then int_wrap bits (- val) else val)"

definition atou :: "nat \<Rightarrow> string \<Rightarrow> nat" where
  "atou bits s = nat (foldl (\<lambda>val c. (val * 10 + (schar c - 48)) mod 2 ^ bits) 0 s)"

text \<open>\<open>atod\<close>: the state of the loop is mantissa, exponent and \<^verbatim>\<open>isdecimal\<close>.\<close>

definition atod_step :: "nat \<Rightarrow> int \<times> int \<times> bool \<Rightarrow> char \<Rightarrow> int \<times> int \<times> bool" where
  "atod_step bits st c =
     (case st of (mantissa, exponent, isdecimal) \<Rightarrow>
        if c = CHR ''.'' then (mantissa, exponent, True)
        else (int_wrap bits (int_wrap bits (mantissa * 10) + (schar c - 48)),
              if isdecimal then int_wrap bits (exponent - 1) else exponent, isdecimal))"

definition atod :: "nat \<Rightarrow> string \<Rightarrow> int \<times> int" where
  "atod bits s =
     (let isnegative = (s \<noteq> [] \<and> hd s = CHR ''-'');
          (mantissa, exponent, _) = foldl (atod_step bits) (0, 0, False) (if isnegative then tl s else s)
      in (if isnegative then int_wrap bits (- mantissa) else mantissa, exponent))"

section \<open>Printing\<close>

text \<open>The digit loop: the characters in the order they are written (reversed) and the room
  left.\<close>

primrec itoa_digits :: "nat \<Rightarrow> int \<Rightarrow> (string \<times> nat) option" where
  "itoa_digits 0 number = None"
| "itoa_digits (Suc room) number =
     (let c = char_plus (CHR ''0'') (crem number 10); number' = cdiv number 10
      in if number' \<noteq> 0 then map_option (\<lambda>(s, r). (c # s, r)) (itoa_digits room number')
         else Some ([c], room))"

definition put_sign :: "bool \<Rightarrow> string \<times> nat \<Rightarrow> string option" where
  "put_sign isnegative sr =
     (case sr of (s, room) \<Rightarrow>
        if isnegative then (if room = 0 then None else Some (rev (s @ ''-''))) else Some (rev s))"

definition itoa :: "nat \<Rightarrow> int \<Rightarrow> nat \<Rightarrow> string option" where
  "itoa bits number room =
     (let isnegative = number < 0;
          number' = (if isnegative then int_wrap bits (- number) else number)
      in Option.bind (itoa_digits room number') (put_sign isnegative))"

definition utoa :: "nat \<Rightarrow> nat \<Rightarrow> string option" where
  "utoa number room = Option.bind (itoa_digits room (int number)) (put_sign False)"

function dtoa_digits :: "nat \<Rightarrow> nat \<Rightarrow> int \<Rightarrow> int \<Rightarrow> (string \<times> nat) option" where
  "dtoa_digits bits room mantissa exponent =
     (if room = 0 then None
      else
        (let c = char_plus (CHR ''0'') (crem mantissa 10);
             mantissa' = cdiv mantissa 10;
             exponent' = int_wrap bits (exponent + 1)
         in if exponent' = 0 \<and> room = 1 then None
            else
              (let s = (if exponent' = 0 then [c, CHR ''.''] else [c]); room' = room - length s
               in if mantissa' > 0 \<or> exponent' < 1
                  then map_option (\<lambda>(t, r). (s @ t, r)) (dtoa_digits bits room' mantissa' exponent')
                  else Some (s, room'))))"
  by pat_completeness auto
termination by (relation "measure (\<lambda>(bits, room, m, e). room)") auto

declare dtoa_digits.simps [simp del]

definition dtoa :: "nat \<Rightarrow> int \<Rightarrow> int \<Rightarrow> nat \<Rightarrow> string option" where
  "dtoa bits mantissa exponent room =
     (let isnegative = mantissa < 0;
          mantissa' = (if isnegative then int_wrap bits (- mantissa) else mantissa)
      in Option.bind (dtoa_digits bits room mantissa' exponent) (put_sign isnegative))"

text \<open>\<open>message_writer::itoa_padded\<close> fills \<open>n\<close> characters from the right.\<close>

primrec itoa_padded :: "int \<Rightarrow> nat \<Rightarrow> string" where
  "itoa_padded x 0 = []"
| "itoa_padded x (Suc n) = itoa_padded (cdiv x 10) n @ [char_plus (CHR ''0'') (crem x 10)]"

section \<open>Printing is decimal notation\<close>

lemma cdiv_nat [simp]: "cdiv (int n) 10 = int (n div 10)"
  by (simp add: cdiv_def zdiv_int)

lemma crem_nat [simp]: "crem (int n) 10 = int (n mod 10)"
  unfolding crem_def cdiv_nat by presburger

lemma char_plus_digit [simp]: "d < 10 \<Longrightarrow> char_plus (CHR ''0'') (int d) = digit_char d"
  by (simp add: char_plus_def digit_char_def nat_add_distrib)

lemma schar_digit [simp]: "d < 10 \<Longrightarrow> schar (digit_char d) = 48 + int d"
proof -
  assume "d < 10"
  moreover have "(of_char (digit_char d) :: int) = int (of_char (digit_char d))" by (simp only: of_nat_of_char)
  ultimately show ?thesis by (simp add: schar_def digit_char_def)
qed

lemma digit_char_not [simp]: "d < 10 \<Longrightarrow> digit_char d \<noteq> CHR ''-''" "d < 10 \<Longrightarrow> digit_char d \<noteq> CHR ''.''"
  by (drule schar_digit, force simp: schar_def)+

lemma itoa_digits_nat:
  "itoa_digits room (int n) =
     (if length (dec_nat n) \<le> room then Some (rev (dec_nat n), room - length (dec_nat n)) else None)"
proof (induction room arbitrary: n)
  case 0
  then show ?case using dec_nat_head(2) [of n] by simp
next
  case (Suc room)
  have ten: "n mod 10 < 10" by simp
  show ?case
  proof (cases "n < 10")
    case True
    then show ?thesis using ten by (simp add: dec_nat.simps [of n] Let_def del: cdiv_nat) (simp add: cdiv_def)
  next
    case False
    then have "int (n div 10) \<noteq> 0" by simp
    then show ?thesis using False ten Suc [of "n div 10"]
      by (simp add: dec_nat.simps [of n] Let_def)
  qed
qed

lemma itoa_dec_int:
  assumes "- (2 ^ (bits - 1)) < k" and "k < 2 ^ (bits - 1)" and "0 < bits"
  shows "itoa bits k room = (if length (dec_int k) \<le> room then Some (dec_int k) else None)"
proof (cases "k < 0")
  case True
  have w: "int_wrap bits (- k) = int (nat (- k))" using assms True by (simp add: int_wrap_id)
  show ?thesis using True itoa_digits_nat [of room "nat (- k)"]
    by (auto simp: itoa_def Let_def w dec_int_def put_sign_def)
next
  case False
  then show ?thesis using itoa_digits_nat [of room "nat k"]
    by (auto simp: itoa_def Let_def dec_int_def put_sign_def)
qed

lemma utoa_dec_nat: "utoa n room = (if length (dec_nat n) \<le> room then Some (dec_nat n) else None)"
  by (simp add: utoa_def itoa_digits_nat put_sign_def)

lemma itoa_padded_nat: "itoa_padded (int n) k = itoa_padded (int (n div 10)) (k - 1) @ [digit_char (n mod 10)]" if "0 < k"
  using that by (cases k) simp_all

lemma length_itoa_padded [simp]: "length (itoa_padded x n) = n"
  by (induction n arbitrary: x) simp_all

section \<open>Parsing what was printed\<close>

lemma atoi_step_digit:
  assumes "d < 10" and "v * 10 + d < 2 ^ (bits - 1)" and "5 \<le> bits"
  shows "atoi_step bits (int v) (digit_char d) = int (v * 10 + d)"
proof -
  have "int (v * 10 + d) < int (2 ^ (bits - 1))" using assms(2) by (simp only: of_nat_less_iff)
  then have b: "int v * 10 + int d < 2 ^ (bits - 1)" by simp
  have "(2::int) ^ 4 \<le> 2 ^ (bits - 1)" using assms(3) by (intro power_increasing) simp_all
  then have "int_wrap bits (int v * 10) = int v * 10" "int_wrap bits (int d) = int d"
    "int_wrap bits (int v * 10 + int d) = int v * 10 + int d"
    using b assms by (intro int_wrap_id; simp)+
  then show ?thesis using assms(1) by (simp add: atoi_step_def)
qed

lemma foldl_atoi_dec_nat:
  "n < 2 ^ (bits - 1) \<Longrightarrow> 5 \<le> bits \<Longrightarrow> foldl (atoi_step bits) 0 (dec_nat n) = int n"
proof (induction n rule: dec_nat.induct)
  case (1 n)
  show ?case
  proof (cases "n < 10")
    case True
    then show ?thesis using 1(2,3) atoi_step_digit [of n 0 bits] by (simp add: dec_nat.simps)
  next
    case False
    have "n div 10 < 2 ^ (bits - 1)" using 1(2) by (meson div_le_dividend le_less_trans)
    then have "foldl (atoi_step bits) 0 (dec_nat (n div 10)) = int (n div 10)" using 1 False by blast
    moreover have "n div 10 * 10 + n mod 10 = n" by simp
    ultimately show ?thesis
      using False 1(2,3) atoi_step_digit [of "n mod 10" "n div 10" bits] by (simp add: dec_nat.simps [of n])
  qed
qed

lemma atoi_dec_int:
  assumes "- (2 ^ (bits - 1)) < k" and "k < 2 ^ (bits - 1)" and "5 \<le> bits"
  shows "atoi bits (dec_int k) = k"
proof (cases "k < 0")
  case True
  have "nat (- k) < 2 ^ (bits - 1)" using assms True by (simp add: nat_less_iff)
  then show ?thesis using True assms foldl_atoi_dec_nat [of "nat (- k)" bits]
    by (simp add: atoi_def dec_int_def int_wrap_id)
next
  case False
  have "nat k < 2 ^ (bits - 1)" using assms False by (simp add: nat_less_iff)
  then show ?thesis using False assms foldl_atoi_dec_nat [of "nat k" bits] dec_nat_head [of "nat k"]
    by (simp add: atoi_def dec_int_def)
qed

section \<open>Decimal floats\<close>

text \<open>The text of \<open>m \<times> 10\<^sup>-\<^sup>k\<close>, from its last character to its first.\<close>

fun dec_rev :: "nat \<Rightarrow> nat \<Rightarrow> string" where
  "dec_rev 0 m = rev (dec_nat m)"
| "dec_rev (Suc k) m = digit_char (m mod 10) # (if k = 0 then ''.'' else []) @ dec_rev k (m div 10)"

lemma dec_rev_not_Nil [simp]: "dec_rev k m \<noteq> []"
  by (cases k) (simp_all add: dec_nat_head)

lemma length_dec_nat_le: "length (dec_nat n) \<le> max 1 n"
proof (induction n rule: dec_nat.induct)
  case (1 n)
  then show ?case by (cases "n < 10") (auto simp: dec_nat.simps [of n])
qed

lemma dtoa_digits_integer:
  assumes "int e + int (length (dec_nat m)) < 2 ^ (bits - 1)" and "0 < bits"
  shows "dtoa_digits bits room (int m) (int e) =
    (if length (dec_nat m) \<le> room then Some (rev (dec_nat m), room - length (dec_nat m)) else None)"
  using assms
proof (induction room arbitrary: e m)
  case 0
  then show ?case using dec_nat_head(2) [of m] by (simp add: dtoa_digits.simps)
next
  case (Suc room)
  have ten: "m mod 10 < 10" by simp
  have "length (dec_nat m) \<ge> 1" using dec_nat_head(2) [of m] by (cases "dec_nat m") simp_all
  then have e: "int_wrap bits (int e + 1) = int (e + 1)"
    using Suc.prems by (subst int_wrap_id) simp_all
  show ?case
  proof (cases "m < 10")
    case True
    then show ?thesis using e ten by (simp add: dtoa_digits.simps [of _ "Suc room"] Let_def dec_nat.simps [of m])
  next
    case False
    have "dtoa_digits bits room (int (m div 10)) (int (e + 1)) =
      (if length (dec_nat (m div 10)) \<le> room
       then Some (rev (dec_nat (m div 10)), room - length (dec_nat (m div 10))) else None)"
      using Suc.prems False by (intro Suc.IH) (simp_all add: dec_nat.simps [of m])
    moreover have "m div 10 \<noteq> 0" using False by simp
    ultimately show ?thesis using e ten False
      by (simp add: dtoa_digits.simps [of _ "Suc room"] Let_def dec_nat.simps [of m])
  qed
qed

lemma dtoa_digits_nat:
  assumes "int k < 2 ^ (bits - 1)" and "int (length (dec_nat m)) < 2 ^ (bits - 1)" and "5 \<le> bits"
  shows "dtoa_digits bits room (int m) (- int k) =
    (if length (dec_rev k m) \<le> room then Some (dec_rev k m, room - length (dec_rev k m)) else None)"
  using assms
proof (induction k arbitrary: room m)
  case 0
  then show ?case using dtoa_digits_integer [of 0 m bits room] by simp
next
  case (Suc k)
  have ten: "m mod 10 < 10" by simp
  have e: "int_wrap bits (- int (Suc k) + 1) = - int k"
  proof -
    have "- int (Suc k) + 1 = - int k" by simp
    moreover have "int_wrap bits (- int k) = - int k"
      by (rule int_wrap_id) (use Suc.prems in linarith)+
    ultimately show ?thesis by simp
  qed
  have len: "length (dec_nat (m div 10)) \<le> length (dec_nat m)"
    by (cases "m < 10") (simp_all add: dec_nat.simps [of m] dec_nat.simps [of 0])
  have IH: "dtoa_digits bits r (int (m div 10)) (- int k) =
    (if length (dec_rev k (m div 10)) \<le> r
     then Some (dec_rev k (m div 10), r - length (dec_rev k (m div 10))) else None)" for r
    by (rule Suc.IH) (use Suc.prems len in linarith)+
  show ?case
  proof (cases "k = 0")
    case True
    then show ?thesis using e ten IH [of "room - Suc (Suc 0)"]
      by (auto simp: dtoa_digits.simps [of _ room] Let_def)
  next
    case False
    then show ?thesis using e ten IH [of "room - 1"]
      by (auto simp: dtoa_digits.simps [of _ room] Let_def)
  qed
qed

definition dec_text :: "int \<Rightarrow> nat \<Rightarrow> string" where
  "dec_text m k = (if m < 0 then CHR ''-'' # rev (dec_rev k (nat (- m))) else rev (dec_rev k (nat m)))"

lemma int_length_dec_nat:
  assumes "int m < 2 ^ (bits - 1)" and "5 \<le> bits"
  shows "int (length (dec_nat m)) < 2 ^ (bits - 1)"
proof -
  have "(2::int) ^ 4 \<le> 2 ^ (bits - 1)" using assms(2) by (intro power_increasing) simp_all
  then have "(1::int) < 2 ^ (bits - 1)" by (simp add: order_less_le_trans)
  then have "int (max 1 m) < 2 ^ (bits - 1)" using assms(1) by (cases "1 \<le> m") simp_all
  moreover have "int (length (dec_nat m)) \<le> int (max 1 m)" using length_dec_nat_le by (simp only: of_nat_le_iff)
  ultimately show ?thesis by linarith
qed

lemma dtoa_dec_text:
  assumes "- (2 ^ (bits - 1)) < m" and "m < 2 ^ (bits - 1)" and "int k < 2 ^ (bits - 1)" and "5 \<le> bits"
  shows "dtoa bits m (- int k) room = (if length (dec_text m k) \<le> room then Some (dec_text m k) else None)"
proof -
  let ?n = "nat \<bar>m\<bar>"
  have w: "(if m < 0 then int_wrap bits (- m) else m) = int ?n"
    using assms by (auto simp: int_wrap_id)
  have "dtoa_digits bits room (int ?n) (- int k) =
    (if length (dec_rev k ?n) \<le> room then Some (dec_rev k ?n, room - length (dec_rev k ?n)) else None)"
    using assms by (intro dtoa_digits_nat int_length_dec_nat) simp_all
  then show ?thesis
    unfolding dtoa_def Let_def w by (auto simp: put_sign_def dec_text_def)
qed

lemma atod_step_digit:
  assumes "d < 10" and "v * 10 + d < 2 ^ (bits - 1)" and "5 \<le> bits"
    and "int k + 1 < 2 ^ (bits - 1)"
  shows "atod_step bits (int v, - int k, p) (digit_char d)
    = (int (v * 10 + d), if p then - int (Suc k) else - int k, p)"
proof -
  have "int (v * 10 + d) < int (2 ^ (bits - 1))" using assms(2) by (simp only: of_nat_less_iff)
  then have b: "int v * 10 + int d < 2 ^ (bits - 1)" by simp
  then have "int_wrap bits (int v * 10) = int v * 10" 
    "int_wrap bits (int v * 10 + int d) = int v * 10 + int d"
    using assms by (intro int_wrap_id; simp)+
  moreover have "int_wrap bits (- int k - 1) = - int k - 1"
    by (rule int_wrap_id) (use assms(3,4) in linarith)+
  ultimately show ?thesis using assms(1) by (simp add: atod_step_def)
qed

lemma foldl_atod_dec_nat:
  assumes "n < 2 ^ (bits - 1)" "5 \<le> bits"
  shows "foldl (atod_step bits) (0, 0, False) (dec_nat n) = (int n, 0, False)"
  using assms
proof (induction n rule: dec_nat.induct)
  case (1 n)
  have one: "int 0 + 1 < 2 ^ (bits - 1)"
  proof -
    have "(2::int) ^ 4 \<le> 2 ^ (bits - 1)" using 1(3) by (intro power_increasing) simp_all
    then show ?thesis by simp
  qed
  show ?case
  proof (cases "n < 10")
    case True
    then show ?thesis using 1(2,3) one atod_step_digit [of n 0 bits 0 False] by (simp add: dec_nat.simps)
  next
    case False
    have "n div 10 < 2 ^ (bits - 1)" using 1(2) by (meson div_le_dividend le_less_trans)
    then have "foldl (atod_step bits) (0, 0, False) (dec_nat (n div 10)) = (int (n div 10), 0, False)"
      using 1 False by blast
    moreover have "n div 10 * 10 + n mod 10 = n" by simp
    ultimately show ?thesis
      using False 1(2,3) one atod_step_digit [of "n mod 10" "n div 10" bits 0 False]
      by (simp add: dec_nat.simps [of n])
  qed
qed

lemma foldl_atod_dec_rev:
  assumes "m < 2 ^ (bits - 1)" "5 \<le> bits" "int k < 2 ^ (bits - 1)"
  shows "foldl (atod_step bits) (0, 0, False) (rev (dec_rev k m)) = (int m, - int k, 0 < k)"
  using assms
proof (induction k arbitrary: m)
  case 0
  then show ?case by (simp add: foldl_atod_dec_nat)
next
  case (Suc k)
  have "m div 10 < 2 ^ (bits - 1)" using Suc.prems(1) by (meson div_le_dividend le_less_trans)
  then have IH: "foldl (atod_step bits) (0, 0, False) (rev (dec_rev k (m div 10))) = (int (m div 10), - int k, 0 < k)"
    by (rule Suc.IH) (use Suc.prems in linarith)+
  have pt: "atod_step bits (v, x, p) (CHR ''.'') = (v, x, True)" for v x p by (simp add: atod_step_def)
  have "m div 10 * 10 + m mod 10 = m" by simp
  then show ?case using IH Suc.prems atod_step_digit [of "m mod 10" "m div 10" bits k True]
    by (cases k) (simp_all add: pt)
qed

lemma dec_rev_last: "last (dec_rev k m) \<noteq> CHR ''-''"
proof (induction k arbitrary: m)
  case 0
  then show ?case using dec_nat_head [of m] by (simp add: last_rev)
next
  case (Suc k)
  then show ?case by simp
qed

lemma atod_dec_text:
  assumes "- (2 ^ (bits - 1)) < m" and "m < 2 ^ (bits - 1)" and "int k < 2 ^ (bits - 1)" and "5 \<le> bits"
  shows "atod bits (dec_text m k) = (m, - int k)"
proof (cases "m < 0")
  case True
  have "nat (- m) < 2 ^ (bits - 1)" using assms True by (simp add: nat_less_iff)
  then show ?thesis using True assms foldl_atod_dec_rev [of "nat (- m)" bits k]
    by (simp add: atod_def dec_text_def int_wrap_id)
next
  case False
  have "nat m < 2 ^ (bits - 1)" using assms False by (simp add: nat_less_iff)
  then show ?thesis using False assms foldl_atod_dec_rev [of "nat m" bits k] dec_rev_last [of k "nat m"]
    by (simp add: atod_def dec_text_def hd_rev)
qed

section \<open>Properties\<close>



end
