(* ===== verification/Hffix_Time.thy ===== *)
theory Hffix_Time
  imports Hffix_Numbers
begin

text \<open>
  Dates and times of \<^verbatim>\<open>src/deps/hffix/hffix.hpp\<close>: \<open>atodate\<close>, \<open>atotime\<close> and their
  nanosecond variants, the conversions between a \<^verbatim>\<open>std::chrono\<close> time point and its calendar
  parts, and the texts of \<open>push_back_date\<close>, \<open>push_back_timeonly\<close> and
  \<open>push_back_timestamp\<close>. \<^verbatim>\<open>unsigned\<close> is arithmetic modulo \<open>2\<^sup>3\<^sup>2\<close>; a time point is its
  count of ticks since the epoch.
\<close>

section \<open>Definitions\<close>

definition uint32 :: "int \<Rightarrow> int" where
  "uint32 k = k mod 2 ^ 32"

definition chunk :: "nat \<Rightarrow> nat \<Rightarrow> string \<Rightarrow> string" where
  "chunk i j s = take (j - i) (drop i s)"

definition atodate :: "string \<Rightarrow> (int \<times> int \<times> int) option" where
  "atodate s =
     (if length s \<noteq> 8 then None
      else Some (atoi 32 (chunk 0 4 s), atoi 32 (chunk 4 6 s), atoi 32 (chunk 6 8 s)))"

definition atotime :: "string \<Rightarrow> (int \<times> int \<times> int \<times> int) option" where
  "atotime s =
     (if length s \<noteq> 8 \<and> length s \<noteq> 12 then None
      else Some (atoi 32 (chunk 0 2 s), atoi 32 (chunk 3 5 s), atoi 32 (chunk 6 8 s),
                 if length s = 12 then atoi 32 (chunk 9 12 s) else 0))"

definition atotime_nano :: "string \<Rightarrow> (int \<times> int \<times> int \<times> int) option" where
  "atotime_nano s =
     (if length s < 8 then None
      else Some (atoi 32 (chunk 0 2 s), atoi 32 (chunk 3 5 s), atoi 32 (chunk 6 8 s),
                 if length s = 12 then int_wrap 32 (atoi 32 (chunk 9 12 s) * 1000000)
                 else if length s = 15 then int_wrap 32 (atoi 32 (chunk 9 15 s) * 1000)
                 else if length s = 18 then atoi 32 (chunk 9 18 s)
                 else 0))"

text \<open>The calendar arithmetic of \<open>atotimepoint\<close>: days since the epoch of a date, an
  \<^verbatim>\<open>unsigned\<close> converted to \<^verbatim>\<open>unsigned long\<close>.\<close>

definition days_from_civil :: "int \<Rightarrow> int \<Rightarrow> int \<Rightarrow> int" where
  "days_from_civil year0 month day =
     (let year = int_wrap 32 (year0 - (if month \<le> 2 then 1 else 0));
          era = uint32 (cdiv (if year \<ge> 0 then year else int_wrap 32 (year - 399)) 400);
          yoe = uint32 (year - era * 400);
          doy = uint32 (cdiv (153 * (month + (if month > 2 then -3 else 9)) + 2) 5 + day - 1);
          doe = uint32 (yoe * 365 + yoe div 4 - yoe div 100 + doy)
      in uint32 (era * 146097 + doe - 719468))"

definition atotimepoint :: "string \<Rightarrow> int option" where
  "atotimepoint s =
     (case atotime (drop 9 s) of
        None \<Rightarrow> None
      | Some (hour, minute, second, millisecond) \<Rightarrow>
          (case atodate (take 8 s) of
             None \<Rightarrow> None
           | Some (year, month, day) \<Rightarrow>
               Some ((days_from_civil year month day * 24 * 3600 + hour * 3600 + minute * 60 + second) * 1000
                     + millisecond)))"

definition atotimepoint_nano :: "string \<Rightarrow> int option" where
  "atotimepoint_nano s =
     (case atotime_nano (drop 9 s) of
        None \<Rightarrow> None
      | Some (hour, minute, second, nanosecond) \<Rightarrow>
          (case atodate (take 8 s) of
             None \<Rightarrow> None
           | Some (year, month, day) \<Rightarrow>
               Some ((days_from_civil year month day * 24 * 3600 + hour * 3600 + minute * 60 + second) * 1000000000
                     + nanosecond)))"

text \<open>The date half of \<open>timepointtoparts\<close>.\<close>

definition civil_from_days :: "int \<Rightarrow> int \<times> int \<times> int" where
  "civil_from_days days0 =
     (let days = days0 + 719468;
          era = uint32 (cdiv (if days \<ge> 0 then days else days - 146096) 146097);
          doe = uint32 (days - uint32 (era * 146097));
          yoe = uint32 (doe - doe div 1460 + doe div 36524 - doe div 146096) div 365;
          year = uint32 (yoe + era * 400);
          doy = uint32 (doe - uint32 (365 * yoe + yoe div 4 - yoe div 100));
          mp = uint32 (5 * doy + 2) div 153;
          day = uint32 (doy - uint32 (153 * mp + 2) div 5 + 1);
          month = int_wrap 32 (uint32 (mp + (if mp < 10 then 3 else -9)))
      in (int_wrap 32 (int_wrap 32 year + (if month \<le> 2 then 1 else 0)), month, int_wrap 32 day))"

text \<open>\<open>timepointtoparts\<close> of a time point with \<open>per_sec\<close> ticks per second.\<close>

definition timepointtoparts :: "int \<Rightarrow> int \<Rightarrow> (int \<times> int \<times> int) \<times> int \<times> int \<times> int \<times> int" where
  "timepointtoparts per_sec tp =
     (let epoch_sec = cdiv tp per_sec;
          day_sec = epoch_sec - crem epoch_sec 86400;
          days_since_epoch = cdiv day_sec 86400;
          in_day = tp - day_sec * per_sec;
          ms0 = int_wrap 32 (cdiv (in_day * 1000) per_sec);
          hour = cdiv ms0 (60 * 60 * 1000);
          ms1 = ms0 - hour * 60 * 60 * 1000;
          minute = cdiv ms1 (60 * 1000);
          ms2 = ms1 - minute * 60 * 1000;
          second = cdiv ms2 1000
      in (civil_from_days days_since_epoch, hour, minute, second, ms2 - second * 1000))"

text \<open>\<open>timepointtoparts_nano\<close>: nanoseconds in a \<^verbatim>\<open>long\<close>, the parts in an \<^verbatim>\<open>int\<close>.\<close>

definition timepointtoparts_nano :: "int \<Rightarrow> int \<Rightarrow> (int \<times> int \<times> int) \<times> int \<times> int \<times> int \<times> int" where
  "timepointtoparts_nano per_sec tp =
     (let epoch_sec = cdiv tp per_sec;
          day_sec = epoch_sec - crem epoch_sec 86400;
          days_since_epoch = cdiv day_sec 86400;
          in_day = tp - day_sec * per_sec;
          ns0 = cdiv (in_day * 1000000000) per_sec;
          hour = int_wrap 32 (cdiv ns0 (60 * 60 * 1000000000));
          ns1 = ns0 - hour * 60 * 60 * 1000000000;
          minute = int_wrap 32 (cdiv ns1 (60 * 1000000000));
          ns2 = ns1 - minute * 60 * 1000000000;
          second = int_wrap 32 (cdiv ns2 1000000000)
      in (civil_from_days days_since_epoch, hour, minute, second, int_wrap 32 (ns2 - second * 1000000000)))"

text \<open>The values written by \<open>push_back_date\<close>, \<open>push_back_monthyear\<close>,
  \<open>push_back_timeonly\<close> and \<open>push_back_timestamp\<close>.\<close>

definition date_text :: "int \<Rightarrow> int \<Rightarrow> int \<Rightarrow> string" where
  "date_text year month day = itoa_padded year 4 @ itoa_padded month 2 @ itoa_padded day 2"

definition monthyear_text :: "int \<Rightarrow> int \<Rightarrow> string" where
  "monthyear_text year month = itoa_padded year 4 @ itoa_padded month 2"

definition time_text :: "int \<Rightarrow> int \<Rightarrow> int \<Rightarrow> string" where
  "time_text hour minute second = itoa_padded hour 2 @ '':'' @ itoa_padded minute 2 @ '':'' @ itoa_padded second 2"

definition time_ms_text :: "int \<Rightarrow> int \<Rightarrow> int \<Rightarrow> int \<Rightarrow> string" where
  "time_ms_text hour minute second ms = time_text hour minute second @ ''.'' @ itoa_padded ms 3"

definition time_ns_text :: "int \<Rightarrow> int \<Rightarrow> int \<Rightarrow> int \<Rightarrow> string" where
  "time_ns_text hour minute second ns = time_text hour minute second @ ''.'' @ itoa_padded ns 9"

definition timestamp_text :: "int \<Rightarrow> int \<Rightarrow> int \<Rightarrow> int \<Rightarrow> int \<Rightarrow> int \<Rightarrow> int \<Rightarrow> string" where
  "timestamp_text year month day hour minute second ms =
     date_text year month day @ ''-'' @ time_ms_text hour minute second ms"

section \<open>The calendar conversions are inverse\<close>

text \<open>\<open>year_start y\<close> is the first day of year \<open>y\<close> of a 400-year era (years start in
  March), \<open>year_scaled\<close> the numerator of the year formula.\<close>

definition year_start :: "int \<Rightarrow> int" where
  "year_start y = 365 * y + y div 4 - y div 100"

definition year_scaled :: "int \<Rightarrow> int" where
  "year_scaled d = d - d div 1460 + d div 36524 - d div 146096"

lemma year_scaled_step: "year_scaled d \<le> year_scaled (d + 1)"
proof -
  have a: "(d + 1) div 1460 \<le> d div 1460 + 1" by linarith
  let ?q = "d div 36524" and ?q' = "(d + 1) div 36524"
  have q: "?q \<le> ?q'" "?q' \<le> ?q + 1" by (simp add: zdiv_mono1) linarith
  have e: "k div 146096 = k div 36524 div 4" for k :: int
    using zdiv_zmult2_eq [of 4 k 36524] by simp
  have "?q' div 4 - ?q div 4 \<le> ?q' - ?q" using q by linarith
  then show ?thesis using a unfolding year_scaled_def e by linarith
qed

lemma year_scaled_mono: "d \<le> d' \<Longrightarrow> year_scaled d \<le> year_scaled d'"
  by (induction d' rule: int_ge_induct) (auto intro: order_trans year_scaled_step)

lemma year_start_nonneg: "0 \<le> y \<Longrightarrow> 0 \<le> year_start y"
proof -
  assume "0 \<le> y"
  then have "y div 100 \<le> y" "0 \<le> y div 4" by simp_all
  then show ?thesis using \<open>0 \<le> y\<close> by (simp add: year_start_def)
qed

lemma year_table:
  "list_all (\<lambda>y. 365 * y \<le> year_scaled (year_start y)
     \<and> year_scaled (year_start (y + 1) - 1) < 365 * (y + 1)) [0..399]"
  by code_simp

lemma year_bounds:
  assumes "0 \<le> y" and "y \<le> 399"
  shows "365 * y \<le> year_scaled (year_start y)" "year_scaled (year_start (y + 1) - 1) < 365 * (y + 1)"
  using year_table assms by (auto simp: list_all_iff)

lemma year_of_day:
  assumes "0 \<le> doe" and "doe \<le> 146096"
  defines "y \<equiv> year_scaled doe div 365"
  shows "0 \<le> y" "y \<le> 399" "year_start y \<le> doe" "doe \<le> year_start y + 365"
proof -
  have "year_scaled 0 \<le> year_scaled doe" using assms(1) by (rule year_scaled_mono)
  then show y0: "0 \<le> y" by (simp add: y_def year_scaled_def)
  have "year_scaled doe \<le> year_scaled 146096" using assms(2) by (rule year_scaled_mono)
  then have "year_scaled doe \<le> 145999" by (simp add: year_scaled_def)
  then show y1: "y \<le> 399" unfolding y_def by linarith
  have y: "365 * y \<le> year_scaled doe" "year_scaled doe < 365 * (y + 1)" 
  proof -
    obtain r where "year_scaled doe = 365 * y + r" "0 \<le> r" "r < 365"
      by (rule that [of "year_scaled doe mod 365"]) (simp_all add: y_def)
    then show "365 * y \<le> year_scaled doe" "year_scaled doe < 365 * (y + 1)" by simp_all
  qed
  show "year_start y \<le> doe"
  proof (rule ccontr)
    assume "\<not> year_start y \<le> doe"
    then have "doe \<le> year_start y - 1" by simp
    moreover have "y \<noteq> 0" using \<open>\<not> year_start y \<le> doe\<close> assms(1) by (auto simp: year_start_def)
    ultimately show False
      using year_bounds(2) [of "y - 1"] year_scaled_mono [of doe "year_start y - 1"] y y0 y1 by simp
  qed
  show "doe \<le> year_start y + 365"
  proof (rule ccontr)
    assume no: "\<not> doe \<le> year_start y + 365"
    have nxt: "year_start (y + 1) \<le> year_start y + 366"
    proof -
      have "y div 100 \<le> (y + 1) div 100" by (simp add: zdiv_mono1)
      moreover have "(y + 1) div 4 \<le> y div 4 + 1" by linarith
      ultimately show ?thesis by (simp add: year_start_def)
    qed
    show False
    proof (cases "y = 399")
      case True
      then show False using no assms(2) by (simp add: year_start_def)
    next
      case False
      then have "365 * (y + 1) \<le> year_scaled (year_start (y + 1))" using y0 y1 by (intro year_bounds) simp_all
      then show False using year_scaled_mono [of "year_start (y + 1)" doe] no nxt y by simp
    qed
  qed
qed

lemma month_table:
  "list_all (\<lambda>doy. let mp = (5 * doy + 2) div 153 in 0 \<le> mp \<and> mp \<le> 11
     \<and> (153 * mp + 2) div 5 \<le> doy \<and> doy \<le> (153 * mp + 2) div 5 + 30) [0..365]"
  by code_simp

lemma month_bounds:
  assumes "0 \<le> (doy :: int)" and "doy \<le> 365"
  defines "mp \<equiv> (5 * doy + 2) div 153"
  shows "0 \<le> mp" "mp \<le> 11" "(153 * mp + 2) div 5 \<le> doy" "doy \<le> (153 * mp + 2) div 5 + 30"
  using month_table assms by (auto simp: list_all_iff Let_def)

lemma uint32_id: "0 \<le> k \<Longrightarrow> k < 2 ^ 32 \<Longrightarrow> uint32 k = k"
  by (simp add: uint32_def)

text \<open>The parts of the day count.\<close>

lemma civil_split:
  assumes "0 \<le> days" and "days \<le> 3000000"
  obtains era doe yoe doy mp where "(days + 719468) div 146097 = era" "yoe = year_scaled doe div 365"
    "days + 719468 = 146097 * era + doe" "0 \<le> era" "era \<le> 30" "0 \<le> doe" "doe \<le> 146096"
    "0 \<le> yoe" "yoe \<le> 399" "doe = year_start yoe + doy" "0 \<le> doy" "doy \<le> 365"
    "mp = (5 * doy + 2) div 153" "0 \<le> mp" "mp \<le> 11" "(153 * mp + 2) div 5 \<le> doy" "doy \<le> (153 * mp + 2) div 5 + 30"
proof -
  define era where "era = (days + 719468) div 146097"
  define doe where "doe = (days + 719468) mod 146097"
  define yoe where "yoe = year_scaled doe div 365"
  define doy where "doy = doe - year_start yoe"
  have d: "days + 719468 = 146097 * era + doe" by (simp add: era_def doe_def)
  have era: "0 \<le> era" "era \<le> 30" using assms unfolding era_def by simp_all
  have doe: "0 \<le> doe" "doe \<le> 146096" unfolding doe_def by simp_all
  note yb = year_of_day [OF doe, folded yoe_def]
  have doy: "0 \<le> doy" "doy \<le> 365" "doe = year_start yoe + doy" using yb by (simp_all add: doy_def)
  show ?thesis
    by (rule that [of era yoe doe doy, OF era_def [symmetric] yoe_def d era doe yb(1,2) doy(3,1,2) refl month_bounds [OF doy(1,2)]])
qed

text \<open>Nothing wraps in it.\<close>

lemma civil_parts:
  assumes "0 \<le> days" and "days \<le> 3000000"
  obtains era doe yoe doy mp where
    "days + 719468 = 146097 * era + doe" "0 \<le> era" "era \<le> 30" "0 \<le> doe" "doe \<le> 146096"
    "0 \<le> yoe" "yoe \<le> 399" "doe = year_start yoe + doy" "0 \<le> doy" "doy \<le> 365"
    "mp = (5 * doy + 2) div 153" "0 \<le> mp" "mp \<le> 11" "(153 * mp + 2) div 5 \<le> doy" "doy \<le> (153 * mp + 2) div 5 + 30"
    "civil_from_days days = (yoe + era * 400 + (if mp < 10 then 0 else 1), (if mp < 10 then mp + 3 else mp - 9),
       doy - (153 * mp + 2) div 5 + 1)"
proof (rule civil_split [OF assms])
  fix era yoe doe doy mp
  assume defs: "(days + 719468) div 146097 = era" "yoe = year_scaled doe div 365"
    and d: "days + 719468 = 146097 * era + doe" and era: "0 \<le> era" "era \<le> 30" and doe: "0 \<le> doe" "doe \<le> 146096"
    and yoe: "0 \<le> yoe" "yoe \<le> 399" and doy_eq: "doe = year_start yoe + doy" and doy: "0 \<le> doy" "doy \<le> 365"
    and mpd: "mp = (5 * doy + 2) div 153" and mp: "0 \<le> mp" "mp \<le> 11"
    and day: "(153 * mp + 2) div 5 \<le> doy" "doy \<le> (153 * mp + 2) div 5 + 30"
  obtain x where x: "x = (153 * mp + 2) div 5" by simp
  have ys: "0 \<le> year_start yoe" "year_start yoe \<le> 146096"
    using year_start_nonneg [OF yoe(1)] doy_eq doe(2) doy(1) by simp_all
  have ysc: "0 \<le> year_scaled doe" "year_scaled doe \<le> 146096"
    using year_scaled_mono [OF doe(1)] year_scaled_mono [OF doe(2)] by (simp_all add: year_scaled_def)
  have u: "uint32 (cdiv (days + 719468) 146097) = era" "uint32 (era * 146097) = era * 146097"
    "uint32 (days + 719468 - era * 146097) = doe"
    "uint32 (doe - doe div 1460 + doe div 36524 - doe div 146096) = year_scaled doe"
    "uint32 (yoe + era * 400) = yoe + era * 400" "uint32 (365 * yoe + yoe div 4 - yoe div 100) = year_start yoe"
    "uint32 (doe - year_start yoe) = doy" "uint32 (5 * doy + 2) = 5 * doy + 2" "uint32 (153 * mp + 2) = 153 * mp + 2"
    "uint32 (doy - x + 1) = doy - x + 1" "uint32 (mp + (if mp < 10 then 3 else - 9)) = (if mp < 10 then mp + 3 else mp - 9)"
    using assms defs(1) era doe yoe ys ysc doy mp day d doy_eq unfolding x [symmetric]
    by (simp_all add: uint32_id cdiv_nonneg year_scaled_def [symmetric] year_start_def [symmetric])
  have w: "int_wrap 32 (if mp < 10 then mp + 3 else mp - 9) = (if mp < 10 then mp + 3 else mp - 9)"
    "int_wrap 32 (yoe + era * 400) = yoe + era * 400"
    "int_wrap 32 (yoe + era * 400 + (if mp < 10 then 0 else 1)) = yoe + era * 400 + (if mp < 10 then 0 else 1)"
    "int_wrap 32 (doy - x + 1) = doy - x + 1"
    using mp yoe era doy day unfolding x [symmetric] by (intro int_wrap_32; simp)+
  have mon: "(if (if mp < 10 then mp + 3 else mp - 9) \<le> 2 then 1 else 0) = (if mp < 10 then 0 else 1 :: int)"
    using mp by simp
  have ge: "(if 0 \<le> days + 719468 then days + 719468 else days + 719468 - 146096) = days + 719468"
    using assms by simp
  have "civil_from_days days = (yoe + era * 400 + (if mp < 10 then 0 else 1), (if mp < 10 then mp + 3 else mp - 9), doy - x + 1)"
    unfolding civil_from_days_def Let_def ge u(1-4) defs(2) [symmetric] u(5-8) mpd [symmetric] u(9) x [symmetric] u(10,11) w(1,2) mon w(3,4) ..
  then show ?thesis
    unfolding x by (intro that [of era doe yoe doy mp] d era doe yoe doy_eq doy mpd mp day) assumption+
qed

lemma days_from_civil_from_days:
  assumes "0 \<le> days" and "days \<le> 3000000"
  shows "(case civil_from_days days of (y, m, d) \<Rightarrow> days_from_civil y m d) = days"
proof (rule civil_parts [OF assms])
  fix era doe yoe doy mp
  assume d: "days + 719468 = 146097 * era + doe" and era: "0 \<le> era" "era \<le> 30" and doe: "0 \<le> doe" "doe \<le> 146096"
    and yoe: "0 \<le> yoe" "yoe \<le> 399" and doy_eq: "doe = year_start yoe + doy" and doy: "0 \<le> doy" "doy \<le> 365"
    and mp: "0 \<le> mp" "mp \<le> 11"
    and c: "civil_from_days days = (yoe + era * 400 + (if mp < 10 then 0 else 1), (if mp < 10 then mp + 3 else mp - 9),
       doy - (153 * mp + 2) div 5 + 1)"
  let ?m = "if mp < 10 then mp + 3 else mp - 9"
  let ?Y = "yoe + era * 400"
  have year: "int_wrap 32 (?Y + (if mp < 10 then 0 else 1) - (if ?m \<le> 2 then 1 else 0)) = ?Y"
    using mp yoe era by (subst int_wrap_32) auto
  have mback: "?m + (if ?m > 2 then -3 else 9) = mp" using mp by auto
  have 1: "uint32 (cdiv ?Y 400) = era" using yoe era by (simp add: cdiv_nonneg uint32_id)
  have 2: "uint32 (?Y - era * 400) = yoe" using yoe by (simp add: uint32_id)
  have 3: "uint32 (cdiv (153 * mp + 2) 5 + (doy - (153 * mp + 2) div 5 + 1) - 1) = doy"
    using mp doy by (simp add: cdiv_nonneg uint32_id)
  have 4: "uint32 (yoe * 365 + yoe div 4 - yoe div 100 + doy) = doe"
    using doe doy_eq by (simp add: year_start_def mult.commute uint32_id)
  have 5: "uint32 (era * 146097 + doe - 719468) = days" using d assms by (simp add: uint32_id mult.commute)
  have ge: "(if 0 \<le> ?Y then ?Y else int_wrap 32 (?Y - 399)) = ?Y" using yoe era by simp
  show ?thesis
    unfolding c prod.case days_from_civil_def Let_def year ge mback 1 2 3 4 5 ..
qed

section \<open>Texts of dates and times\<close>

lemma foldl_atoi_padded:
  "n < 10 ^ k \<Longrightarrow> k \<le> 9 \<Longrightarrow> foldl (atoi_step 32) 0 (itoa_padded (int n) k) = int n"
proof (induction k arbitrary: n)
  case 0
  then show ?case by simp
next
  case (Suc k)
  have "(10::nat) ^ Suc k \<le> 10 ^ 9" using Suc.prems(2) by (intro power_increasing) simp_all
  then have n: "n < 2 ^ (32 - 1)" using Suc.prems(1) by simp
  have "n div 10 < 10 ^ k" using Suc.prems(1) by (simp add: less_mult_imp_div_less mult.commute)
  then have "foldl (atoi_step 32) 0 (itoa_padded (int (n div 10)) k) = int (n div 10)" using Suc by simp
  then show ?case using n atoi_step_digit [of "n mod 10" "n div 10" 32] by simp
qed

lemma itoa_padded_head: "0 < k \<Longrightarrow> hd (itoa_padded (int n) k) \<noteq> CHR ''-''"
proof (induction k arbitrary: n)
  case 0
  then show ?case by simp
next
  case (Suc k)
  show ?case
  proof (cases "k = 0")
    case True
    then show ?thesis by simp
  next
    case False
    then have "itoa_padded (int (n div 10)) k \<noteq> []" using length_itoa_padded [of "int (n div 10)" k] by fastforce
    then show ?thesis using False Suc.IH [of "n div 10"] by simp
  qed
qed

lemma atoi_padded:
  assumes "0 \<le> v" and "v < 10 ^ k" and "0 < k" and "k \<le> 9"
  shows "atoi 32 (itoa_padded v k) = v"
proof -
  obtain n where n: "v = int n" using assms(1) nonneg_int_cases by blast
  have "n < 10 ^ k" using assms(2) unfolding n by (simp flip: of_nat_less_iff)
  then show ?thesis using assms(3,4) itoa_padded_head [of k n] foldl_atoi_padded [of n k]
    unfolding n atoi_def Let_def by simp
qed

lemma atodate_text:
  assumes "0 \<le> y" "y \<le> 9999" "0 \<le> m" "m \<le> 99" "0 \<le> d" "d \<le> 99"
  shows "atodate (date_text y m d) = Some (y, m, d)"
  using assms by (simp add: atodate_def date_text_def chunk_def atoi_padded)

lemma atotime_text:
  assumes "0 \<le> h" "h \<le> 99" "0 \<le> mi" "mi \<le> 99" "0 \<le> s" "s \<le> 99" "0 \<le> ms" "ms \<le> 999"
  shows "atotime (time_ms_text h mi s ms) = Some (h, mi, s, ms)"
  using assms by (simp add: atotime_def time_ms_text_def time_text_def chunk_def atoi_padded)

lemma timestamp_parts:
  assumes "0 \<le> y" "y \<le> 9999" "0 \<le> m" "m \<le> 99" "0 \<le> d" "d \<le> 99"
    "0 \<le> h" "h \<le> 99" "0 \<le> mi" "mi \<le> 99" "0 \<le> s" "s \<le> 99" "0 \<le> ms" "ms \<le> 999"
  shows "atotimepoint (timestamp_text y m d h mi s ms)
    = Some ((days_from_civil y m d * 24 * 3600 + h * 3600 + mi * 60 + s) * 1000 + ms)"
proof -
  have l: "length (date_text y m d) = 8" by (simp add: date_text_def)
  have "drop 9 (timestamp_text y m d h mi s ms) = time_ms_text h mi s ms"
    "take 8 (timestamp_text y m d h mi s ms) = date_text y m d"
    by (simp_all add: timestamp_text_def l)
  then show ?thesis using assms atodate_text [of y m d] atotime_text [of h mi s ms] by (simp add: atotimepoint_def)
qed

lemma civil_bounds:
  assumes "0 \<le> days" and "days \<le> 2932896"
  shows "(case civil_from_days days of (y, m, d) \<Rightarrow> 0 \<le> y \<and> y \<le> 9999 \<and> 1 \<le> m \<and> m \<le> 12 \<and> 1 \<le> d \<and> d \<le> 31)"
proof -
  have "days \<le> 3000000" using assms(2) by simp
  then show ?thesis
  proof (rule civil_parts [OF assms(1)])
    fix era doe yoe doy mp
    assume d: "days + 719468 = 146097 * era + doe" and era: "0 \<le> era" and doe: "0 \<le> doe"
      and yoe: "0 \<le> yoe" "yoe \<le> 399" and doy_eq: "doe = year_start yoe + doy" and doy: "0 \<le> doy" "doy \<le> 365"
      and mp: "0 \<le> mp" "mp \<le> 11" and mpd: "mp = (5 * doy + 2) div 153"
      and day: "(153 * mp + 2) div 5 \<le> doy" "doy \<le> (153 * mp + 2) div 5 + 30"
      and c: "civil_from_days days = (yoe + era * 400 + (if mp < 10 then 0 else 1), (if mp < 10 then mp + 3 else mp - 9),
         doy - (153 * mp + 2) div 5 + 1)"
    have "146097 * era + doe \<le> 3652364" using d assms(2) by simp
    then have e: "era \<le> 24" using doe by simp
    have "yoe + era * 400 + (if mp < 10 then 0 else 1) \<le> 9999"
    proof (cases "era = 24 \<and> yoe = 399")
      case True
      then have "year_start yoe = 145731" by (simp add: year_start_def)
      then have "doy \<le> 305" using True d assms(2) doy_eq by simp
      then have "mp < 10" unfolding mpd by simp
      then show ?thesis using True by simp
    next
      case False
      then show ?thesis using e yoe by (simp add: order_le_less) linarith
    qed
    moreover obtain x where x: "x = (153 * mp + 2) div 5" by simp
    ultimately show ?thesis
      using day era yoe mp unfolding c x [symmetric] by auto
  qed
qed

section \<open>Time points and their parts\<close>

text \<open>A time point of \<open>u * k\<close> ticks per second: its day, and what is left of it in units of
  \<open>k\<close> ticks.\<close>

lemma timepoint_day:
  fixes tp u k :: int
  assumes "0 \<le> tp" and u: "0 < u" and k: "0 < k"
  defines "D \<equiv> tp div (86400 * (u * k))" and "X \<equiv> tp mod (86400 * (u * k))"
  shows "cdiv tp (u * k) - crem (cdiv tp (u * k)) 86400 = 86400 * D" "cdiv (86400 * D) 86400 = D"
    "cdiv ((tp - 86400 * D * (u * k)) * u) (u * k) = X div k" "0 \<le> X div k" "X div k < 86400 * u"
    "tp div k = 86400 * u * D + X div k" "0 \<le> D"
proof -
  have p: "0 < u * k" using u k by simp
  then have p86: "0 < 86400 * (u * k)" by simp
  have S: "0 \<le> tp div (u * k)" using assms(1) p by (simp add: pos_imp_zdiv_nonneg_iff)
  have "tp div (u * k) div 86400 = D" unfolding D_def using zdiv_zmult2_eq [of 86400 tp "u * k"] by (simp add: mult.commute)
  then have "tp div (u * k) = 86400 * D + tp div (u * k) mod 86400" by (metis mult_div_mod_eq)
  then show "cdiv tp (u * k) - crem (cdiv tp (u * k)) 86400 = 86400 * D"
    using assms(1) p S by (simp add: cdiv_nonneg crem_def minus_mult_div_eq_mod [symmetric])
  show D: "0 \<le> D" unfolding D_def using assms(1) p86 by (simp add: pos_imp_zdiv_nonneg_iff)
  then show "cdiv (86400 * D) 86400 = D" by (simp add: cdiv_nonneg)
  have X: "0 \<le> X" "X < 86400 * (u * k)" unfolding X_def using p86 by (simp_all add: pos_mod_sign pos_mod_bound)
  have tp: "tp = 86400 * (u * k) * D + X" unfolding D_def X_def by (rule mult_div_mod_eq [symmetric])
  have "tp - 86400 * D * (u * k) = X" using tp by (simp add: algebra_simps)
  moreover have "cdiv (X * u) (u * k) = X div k" using X(1) u k by (simp add: cdiv_nonneg mult.commute [of X])
  ultimately show "cdiv ((tp - 86400 * D * (u * k)) * u) (u * k) = X div k" by simp
  show "0 \<le> X div k" using X(1) k by (simp add: pos_imp_zdiv_nonneg_iff)
  have "X div k * k \<le> X" using k by (simp add: minus_mod_eq_div_mult [symmetric])
  then have "X div k * k < 86400 * u * k" using X(2) by (simp add: mult.assoc)
  then show "X div k < 86400 * u" using k by (simp add: mult_less_cancel_right)
  have "tp = X + (86400 * u * D) * k" using tp by (simp add: algebra_simps)
  then show "tp div k = 86400 * u * D + X div k" using k by simp
qed

text \<open>The parts of a time of day in units of \<open>1 / u\<close> seconds.\<close>

definition clock_ok :: "int \<Rightarrow> int \<times> int \<times> int \<times> int \<Rightarrow> bool" where
  "clock_ok u t \<longleftrightarrow> (case t of (h, mi, s, f) \<Rightarrow>
     0 \<le> h \<and> h \<le> 23 \<and> 0 \<le> mi \<and> mi \<le> 59 \<and> 0 \<le> s \<and> s \<le> 59 \<and> 0 \<le> f \<and> f < u)"

lemma mod_parts:
  fixes M :: int
  assumes "0 \<le> M" and "M < c * b" and "0 < b"
  shows "0 \<le> M div b" "M div b < c" "0 \<le> M - M div b * b" "M - M div b * b < b"
proof -
  show "0 \<le> M div b" using assms by (simp add: pos_imp_zdiv_nonneg_iff)
  have "M div b * b \<le> M" using assms(3) by (simp add: minus_mod_eq_div_mult [symmetric])
  then have "M div b * b < c * b" using assms(2) by simp
  then show "M div b < c" using assms(3) by (simp add: mult_less_cancel_right)
  show "0 \<le> M - M div b * b" "M - M div b * b < b" using assms(3) by (simp_all add: minus_div_mult_eq_mod)
qed

lemma timepointtoparts_clock:
  assumes "0 \<le> tp" and "0 < k"
  obtains h mi s ms where
    "timepointtoparts (1000 * k) tp = (civil_from_days (tp div (86400 * (1000 * k))), h, mi, s, ms)" "clock_ok 1000 (h, mi, s, ms)"
    "tp div k = (tp div (86400 * (1000 * k)) * 24 * 3600 + h * 3600 + mi * 60 + s) * 1000 + ms"
proof -
  define M where "M = tp mod (86400 * (1000 * k)) div k"
  note day = timepoint_day [of tp 1000 k, OF assms(1) zero_less_numeral assms(2), folded M_def]
  have M: "0 \<le> M" "M < 86400000" using day(4,5) by simp_all
  define h where "h = M div 3600000"
  define M1 where "M1 = M - h * 3600000"
  define mi where "mi = M1 div 60000"
  define M2 where "M2 = M1 - mi * 60000"
  define s where "s = M2 div 1000"
  have h: "0 \<le> h" "h < 24" "0 \<le> M1" "M1 < 3600000" using mod_parts [of M 24 3600000, folded h_def, folded M1_def] M by simp_all
  have mi: "0 \<le> mi" "mi < 60" "0 \<le> M2" "M2 < 60000" using mod_parts [of M1 60 60000, folded mi_def, folded M2_def] h by simp_all
  have s: "0 \<le> s" "s < 60" "0 \<le> M2 - s * 1000" "M2 - s * 1000 < 1000" using mod_parts [of M2 60 1000, folded s_def] mi by simp_all
  have wrap: "int_wrap 32 M = M" using M by (intro int_wrap_32) simp_all
  have step: "cdiv M (60 * 60 * 1000) = h" "cdiv M1 (60 * 1000) = mi" "cdiv M2 1000 = s"
    using M(1) h(3) mi(3) by (simp_all add: cdiv_nonneg h_def mi_def s_def)
  have left: "M - h * 60 * 60 * 1000 = M1" "M1 - mi * 60 * 1000 = M2" by (simp_all add: M1_def M2_def)
  have "timepointtoparts (1000 * k) tp = (civil_from_days (tp div (86400 * (1000 * k))), h, mi, s, M2 - s * 1000)"
    unfolding timepointtoparts_def Let_def day(1-3) wrap step(1) left(1) step(2) left(2) step(3) ..
  moreover have "clock_ok 1000 (h, mi, s, M2 - s * 1000)" using h mi s by (simp add: clock_ok_def)
  moreover have "tp div k = (tp div (86400 * (1000 * k)) * 24 * 3600 + h * 3600 + mi * 60 + s) * 1000 + (M2 - s * 1000)"
    unfolding day(6) by (simp add: M2_def M1_def)
  ultimately show ?thesis by (rule that)
qed

lemma timepointtoparts_nano_clock:
  assumes "0 \<le> tp" and "0 < k"
  obtains h mi s ns where
    "timepointtoparts_nano (1000000000 * k) tp = (civil_from_days (tp div (86400 * (1000000000 * k))), h, mi, s, ns)"
    "clock_ok 1000000000 (h, mi, s, ns)"
    "tp div k = (tp div (86400 * (1000000000 * k)) * 24 * 3600 + h * 3600 + mi * 60 + s) * 1000000000 + ns"
proof -
  define M where "M = tp mod (86400 * (1000000000 * k)) div k"
  note day = timepoint_day [of tp 1000000000 k, OF assms(1) zero_less_numeral assms(2), folded M_def]
  have M: "0 \<le> M" "M < 86400000000000" using day(4,5) by simp_all
  define h where "h = M div 3600000000000"
  define M1 where "M1 = M - h * 3600000000000"
  define mi where "mi = M1 div 60000000000"
  define M2 where "M2 = M1 - mi * 60000000000"
  define s where "s = M2 div 1000000000"
  have h: "0 \<le> h" "h < 24" "0 \<le> M1" "M1 < 3600000000000"
    using mod_parts [of M 24 3600000000000, folded h_def, folded M1_def] M by simp_all
  have mi: "0 \<le> mi" "mi < 60" "0 \<le> M2" "M2 < 60000000000"
    using mod_parts [of M1 60 60000000000, folded mi_def, folded M2_def] h by simp_all
  have s: "0 \<le> s" "s < 60" "0 \<le> M2 - s * 1000000000" "M2 - s * 1000000000 < 1000000000"
    using mod_parts [of M2 60 1000000000, folded s_def] mi by simp_all
  have wrap: "int_wrap 32 h = h" "int_wrap 32 mi = mi" "int_wrap 32 s = s"
    "int_wrap 32 (M2 - s * 1000000000) = M2 - s * 1000000000"
    using h mi s by (simp_all only: int_wrap_32)
  have step: "cdiv M (60 * 60 * 1000000000) = h" "cdiv M1 (60 * 1000000000) = mi" "cdiv M2 1000000000 = s"
    using M(1) h(3) mi(3) by (simp_all add: cdiv_nonneg h_def mi_def s_def)
  have left: "M - h * 60 * 60 * 1000000000 = M1" "M1 - mi * 60 * 1000000000 = M2" by (simp_all add: M1_def M2_def)
  have "timepointtoparts_nano (1000000000 * k) tp
      = (civil_from_days (tp div (86400 * (1000000000 * k))), h, mi, s, M2 - s * 1000000000)"
    unfolding timepointtoparts_nano_def Let_def day(1-3) step(1) wrap(1) left(1) step(2) wrap(2) left(2) step(3) wrap(3,4) ..
  moreover have "clock_ok 1000000000 (h, mi, s, M2 - s * 1000000000)" using h mi s by (simp add: clock_ok_def)
  moreover have "tp div k = (tp div (86400 * (1000000000 * k)) * 24 * 3600 + h * 3600 + mi * 60 + s) * 1000000000 + (M2 - s * 1000000000)"
    unfolding day(6) by (simp add: M2_def M1_def)
  ultimately show ?thesis by (rule that)
qed

lemma timepoint_civil:
  assumes "0 \<le> tp" and "tp < 253402300800 * p" and "0 < p"
  obtains y m d where "civil_from_days (tp div (86400 * p)) = (y, m, d)"
    "0 \<le> y" "y \<le> 9999" "1 \<le> m" "m \<le> 12" "1 \<le> d" "d \<le> 31" "days_from_civil y m d = tp div (86400 * p)"
proof -
  have D: "0 \<le> tp div (86400 * p)" "tp div (86400 * p) \<le> 2932896"
    using mod_parts(1,2) [of tp 2932897 "86400 * p"] assms by simp_all
  obtain y m d where c: "civil_from_days (tp div (86400 * p)) = (y, m, d)" by (cases "civil_from_days (tp div (86400 * p))")
  show ?thesis
    using civil_bounds [OF D] days_from_civil_from_days [OF D(1)] D(2) c by (intro that [OF c]) simp_all
qed

lemma atotime_nano_text:
  assumes "0 \<le> h" "h \<le> 99" "0 \<le> mi" "mi \<le> 99" "0 \<le> s" "s \<le> 99" "0 \<le> ns" "ns \<le> 999999999"
  shows "atotime_nano (time_ns_text h mi s ns) = Some (h, mi, s, ns)"
  using assms by (simp add: atotime_nano_def time_ns_text_def time_text_def chunk_def atoi_padded)

lemma timestamp_nano_parts:
  assumes "0 \<le> y" "y \<le> 9999" "0 \<le> m" "m \<le> 99" "0 \<le> d" "d \<le> 99"
    "0 \<le> h" "h \<le> 99" "0 \<le> mi" "mi \<le> 99" "0 \<le> s" "s \<le> 99" "0 \<le> ns" "ns \<le> 999999999"
  shows "atotimepoint_nano (date_text y m d @ ''-'' @ time_ns_text h mi s ns)
    = Some ((days_from_civil y m d * 24 * 3600 + h * 3600 + mi * 60 + s) * 1000000000 + ns)"
proof -
  have l: "length (date_text y m d) = 8" by (simp add: date_text_def)
  then show ?thesis using assms atodate_text [of y m d] atotime_nano_text [of h mi s ns] by (simp add: atotimepoint_nano_def)
qed

lemma timestamp_nano_roundtrip:
  assumes "0 \<le> tp" and "tp < 253402300800 * (1000000000 * k)" and "0 < k"
  shows "(case timepointtoparts_nano (1000000000 * k) tp of ((y, m, d), h, mi, s, ns) \<Rightarrow>
    atotimepoint_nano (date_text y m d @ ''-'' @ time_ns_text h mi s ns)) = Some (tp div k)"
proof -
  obtain h mi s ns where parts:
    "timepointtoparts_nano (1000000000 * k) tp = (civil_from_days (tp div (86400 * (1000000000 * k))), h, mi, s, ns)"
    "clock_ok 1000000000 (h, mi, s, ns)"
    "tp div k = (tp div (86400 * (1000000000 * k)) * 24 * 3600 + h * 3600 + mi * 60 + s) * 1000000000 + ns"
    by (rule timepointtoparts_nano_clock [OF assms(1,3)])
  obtain y m d where ymd: "civil_from_days (tp div (86400 * (1000000000 * k))) = (y, m, d)"
    "0 \<le> y" "y \<le> 9999" "1 \<le> m" "m \<le> 12" "1 \<le> d" "d \<le> 31" "days_from_civil y m d = tp div (86400 * (1000000000 * k))"
    using timepoint_civil [OF assms(1,2)] assms(3) by auto
  have "atotimepoint_nano (date_text y m d @ ''-'' @ time_ns_text h mi s ns)
      = Some ((days_from_civil y m d * 24 * 3600 + h * 3600 + mi * 60 + s) * 1000000000 + ns)"
    using ymd parts(2) by (intro timestamp_nano_parts) (simp_all add: clock_ok_def)
  then show ?thesis unfolding parts(1,3) ymd(1,8) by simp
qed

text \<open>A time point (of any tick rate that is a multiple of a millisecond) between 1970 and the
  end of 9999, written by \<open>push_back_timestamp\<close> and read back by \<open>as_timestamp\<close>, is
  the same instant truncated to the millisecond; so the two proleptic-Gregorian conversions are
  inverse to each other on every day of that range.\<close>

theorem timestamp_roundtrip:
  assumes "0 \<le> tp" and "tp < 253402300800 * (1000 * k)" and "0 < k"
  shows "(case timepointtoparts (1000 * k) tp of ((y, m, d), h, mi, s, ms) \<Rightarrow>
    atotimepoint (timestamp_text y m d h mi s ms)) = Some (tp div k)"
proof -
  obtain h mi s ms where parts:
    "timepointtoparts (1000 * k) tp = (civil_from_days (tp div (86400 * (1000 * k))), h, mi, s, ms)" "clock_ok 1000 (h, mi, s, ms)"
    "tp div k = (tp div (86400 * (1000 * k)) * 24 * 3600 + h * 3600 + mi * 60 + s) * 1000 + ms"
    by (rule timepointtoparts_clock [OF assms(1,3)])
  obtain y m d where ymd: "civil_from_days (tp div (86400 * (1000 * k))) = (y, m, d)"
    "0 \<le> y" "y \<le> 9999" "1 \<le> m" "m \<le> 12" "1 \<le> d" "d \<le> 31" "days_from_civil y m d = tp div (86400 * (1000 * k))"
    using timepoint_civil [OF assms(1,2)] assms(3) by auto
  have "atotimepoint (timestamp_text y m d h mi s ms) = Some ((days_from_civil y m d * 24 * 3600 + h * 3600 + mi * 60 + s) * 1000 + ms)"
    using ymd parts(2) by (intro timestamp_parts) (simp_all add: clock_ok_def)
  then show ?thesis unfolding parts(1,3) ymd(1,8) by simp
qed

theorem timestamp_roundtrip_witness:
  "(case timepointtoparts (1000 * 1000000) 1500000000123456789 of ((y, m, d), h, mi, s, ms) \<Rightarrow>
    timestamp_text y m d h mi s ms = ''20170714-02:40:00.123''
    \<and> atotimepoint (timestamp_text y m d h mi s ms) = Some 1500000000123)"
proof -
  have p: "timepointtoparts (1000 * 1000000) 1500000000123456789 = ((2017, 7, 14), 2, 40, 0, 123)"
    by code_simp
  have "timestamp_text 2017 7 14 2 40 0 123 = ''20170714-02:40:00.123''" by code_simp
  then show ?thesis
    using timestamp_roundtrip [of 1500000000123456789 1000000] unfolding p by simp
qed

end
