(* ===== verification/Hffix_Message.thy ===== *)
theory Hffix_Message
  imports Hffix_Time
begin

text \<open>
  \<open>message_writer\<close>, \<open>message_reader\<close> and its iterator, from
  \<^verbatim>\<open>src/deps/hffix/hffix.hpp\<close> (and the table \<open>length_fields\<close> of
  \<^verbatim>\<open>hffix_fields.hpp\<close>). The writer owns the memory between \<^verbatim>\<open>buffer_\<close> and
  \<^verbatim>\<open>buffer_end_\<close>; positions are offsets into it. The reader keeps the address of its buffer,
  because the pointer additions of the source wrap around at \<open>2\<^sup>6\<^sup>4\<close>; its positions are
  offsets from that address and may be negative. Reading outside the buffer is
  \<open>out_of_buffer\<close>, an exception its own value.
\<close>

datatype hffix_error = range_error | logic_error | length_error | out_of_buffer | diverges

abbreviation SOH :: char where
  "SOH \<equiv> CHR 0x01"

section \<open>The writer\<close>

record message_writer =
  mw_mem :: string
  mw_next :: nat
  mw_body_length :: "nat option"

definition writer_new :: "string \<Rightarrow> message_writer" where
  "writer_new mem = \<lparr>mw_mem = mem, mw_next = 0, mw_body_length = None\<rparr>"

definition writer_message :: "message_writer \<Rightarrow> string" where
  "writer_message w = take (mw_next w) (mw_mem w)"

definition buffer_size_remaining :: "message_writer \<Rightarrow> nat" where
  "buffer_size_remaining w = length (mw_mem w) - mw_next w"

definition mw_write :: "string \<Rightarrow> message_writer \<Rightarrow> message_writer" where
  "mw_write s w = w\<lparr>mw_mem := blit (mw_next w) s (mw_mem w), mw_next := mw_next w + length s\<rparr>"

definition mw_option :: "string option \<Rightarrow> message_writer \<Rightarrow> hffix_error + message_writer" where
  "mw_option t w = (case t of None \<Rightarrow> Inl range_error | Some s \<Rightarrow> Inr (mw_write s w))"

definition mw_need :: "nat \<Rightarrow> message_writer \<Rightarrow> hffix_error + message_writer" where
  "mw_need n w = (if buffer_size_remaining w < n then Inl range_error else Inr w)"

definition push_back_header :: "string \<Rightarrow> message_writer \<Rightarrow> hffix_error + message_writer" where
  "push_back_header version w =
     (if mw_body_length w \<noteq> None then Inl logic_error
      else err_bind (mw_need (2 + length version + 3 + 7) w)
        (\<lambda>w. let w1 = mw_write (''8='' @ version @ [SOH] @ ''9='') w;
                 w2 = w1\<lparr>mw_body_length := Some (mw_next w1), mw_next := mw_next w1 + 6\<rparr>
             in Inr (mw_write [SOH] w2)))"

definition push_back_trailer :: "bool \<Rightarrow> message_writer \<Rightarrow> hffix_error + message_writer" where
  "push_back_trailer calculate_checksum w =
     (case mw_body_length w of
        None \<Rightarrow> Inl logic_error
      | Some bl \<Rightarrow>
          (let len = mw_next w - (bl + 7);
               digits = map (\<lambda>d. digit_char ((len div d) mod 10)) [100000, 10000, 1000, 100, 10, 1];
               w1 = w\<lparr>mw_mem := blit bl digits (mw_mem w)\<rparr>
           in err_bind (mw_need 7 w1)
                (\<lambda>w. if calculate_checksum then
                       (let checksum = foldl (\<lambda>a c. (a + byte_of_char c)) 0 (take (mw_next w) (mw_mem w));
                            k = unat checksum
                        in Inr (mw_write (''10='' @ [digit_char (k div 100 mod 10), digit_char (k div 10 mod 10),
                                  digit_char (k mod 10)] @ [SOH]) w))
                     else Inr (mw_write (''10=000'' @ [SOH]) w))))"

definition push_back_string :: "int \<Rightarrow> string \<Rightarrow> message_writer \<Rightarrow> hffix_error + message_writer" where
  "push_back_string tag s w =
     err_bind (mw_option (itoa 32 tag (buffer_size_remaining w)) w)
       (\<lambda>w. err_bind (mw_need (length s + 2) w) (\<lambda>w. Inr (mw_write (''='' @ s @ [SOH]) w)))"

text \<open>\<^verbatim>\<open>push_back_string(int, char const*)\<close>: \<open>s\<close> is the text before the terminating
  NUL, which has to lie within the remaining space.\<close>

definition push_back_cstring :: "int \<Rightarrow> string \<Rightarrow> message_writer \<Rightarrow> hffix_error + message_writer" where
  "push_back_cstring tag s w =
     (if length s < buffer_size_remaining w then push_back_string tag s w else Inl range_error)"

definition push_back_char :: "int \<Rightarrow> char \<Rightarrow> message_writer \<Rightarrow> hffix_error + message_writer" where
  "push_back_char tag c w =
     err_bind (mw_option (itoa 32 tag (buffer_size_remaining w)) w)
       (\<lambda>w. err_bind (mw_need 3 w) (\<lambda>w. Inr (mw_write (''='' @ [c, SOH]) w)))"

definition push_back_number :: "int \<Rightarrow> (nat \<Rightarrow> string option) \<Rightarrow> message_writer \<Rightarrow> hffix_error + message_writer" where
  "push_back_number tag print w =
     err_bind (mw_option (itoa 32 tag (buffer_size_remaining w)) w)
       (\<lambda>w. err_bind (mw_need 1 w)
         (\<lambda>w. let w1 = mw_write ''='' w
              in err_bind (mw_option (print (buffer_size_remaining w1)) w1)
                   (\<lambda>w. err_bind (mw_need 1 w) (\<lambda>w. Inr (mw_write [SOH] w)))))"

definition push_back_int :: "int \<Rightarrow> nat \<Rightarrow> int \<Rightarrow> message_writer \<Rightarrow> hffix_error + message_writer" where
  "push_back_int tag bits number = push_back_number tag (itoa bits number)"

definition push_back_decimal :: "int \<Rightarrow> nat \<Rightarrow> int \<Rightarrow> int \<Rightarrow> message_writer \<Rightarrow> hffix_error + message_writer" where
  "push_back_decimal tag bits mantissa exponent = push_back_number tag (dtoa bits mantissa exponent)"

text \<open>The fixed-size date and time fields: the room check is for the whole field, as for a
  string.\<close>

definition push_back_date :: "int \<Rightarrow> int \<Rightarrow> int \<Rightarrow> int \<Rightarrow> message_writer \<Rightarrow> hffix_error + message_writer" where
  "push_back_date tag year month day = push_back_string tag (date_text year month day)"

definition push_back_monthyear :: "int \<Rightarrow> int \<Rightarrow> int \<Rightarrow> message_writer \<Rightarrow> hffix_error + message_writer" where
  "push_back_monthyear tag year month = push_back_string tag (monthyear_text year month)"

definition push_back_timeonly :: "int \<Rightarrow> int \<Rightarrow> int \<Rightarrow> int \<Rightarrow> message_writer \<Rightarrow> hffix_error + message_writer" where
  "push_back_timeonly tag hour minute second = push_back_string tag (time_text hour minute second)"

definition push_back_timeonly_ms :: "int \<Rightarrow> int \<Rightarrow> int \<Rightarrow> int \<Rightarrow> int \<Rightarrow> message_writer \<Rightarrow> hffix_error + message_writer" where
  "push_back_timeonly_ms tag hour minute second ms = push_back_string tag (time_ms_text hour minute second ms)"

definition push_back_timeonly_nano :: "int \<Rightarrow> int \<Rightarrow> int \<Rightarrow> int \<Rightarrow> int \<Rightarrow> message_writer \<Rightarrow> hffix_error + message_writer" where
  "push_back_timeonly_nano tag hour minute second ns = push_back_string tag (time_ns_text hour minute second ns)"

definition push_back_timestamp :: "int \<Rightarrow> int \<Rightarrow> int \<Rightarrow> int \<Rightarrow> int \<Rightarrow> int \<Rightarrow> int \<Rightarrow> int \<Rightarrow> message_writer \<Rightarrow> hffix_error + message_writer" where
  "push_back_timestamp tag year month day hour minute second ms =
     push_back_string tag (timestamp_text year month day hour minute second ms)"

definition push_back_timestamp_sec :: "int \<Rightarrow> int \<Rightarrow> int \<Rightarrow> int \<Rightarrow> int \<Rightarrow> int \<Rightarrow> int \<Rightarrow> message_writer \<Rightarrow> hffix_error + message_writer" where
  "push_back_timestamp_sec tag year month day hour minute second =
     push_back_string tag (date_text year month day @ ''-'' @ time_text hour minute second)"

definition push_back_timestamp_nano :: "int \<Rightarrow> int \<Rightarrow> int \<Rightarrow> int \<Rightarrow> int \<Rightarrow> int \<Rightarrow> int \<Rightarrow> int \<Rightarrow> message_writer \<Rightarrow> hffix_error + message_writer" where
  "push_back_timestamp_nano tag year month day hour minute second ns =
     push_back_string tag (date_text year month day @ ''-'' @ time_ns_text hour minute second ns)"

text \<open>\<^verbatim>\<open>push_back_timestamp(int, time_point)\<close>; \<open>per_sec\<close> is the tick rate of the clock.\<close>

definition push_back_timepoint :: "int \<Rightarrow> int \<Rightarrow> int \<Rightarrow> message_writer \<Rightarrow> hffix_error + message_writer" where
  "push_back_timepoint tag per_sec tp =
     (case timepointtoparts per_sec tp of ((y, m, d), h, mi, s, ms) \<Rightarrow> push_back_timestamp tag y m d h mi s ms)"

definition push_back_timepoint_nano :: "int \<Rightarrow> int \<Rightarrow> int \<Rightarrow> message_writer \<Rightarrow> hffix_error + message_writer" where
  "push_back_timepoint_nano tag per_sec tp =
     (case timepointtoparts_nano per_sec tp of ((y, m, d), h, mi, s, ns) \<Rightarrow> push_back_timestamp_nano tag y m d h mi s ns)"

text \<open>\<^verbatim>\<open>push_back_timeonly(int, duration)\<close>; a count narrows to \<^verbatim>\<open>int\<close>.\<close>

definition push_back_duration :: "int \<Rightarrow> int \<Rightarrow> int \<Rightarrow> message_writer \<Rightarrow> hffix_error + message_writer" where
  "push_back_duration tag per_sec t =
     push_back_timeonly_ms tag (int_wrap 32 (cdiv t (3600 * per_sec)))
       (int_wrap 32 (cdiv (crem t (3600 * per_sec)) (60 * per_sec)))
       (int_wrap 32 (cdiv (crem t (60 * per_sec)) per_sec))
       (int_wrap 32 (cdiv (crem t per_sec * 1000) per_sec))"

definition push_back_duration_nano :: "int \<Rightarrow> int \<Rightarrow> int \<Rightarrow> message_writer \<Rightarrow> hffix_error + message_writer" where
  "push_back_duration_nano tag per_sec t =
     push_back_timeonly_nano tag (int_wrap 32 (cdiv t (3600 * per_sec)))
       (int_wrap 32 (cdiv (crem t (3600 * per_sec)) (60 * per_sec)))
       (int_wrap 32 (cdiv (crem t (60 * per_sec)) per_sec))
       (int_wrap 32 (cdiv (crem t per_sec * 1000000000) per_sec))"

definition push_back_data :: "int \<Rightarrow> int \<Rightarrow> string \<Rightarrow> message_writer \<Rightarrow> hffix_error + message_writer" where
  "push_back_data tag_data_length tag_data s w =
     err_bind (push_back_number tag_data_length (itoa 64 (int (length s))) w)
       (\<lambda>w. push_back_string tag_data s w)"

section \<open>The reader\<close>

record hf_iterator =
  it_buffer :: int
  it_tag :: int
  it_vbegin :: int
  it_vend :: int

record message_reader =
  mr_address :: nat
  mr_buffer :: string
  mr_begin :: hf_iterator
  mr_end :: hf_iterator
  mr_is_complete :: bool
  mr_is_valid :: bool
  mr_prefix_end :: "nat option"

text \<open>An iterator constructed on a null pointer, its field zero-initialised.\<close>

definition null_iterator :: "nat \<Rightarrow> hf_iterator" where
  "null_iterator address =
     \<lparr>it_buffer = - int address, it_tag = 0, it_vbegin = - int address, it_vend = - int address\<rparr>"

definition char_at :: "string \<Rightarrow> int \<Rightarrow> hffix_error + char" where
  "char_at buf i = (if 0 \<le> i \<and> i < int (length buf) then Inr (buf ! nat i) else Inl out_of_buffer)"

text \<open>A pointer plus a \<^verbatim>\<open>size_t\<close>.\<close>

definition ptr_add :: "nat \<Rightarrow> int \<Rightarrow> nat \<Rightarrow> int" where
  "ptr_add address p n = (int address + p + int n) mod 2 ^ 64 - int address"

datatype 'a scan = Incomplete | Invalid | Found 'a

function init_prefix :: "string \<Rightarrow> nat \<Rightarrow> nat scan" where
  "init_prefix buf b =
     (if b \<ge> length buf then Incomplete
      else if buf ! b = SOH then Found b
      else if b > 11 then Invalid
      else init_prefix buf (b + 1))"
  by pat_completeness auto
termination by (relation "measure (\<lambda>(buf, b). 12 - b)") auto

function init_body_length :: "string \<Rightarrow> nat \<Rightarrow> nat \<Rightarrow> (nat \<times> nat) scan" where
  "init_body_length buf b bodylength =
     (if b \<ge> length buf then Incomplete
      else if buf ! b = SOH then Found (b, bodylength)
      else if schar (buf ! b) < 48 \<or> schar (buf ! b) > 57 then Invalid
      else init_body_length buf (b + 1) (sz_add (sz_mul bodylength 10) (nat (schar (buf ! b) - 48))))"
  by pat_completeness auto
termination by (relation "measure (\<lambda>(buf, b, n). length buf - b)") auto

text \<open>\<^verbatim>\<open>while(*++b != SOH) if (b >= checksum) invalid\<close>.\<close>

function init_msg_type :: "string \<Rightarrow> int \<Rightarrow> int \<Rightarrow> hffix_error + int scan" where
  "init_msg_type buf checksum b =
     (if 0 \<le> b + 1 \<and> b + 1 < int (length buf) then
        (if buf ! nat (b + 1) = SOH then Inr (Found (b + 1))
         else if b + 1 \<ge> checksum then Inr Invalid
         else init_msg_type buf checksum (b + 1))
      else Inl out_of_buffer)"
  by pat_completeness auto
termination by (relation "measure (\<lambda>(buf, c, b). nat (int (length buf) - b))") auto

declare init_prefix.simps [simp del] init_body_length.simps [simp del] init_msg_type.simps [simp del]

definition reader_blank :: "nat \<Rightarrow> string \<Rightarrow> message_reader" where
  "reader_blank address buf =
     \<lparr>mr_address = address, mr_buffer = buf, mr_begin = null_iterator address, mr_end = null_iterator address,
      mr_is_complete = False, mr_is_valid = True, mr_prefix_end = None\<rparr>"

definition reader_invalid :: "message_reader \<Rightarrow> message_reader" where
  "reader_invalid r = r\<lparr>mr_is_complete := True, mr_is_valid := False\<rparr>"

text \<open>\<open>init\<close> from the first character of tag 35 on.\<close>

definition init_body :: "nat \<Rightarrow> nat \<Rightarrow> message_reader \<Rightarrow> hffix_error + message_reader" where
  "init_body b bodylength r =
     (let buf = mr_buffer r; n = int (length buf) in
      if b + 3 \<ge> length buf then Inr r
      else if buf ! b \<noteq> CHR ''3'' \<or> buf ! (b + 1) \<noteq> CHR ''5'' then Inr (reader_invalid r)
      else
        (let checksum = ptr_add (mr_address r) (int b) bodylength in
         if ptr_add (mr_address r) checksum 7 > n then Inr r
         else err_bind (char_at buf (checksum - 1)) (\<lambda>c1.
           if c1 \<noteq> SOH then Inr (reader_invalid r)
           else err_bind (char_at buf (checksum + 6)) (\<lambda>c2.
             if c2 \<noteq> SOH then Inr (reader_invalid r)
             else err_bind (init_msg_type buf checksum (int b + 3)) (\<lambda>m.
               case m of
                 Found e \<Rightarrow>
                   Inr (r\<lparr>mr_begin := \<lparr>it_buffer = int b, it_tag = 35, it_vbegin = int b + 3, it_vend = e\<rparr>,
                          mr_end := \<lparr>it_buffer = checksum, it_tag = 10, it_vbegin = checksum + 3, it_vend = checksum + 6\<rparr>,
                          mr_is_complete := True\<rparr>)
               | _ \<Rightarrow> Inr (reader_invalid r))))))"

definition message_reader_init :: "nat \<Rightarrow> string \<Rightarrow> hffix_error + message_reader" where
  "message_reader_init address buf =
     (let r = reader_blank address buf in
      case init_prefix buf 9 of
        Incomplete \<Rightarrow> Inr r
      | Invalid \<Rightarrow> Inr (reader_invalid r)
      | Found b \<Rightarrow>
          (let r1 = r\<lparr>mr_prefix_end := Some b\<rparr> in
           if b + 1 \<ge> length buf then Inr r1
           else if buf ! (b + 1) \<noteq> CHR ''9'' then Inr (reader_invalid r1)
           else
             (case init_body_length buf (b + 3) 0 of
                Incomplete \<Rightarrow> Inr r1
              | Invalid \<Rightarrow> Inr (reader_invalid r1)
              | Found (b2, bodylength) \<Rightarrow> init_body (b2 + 1) bodylength r1)))"

definition reader_begin :: "message_reader \<Rightarrow> hffix_error + hf_iterator" where
  "reader_begin r = (if mr_is_valid r then Inr (mr_begin r) else Inl logic_error)"

definition reader_end :: "message_reader \<Rightarrow> hffix_error + hf_iterator" where
  "reader_end r = (if mr_is_valid r then Inr (mr_end r) else Inl logic_error)"

definition reader_message_end :: "message_reader \<Rightarrow> hffix_error + int" where
  "reader_message_end r = (if mr_is_valid r then Inr (it_vend (mr_end r) + 1) else Inl logic_error)"

definition reader_message_size :: "message_reader \<Rightarrow> hffix_error + int" where
  "reader_message_size r = (if mr_is_valid r then Inr (it_vend (mr_end r) + 1) else Inl logic_error)"

text \<open>\<^verbatim>\<open>std::accumulate\<close> from the start of the buffer to the checksum field.\<close>

definition calculate_check_sum :: "message_reader \<Rightarrow> hffix_error + u8" where
  "calculate_check_sum r =
     (if \<not> mr_is_valid r then Inl logic_error
      else if 0 \<le> it_buffer (mr_end r) \<and> it_buffer (mr_end r) \<le> int (length (mr_buffer r))
      then Inr (foldl (\<lambda>a c. a + byte_of_char c) 0 (take (nat (it_buffer (mr_end r))) (mr_buffer r)))
      else Inl out_of_buffer)"

section \<open>The field iterator\<close>

definition length_fields :: "int list" where
  "length_fields =
     [90, 93, 95, 212, 348, 350, 352, 354, 356, 358, 360, 362, 364, 383, 445, 618, 621, 1184, 1282, 1397, 1401, 1403,
      1468, 1525, 1578, 1620, 1664, 1678, 1733, 1871, 1874, 2072, 2074, 2111, 2179, 2287, 2351, 2372, 2481, 2494,
      2522, 2637, 2651, 2665, 2715, 2718, 2721, 40004, 40008, 40978, 40980, 40982, 40984, 40986, 40988, 41083,
      41101, 41107, 41256, 41320, 41324, 41458, 41476, 41482, 41653, 41710, 41806, 41811, 41873, 41969, 42025,
      42171, 42451, 42652, 42947]"

definition is_tag_a_data_length :: "int \<Rightarrow> bool" where
  "is_tag_a_data_length tag \<longleftrightarrow>
     (case dropWhile (\<lambda>that. \<not> that \<ge> tag) length_fields of [] \<Rightarrow> False | x # _ \<Rightarrow> x = tag)"

text \<open>The two tag loops of \<open>increment\<close>; the second does not stop at SOH.\<close>

function scan_tag :: "bool \<Rightarrow> string \<Rightarrow> int \<Rightarrow> int \<Rightarrow> hffix_error + (int \<times> int)" where
  "scan_tag soh buf i tag =
     (if 0 \<le> i \<and> i < int (length buf) then
        (let c = buf ! nat i in
         if c = CHR ''='' \<or> soh \<and> c = SOH then Inr (i, tag)
         else scan_tag soh buf (i + 1) (int_wrap 32 (int_wrap 32 (tag * 10) + (schar c - 48))))
      else Inl out_of_buffer)"
  by pat_completeness auto
termination by (relation "measure (\<lambda>(soh, buf, i, t). nat (int (length buf) - i))") auto

text \<open>\<^verbatim>\<open>std::find(b, last, SOH)\<close>.\<close>

function find_soh :: "string \<Rightarrow> int \<Rightarrow> int \<Rightarrow> hffix_error + int" where
  "find_soh buf b e =
     (if b = e then Inr e
      else if 0 \<le> b \<and> b < int (length buf) then
        (if buf ! nat b = SOH then Inr b else find_soh buf (b + 1) e)
      else Inl out_of_buffer)"
  by pat_completeness auto
termination by (relation "measure (\<lambda>(buf, b, l). nat (int (length buf) - b))") auto

declare scan_tag.simps [simp del] find_soh.simps [simp del]

text \<open>The characters between two pointers; an empty range reads nothing.\<close>

definition text_range :: "string \<Rightarrow> int \<Rightarrow> int \<Rightarrow> hffix_error + string" where
  "text_range buf b e =
     (if b \<ge> e then Inr []
      else if 0 \<le> b \<and> e \<le> int (length buf) then Inr (segment (nat b) (nat (e - b)) buf)
      else Inl out_of_buffer)"

definition iterator_increment :: "message_reader \<Rightarrow> hf_iterator \<Rightarrow> hffix_error + hf_iterator" where
  "iterator_increment r it =
     (let buf = mr_buffer r; start = it_vend it + 1 in
      err_bind (scan_tag True buf start 0) (\<lambda>(i, tag).
      err_bind (char_at buf i) (\<lambda>c.
      if c = SOH then Inr \<lparr>it_buffer = start, it_tag = tag, it_vbegin = i, it_vend = i\<rparr>
      else
        err_bind (reader_message_end r) (\<lambda>message_end.
        err_bind (find_soh buf (i + 1) message_end) (\<lambda>e.
        if is_tag_a_data_length tag then
          err_bind (text_range buf (i + 1) e) (\<lambda>digits.
            let data_len = atou 64 digits; start2 = e + 1
            in err_bind (scan_tag False buf start2 0) (\<lambda>(j, tag2).
                 Inr \<lparr>it_buffer = start2, it_tag = tag2, it_vbegin = j + 1,
                      it_vend = ptr_add (mr_address r) (j + 1) data_len\<rparr>))
        else Inr \<lparr>it_buffer = start, it_tag = tag, it_vbegin = i + 1, it_vend = e\<rparr>)))))"

text \<open>\<^verbatim>\<open>std::find_if(first, last, tag_equal(tag))\<close>. Every step is determined by the end of the
  current field, and a step from outside the buffer fails; so a search of more steps than the
  buffer has characters repeats a field and never returns: the fuel of \<open>find_with_hint\<close> is
  that bound.\<close>

primrec find_if :: "nat \<Rightarrow> message_reader \<Rightarrow> int \<Rightarrow> hf_iterator \<Rightarrow> hf_iterator \<Rightarrow> hffix_error + hf_iterator" where
  "find_if 0 r tag first fin =
     (if it_buffer first = it_buffer fin \<or> it_tag first = tag then Inr first else Inl diverges)"
| "find_if (Suc fuel) r tag first fin =
     (if it_buffer first = it_buffer fin \<or> it_tag first = tag then Inr first
      else err_bind (iterator_increment r first) (\<lambda>it. find_if fuel r tag it fin))"

definition find_with_hint :: "message_reader \<Rightarrow> int \<Rightarrow> hf_iterator \<Rightarrow> hffix_error + (bool \<times> hf_iterator)" where
  "find_with_hint r tag i =
     err_bind (reader_begin r) (\<lambda>bgn. err_bind (reader_end r) (\<lambda>fin.
       let fuel = length (mr_buffer r) + 2 in
       err_bind (find_if fuel r tag i fin) (\<lambda>j.
         if it_buffer j \<noteq> it_buffer fin then Inr (True, j)
         else err_bind (find_if fuel r tag bgn i) (\<lambda>k.
           if it_buffer k \<noteq> it_buffer i then Inr (True, k) else Inr (False, i)))))"

definition next_message_reader :: "message_reader \<Rightarrow> hffix_error + message_reader" where
  "next_message_reader r =
     (if \<not> mr_is_complete r then Inl logic_error
      else if \<not> mr_is_valid r then
        (let n = length (mr_buffer r);
             cands = filter (\<lambda>b. segment b 5 (mr_buffer r) = ''8=FIX'') [1..<n - 10];
             b = (case cands of [] \<Rightarrow> max 1 (n - 10) | c # _ \<Rightarrow> c)
         in message_reader_init (mr_address r + b) (drop b (mr_buffer r)))
      else (let b = it_vend (mr_end r) + 1
            in if 0 \<le> b \<and> b \<le> int (length (mr_buffer r))
               then message_reader_init (mr_address r + nat b) (drop (nat b) (mr_buffer r))
               else Inl out_of_buffer))"

section \<open>Field values\<close>

definition value_range :: "message_reader \<Rightarrow> hf_iterator \<Rightarrow> hffix_error + string" where
  "value_range r it = text_range (mr_buffer r) (it_vbegin it) (it_vend it)"

text \<open>\<^verbatim>\<open>std::string(begin(), end())\<close> throws on a negative length.\<close>

definition as_string :: "message_reader \<Rightarrow> hf_iterator \<Rightarrow> hffix_error + string" where
  "as_string r it = (if it_vbegin it > it_vend it then Inl length_error else value_range r it)"

definition as_char :: "message_reader \<Rightarrow> hf_iterator \<Rightarrow> hffix_error + char" where
  "as_char r it = char_at (mr_buffer r) (it_vbegin it)"

definition as_int :: "nat \<Rightarrow> message_reader \<Rightarrow> hf_iterator \<Rightarrow> hffix_error + int" where
  "as_int bits r it = err_bind (value_range r it) (\<lambda>s. Inr (atoi bits s))"

definition as_decimal :: "nat \<Rightarrow> message_reader \<Rightarrow> hf_iterator \<Rightarrow> hffix_error + (int \<times> int)" where
  "as_decimal bits r it = err_bind (value_range r it) (\<lambda>s. Inr (atod bits s))"

text \<open>The date and time accessors look at the length before they read a character.\<close>

definition value_length :: "hf_iterator \<Rightarrow> int" where
  "value_length it = it_vend it - it_vbegin it"

definition as_timestamp :: "message_reader \<Rightarrow> hf_iterator \<Rightarrow> hffix_error + int option" where
  "as_timestamp r it =
     (if value_length it \<noteq> 17 \<and> value_length it \<noteq> 21 then Inr None
      else err_bind (value_range r it) (\<lambda>s. Inr (atotimepoint s)))"

text \<open>\<^verbatim>\<open>operator==(field_value, char const*)\<close>: \<open>strncmp\<close> reads the field up to the first
  difference or NUL; then the check that the C string ends there. \<open>s\<close> is the C string without
  its NUL. A negative \<^verbatim>\<open>size()\<close> wraps around.\<close>

definition value_size :: "hf_iterator \<Rightarrow> nat" where
  "value_size it = nat (if value_length it < 0 then value_length it + 2 ^ 64 else value_length it)"

fun strncmp_eq :: "string \<Rightarrow> int \<Rightarrow> nat \<Rightarrow> string \<Rightarrow> hffix_error + bool" where
  "strncmp_eq buf p 0 s = Inr True"
| "strncmp_eq buf p (Suc n) s =
     err_bind (char_at buf p) (\<lambda>c.
       if c \<noteq> (case s of [] \<Rightarrow> CHR 0x00 | d # _ \<Rightarrow> d) then Inr False
       else if c = CHR 0x00 then Inr True
       else strncmp_eq buf (p + 1) n (tl s))"

definition field_eq_cstring :: "message_reader \<Rightarrow> hf_iterator \<Rightarrow> string \<Rightarrow> hffix_error + bool" where
  "field_eq_cstring r it s =
     err_bind (strncmp_eq (mr_buffer r) (it_vbegin it) (value_size it) s) (\<lambda>eq.
       if \<not> eq then Inr False
       else if value_size it > length s then Inl out_of_buffer
       else Inr (value_size it = length s))"

definition field_eq_string :: "message_reader \<Rightarrow> hf_iterator \<Rightarrow> string \<Rightarrow> hffix_error + bool" where
  "field_eq_string r it s =
     (if value_size it \<noteq> length s then Inr False
      else strncmp_eq (mr_buffer r) (it_vbegin it) (length s) s)"

end
