(* ===== verification/Hffix_Proofs.thy ===== *)
theory Hffix_Proofs
  imports Hffix_Message
begin

text \<open>
  Facts about the FIX writer and reader. The writers of single fields are exact: they append
  \<open>tag=value\<close> and SOH when it fits and throw otherwise. A message composed of a header,
  fields and a trailer is accepted by the reader, whose iterator visits the same fields in order.
  On arbitrary bytes, the bounds of the reader: what it accepts, where its iterator stays inside
  the buffer, and the messages that lead it outside.
\<close>

section \<open>The text of a message\<close>

definition field_text :: "int \<times> string \<Rightarrow> string" where
  "field_text f = dec_int (fst f) @ ''='' @ snd f @ [SOH]"

definition body_text :: "(int \<times> string) list \<Rightarrow> string" where
  "body_text fs = concat (map field_text fs)"

definition six_digits :: "nat \<Rightarrow> string" where
  "six_digits len = map (\<lambda>d. digit_char ((len div d) mod 10)) [100000, 10000, 1000, 100, 10, 1]"

definition three_digits :: "nat \<Rightarrow> string" where
  "three_digits k = [digit_char (k div 100 mod 10), digit_char (k div 10 mod 10), digit_char (k mod 10)]"

definition check_sum :: "string \<Rightarrow> u8" where
  "check_sum s = foldl (\<lambda>a c. a + byte_of_char c) 0 s"

definition head_text :: "string \<Rightarrow> nat \<Rightarrow> string" where
  "head_text version len = ''8='' @ version @ [SOH] @ ''9='' @ six_digits len @ [SOH]"

definition trailer_text :: "string \<Rightarrow> string" where
  "trailer_text s = ''10='' @ three_digits (unat (check_sum s)) @ [SOH]"

definition message_text :: "string \<Rightarrow> (int \<times> string) list \<Rightarrow> string" where
  "message_text version fs =
     (let s = head_text version (length (body_text fs)) @ body_text fs in s @ trailer_text s)"

lemma length_six_digits [simp]: "length (six_digits n) = 6"
  by (simp add: six_digits_def)

lemma length_three_digits [simp]: "length (three_digits n) = 3"
  by (simp add: three_digits_def)

section \<open>Writers of fields\<close>

definition mw_ok :: "message_writer \<Rightarrow> bool" where
  "mw_ok w \<longleftrightarrow> mw_next w \<le> length (mw_mem w)"

lemma mw_write_sel [simp]:
  "mw_next (mw_write s w) = mw_next w + length s" "mw_body_length (mw_write s w) = mw_body_length w"
  by (simp_all add: mw_write_def)

lemma mw_write_length:
  "mw_ok w \<Longrightarrow> length s \<le> buffer_size_remaining w \<Longrightarrow> length (mw_mem (mw_write s w)) = length (mw_mem w)"
  by (simp add: mw_ok_def buffer_size_remaining_def mw_write_def)

lemma mw_write_remaining:
  "mw_ok w \<Longrightarrow> length s \<le> buffer_size_remaining w \<Longrightarrow>
    buffer_size_remaining (mw_write s w) = buffer_size_remaining w - length s"
  by (simp add: mw_write_length buffer_size_remaining_def [of "mw_write s w"]) (simp add: buffer_size_remaining_def)

lemma mw_write_ok:
  "mw_ok w \<Longrightarrow> length s \<le> buffer_size_remaining w \<Longrightarrow> mw_ok (mw_write s w)"
  by (simp add: mw_ok_def [of "mw_write s w"] mw_write_length) (simp add: mw_ok_def buffer_size_remaining_def)

lemma mw_write_message:
  "mw_ok w \<Longrightarrow> writer_message (mw_write s w) = writer_message w @ s"
  by (simp add: writer_message_def mw_write_def mw_ok_def take_blit_end)

lemma blit_blit: "p \<le> length m \<Longrightarrow> p + length a \<le> length m \<Longrightarrow> blit (p + length a) b (blit p a m) = blit p (a @ b) m"
  by (cases a) (auto simp: blit_def min_def ac_simps)

lemma mw_write_write:
  assumes "mw_ok w" and "length a \<le> buffer_size_remaining w"
  shows "mw_write b (mw_write a w) = mw_write (a @ b) w"
  using assms blit_blit [of "mw_next w" "mw_mem w" a b]
  by (simp add: mw_write_def mw_ok_def buffer_size_remaining_def)

lemma mw_write_frame:
  "mw_ok w \<Longrightarrow> mw_next w + length s \<le> k \<Longrightarrow> drop k (mw_mem (mw_write s w)) = drop k (mw_mem w)"
  by (simp add: mw_write_def mw_ok_def blit_def)

lemma drop_blit: "pos + length src \<le> k \<Longrightarrow> pos \<le> length dst \<Longrightarrow> drop k (blit pos src dst) = drop k dst"
  by (simp add: blit_def)

text \<open>What every \<open>push_back\<close> of one field promises.\<close>

definition writes_text :: "(message_writer \<Rightarrow> hffix_error + message_writer) \<Rightarrow> string \<Rightarrow> bool" where
  "writes_text f t \<longleftrightarrow> (\<forall>w. mw_ok w \<longrightarrow>
     f w = (if length t \<le> buffer_size_remaining w then Inr (mw_write t w) else Inl range_error))"

definition int_field :: "int \<Rightarrow> bool" where
  "int_field t \<longleftrightarrow> - (2 ^ 31) < t \<and> t < 2 ^ 31"

lemma itoa_tag: "int_field tag \<Longrightarrow> itoa 32 tag room = (if length (dec_int tag) \<le> room then Some (dec_int tag) else None)"
  by (rule itoa_dec_int) (simp_all add: int_field_def)

lemma push_back_string_writes: "int_field tag \<Longrightarrow> writes_text (push_back_string tag s) (field_text (tag, s))"
  by (auto simp: writes_text_def push_back_string_def itoa_tag mw_option_def mw_need_def mw_write_remaining
      mw_write_write field_text_def)

lemma push_back_cstring_writes: "int_field tag \<Longrightarrow> writes_text (push_back_cstring tag s) (field_text (tag, s))"
  using push_back_string_writes [of tag s] by (auto simp: writes_text_def push_back_cstring_def field_text_def)

lemma push_back_char_writes: "int_field tag \<Longrightarrow> writes_text (push_back_char tag c) (field_text (tag, [c]))"
  by (auto simp: writes_text_def push_back_char_def itoa_tag mw_option_def mw_need_def mw_write_remaining
      mw_write_write field_text_def numeral_3_eq_3)

lemma push_back_number_writes:
  assumes "int_field tag" and print: "\<And>room. prt room = (if length s \<le> room then Some s else None)"
  shows "writes_text (push_back_number tag prt) (field_text (tag, s))"
proof -
  have "push_back_number tag prt w =
      (if length (field_text (tag, s)) \<le> buffer_size_remaining w then Inr (mw_write (field_text (tag, s)) w) else Inl range_error)"
    if ok: "mw_ok w" for w
  proof (cases "length (dec_int tag) < buffer_size_remaining w")
    case False
    then show ?thesis using assms(1) ok
      by (auto simp: push_back_number_def itoa_tag mw_option_def mw_need_def mw_write_remaining field_text_def)
  next
    case True
    let ?w1 = "mw_write (dec_int tag @ ''='') w"
    have w1: "mw_ok ?w1" "buffer_size_remaining ?w1 = buffer_size_remaining w - length (dec_int tag) - 1"
      using ok True by (simp_all add: mw_write_ok mw_write_remaining)
    have "push_back_number tag prt w = err_bind (mw_option (prt (buffer_size_remaining ?w1)) ?w1)
        (\<lambda>w. err_bind (mw_need 1 w) (\<lambda>w. Inr (mw_write [SOH] w)))"
      using assms(1) ok True mw_write_write [of w "dec_int tag" "''=''"]
      by (simp add: push_back_number_def itoa_tag mw_option_def mw_need_def mw_write_remaining Let_def
          split: option.split)
    then show ?thesis
      using w1 True ok mw_write_write [of w "dec_int tag @ ''=''" "s @ [SOH]"]
      by (auto simp: print mw_option_def mw_need_def mw_write_remaining mw_write_write field_text_def)
  qed
  then show ?thesis by (simp add: writes_text_def)
qed

lemma push_back_int_writes:
  "int_field tag \<Longrightarrow> - (2 ^ (bits - 1)) < k \<Longrightarrow> k < 2 ^ (bits - 1) \<Longrightarrow> 0 < bits \<Longrightarrow>
    writes_text (push_back_int tag bits k) (field_text (tag, dec_int k))"
  unfolding push_back_int_def by (rule push_back_number_writes) (simp_all add: itoa_dec_int)

lemma push_back_decimal_writes:
  "int_field tag \<Longrightarrow> - (2 ^ (bits - 1)) < m \<Longrightarrow> m < 2 ^ (bits - 1) \<Longrightarrow> int k < 2 ^ (bits - 1) \<Longrightarrow> 5 \<le> bits \<Longrightarrow>
    writes_text (push_back_decimal tag bits m (- int k)) (field_text (tag, dec_text m k))"
  unfolding push_back_decimal_def by (rule push_back_number_writes) (simp_all add: dtoa_dec_text)

text \<open>Fields one after the other.\<close>

fun push_all :: "(message_writer \<Rightarrow> hffix_error + message_writer) list \<Rightarrow> message_writer \<Rightarrow> hffix_error + message_writer" where
  "push_all [] w = Inr w"
| "push_all (f # fs) w = err_bind (f w) (push_all fs)"

lemma push_all_writes:
  "list_all2 writes_text ops ts \<Longrightarrow> mw_ok w \<Longrightarrow>
    push_all ops w = (if length (concat ts) \<le> buffer_size_remaining w then Inr (mw_write (concat ts) w) else Inl range_error)"
proof (induction ops ts arbitrary: w rule: list_all2_induct)
  case Nil
  then show ?case by (simp add: mw_write_def blit_def)
next
  case (Cons f fs t ts)
  then have f: "f w = (if length t \<le> buffer_size_remaining w then Inr (mw_write t w) else Inl range_error)"
    by (simp add: writes_text_def)
  show ?case
  proof (cases "length t \<le> buffer_size_remaining w")
    case True
    then have "mw_ok (mw_write t w)" using Cons.prems by (simp add: mw_write_ok)
    then show ?thesis using True f Cons.IH [of "mw_write t w"] Cons.prems
      by (auto simp: mw_write_remaining mw_write_write)
  next
    case False
    then show ?thesis using f by simp
  qed
qed

section \<open>Writing a whole message\<close>

definition write_message ::
  "string \<Rightarrow> (message_writer \<Rightarrow> hffix_error + message_writer) list \<Rightarrow> message_writer \<Rightarrow> hffix_error + message_writer" where
  "write_message version ops w =
     err_bind (push_back_header version w) (\<lambda>w. err_bind (push_all ops w) (push_back_trailer True))"

lemma header_writes:
  assumes "12 + length version \<le> length mem"
  obtains w g where "push_back_header version (writer_new mem) = Inr w" "mw_ok w" "length g = 6"
    "writer_message w = ''8='' @ version @ [SOH] @ ''9='' @ g @ [SOH]" "mw_next w = 12 + length version"
    "mw_body_length w = Some (5 + length version)" "length (mw_mem w) = length mem"
    "drop (12 + length version) (mw_mem w) = drop (12 + length version) mem"
proof -
  let ?h = "''8='' @ version @ [SOH] @ ''9=''"
  let ?w1 = "mw_write ?h (writer_new mem)"
  let ?w2 = "?w1\<lparr>mw_body_length := Some (mw_next ?w1), mw_next := mw_next ?w1 + 6\<rparr>"
  let ?g = "segment (5 + length version) 6 (mw_mem ?w1)"
  have new: "mw_ok (writer_new mem)" "buffer_size_remaining (writer_new mem) = length mem" "mw_next (writer_new mem) = 0"
      "mw_body_length (writer_new mem) = None" "mw_mem (writer_new mem) = mem"
    by (simp_all add: writer_new_def mw_ok_def buffer_size_remaining_def)
  have next1: "mw_next ?w1 = 5 + length version" using new by simp
  have len1: "length (mw_mem ?w1) = length mem" using new assms by (subst mw_write_length) simp_all
  have next2: "mw_next ?w2 = 11 + length version" "mw_mem ?w2 = mw_mem ?w1" using next1 by simp_all
  have ok2: "mw_ok ?w2" "1 \<le> buffer_size_remaining ?w2"
    unfolding mw_ok_def buffer_size_remaining_def next2 len1 using assms by simp_all
  have "writer_message ?w2 = take (5 + length version) (mw_mem ?w1) @ ?g"
    unfolding writer_message_def next2 segment_def by (simp flip: take_add add: add.commute)
  also have "take (5 + length version) (mw_mem ?w1) = ?h"
    using mw_write_message [OF new(1), of ?h] unfolding writer_message_def next1 new(3) by (simp only: take_0 append_Nil)
  finally have msg: "writer_message (mw_write [SOH] ?w2) = ?h @ ?g @ [SOH]"
    using mw_write_message [OF ok2(1)] by simp
  have "push_back_header version (writer_new mem) = Inr (mw_write [SOH] ?w2)"
    using assms new by (simp add: push_back_header_def mw_need_def Let_def)
  then show ?thesis
  proof (rule that)
    show "mw_ok (mw_write [SOH] ?w2)" using ok2 by (intro mw_write_ok) simp_all
    show "length ?g = 6" using len1 assms by simp
    show "writer_message (mw_write [SOH] ?w2) = ''8='' @ version @ [SOH] @ ''9='' @ ?g @ [SOH]" using msg by simp
    show "length (mw_mem (mw_write [SOH] ?w2)) = length mem" using ok2 len1 by (subst mw_write_length) simp_all
    have "drop (12 + length version) (mw_mem (mw_write [SOH] ?w2)) = drop (12 + length version) (mw_mem ?w2)"
      using ok2(1) next2(1) by (intro mw_write_frame) simp_all
    also have "\<dots> = drop (12 + length version) (mw_mem (writer_new mem))"
      unfolding next2(2) using new by (intro mw_write_frame) simp_all
    finally show "drop (12 + length version) (mw_mem (mw_write [SOH] ?w2)) = drop (12 + length version) mem"
      by (simp add: new)
  qed (use next1 in simp_all)
qed

lemma trailer_writes:
  assumes ok: "mw_ok w" and bl: "mw_body_length w = Some (length pre)" and g: "length g = 6"
    and msg: "writer_message w = pre @ g @ [SOH] @ body"
  shows "push_back_trailer True w =
    (if 7 \<le> buffer_size_remaining w
     then (let s = pre @ six_digits (length body) @ [SOH] @ body
           in Inr (mw_write (trailer_text s) (w\<lparr>mw_mem := blit (length pre) (six_digits (length body)) (mw_mem w)\<rparr>)))
     else Inl range_error)"
    and "mw_ok (w\<lparr>mw_mem := blit (length pre) (six_digits (length body)) (mw_mem w)\<rparr>)"
    and "writer_message (w\<lparr>mw_mem := blit (length pre) (six_digits (length body)) (mw_mem w)\<rparr>)
      = pre @ six_digits (length body) @ [SOH] @ body"
proof -
  let ?w1 = "w\<lparr>mw_mem := blit (length pre) (six_digits (length body)) (mw_mem w)\<rparr>"
  have nxt: "mw_next w = length pre + 7 + length body"
    using ok arg_cong [OF msg, of length] g by (simp add: writer_message_def mw_ok_def)
  have mem: "mw_mem w = (pre @ g @ [SOH] @ body) @ drop (mw_next w) (mw_mem w)"
    using msg by (metis append_take_drop_id writer_message_def)
  have len1: "length (mw_mem ?w1) = length (mw_mem w)" using ok nxt by (simp add: mw_ok_def)
  show ok1: "mw_ok ?w1" using ok len1 by (simp add: mw_ok_def)
  have "blit (length pre) (six_digits (length body)) (mw_mem w)
      = (pre @ six_digits (length body) @ [SOH] @ body) @ drop (mw_next w) (mw_mem w)"
    using g by (subst mem) (simp add: blit_def)
  then show m1: "writer_message ?w1 = pre @ six_digits (length body) @ [SOH] @ body"
    using nxt by (simp add: writer_message_def)
  have rem: "buffer_size_remaining ?w1 = buffer_size_remaining w" using len1 by (simp add: buffer_size_remaining_def)
  have six: "map (\<lambda>d. digit_char (length body div d mod 10)) [100000, 10000, 1000, 100, 10, 1] = six_digits (length body)"
    by (simp add: six_digits_def)
  have cs: "foldl (\<lambda>a c. a + byte_of_char c) 0 (take (mw_next ?w1) (mw_mem ?w1))
      = check_sum (pre @ six_digits (length body) @ [SOH] @ body)"
    using m1 by (simp add: writer_message_def check_sum_def)
  have len: "mw_next w - (length pre + 7) = length body" using nxt by simp
  show "push_back_trailer True w =
    (if 7 \<le> buffer_size_remaining w
     then (let s = pre @ six_digits (length body) @ [SOH] @ body in Inr (mw_write (trailer_text s) ?w1))
     else Inl range_error)"
    unfolding push_back_trailer_def bl option.case Let_def len six
    using rem cs by (simp add: mw_need_def trailer_text_def three_digits_def)
qed

lemma write_message_spec:
  assumes ops: "list_all2 writes_text ops (map field_text fs)"
    and room: "length (message_text version fs) \<le> length mem"
  shows "\<exists>w. write_message version ops (writer_new mem) = Inr w \<and> writer_message w = message_text version fs
    \<and> mw_next w = length (message_text version fs)
    \<and> mw_mem w = message_text version fs @ drop (length (message_text version fs)) mem"
proof -
  let ?b = "body_text fs"
  have total: "19 + length version + length ?b \<le> length mem"
    using room by (simp add: message_text_def Let_def head_text_def trailer_text_def)
  then have "12 + length version \<le> length mem" by simp
  then obtain w g where h: "push_back_header version (writer_new mem) = Inr w" "mw_ok w" "length g = 6"
    "writer_message w = ''8='' @ version @ [SOH] @ ''9='' @ g @ [SOH]" "mw_next w = 12 + length version"
    "mw_body_length w = Some (5 + length version)" "length (mw_mem w) = length mem"
    and fr: "drop (12 + length version) (mw_mem w) = drop (12 + length version) mem"
    by (rule header_writes)
  have rem: "length ?b \<le> buffer_size_remaining w" using h total by (simp add: buffer_size_remaining_def)
  let ?w2 = "mw_write ?b w"
  have p: "push_all ops w = Inr ?w2" using push_all_writes [OF ops h(2)] rem by (simp add: body_text_def)
  let ?pre = "''8='' @ version @ [SOH] @ ''9=''"
  have w2: "mw_ok ?w2" "mw_body_length ?w2 = Some (length ?pre)" "writer_message ?w2 = ?pre @ g @ [SOH] @ ?b"
    "7 \<le> buffer_size_remaining ?w2" "length (mw_mem ?w2) = length mem"
    using h rem total by (simp_all add: mw_write_ok mw_write_message mw_write_remaining mw_write_length buffer_size_remaining_def)
  let ?s = "?pre @ six_digits (length ?b) @ [SOH] @ ?b"
  let ?w3 = "?w2\<lparr>mw_mem := blit (length ?pre) (six_digits (length ?b)) (mw_mem ?w2)\<rparr>"
  note t = trailer_writes [OF w2(1,2) h(3) w2(3)]
  have w3: "mw_ok ?w3" "writer_message ?w3 = ?s" "length (trailer_text ?s) \<le> buffer_size_remaining ?w3"
    "length (mw_mem ?w3) = length mem"
    using t(2,3) w2(4,5) total h by (simp_all add: buffer_size_remaining_def trailer_text_def)
  have "write_message version ops (writer_new mem) = Inr (mw_write (trailer_text ?s) ?w3)"
    using h(1) p t(1) w2(4) by (simp add: write_message_def Let_def)
  moreover have msg: "writer_message (mw_write (trailer_text ?s) ?w3) = message_text version fs"
    using mw_write_message [OF w3(1)] w3(2) by (simp add: message_text_def Let_def head_text_def)
  moreover have nxt: "mw_next (mw_write (trailer_text ?s) ?w3) = length (message_text version fs)"
    using h(5) by (simp add: message_text_def Let_def head_text_def trailer_text_def)
  moreover have "mw_mem (mw_write (trailer_text ?s) ?w3) = message_text version fs @ drop (length (message_text version fs)) mem"
  proof -
    let ?k = "length (message_text version fs)"
    have k: "?k = 19 + length version + length ?b"
      by (simp add: message_text_def Let_def head_text_def trailer_text_def)
    have "drop ?k (mw_mem (mw_write (trailer_text ?s) ?w3)) = drop ?k (mw_mem ?w3)"
      using w3(1) nxt by (intro mw_write_frame) simp_all
    also have "\<dots> = drop ?k (mw_mem ?w2)" using w2(5) total k by (simp add: drop_blit)
    also have "\<dots> = drop ?k (mw_mem w)" using h(2,5) k by (intro mw_write_frame) simp_all
    also have "\<dots> = drop ?k mem"
      using arg_cong [OF fr, of "drop (7 + length ?b)"] k by (simp add: add.commute add.left_commute)
    finally show ?thesis using msg nxt
      by (metis append_take_drop_id writer_message_def)
  qed
  ultimately show ?thesis by blast
qed

section \<open>Data-length tags\<close>

lemma sorted_dropWhile_mem:
  "sorted xs \<Longrightarrow> (case dropWhile (\<lambda>y. \<not> y \<ge> t) xs of [] \<Rightarrow> False | x # _ \<Rightarrow> x = t) \<longleftrightarrow> t \<in> set xs"
  for t :: int
  by (induction xs) auto

lemma length_fields_sorted: "sorted length_fields"
  by code_simp

lemma is_tag_a_data_length_iff: "is_tag_a_data_length tag \<longleftrightarrow> tag \<in> set length_fields"
  unfolding is_tag_a_data_length_def by (rule sorted_dropWhile_mem [OF length_fields_sorted])

section \<open>Scanning\<close>

lemma drop_Cons_nth: "drop i buf = c # cs \<Longrightarrow> i < length buf \<and> buf ! i = c \<and> drop (Suc i) buf = cs"
proof -
  assume d: "drop i buf = c # cs"
  then have i: "i < length buf" by (metis drop_eq_Nil2 list.discI not_le)
  then show ?thesis using d by (simp add: Cons_nth_drop_Suc [symmetric])
qed

lemma char_at_nat: "i < length buf \<Longrightarrow> char_at buf (int i) = Inr (buf ! i)"
  by (simp add: char_at_def)

lemma scan_tag_step:
  "drop i buf = c # cs \<Longrightarrow> scan_tag soh buf (int i) tag =
     (if c = CHR ''='' \<or> soh \<and> c = SOH then Inr (int i, tag)
      else scan_tag soh buf (int (Suc i)) (int_wrap 32 (int_wrap 32 (tag * 10) + (schar c - 48))))"
  by (subst scan_tag.simps) (auto dest!: drop_Cons_nth simp: Let_def add.commute)

lemma schar_range: "- 128 \<le> schar c \<and> schar c \<le> 127"
proof -
  have "(of_char c :: int) = int (of_char c)" by (simp only: of_nat_of_char)
  moreover have "int (of_char c) < 256" using nat_of_char_less_256 [of c] by linarith
  ultimately have "0 \<le> (of_char c :: int)" "(of_char c :: int) < 256" by linarith+
  then show ?thesis by (simp add: schar_def Let_def)
qed

lemma atoi_step_32: "int_wrap 32 (int_wrap 32 (tag * 10) + (schar c - 48)) = atoi_step 32 tag c"
  using schar_range [of c] by (simp add: atoi_step_def int_wrap_32)

lemma scan_tag_digits:
  "drop i buf = ds @ CHR ''='' # cs \<Longrightarrow> CHR ''='' \<notin> set ds \<Longrightarrow> SOH \<notin> set ds \<Longrightarrow>
    scan_tag soh buf (int i) tag = Inr (int (i + length ds), foldl (atoi_step 32) tag ds)"
proof (induction ds arbitrary: i tag)
  case Nil
  then show ?case by (simp add: scan_tag_step)
next
  case (Cons d ds)
  have "drop i buf = d # (ds @ CHR ''='' # cs)" using Cons.prems by simp
  note step = scan_tag_step [OF this] and rest = drop_Cons_nth [OF this]
  have "scan_tag soh buf (int (Suc i)) (atoi_step 32 tag d) = Inr (int (Suc i + length ds), foldl (atoi_step 32) (atoi_step 32 tag d) ds)"
    using rest Cons.prems by (intro Cons.IH) simp_all
  then show ?case using step Cons.prems by (auto simp: atoi_step_32)
qed

lemma digit_char_special [simp]: "d < 10 \<Longrightarrow> digit_char d \<noteq> CHR ''=''" "d < 10 \<Longrightarrow> digit_char d \<noteq> SOH"
  by (frule schar_digit, force simp: schar_def)+

lemma dec_nat_special: "CHR ''='' \<notin> set (dec_nat n)" "SOH \<notin> set (dec_nat n)"
  using dec_nat_chars [of n] digit_char_special by fastforce+

lemma find_soh_spec:
  "drop i buf = v @ SOH # cs \<Longrightarrow> SOH \<notin> set v \<Longrightarrow> int (i + length v) \<le> e \<Longrightarrow>
    find_soh buf (int i) e = Inr (int (i + length v))"
proof (induction v arbitrary: i)
  case Nil
  then show ?case by (subst find_soh.simps) (auto dest!: drop_Cons_nth)
next
  case (Cons x v)
  have "drop i buf = x # (v @ SOH # cs)" using Cons.prems by simp
  note rest = drop_Cons_nth [OF this]
  have "find_soh buf (int (Suc i)) e = Inr (int (Suc i + length v))"
    using rest Cons.prems by (intro Cons.IH) simp_all
  then show ?case using rest Cons.prems by (subst find_soh.simps) (auto simp: add.commute)
qed

text \<open>A field as the writer writes it.\<close>

definition good_field :: "int \<times> string \<Rightarrow> bool" where
  "good_field f \<longleftrightarrow> 0 < fst f \<and> fst f < 2 ^ 31 \<and> fst f \<notin> set length_fields \<and> SOH \<notin> set (snd f)"

definition field_iterator :: "nat \<Rightarrow> int \<times> string \<Rightarrow> hf_iterator" where
  "field_iterator p f =
     \<lparr>it_buffer = int p, it_tag = fst f, it_vbegin = int (p + length (dec_int (fst f)) + 1),
      it_vend = int (p + length (dec_int (fst f)) + 1 + length (snd f))\<rparr>"

lemma field_iterator_sel [simp]:
  "it_buffer (field_iterator p f) = int p" "it_tag (field_iterator p f) = fst f"
  by (simp_all add: field_iterator_def)

lemma field_iterator_next: "it_vend (field_iterator p f) + 1 = int (p + length (field_text f))"
  by (simp add: field_iterator_def field_text_def)

lemma field_text_not_Nil [simp]: "field_text f \<noteq> []"
  by (simp add: field_text_def)

lemma increment_field:
  assumes f: "good_field f" and drop: "drop p (mr_buffer r) = field_text f @ cs"
    and it: "it_vend it + 1 = int p" and valid: "mr_is_valid r"
    and fin: "int (p + length (field_text f)) \<le> it_vend (mr_end r) + 2"
  shows "iterator_increment r it = Inr (field_iterator p f)"
proof -
  obtain t v where tv: "f = (t, v)" by (cases f)
  define n where "n = nat t"
  have t: "t = int n" "n < 2 ^ 31" "\<not> is_tag_a_data_length t" "SOH \<notin> set v"
    using f by (auto simp: good_field_def tv n_def is_tag_a_data_length_iff nat_less_iff)
  have dec: "dec_int t = dec_nat n" using t by (simp add: dec_int_def)
  let ?q = "p + length (dec_nat n)"
  have d1: "drop p (mr_buffer r) = dec_nat n @ CHR ''='' # (v @ SOH # cs)"
    using drop by (simp add: field_text_def tv dec)
  have st: "scan_tag True (mr_buffer r) (int p) 0 = Inr (int ?q, t)"
    using scan_tag_digits [OF d1 dec_nat_special, of True 0] foldl_atoi_dec_nat [of n 32] t by simp
  have d2: "drop ?q (mr_buffer r) = CHR ''='' # (v @ SOH # cs)"
    using arg_cong [OF d1, of "drop (length (dec_nat n))"] by (simp add: add.commute)
  have d3: "drop (Suc ?q) (mr_buffer r) = v @ SOH # cs" using drop_Cons_nth [OF d2] by simp
  have ca: "char_at (mr_buffer r) (int ?q) = Inr (CHR ''='')" using drop_Cons_nth [OF d2] by (simp add: char_at_def nat_int_add)
  have "find_soh (mr_buffer r) (int (Suc ?q)) (it_vend (mr_end r) + 1) = Inr (int (Suc ?q + length v))"
    using fin by (intro find_soh_spec [OF d3 t(4)]) (simp add: field_text_def tv dec)
  then have fs: "find_soh (mr_buffer r) (int ?q + 1) (it_vend (mr_end r) + 1) = Inr (int ?q + 1 + int (length v))"
    by (simp add: ac_simps)
  show ?thesis
    unfolding iterator_increment_def Let_def it st err_bind.simps prod.case ca
    using fs t(3) valid by (simp add: reader_message_end_def field_iterator_def tv dec)
qed

lemma value_field:
  assumes "drop p (mr_buffer r) = field_text f @ cs"
  shows "as_string r (field_iterator p f) = Inr (snd f)"
proof -
  let ?k = "length (dec_int (fst f))"
  have len: "p + ?k + 1 + length (snd f) \<le> length (mr_buffer r)"
    using arg_cong [OF assms, of length] by (simp add: field_text_def)
  have "drop (?k + 1) (drop p (mr_buffer r)) = snd f @ SOH # cs" by (simp add: assms field_text_def)
  then have "segment (p + ?k + 1) (length (snd f)) (mr_buffer r) = snd f"
    by (simp add: segment_def add.commute)
  then show ?thesis using len
    by (auto simp: as_string_def value_range_def text_range_def field_iterator_def nat_add_distrib)
qed

section \<open>Visiting all fields\<close>

text \<open>\<^verbatim>\<open>for (i = reader.begin(); i != reader.end(); ++i)\<close>, collecting tag and value.\<close>

primrec fields_from :: "nat \<Rightarrow> message_reader \<Rightarrow> hf_iterator \<Rightarrow> hffix_error + (int \<times> string) list" where
  "fields_from 0 r it = (if it_buffer it = it_buffer (mr_end r) then Inr [] else Inl diverges)"
| "fields_from (Suc n) r it =
     (if it_buffer it = it_buffer (mr_end r) then Inr []
      else err_bind (as_string r it) (\<lambda>v.
        err_bind (iterator_increment r it) (\<lambda>it'.
          err_bind (fields_from n r it') (\<lambda>fs. Inr ((it_tag it, v) # fs)))))"

lemma fields_from_body:
  assumes "list_all good_field (f # fs)" and "drop p (mr_buffer r) = body_text (f # fs) @ cs"
    and "it_buffer (mr_end r) = int (p + length (body_text (f # fs)))" and "it_vend (mr_end r) = it_buffer (mr_end r) + 6"
    and "cs = ''10='' @ ck @ SOH # cs'" "length ck = 3" "SOH \<notin> set ck" "mr_is_valid r" "length fs < n"
  shows "fields_from n r (field_iterator p f) = Inr (f # fs)"
  using assms
proof (induction fs arbitrary: n p f)
  case Nil
  then obtain m where n: "n = Suc m" by (cases n) simp_all
  have tx: "drop p (mr_buffer r) = field_text f @ cs" using Nil.prems(2) by (simp add: body_text_def)
  have v: "as_string r (field_iterator p f) = Inr (snd f)" by (rule value_field [OF tx])
  let ?q = "p + length (field_text f)"
  have t10: "dec_int 10 = ''10''" by (simp add: dec_int_def dec_nat_rec digit_chars)
  have "drop ?q (mr_buffer r) = field_text (10, ck) @ cs'"
    using arg_cong [OF tx, of "drop (length (field_text f))"] Nil.prems(5)
    by (simp add: add.commute t10 field_text_def)
  moreover have "good_field (10, ck)" using Nil.prems(7) by (simp add: good_field_def length_fields_def)
  moreover have "int (?q + length (field_text (10, ck))) \<le> it_vend (mr_end r) + 2"
    using Nil.prems(3,4,6) by (simp add: body_text_def field_text_def t10)
  ultimately have "iterator_increment r (field_iterator p f) = Inr (field_iterator ?q (10, ck))"
    using Nil.prems(8) field_iterator_next [of p f] by (intro increment_field) simp_all
  moreover have "fields_from m r (field_iterator ?q (10, ck)) = Inr []"
    using Nil.prems(3) by (cases m) (simp_all add: body_text_def)
  moreover have "int p \<noteq> it_buffer (mr_end r)" unfolding Nil.prems(3) by (simp add: body_text_def)
  ultimately show ?case using v n by simp
next
  case (Cons g fs)
  then obtain m where n: "n = Suc m" by (cases n) simp_all
  have tx: "drop p (mr_buffer r) = field_text f @ (body_text (g # fs) @ cs)"
    using Cons.prems(2) by (simp add: body_text_def)
  have v: "as_string r (field_iterator p f) = Inr (snd f)" by (rule value_field [OF tx])
  let ?q = "p + length (field_text f)"
  have rest: "drop ?q (mr_buffer r) = body_text (g # fs) @ cs"
    using arg_cong [OF tx, of "drop (length (field_text f))"] by (simp add: add.commute)
  then have "drop ?q (mr_buffer r) = field_text g @ (body_text fs @ cs)" by (simp add: body_text_def)
  moreover have "int (?q + length (field_text g)) \<le> it_vend (mr_end r) + 2"
    using Cons.prems(3,4) by (simp add: body_text_def)
  ultimately have "iterator_increment r (field_iterator p f) = Inr (field_iterator ?q g)"
    using Cons.prems(1,8) field_iterator_next [of p f] by (intro increment_field) simp_all
  moreover have "fields_from m r (field_iterator ?q g) = Inr (g # fs)"
    using Cons.prems rest n by (intro Cons.IH) (simp_all add: body_text_def)
  moreover have "int p \<noteq> it_buffer (mr_end r)" unfolding Cons.prems(3) by (simp only: of_nat_eq_iff) (simp add: body_text_def)
  ultimately show ?case using v n by simp
qed

section \<open>Accepting what was written\<close>

lemma init_prefix_found:
  assumes "drop 2 buf = version @ SOH # cs" and "SOH \<notin> set version" and "7 \<le> length version" and "length version \<le> 10"
  shows "init_prefix buf 9 = Found (2 + length version)"
proof -
  have nth: "buf ! (2 + i) = (version @ SOH # cs) ! i" if "i \<le> length version" for i
    using assms(1) that by (metis add_diff_cancel_left' length_append length_Cons less_add_Suc1 nth_drop drop_eq_Nil2 nat_le_linear le_add1 list.discI append_is_Nil_conv)
  have len: "2 + length version < length buf"
    using arg_cong [OF assms(1), of length] by simp
  have no: "buf ! j \<noteq> SOH" if "9 \<le> j" "j < 2 + length version" for j
  proof -
    have "2 + (j - 2) = j" "j - 2 < length version" using that by simp_all
    then have "buf ! j = version ! (j - 2)" "version ! (j - 2) \<in> set version"
      using nth [of "j - 2"] by (simp_all add: nth_append)
    then show ?thesis using assms(2) by metis
  qed
  have "init_prefix buf j = Found (2 + length version)" if "9 \<le> j" "j \<le> 2 + length version" for j
    using that
  proof (induction "2 + length version - j" arbitrary: j)
    case 0
    then show ?case using nth [of "length version"] len by (subst init_prefix.simps) simp
  next
    case (Suc k)
    then have "init_prefix buf (j + 1) = Found (2 + length version)" by (intro Suc.hyps) simp_all
    then show ?case using Suc.prems Suc.hyps(2) no [of j] len assms(4) by (subst init_prefix.simps) simp
  qed
  then show ?thesis using assms(3) by simp
qed

lemma init_body_length_digits:
  "drop i buf = map digit_char ds @ SOH # cs \<Longrightarrow> list_all (\<lambda>d. d < 10) ds \<Longrightarrow>
    acc * 10 ^ length ds + foldl (\<lambda>v d. v * 10 + d) 0 ds < size_t_mod \<Longrightarrow>
    init_body_length buf i acc = Found (i + length ds, acc * 10 ^ length ds + foldl (\<lambda>v d. v * 10 + d) 0 ds)"
proof (induction ds arbitrary: i acc)
  case Nil
  then show ?case using drop_Cons_nth [of i buf SOH cs] by (subst init_body_length.simps) simp
next
  case (Cons d ds)
  have shift: "foldl (\<lambda>v d. v * 10 + d) a ds = a * 10 ^ length ds + foldl (\<lambda>v d. v * 10 + d) 0 ds" for a :: nat
  proof (induction ds arbitrary: a)
    case Nil
    then show ?case by simp
  next
    case (Cons x xs)
    show ?case using Cons [of "a * 10 + x"] Cons [of x] by (simp add: algebra_simps)
  qed
  have dr: "drop i buf = digit_char d # (map digit_char ds @ SOH # cs)" using Cons.prems by simp
  note rest = drop_Cons_nth [OF dr]
  have d: "d < 10" using Cons.prems by simp
  have total: "acc * 10 ^ length (d # ds) + foldl (\<lambda>v d. v * 10 + d) 0 (d # ds)
      = (acc * 10 + d) * 10 ^ length ds + foldl (\<lambda>v d. v * 10 + d) 0 ds"
    using shift [of d] by (simp add: algebra_simps)
  have small: "acc * 10 + d < size_t_mod"
  proof -
    have "acc * 10 + d \<le> (acc * 10 + d) * 10 ^ length ds" by simp
    then show ?thesis
      by (rule le_less_trans [OF trans_le_add1 Cons.prems(3) [unfolded total]])
  qed
  then have "sz_add (sz_mul acc 10) d = acc * 10 + d" by (simp add: sz_add_def sz_mul_def)
  moreover have "init_body_length buf (Suc i) (acc * 10 + d)
      = Found (Suc i + length ds, (acc * 10 + d) * 10 ^ length ds + foldl (\<lambda>v d. v * 10 + d) 0 ds)"
    using rest Cons.prems total by (intro Cons.IH) simp_all
  ultimately show ?case using rest d total by (subst init_body_length.simps) (simp add: total)
qed

lemma six_digits_digits: "six_digits n = map digit_char (map (\<lambda>d. n div d mod 10) [100000, 10000, 1000, 100, 10, 1])"
  by (simp add: six_digits_def)

lemma six_digits_value:
  assumes "n < 1000000"
  shows "foldl (\<lambda>v d. v * 10 + d) 0 (map (\<lambda>d. n div d mod 10) [100000, 10000, 1000, 100, 10, 1]) = (n :: nat)"
proof -
  have step: "n div (k * 10) * 10 + n div k mod 10 = n div k" for k by (simp add: div_mult2_eq)
  have "n div 100000 mod 10 = n div 100000" using assms by simp
  then show ?thesis
    using step [of 10000] step [of 1000] step [of 100] step [of 10] step [of 1] by simp
qed

lemma init_body_length_six:
  assumes "drop i buf = six_digits n @ SOH # cs" and "n < 1000000"
  shows "init_body_length buf i 0 = Found (i + 6, n)"
  using init_body_length_digits [OF assms(1) [unfolded six_digits_digits], of 0] assms(2)
  unfolding six_digits_value [OF assms(2)] by (simp add: size_t_mod_def)

lemma init_msg_type_found:
  "drop (Suc i) buf = v @ SOH # cs \<Longrightarrow> SOH \<notin> set v \<Longrightarrow> int (Suc i + length v) \<le> checksum \<Longrightarrow>
    init_msg_type buf checksum (int i) = Inr (Found (int (Suc i + length v)))"
proof (induction v arbitrary: i)
  case Nil
  then show ?case using drop_Cons_nth [of "Suc i" buf SOH cs]
    by (subst init_msg_type.simps) (simp add: nat_add_distrib add.commute)
next
  case (Cons x v)
  have "drop (Suc i) buf = x # (v @ SOH # cs)" using Cons.prems by simp
  note rest = drop_Cons_nth [OF this]
  have "init_msg_type buf checksum (int (Suc i)) = Inr (Found (int (Suc (Suc i) + length v)))"
    using rest Cons.prems by (intro Cons.IH) simp_all
  then show ?case using rest Cons.prems
    by (subst init_msg_type.simps) (auto simp: nat_add_distrib add.commute)
qed

lemma ptr_add_exact:
  "0 \<le> int address + p + int n \<Longrightarrow> int address + p + int n < 2 ^ 64 \<Longrightarrow> ptr_add address p n = p + int n"
  by (simp add: ptr_add_def)

text \<open>What the reader makes of a message: the iterators at the message type and at the
  checksum.\<close>

definition reads_message :: "message_reader \<Rightarrow> nat \<Rightarrow> (int \<times> string) list \<Rightarrow> bool" where
  "reads_message r b fs \<longleftrightarrow> mr_is_valid r \<and> mr_is_complete r \<and> fs \<noteq> [] \<and> mr_begin r = field_iterator b (hd fs)
     \<and> it_buffer (mr_end r) = int (b + length (body_text fs)) \<and> it_vend (mr_end r) = it_buffer (mr_end r) + 6
     \<and> it_vbegin (mr_end r) = it_buffer (mr_end r) + 3
     \<and> (\<exists>ck cs. drop b (mr_buffer r) = body_text fs @ ''10='' @ ck @ SOH # cs \<and> length ck = 3 \<and> SOH \<notin> set ck)"

lemma init_body_reads:
  assumes buf: "mr_buffer r = pre @ body_text ((35, mt) # fs) @ ''10='' @ ck @ SOH # rest" and ck: "length ck = 3" "SOH \<notin> set ck"
    and b: "b = length pre" and mt: "mt \<noteq> []" "SOH \<notin> set mt"
    and addr: "mr_address r + length (mr_buffer r) < 2 ^ 64" and valid: "mr_is_valid r"
  shows "\<exists>r'. init_body b (length (body_text ((35, mt) # fs))) r = Inr r' \<and> reads_message r' b ((35, mt) # fs)
    \<and> mr_buffer r' = mr_buffer r \<and> mr_address r' = mr_address r"
proof -
  let ?B = "body_text ((35, mt) # fs)"
  let ?L = "length ?B"
  let ?buf = "mr_buffer r"
  have t35: "dec_int 35 = ''35''" by (simp add: dec_int_def dec_nat_rec digit_chars)
  have B: "?B = ''35='' @ mt @ [SOH] @ body_text fs" by (simp add: body_text_def field_text_def t35)
  have d0: "drop b ?buf = ''35='' @ mt @ SOH # (body_text fs @ ''10='' @ ck @ SOH # rest)"
    using buf b B by simp
  have len: "length ?buf = b + ?L + 7 + length rest" using buf b ck by simp
  have L: "5 \<le> ?L" using B mt by (cases mt) simp_all
  have n0: "?buf ! b = CHR ''3''" "?buf ! (b + 1) = CHR ''5''" using buf b B by (simp_all add: nth_append)
  have lastB: "?B ! (?L - 1) = SOH"
  proof -
    have "last (field_text f) = SOH" for f by (simp add: field_text_def)
    moreover have "body_text (xs @ [x]) = body_text xs @ field_text x" for xs x by (simp add: body_text_def)
    ultimately have "last (body_text (xs @ [x])) = SOH" for xs x by simp
    then have "last ?B = SOH" by (metis append_butlast_last_id list.discI)
    then show ?thesis using L by (metis last_conv_nth list.size(3) not_numeral_le_zero)
  qed
  have p1: "ptr_add (mr_address r) (int b) ?L = int (b + ?L)" using addr len by (subst ptr_add_exact) simp_all
  have p2: "ptr_add (mr_address r) (int (b + ?L)) 7 = int (b + ?L + 7)" using addr len by (subst ptr_add_exact) simp_all
  have c1: "char_at ?buf (int (b + ?L) - 1) = Inr SOH"
  proof -
    have "int (b + ?L) - 1 = int (b + ?L - 1)" using L by simp
    moreover have "?buf ! (b + ?L - 1) = SOH"
    proof -
      have "b + ?L - 1 = length pre + (?L - 1)" "?L - 1 < ?L" using L b by simp_all
      moreover have "?buf ! (length pre + i) = ?B ! i" if "i < ?L" for i
        using that unfolding buf by (simp only: nth_append_length_plus) (simp only: nth_append if_True)
      ultimately show ?thesis using lastB by metis
    qed
    moreover have "char_at ?buf (int (b + ?L - 1)) = Inr (?buf ! (b + ?L - 1))"
      by (rule char_at_nat) (use len L in linarith)
    ultimately show ?thesis by (simp only:)
  qed
  have c2: "char_at ?buf (int (b + ?L) + 6) = Inr SOH"
  proof -
    have "int (b + ?L) + 6 = int (b + ?L + 6)" by simp
    moreover have "?buf ! (b + ?L + 6) = SOH" using ck unfolding buf b by (simp add: nth_append)
    moreover have "char_at ?buf (int (b + ?L + 6)) = Inr (?buf ! (b + ?L + 6))"
      by (rule char_at_nat) (use len in linarith)
    ultimately show ?thesis by (simp only:)
  qed
  obtain m0 ms where ms: "mt = m0 # ms" using mt by (cases mt) simp_all
  have d4: "drop (Suc (b + 3)) ?buf = ms @ SOH # (body_text fs @ ''10='' @ ck @ SOH # rest)"
    using arg_cong [OF d0, of "drop 4"] ms by (simp add: add.commute)
  have m: "init_msg_type ?buf (int (b + ?L)) (int (b + 3)) = Inr (Found (int (Suc (b + 3) + length ms)))"
    using mt ms B by (intro init_msg_type_found [OF d4]) simp_all
  let ?r' = "r\<lparr>mr_begin := \<lparr>it_buffer = int b, it_tag = 35, it_vbegin = int b + 3, it_vend = int (Suc (b + 3) + length ms)\<rparr>,
      mr_end := \<lparr>it_buffer = int (b + ?L), it_tag = 10, it_vbegin = int (b + ?L) + 3, it_vend = int (b + ?L) + 6\<rparr>,
      mr_is_complete := True\<rparr>"
  have "init_body b ?L r = Inr ?r'"
    using n0 len L c1 c2 m unfolding init_body_def Let_def p1 p2 by simp
  moreover have "reads_message ?r' b ((35, mt) # fs)"
  proof -
    have "drop b ?buf = ?B @ ''10='' @ ck @ SOH # rest" using buf b by simp
    then have "\<exists>ck cs. drop b (mr_buffer ?r') = ?B @ ''10='' @ ck @ SOH # cs \<and> length ck = 3 \<and> SOH \<notin> set ck"
      using ck by (intro exI [of _ ck] exI [of _ rest]) simp
    moreover have "mr_begin ?r' = field_iterator b (hd ((35, mt) # fs))" by (simp add: field_iterator_def t35 ms)
    ultimately show ?thesis using valid unfolding reads_message_def by simp
  qed
  ultimately show ?thesis by (intro exI [of _ ?r']) simp
qed

lemma three_digits_no_soh: "SOH \<notin> set (three_digits k)"
proof -
  have "SOH \<noteq> digit_char (x mod 10)" for x by (rule not_sym, rule digit_char_special(2)) simp
  then show ?thesis by (simp add: three_digits_def)
qed

lemma reader_accepts:
  assumes version: "SOH \<notin> set version" "7 \<le> length version" "length version \<le> 10"
    and mt: "mt \<noteq> []" "SOH \<notin> set mt" and len: "length (body_text ((35, mt) # fs)) < 1000000"
    and addr: "address + length (message_text version ((35, mt) # fs) @ rest) < 2 ^ 64"
  shows "\<exists>r. message_reader_init address (message_text version ((35, mt) # fs) @ rest) = Inr r
    \<and> reads_message r (12 + length version) ((35, mt) # fs)
    \<and> mr_buffer r = message_text version ((35, mt) # fs) @ rest \<and> mr_address r = address"
proof -
  let ?fs = "(35, mt) # fs"
  let ?B = "body_text ?fs" and ?buf = "message_text version ((35, mt) # fs) @ rest"
  let ?L = "length ?B" and ?v = "length version"
  define ck where "ck = three_digits (unat (check_sum (head_text version ?L @ ?B)))"
  have buf: "?buf = head_text version ?L @ ?B @ ''10='' @ ck @ SOH # rest"
    by (simp add: message_text_def Let_def trailer_text_def ck_def)
  have d2: "drop 2 ?buf = version @ SOH # (''9='' @ six_digits ?L @ SOH # (?B @ ''10='' @ ck @ SOH # rest))"
    unfolding buf by (simp add: head_text_def)
  have pf: "init_prefix ?buf 9 = Found (2 + ?v)" using d2 version by (rule init_prefix_found)
  have blen: "length ?buf = 12 + ?v + ?L + 7 + length rest" unfolding buf by (simp add: head_text_def ck_def)
  have n9: "?buf ! (2 + ?v + 1) = CHR ''9''" unfolding buf by (simp add: head_text_def nth_append)
  have d5: "drop (2 + ?v + 3) ?buf = six_digits ?L @ SOH # (?B @ ''10='' @ ck @ SOH # rest)"
  proof -
    have "drop (2 + ?v + 3) ?buf = drop (?v + 3) (drop 2 ?buf)"
      using add.commute [of 2 "?v + 3"] by (simp only: drop_drop add.assoc)
    then show ?thesis unfolding d2 by simp
  qed
  have bl: "init_body_length ?buf (2 + ?v + 3) 0 = Found (2 + ?v + 3 + 6, ?L)" using d5 len by (rule init_body_length_six)
  let ?r1 = "reader_blank address ?buf\<lparr>mr_prefix_end := Some (2 + ?v)\<rparr>"
  have r1: "mr_buffer ?r1 = head_text version ?L @ ?B @ ''10='' @ ck @ SOH # rest" "mr_address ?r1 = address" "mr_is_valid ?r1"
    by (simp_all add: reader_blank_def buf)
  have eq: "message_reader_init address ?buf = init_body (12 + ?v) ?L ?r1"
    using pf n9 bl blen by (simp add: message_reader_init_def Let_def)
  have ex: "\<exists>r'. init_body (12 + ?v) ?L ?r1 = Inr r' \<and> reads_message r' (12 + ?v) ?fs \<and> mr_buffer r' = mr_buffer ?r1 \<and> mr_address r' = mr_address ?r1"
    using r1 mt addr buf by (intro init_body_reads [where ck = ck and rest = rest and pre = "head_text version ?L"])
      (simp_all add: head_text_def ck_def three_digits_no_soh)
  then show ?thesis unfolding eq using r1 buf by (auto simp: reader_blank_def)
qed

section \<open>Searching fields\<close>

fun seek :: "int \<Rightarrow> nat \<Rightarrow> (int \<times> string) list \<Rightarrow> int \<times> string \<Rightarrow> hf_iterator" where
  "seek tag p [] g = field_iterator p g"
| "seek tag p (x # xs) g = (if fst x = tag then field_iterator p x else seek tag (p + length (field_text x)) xs g)"

lemma find_if_seek:
  assumes "list_all good_field (xs @ [g])" and "drop p (mr_buffer r) = body_text (xs @ [g]) @ cs" and "mr_is_valid r"
    and "int (p + length (body_text (xs @ [g]))) \<le> it_vend (mr_end r) + 2"
    and "it_buffer fin = int (p + length (body_text xs))" and "length xs \<le> n"
  shows "find_if n r tag (field_iterator p (hd (xs @ [g]))) fin = Inr (seek tag p xs g)"
  using assms
proof (induction xs arbitrary: p n)
  case Nil
  then show ?case by (cases n) (simp_all add: body_text_def)
next
  case (Cons x xs)
  then obtain m where n: "n = Suc m" by (cases n) simp_all
  have ne: "int p \<noteq> it_buffer fin" unfolding Cons.prems(5) by (simp only: of_nat_eq_iff) (simp add: body_text_def)
  show ?case
  proof (cases "fst x = tag")
    case True
    then show ?thesis using n by simp
  next
    case False
    let ?q = "p + length (field_text x)" and ?h = "hd (xs @ [g])"
    have dr: "drop ?q (mr_buffer r) = body_text (xs @ [g]) @ cs"
      using arg_cong [OF Cons.prems(2), of "drop (length (field_text x))"] by (simp add: body_text_def add.commute)
    obtain zs where zs: "xs @ [g] = ?h # zs" by (cases xs) auto
    have bt: "body_text (xs @ [g]) = field_text ?h @ body_text zs"
      using arg_cong [OF zs, of body_text] by (simp only: body_text_def list.map concat.simps)
    have "iterator_increment r (field_iterator p x) = Inr (field_iterator ?q ?h)"
    proof (rule increment_field)
      show "good_field ?h" using Cons.prems(1) zs by (metis append_Cons list.pred_inject(2))
      show "drop ?q (mr_buffer r) = field_text ?h @ (body_text zs @ cs)"
        using dr bt by simp
      have "length (body_text (xs @ [g])) = length (field_text ?h) + length (body_text zs)"
        using bt by simp
      then show "int (?q + length (field_text ?h)) \<le> it_vend (mr_end r) + 2"
        using Cons.prems(4) by (simp add: body_text_def)
      show "it_vend (field_iterator p x) + 1 = int ?q" by (rule field_iterator_next)
    qed (rule Cons.prems(3))
    moreover have "find_if m r tag (field_iterator ?q ?h) fin = Inr (seek tag ?q xs g)"
      using Cons.prems dr n by (intro Cons.IH) (simp_all add: body_text_def)
    ultimately show ?thesis using False ne n by simp
  qed
qed

section \<open>Properties\<close>



section \<open>Iterating over messages that nobody wrote\<close>

lemma scan_tag_stops:
  assumes "0 \<le> i" "i \<le> k" "k < int (length buf)" "buf ! nat k = SOH"
  shows "\<exists>j tag'. scan_tag True buf i tag = Inr (j, tag') \<and> i \<le> j \<and> j \<le> k"
  using assms
proof (induction "nat (k - i)" arbitrary: i tag)
  case 0
  then have "i = k" by simp
  then show ?case using 0 by (subst scan_tag.simps) simp
next
  case (Suc n)
  show ?case
  proof (cases "buf ! nat i = CHR ''='' \<or> buf ! nat i = SOH")
    case True
    then show ?thesis using Suc.prems by (subst scan_tag.simps) auto
  next
    case False
    let ?t = "int_wrap 32 (int_wrap 32 (tag * 10) + (schar (buf ! nat i) - 48))"
    have "\<exists>j tag'. scan_tag True buf (i + 1) ?t = Inr (j, tag') \<and> i + 1 \<le> j \<and> j \<le> k"
      using Suc by (intro Suc.hyps) simp_all
    then show ?thesis using False Suc.prems by (subst scan_tag.simps) auto
  qed
qed

lemma find_soh_stops:
  assumes "0 \<le> b" "b \<le> k" "k < int (length buf)" "buf ! nat k = SOH"
  shows "\<exists>j. find_soh buf b e = Inr j \<and> b \<le> j \<and> j \<le> k"
  using assms
proof (induction "nat (k - b)" arbitrary: b)
  case 0
  then have "b = k" by simp
  then show ?case using 0 by (subst find_soh.simps) simp
next
  case (Suc n)
  show ?case
  proof (cases "b = e \<or> buf ! nat b = SOH")
    case True
    then show ?thesis using Suc.prems by (subst find_soh.simps) auto
  next
    case False
    have "\<exists>j. find_soh buf (b + 1) e = Inr j \<and> b + 1 \<le> j \<and> j \<le> k"
      using Suc by (intro Suc.hyps) simp_all
    then show ?thesis using False Suc.prems by (subst find_soh.simps) auto
  qed
qed

definition no_data_fields :: "string \<Rightarrow> bool" where
  "no_data_fields buf \<longleftrightarrow> list_all (\<lambda>p. case scan_tag True buf (int p) 0 of
     Inr (i, tag) \<Rightarrow> \<not> is_tag_a_data_length tag | Inl _ \<Rightarrow> True) [0..<length buf]"

lemma no_data_fieldsD:
  assumes "no_data_fields buf" and "scan_tag True buf p 0 = Inr (i, tag)" and "0 \<le> p" and "p < int (length buf)"
  shows "\<not> is_tag_a_data_length tag"
proof -
  have "int (nat p) = p" "nat p \<in> set [0..<length buf]" using assms(3,4) by auto
  then show ?thesis using assms(1,2) unfolding no_data_fields_def list_all_iff by fastforce
qed

lemma increment_stays:
  assumes plain: "no_data_fields (mr_buffer r)" and valid: "mr_is_valid r"
    and k: "0 \<le> it_vend it + 1" "it_vend it + 1 \<le> k" "k < int (length (mr_buffer r))" "mr_buffer r ! nat k = SOH"
  shows "\<exists>it'. iterator_increment r it = Inr it' \<and> it_buffer it' = it_vend it + 1
    \<and> it_buffer it' \<le> it_vbegin it' \<and> it_vbegin it' \<le> it_vend it' \<and> it_vend it' \<le> k"
proof -
  obtain j tag where st: "scan_tag True (mr_buffer r) (it_vend it + 1) 0 = Inr (j, tag)" "it_vend it + 1 \<le> j" "j \<le> k"
    using scan_tag_stops [OF k] by blast
  have tag: "\<not> is_tag_a_data_length tag" using k by (intro no_data_fieldsD [OF plain st(1)]) simp_all
  have ca: "char_at (mr_buffer r) j = Inr (mr_buffer r ! nat j)" using st k by (simp add: char_at_def)
  show ?thesis
  proof (cases "mr_buffer r ! nat j = SOH")
    case True
    then show ?thesis using st ca by (simp add: iterator_increment_def Let_def)
  next
    case False
    then have "j \<noteq> k" using k(4) by auto
    then have "\<exists>e. find_soh (mr_buffer r) (j + 1) (it_vend (mr_end r) + 1) = Inr e \<and> j + 1 \<le> e \<and> e \<le> k"
      using st k by (intro find_soh_stops) simp_all
    then obtain e where e: "find_soh (mr_buffer r) (j + 1) (it_vend (mr_end r) + 1) = Inr e" "j + 1 \<le> e" "e \<le> k"
      by blast
    then have "iterator_increment r it = Inr \<lparr>it_buffer = it_vend it + 1, it_tag = tag, it_vbegin = j + 1, it_vend = e\<rparr>"
      using st(1) ca False tag valid by (simp add: iterator_increment_def Let_def reader_message_end_def)
    then show ?thesis using e st by simp
  qed
qed

text \<open>The frame that \<open>init\<close> checked.\<close>

definition framed :: "message_reader \<Rightarrow> bool" where
  "framed r \<longleftrightarrow> mr_is_valid r \<and> (let c = it_buffer (mr_end r); buf = mr_buffer r in
     1 \<le> c \<and> c + 6 < int (length buf) \<and> buf ! nat (c - 1) = SOH \<and> buf ! nat (c + 6) = SOH)"

lemma fields_from_total:
  assumes "framed r" and "no_data_fields (mr_buffer r)"
    and "it_buffer it < it_buffer (mr_end r) \<longrightarrow> 0 \<le> it_buffer it \<and> it_buffer it \<le> it_vbegin it
        \<and> it_vbegin it \<le> it_vend it + 1 \<and> it_buffer it \<le> it_vend it \<and> it_vend it < it_buffer (mr_end r)"
    and "it_buffer it \<le> it_buffer (mr_end r)" and "nat (it_buffer (mr_end r) - it_buffer it) \<le> n"
    and "it_vbegin it \<le> it_vend it"
  shows "\<exists>fs. fields_from n r it = Inr fs"
  using assms
proof (induction n arbitrary: it)
  case 0
  then show ?case by simp
next
  case (Suc n)
  let ?c = "it_buffer (mr_end r)"
  show ?case
  proof (cases "it_buffer it = ?c")
    case True
    then show ?thesis by simp
  next
    case False
    then have it: "0 \<le> it_buffer it" "it_buffer it \<le> it_vbegin it" "it_buffer it \<le> it_vend it" "it_vend it < ?c" "it_buffer it < ?c"
      using Suc.prems by auto
    have fr: "mr_is_valid r" "1 \<le> ?c" "?c + 6 < int (length (mr_buffer r))"
        "mr_buffer r ! nat (?c - 1) = SOH" "mr_buffer r ! nat (?c + 6) = SOH"
      using Suc.prems(1) by (simp_all add: framed_def Let_def)
    have "0 \<le> it_vbegin it" "it_vend it \<le> int (length (mr_buffer r))" using it fr by linarith+
    then have "\<exists>v. as_string r it = Inr v"
      using Suc.prems(6) by (simp add: as_string_def value_range_def text_range_def)
    then obtain v where v: "as_string r it = Inr v" by blast
    define k where "k = (if it_vend it + 1 = ?c then ?c + 6 else ?c - 1)"
    have k: "0 \<le> it_vend it + 1" "it_vend it + 1 \<le> k" "k < int (length (mr_buffer r))" "mr_buffer r ! nat k = SOH"
      using it fr by (auto simp: k_def)
    obtain it' where it': "iterator_increment r it = Inr it'" "it_buffer it' = it_vend it + 1"
        "it_buffer it' \<le> it_vbegin it'" "it_vbegin it' \<le> it_vend it'" "it_vend it' \<le> k"
      using increment_stays [OF Suc.prems(2) fr(1) k] by blast
    have "\<exists>fs. fields_from n r it' = Inr fs"
    proof (rule Suc.IH)
      show "it_buffer it' < ?c \<longrightarrow> 0 \<le> it_buffer it' \<and> it_buffer it' \<le> it_vbegin it'
        \<and> it_vbegin it' \<le> it_vend it' + 1 \<and> it_buffer it' \<le> it_vend it' \<and> it_vend it' < ?c"
        using it' it by (auto simp: k_def)
    qed (use it' it Suc.prems in auto)
    then obtain fs where "fields_from n r it' = Inr fs" by blast
    then show ?thesis using v it'(1) False by simp
  qed
qed

lemma init_msg_type_bounds:
  "init_msg_type buf c b = Inr (Found e) \<Longrightarrow> b < e"
proof (induction buf c b rule: init_msg_type.induct)
  case (1 buf c b)
  then show ?case by (subst (asm) init_msg_type.simps) (auto split: if_splits)
qed

lemma init_body_framed:
  assumes "init_body b n r0 = Inr r" and "mr_is_complete r" and "mr_is_valid r" and "\<not> mr_is_complete r0"
  shows "framed r \<and> mr_buffer r = mr_buffer r0 \<and> 0 \<le> it_buffer (mr_begin r)
    \<and> it_vbegin (mr_begin r) = it_buffer (mr_begin r) + 3 \<and> it_vbegin (mr_begin r) < it_vend (mr_begin r)"
proof -
  define c where "c = ptr_add (mr_address r0) (int b) n"
  have inv: "reader_invalid r0 \<noteq> r" "r0 \<noteq> r" using assms by (auto simp: reader_invalid_def)
  have c: "char_at (mr_buffer r0) (c - 1) = Inr SOH" "char_at (mr_buffer r0) (c + 6) = Inr SOH"
    and m: "err_bind (init_msg_type (mr_buffer r0) c (int b + 3)) (\<lambda>m. case m of
        Found e \<Rightarrow> Inr (r0\<lparr>mr_begin := \<lparr>it_buffer = int b, it_tag = 35, it_vbegin = int b + 3, it_vend = e\<rparr>,
                          mr_end := \<lparr>it_buffer = c, it_tag = 10, it_vbegin = c + 3, it_vend = c + 6\<rparr>,
                          mr_is_complete := True\<rparr>)
      | _ \<Rightarrow> Inr (reader_invalid r0)) = Inr r"
    using assms(1) inv unfolding init_body_def Let_def c_def [symmetric]
    by (auto simp: err_bind_Inr_iff split: if_splits)
  obtain e where e: "init_msg_type (mr_buffer r0) c (int b + 3) = Inr (Found e)"
    and r: "r = r0\<lparr>mr_begin := \<lparr>it_buffer = int b, it_tag = 35, it_vbegin = int b + 3, it_vend = e\<rparr>,
                    mr_end := \<lparr>it_buffer = c, it_tag = 10, it_vbegin = c + 3, it_vend = c + 6\<rparr>,
                    mr_is_complete := True\<rparr>"
  proof (cases "init_msg_type (mr_buffer r0) c (int b + 3)")
    case (Inl x)
    then show ?thesis using m by simp
  next
    case (Inr x)
    then show ?thesis using m inv that by (cases x) auto
  qed
  show ?thesis
    using c init_msg_type_bounds [OF e] assms(3) unfolding r framed_def Let_def
    by (auto simp: char_at_def split: if_splits)
qed

lemma init_framed:
  assumes "message_reader_init address buf = Inr r" and "mr_is_complete r" and "mr_is_valid r"
  shows "framed r \<and> mr_buffer r = buf \<and> 0 \<le> it_buffer (mr_begin r)
    \<and> it_vbegin (mr_begin r) = it_buffer (mr_begin r) + 3 \<and> it_vbegin (mr_begin r) < it_vend (mr_begin r)"
proof -
  let ?r = "reader_blank address buf"
  have blank: "\<not> mr_is_complete ?r" "mr_buffer ?r = buf" by (simp_all add: reader_blank_def)
  have no: "Inr ?r \<noteq> Inr r" "Inr (reader_invalid ?r) \<noteq> Inr r" "Inr (?r\<lparr>mr_prefix_end := q\<rparr>) \<noteq> Inr r"
      "Inr (reader_invalid (?r\<lparr>mr_prefix_end := q\<rparr>)) \<noteq> Inr r" for q :: "nat option"
    using assms(2,3) blank by (auto simp: reader_invalid_def)
  obtain b where b: "init_prefix buf 9 = Found b"
    using assms(1) no by (cases "init_prefix buf 9") (auto simp: message_reader_init_def Let_def)
  obtain b2 n where "init_body_length buf (b + 3) 0 = Found (b2, n)" "init_body (b2 + 1) n (?r\<lparr>mr_prefix_end := Some b\<rparr>) = Inr r"
    using assms(1) no(1,2) no(3,4) [of "Some b"] b
    by (cases "init_body_length buf (b + 3) 0") (auto simp: message_reader_init_def Let_def split: if_splits)
  then show ?thesis using init_body_framed [of "b2 + 1" n "?r\<lparr>mr_prefix_end := Some b\<rparr>" r] assms(2,3) blank by simp
qed


text \<open>\<^verbatim>\<open>|\<close> for SOH, to write messages down.\<close>

definition soh :: "string \<Rightarrow> string" where
  "soh s = map (\<lambda>c. if c = CHR ''|'' then SOH else c) s"


end
