(* ===== verification/Byte_Converter.thy ===== *)
theory Byte_Converter
  imports Prelude
begin

text \<open>
  \<^verbatim>\<open>src/src/common/Utilities/ByteConverter.h\<close> and the endianness switch of
  \<^verbatim>\<open>src/src/common/Define.h\<close>. \<open>endian\<close> is the value of \<^verbatim>\<open>WARHEAD_ENDIAN\<close>, that is
  the byte order of the host; \<open>object_bytes\<close> is the object representation of an integer on
  that host. The main fact: after \<^verbatim>\<open>EndianConvert\<close> the representation is little endian on
  every host.
\<close>

section \<open>Definitions\<close>

datatype endian = WARHEAD_LITTLEENDIAN | WARHEAD_BIGENDIAN

definition swap_at :: "nat \<Rightarrow> nat \<Rightarrow> 'a list \<Rightarrow> 'a list" where
  "swap_at i j m = m[i := m ! j, j := m ! i]"

text \<open>\<^verbatim>\<open>convert<T>(val)\<close>: \<open>p\<close> is the pointer \<^verbatim>\<open>val\<close> as an index of the object.\<close>

fun ByteConverter_convert :: "nat \<Rightarrow> nat \<Rightarrow> 'a list \<Rightarrow> 'a list" where
  "ByteConverter_convert 0 p m = m"
| "ByteConverter_convert (Suc 0) p m = m"
| "ByteConverter_convert (Suc (Suc n)) p m =
     ByteConverter_convert n (p + 1) (swap_at p (p + Suc (Suc n) - 1) m)"

definition ByteConverter_apply :: "'a list \<Rightarrow> 'a list" where
  "ByteConverter_apply m = ByteConverter_convert (length m) 0 m"

definition EndianConvert :: "endian \<Rightarrow> u8 list \<Rightarrow> u8 list" where
  "EndianConvert e m = (case e of WARHEAD_BIGENDIAN \<Rightarrow> ByteConverter_apply m | WARHEAD_LITTLEENDIAN \<Rightarrow> m)"

definition EndianConvertReverse :: "endian \<Rightarrow> u8 list \<Rightarrow> u8 list" where
  "EndianConvertReverse e m = (case e of WARHEAD_BIGENDIAN \<Rightarrow> m | WARHEAD_LITTLEENDIAN \<Rightarrow> ByteConverter_apply m)"

section \<open>Byte representations of integers\<close>

fun le_bytes :: "nat \<Rightarrow> nat \<Rightarrow> u8 list" where
  "le_bytes 0 v = []"
| "le_bytes (Suc n) v = of_nat v # le_bytes n (v div 256)"

fun le_val :: "u8 list \<Rightarrow> nat" where
  "le_val [] = 0"
| "le_val (b # bs) = unat b + 256 * le_val bs"

definition word_size :: "'a::len word \<Rightarrow> nat" where
  "word_size w = LENGTH('a) div 8"

definition object_bytes :: "endian \<Rightarrow> 'a::len word \<Rightarrow> u8 list" where
  "object_bytes e w =
     (let bs = le_bytes (LENGTH('a) div 8) (unat w)
      in case e of WARHEAD_LITTLEENDIAN \<Rightarrow> bs | WARHEAD_BIGENDIAN \<Rightarrow> rev bs)"

definition object_value :: "endian \<Rightarrow> u8 list \<Rightarrow> 'a::len word" where
  "object_value e bs =
     of_nat (le_val (case e of WARHEAD_LITTLEENDIAN \<Rightarrow> bs | WARHEAD_BIGENDIAN \<Rightarrow> rev bs))"

section \<open>Facts\<close>

lemma length_swap_at [simp]: "length (swap_at i j m) = length m"
  by (simp add: swap_at_def)

lemma swap_at_ends:
  assumes "m = xs @ a # mid @ b # ys"
  shows "swap_at (length xs) (length xs + length mid + 1) m = xs @ b # mid @ a # ys"
  using assms by (simp add: swap_at_def nth_append list_update_append)

lemma segment_ends:
  assumes "p + Suc (Suc n) \<le> length m"
  shows "m = take p m @ m ! p # segment (Suc p) n m @ m ! (p + Suc n) # drop (p + Suc (Suc n)) m"
proof -
  have "m = take p m @ segment p (Suc (n + 1)) m @ drop (p + Suc (Suc n)) m"
    using assms by (metis (no_types, lifting) Suc_eq_plus1 add.commute append_assoc append_take_drop_id
        drop_drop segment_def)
  also have "segment p (Suc (n + 1)) m = m ! p # segment (Suc p) n m @ [m ! (p + Suc n)]"
    using assms segment_Suc [of p m "n + 1"] segment_append [of "Suc p" n 1 m]
      segment_Suc [of "Suc p + n" m 0] by simp
  finally show ?thesis by simp
qed

lemma convert_rev:
  "p + n \<le> length m \<Longrightarrow>
    ByteConverter_convert n p m = take p m @ rev (segment p n m) @ drop (p + n) m"
proof (induction n p m rule: ByteConverter_convert.induct)
  case (1 p m)
  then show ?case by simp
next
  case (2 p m)
  then show ?case using segment_Suc [of p m 0] by (simp add: Cons_nth_drop_Suc)
next
  case (3 n p m)
  let ?xs = "take p m" and ?mid = "segment (Suc p) n m" and ?ys = "drop (p + Suc (Suc n)) m"
  let ?a = "m ! p" and ?b = "m ! (p + Suc n)"
  have m: "m = ?xs @ ?a # ?mid @ ?b # ?ys" using 3(2) by (rule segment_ends)
  have lens: "length ?xs = p" "length ?mid = n" using 3(2) by simp_all
  have sw: "swap_at p (p + Suc (Suc n) - 1) m = ?xs @ ?b # ?mid @ ?a # ?ys"
    using swap_at_ends [OF m] lens by simp
  let ?m' = "?xs @ ?b # ?mid @ ?a # ?ys"
  have seg: "take (p + 1) ?m' = ?xs @ [?b]" "segment (p + 1) n ?m' = ?mid" "drop (p + 1 + n) ?m' = ?a # ?ys"
    using lens by (simp_all add: segment_def)
  have "p + 1 + n \<le> length (swap_at p (p + Suc (Suc n) - 1) m)" using 3(2) by simp
  from 3(1) [OF this] have "ByteConverter_convert (Suc (Suc n)) p m = ?xs @ ?b # rev ?mid @ ?a # ?ys"
    unfolding ByteConverter_convert.simps sw seg by simp
  moreover have "rev (segment p (Suc (Suc n)) m) = ?b # rev ?mid @ [?a]"
    using 3(2) segment_Suc [of p m "n + 1"] segment_append [of "Suc p" n 1 m]
      segment_Suc [of "Suc p + n" m 0] by simp
  ultimately show ?case by simp
qed

lemma apply_rev: "ByteConverter_apply m = rev m"
  by (simp add: ByteConverter_apply_def convert_rev)

lemma le_bytes_numeral: "le_bytes (numeral k) v = of_nat v # le_bytes (pred_numeral k) (v div 256)"
  by (simp only: numeral_eq_Suc le_bytes.simps)

lemma length_le_bytes [simp]: "length (le_bytes n v) = n"
  by (induction n arbitrary: v) auto

lemma le_val_le_bytes [simp]: "le_val (le_bytes n v) = v mod 256 ^ n"
proof (induction n arbitrary: v)
  case 0
  then show ?case by simp
next
  case (Suc n)
  have "unat (of_nat v :: u8) = v mod 256" by (simp add: unat_of_nat)
  then show ?case using Suc by (simp add: mod_mult2_eq)
qed

lemma le_val_less: "le_val bs < 256 ^ length bs"
proof (induction bs)
  case Nil
  then show ?case by simp
next
  case (Cons b bs)
  then show ?case using unat_u8 [of b] by simp
qed

lemma le_bytes_le_val [simp]: "le_bytes (length bs) (le_val bs) = bs"
proof (induction bs)
  case Nil
  then show ?case by simp
next
  case (Cons b bs)
  have "(unat b + 256 * le_val bs) div 256 = le_val bs" using unat_u8 [of b] by simp
  moreover have "(of_nat (unat b + 256 * le_val bs) :: u8) = b"
    using unat_u8 [of b] by (simp only: word_unat_eq_iff unat_of_nat) simp
  ultimately show ?case using Cons by (simp only: le_bytes.simps le_val.simps list.size) simp
qed

lemma length_object_bytes [simp]: "length (object_bytes e (w :: 'a::len word)) = LENGTH('a) div 8"
  by (simp add: object_bytes_def Let_def split: endian.splits)

lemma object_value_bytes:
  assumes "8 dvd LENGTH('a)"
  shows "object_value e (object_bytes e (w :: 'a::len word)) = w"
proof -
  obtain k where "LENGTH('a) = 8 * k" using assms by (rule dvdE)
  moreover have "unat w < 2 ^ LENGTH('a)" by (rule unsigned_less)
  ultimately have "unat w mod 256 ^ (LENGTH('a) div 8) = unat w"
    by (simp add: power_mult)
  then show ?thesis
    by (simp add: object_value_def object_bytes_def Let_def split: endian.splits)
qed

lemma EndianConvert_object_bytes:
  "EndianConvert e (object_bytes e w) = object_bytes WARHEAD_LITTLEENDIAN w"
  by (cases e) (simp_all add: EndianConvert_def object_bytes_def Let_def apply_rev)

lemma EndianConvert_involution [simp]: "EndianConvert e (EndianConvert e m) = m"
  by (cases e) (simp_all add: EndianConvert_def apply_rev)

lemma object_value_EndianConvert:
  "object_value e (EndianConvert e bs) = object_value WARHEAD_LITTLEENDIAN bs"
  by (cases e) (simp_all add: EndianConvert_def object_value_def apply_rev)

lemma length_EndianConvert [simp]: "length (EndianConvert e m) = length m"
  by (cases e) (simp_all add: EndianConvert_def apply_rev)

end
