(* ===== verification/Utf8.thy ===== *)
theory Utf8
  imports Prelude
begin

text \<open>
  The UTF-8 validation that \<open>ByteBuffer::ReadCString\<close> calls, from the copy of utf8cpp in
  the repository: \<^verbatim>\<open>src/deps/utf8cpp/utf8/core.h\<close> (\<open>validate_next\<close>,
  \<open>find_invalid\<close>, \<open>is_valid\<close>) and the encoder \<open>append\<close> of
  \<^verbatim>\<open>src/deps/utf8cpp/utf8/checked.h\<close>. An iterator into a range is the rest of the
  range. Code points stay below \<open>2 ^ 26\<close> in every intermediate result, so the natural
  numbers are exact for \<^verbatim>\<open>uint32_t\<close>. Shown: a byte string is valid exactly when it is the
  concatenation of the encodings of valid code points.
\<close>

unbundle bit_operations_syntax

section \<open>core.h\<close>

definition LEAD_SURROGATE_MIN :: nat where "LEAD_SURROGATE_MIN = 0xd800"
definition TRAIL_SURROGATE_MAX :: nat where "TRAIL_SURROGATE_MAX = 0xdfff"
definition CODE_POINT_MAX :: nat where "CODE_POINT_MAX = 0x0010ffff"

definition is_trail :: "u8 \<Rightarrow> bool" where
  "is_trail oc \<longleftrightarrow> drop_bit 6 (unat oc) = 0x2"

definition is_surrogate :: "nat \<Rightarrow> bool" where
  "is_surrogate cp \<longleftrightarrow> cp \<ge> LEAD_SURROGATE_MIN \<and> cp \<le> TRAIL_SURROGATE_MAX"

definition is_code_point_valid :: "nat \<Rightarrow> bool" where
  "is_code_point_valid cp \<longleftrightarrow> cp \<le> CODE_POINT_MAX \<and> \<not> is_surrogate cp"

definition sequence_length :: "u8 \<Rightarrow> nat" where
  "sequence_length lead_it =
     (let lead = unat lead_it in
      if lead < 0x80 then 1
      else if drop_bit 5 lead = 0x6 then 2
      else if drop_bit 4 lead = 0xe then 3
      else if drop_bit 3 lead = 0x1e then 4
      else 0)"

definition is_overlong_sequence :: "nat \<Rightarrow> nat \<Rightarrow> bool" where
  "is_overlong_sequence cp len =
     (if cp < 0x80 then len \<noteq> 1
      else if cp < 0x800 then len \<noteq> 2
      else if cp < 0x10000 then len \<noteq> 3
      else False)"

datatype utf_error = UTF8_OK | NOT_ENOUGH_ROOM | INVALID_LEAD | INCOMPLETE_SEQUENCE
  | OVERLONG_SEQUENCE | INVALID_CODE_POINT

definition increase_safely :: "u8 list \<Rightarrow> utf_error + u8 list" where
  "increase_safely it =
     (case tl it of [] \<Rightarrow> Inl NOT_ENOUGH_ROOM
      | b # r \<Rightarrow> if \<not> is_trail b then Inl INCOMPLETE_SEQUENCE else Inr (b # r))"

definition get_sequence_1 :: "u8 list \<Rightarrow> utf_error + nat \<times> u8 list" where
  "get_sequence_1 it = (if it = [] then Inl NOT_ENOUGH_ROOM else Inr (unat (hd it), it))"

definition get_sequence_2 :: "u8 list \<Rightarrow> utf_error + nat \<times> u8 list" where
  "get_sequence_2 it =
     (if it = [] then Inl NOT_ENOUGH_ROOM
      else (let cp = unat (hd it) in
        case increase_safely it of Inl e \<Rightarrow> Inl e
        | Inr it1 \<Rightarrow> Inr ((push_bit 6 cp AND 0x7ff) + (unat (hd it1) AND 0x3f), it1)))"

definition get_sequence_3 :: "u8 list \<Rightarrow> utf_error + nat \<times> u8 list" where
  "get_sequence_3 it =
     (if it = [] then Inl NOT_ENOUGH_ROOM
      else (let cp = unat (hd it) in
        case increase_safely it of Inl e \<Rightarrow> Inl e
        | Inr it1 \<Rightarrow> (let cp1 = (push_bit 12 cp AND 0xffff) + (push_bit 6 (unat (hd it1)) AND 0xfff) in
          case increase_safely it1 of Inl e \<Rightarrow> Inl e
          | Inr it2 \<Rightarrow> Inr (cp1 + (unat (hd it2) AND 0x3f), it2))))"

definition get_sequence_4 :: "u8 list \<Rightarrow> utf_error + nat \<times> u8 list" where
  "get_sequence_4 it =
     (if it = [] then Inl NOT_ENOUGH_ROOM
      else (let cp = unat (hd it) in
        case increase_safely it of Inl e \<Rightarrow> Inl e
        | Inr it1 \<Rightarrow> (let cp1 = (push_bit 18 cp AND 0x1fffff) + (push_bit 12 (unat (hd it1)) AND 0x3ffff) in
          case increase_safely it1 of Inl e \<Rightarrow> Inl e
          | Inr it2 \<Rightarrow> (let cp2 = cp1 + (push_bit 6 (unat (hd it2)) AND 0xfff) in
            case increase_safely it2 of Inl e \<Rightarrow> Inl e
            | Inr it3 \<Rightarrow> Inr (cp2 + (unat (hd it3) AND 0x3f), it3)))))"

text \<open>\<open>validate_next\<close>: on success the code point and the iterator past the sequence. On
  failure the source restores the iterator, so only the error is returned.\<close>

definition validate_next :: "u8 list \<Rightarrow> utf_error + nat \<times> u8 list" where
  "validate_next it =
     (let len = sequence_length (hd it);
          r = (if len = 1 then get_sequence_1 it
               else if len = 2 then get_sequence_2 it
               else if len = 3 then get_sequence_3 it
               else get_sequence_4 it)
      in if len = 0 then Inl INVALID_LEAD
         else case r of Inl e \<Rightarrow> Inl e
           | Inr (cp, it') \<Rightarrow>
               if is_code_point_valid cp then
                 (if \<not> is_overlong_sequence cp len then Inr (cp, tl it') else Inl OVERLONG_SEQUENCE)
               else Inl INVALID_CODE_POINT)"

lemma increase_safely_length:
  "increase_safely it = Inr it' \<Longrightarrow> length it' < length it \<and> it' \<noteq> []"
  by (cases it) (auto simp: increase_safely_def split: list.splits if_splits)

lemma validate_next_length:
  assumes "validate_next it = Inr (cp, r)" and "it \<noteq> []"
  shows "length r < length it"
  using assms
  by (cases it)
     (auto simp: validate_next_def get_sequence_1_def get_sequence_2_def get_sequence_3_def
        get_sequence_4_def Let_def split: sum.splits if_splits dest!: increase_safely_length)

function find_invalid :: "u8 list \<Rightarrow> u8 list" where
  "find_invalid result =
     (if result \<noteq> [] then
        (case validate_next result of
           Inl _ \<Rightarrow> result
         | Inr (_, result') \<Rightarrow> find_invalid result')
      else result)"
  by pat_completeness auto
termination
  by (relation "measure length") (auto dest: validate_next_length)

declare find_invalid.simps [simp del]

definition is_valid :: "u8 list \<Rightarrow> bool" where
  "is_valid bs \<longleftrightarrow> find_invalid bs = []"

section \<open>checked.h\<close>

text \<open>\<open>utf8::append\<close>: the octets written for a code point; \<open>None\<close> is the thrown
  \<^verbatim>\<open>invalid_code_point\<close>.\<close>

definition utf8_append :: "nat \<Rightarrow> u8 list option" where
  "utf8_append cp =
     (if \<not> is_code_point_valid cp then None
      else Some (map of_nat
        (if cp < 0x80 then [cp]
         else if cp < 0x800 then [drop_bit 6 cp OR 0xc0, (cp AND 0x3f) OR 0x80]
         else if cp < 0x10000 then
           [drop_bit 12 cp OR 0xe0, (drop_bit 6 cp AND 0x3f) OR 0x80, (cp AND 0x3f) OR 0x80]
         else
           [drop_bit 18 cp OR 0xf0, (drop_bit 12 cp AND 0x3f) OR 0x80,
            (drop_bit 6 cp AND 0x3f) OR 0x80, (cp AND 0x3f) OR 0x80])))"

section \<open>Arithmetic of the bit operations\<close>

lemma and_mask:
  "(x::nat) AND 0x3f = x mod 64" "(x::nat) AND 0x7ff = x mod 2048" "(x::nat) AND 0xfff = x mod 4096"
  "(x::nat) AND 0xffff = x mod 65536" "(x::nat) AND 0x3ffff = x mod 262144"
  "(x::nat) AND 0x1fffff = x mod 2097152"
  using take_bit_eq_mask [of 6 x] take_bit_eq_mask [of 11 x] take_bit_eq_mask [of 12 x]
    take_bit_eq_mask [of 16 x] take_bit_eq_mask [of 18 x] take_bit_eq_mask [of 21 x]
  by (simp_all add: take_bit_eq_mod mask_eq_exp_minus_1)

lemma or_lead:
  "x < 64 \<Longrightarrow> (x::nat) OR 0x80 = x + 128" "x < 32 \<Longrightarrow> (x::nat) OR 0xc0 = x + 192"
  "x < 16 \<Longrightarrow> (x::nat) OR 0xe0 = x + 224" "x < 8 \<Longrightarrow> (x::nat) OR 0xf0 = x + 240"
proof -
  have all: "list_all (\<lambda>x. x OR 0x80 = x + 128) [0..<64::nat]" "list_all (\<lambda>x. x OR 0xc0 = x + 192) [0..<32::nat]"
    "list_all (\<lambda>x. x OR 0xe0 = x + 224) [0..<16::nat]" "list_all (\<lambda>x. x OR 0xf0 = x + 240) [0..<8::nat]"
    by code_simp+
  then show "x < 64 \<Longrightarrow> (x::nat) OR 0x80 = x + 128" "x < 32 \<Longrightarrow> (x::nat) OR 0xc0 = x + 192"
    "x < 16 \<Longrightarrow> (x::nat) OR 0xe0 = x + 224" "x < 8 \<Longrightarrow> (x::nat) OR 0xf0 = x + 240"
    by (simp_all add: list_all_iff)
qed

lemma is_trail_iff: "is_trail b \<longleftrightarrow> 128 \<le> unat b \<and> unat b < 192"
  unfolding is_trail_def drop_bit_eq_div using unat_u8 [of b] by auto

lemma sequence_length_cases:
  "sequence_length b = 1 \<longleftrightarrow> unat b < 128"
  "sequence_length b = 2 \<longleftrightarrow> 192 \<le> unat b \<and> unat b < 224"
  "sequence_length b = 3 \<longleftrightarrow> 224 \<le> unat b \<and> unat b < 240"
  "sequence_length b = 4 \<longleftrightarrow> 240 \<le> unat b \<and> unat b < 248"
  unfolding sequence_length_def Let_def drop_bit_eq_div using unat_u8 [of b] by auto

lemma sequence_length_le: "sequence_length b \<in> {0, 1, 2, 3, 4}"
  by (simp add: sequence_length_def Let_def)

lemma unat_of_nat_u8: "n < 256 \<Longrightarrow> unat (of_nat n :: u8) = n"
  by (simp add: unat_of_nat)

text \<open>Lead and trail bytes as offsets from their class.\<close>

lemma mod_offset: "(x::nat) < m \<Longrightarrow> y = x + k * m \<Longrightarrow> y mod m = x"
  by simp

lemma divmod_offset: "(c::nat) < m \<Longrightarrow> y = q * m + c \<Longrightarrow> y div m = q \<and> y mod m = c"
  by simp

lemma seq_arith:
  "a < 32 \<Longrightarrow> (a + 192) * 64 mod 2048 = a * (64::nat)"
  "b < 64 \<Longrightarrow> (b + 128) mod 64 = (b::nat)"
  "a < 16 \<Longrightarrow> (a + 224) * 4096 mod 65536 = a * (4096::nat)"
  "b < 64 \<Longrightarrow> (b + 128) * 64 mod 4096 = b * (64::nat)"
  "a < 8 \<Longrightarrow> (a + 240) * 262144 mod 2097152 = a * (262144::nat)"
  "b < 64 \<Longrightarrow> (b + 128) * 4096 mod 262144 = b * (4096::nat)"
  by (rule mod_offset [where k = 6], simp_all, rule mod_offset [where k = 2], simp_all,
      rule mod_offset [where k = 14], simp_all, rule mod_offset [where k = 2], simp_all,
      rule mod_offset [where k = 30], simp_all, rule mod_offset [where k = 2], simp_all)

lemma seq_expanded:
  "a < 32 \<Longrightarrow> (a * 64 + 12288) mod 2048 = a * (64::nat)"
  "a < 16 \<Longrightarrow> (a * 4096 + 917504) mod 65536 = a * (4096::nat)"
  "b < 64 \<Longrightarrow> (b * 64 + 8192) mod 4096 = b * (64::nat)"
  "a < 8 \<Longrightarrow> (a * 262144 + 62914560) mod 2097152 = a * (262144::nat)"
  "b < 64 \<Longrightarrow> (b * 4096 + 524288) mod 262144 = b * (4096::nat)"
  using seq_arith by (simp_all add: distrib_right)

section \<open>Encoding and validation agree\<close>

text \<open>The encodings as sums, by length class.\<close>

lemma utf8_append_cases:
  assumes "is_code_point_valid cp"
  shows "cp < 0x80 \<Longrightarrow> utf8_append cp = Some [of_nat cp]"
    and "0x80 \<le> cp \<Longrightarrow> cp < 0x800 \<Longrightarrow> utf8_append cp = Some [of_nat (cp div 64 + 192), of_nat (cp mod 64 + 128)]"
    and "0x800 \<le> cp \<Longrightarrow> cp < 0x10000 \<Longrightarrow> utf8_append cp =
      Some [of_nat (cp div 4096 + 224), of_nat (cp div 64 mod 64 + 128), of_nat (cp mod 64 + 128)]"
    and "0x10000 \<le> cp \<Longrightarrow> utf8_append cp =
      Some [of_nat (cp div 262144 + 240), of_nat (cp div 4096 mod 64 + 128),
            of_nat (cp div 64 mod 64 + 128), of_nat (cp mod 64 + 128)]"
proof -
  have m: "x mod 64 < 64" for x :: nat by simp
  have top: "cp < 0x110000" using assms by (simp add: is_code_point_valid_def CODE_POINT_MAX_def)
  show "cp < 0x80 \<Longrightarrow> utf8_append cp = Some [of_nat cp]"
    using assms by (simp add: utf8_append_def)
  show "0x80 \<le> cp \<Longrightarrow> cp < 0x800 \<Longrightarrow> utf8_append cp = Some [of_nat (cp div 64 + 192), of_nat (cp mod 64 + 128)]"
    using assms by (simp add: utf8_append_def drop_bit_eq_div and_mask or_lead m less_mult_imp_div_less)
  show "0x800 \<le> cp \<Longrightarrow> cp < 0x10000 \<Longrightarrow> utf8_append cp =
      Some [of_nat (cp div 4096 + 224), of_nat (cp div 64 mod 64 + 128), of_nat (cp mod 64 + 128)]"
    using assms by (simp add: utf8_append_def drop_bit_eq_div and_mask or_lead m less_mult_imp_div_less)
  have "cp div 262144 < 8" using top by (simp add: less_mult_imp_div_less)
  then show "0x10000 \<le> cp \<Longrightarrow> utf8_append cp =
      Some [of_nat (cp div 262144 + 240), of_nat (cp div 4096 mod 64 + 128),
            of_nat (cp div 64 mod 64 + 128), of_nat (cp mod 64 + 128)]"
    using assms by (simp add: utf8_append_def drop_bit_eq_div and_mask or_lead m)
qed

lemma validate_next_append:
  assumes valid: "is_code_point_valid cp"
  shows "validate_next (the (utf8_append cp) @ r) = Inr (cp, r)"
proof -
  have top: "cp < 0x110000" using valid by (simp add: is_code_point_valid_def CODE_POINT_MAX_def)
  have m64: "x mod 64 < 64" for x :: nat by simp
  note dec = validate_next_def get_sequence_1_def get_sequence_2_def get_sequence_3_def
    get_sequence_4_def increase_safely_def Let_def is_trail_iff push_bit_eq_mult and_mask
  consider (1) "cp < 0x80" | (2) "0x80 \<le> cp" "cp < 0x800" | (3) "0x800 \<le> cp" "cp < 0x10000"
    | (4) "0x10000 \<le> cp" by linarith
  then show ?thesis
  proof cases
    case 1
    have "sequence_length (of_nat cp) = 1" using 1 by (simp only: sequence_length_cases) (simp add: unat_of_nat_u8 del: of_nat_add)
    then show ?thesis using 1 valid
      by (simp add: utf8_append_cases dec unat_of_nat_u8 is_overlong_sequence_def)
  next
    case 2
    define a b where "a = cp div 64" and "b = cp mod 64"
    have ab: "a < 32" "b < 64" "a * 64 + b = cp"
      using 2 by (simp_all add: a_def b_def less_mult_imp_div_less)
    then have "sequence_length (of_nat (a + 192)) = 2" by (simp only: sequence_length_cases) (simp add: unat_of_nat_u8 del: of_nat_add)
    then show ?thesis using 2 valid ab unfolding utf8_append_cases(2) [OF valid 2] a_def [symmetric] b_def [symmetric]
      by (simp add: dec unat_of_nat_u8 is_overlong_sequence_def seq_arith seq_expanded del: of_nat_add)
  next
    case 3
    define a b c where "a = cp div 4096" and "b = cp div 64 mod 64" and "c = cp mod 64"
    have abc: "a < 16" "b < 64" "c < 64" using 3 by (simp_all add: a_def b_def c_def less_mult_imp_div_less)
    have "cp div 4096 = cp div 64 div 64" by (simp add: div_mult2_eq [symmetric])
    then have sum: "a * 4096 + b * 64 + c = cp" unfolding a_def b_def c_def
      using div_mult_mod_eq [of cp 64] div_mult_mod_eq [of "cp div 64" 64] by linarith
    have "sequence_length (of_nat (a + 224)) = 3" using abc by (simp only: sequence_length_cases) (simp add: unat_of_nat_u8 del: of_nat_add)
    then show ?thesis using 3 valid abc sum
      unfolding utf8_append_cases(3) [OF valid 3] a_def [symmetric] b_def [symmetric] c_def [symmetric]
      by (simp add: dec unat_of_nat_u8 is_overlong_sequence_def seq_arith seq_expanded del: of_nat_add)
  next
    case 4
    define a b c d where "a = cp div 262144" and "b = cp div 4096 mod 64" and "c = cp div 64 mod 64" and "d = cp mod 64"
    have abcd: "a < 8" "b < 64" "c < 64" "d < 64"
      using top by (simp_all add: a_def b_def c_def d_def less_mult_imp_div_less)
    have "cp div 4096 = cp div 64 div 64" "cp div 262144 = cp div 4096 div 64"
      by (simp_all add: div_mult2_eq [symmetric])
    then have sum: "a * 262144 + b * 4096 + c * 64 + d = cp" unfolding a_def b_def c_def d_def
      using div_mult_mod_eq [of cp 64] div_mult_mod_eq [of "cp div 64" 64] div_mult_mod_eq [of "cp div 4096" 64]
      by linarith
    have "sequence_length (of_nat (a + 240)) = 4" using abcd by (simp only: sequence_length_cases) (simp add: unat_of_nat_u8 del: of_nat_add)
    then show ?thesis using 4 valid abcd sum
      unfolding utf8_append_cases(4) [OF valid 4] a_def [symmetric] b_def [symmetric] c_def [symmetric] d_def [symmetric]
      by (simp add: dec unat_of_nat_u8 is_overlong_sequence_def seq_arith seq_expanded del: of_nat_add)
  qed
qed

lemma increase_safely_Inr:
  "increase_safely it = Inr it' \<Longrightarrow> \<exists>b r. tl it = b # r \<and> it' = b # r \<and> is_trail b"
  by (auto simp: increase_safely_def split: list.splits if_splits)

lemma trail_offset:
  assumes "is_trail b"
  obtains x where "x < 64" "unat b = x + 128" "b = of_nat (x + 128)"
proof -
  have "128 \<le> unat b" "unat b < 192" using assms by (auto simp: is_trail_iff)
  then show ?thesis by (intro that [of "unat b - 128"]) (simp_all del: of_nat_diff)
qed

lemma lead_offset:
  assumes "k \<le> unat b" and "unat b < k + n"
  obtains x where "x < n" "unat b = x + k" "b = of_nat (x + k)"
  using assms by (intro that [of "unat b - k"]) (simp_all del: of_nat_diff)

lemma validate_next_sound:
  assumes ok: "validate_next it = Inr (cp, r)" and ne: "it \<noteq> []"
  shows "is_code_point_valid cp \<and> it = the (utf8_append cp) @ r"
proof -
  obtain l it0 where it: "it = l # it0" using ne by (cases it) auto
  have len: "sequence_length l \<in> {1, 2, 3, 4}" and v: "is_code_point_valid cp"
    and no: "\<not> is_overlong_sequence cp (sequence_length l)"
    using ok it sequence_length_le [of l]
    by (auto simp: validate_next_def Let_def split: if_splits sum.splits)
  note seqs = validate_next_def get_sequence_1_def get_sequence_2_def get_sequence_3_def
    get_sequence_4_def Let_def push_bit_eq_mult and_mask it
  from len consider (1) "sequence_length l = 1" | (2) "sequence_length l = 2"
    | (3) "sequence_length l = 3" | (4) "sequence_length l = 4" by auto
  then have "it = the (utf8_append cp) @ r"
  proof cases
    case 1
    then have "unat l < 128" "cp = unat l" "r = it0"
      using ok by (auto simp: sequence_length_cases [simplified One_nat_def] seqs split: if_splits)
    with v show ?thesis by (simp add: utf8_append_cases it)
  next
    case 2
    then obtain t where t: "it0 = t # r" "is_trail t" "cp = unat l * 64 mod 2048 + unat t mod 64"
      using ok by (auto simp: seqs split: if_splits sum.splits dest!: increase_safely_Inr)
    obtain a where a: "a < 32" "unat l = a + 192" "l = of_nat (a + 192)"
      by (rule lead_offset [of 192 l 32]) (use 2 in \<open>simp_all add: sequence_length_cases del: of_nat_add\<close>)
    obtain b where b: "b < 64" "unat t = b + 128" "t = of_nat (b + 128)" using t(2) by (rule trail_offset)
    have cp: "cp = a * 64 + b" using t(3) a b by (simp add: seq_arith seq_expanded)
    then have "0x80 \<le> cp" "cp < 0x800" "cp div 64 = a" "cp mod 64 = b"
      using no 2 a b by (auto simp: is_overlong_sequence_def split: if_splits)
    with v a(3) b(3) t(1) show ?thesis by (simp add: utf8_append_cases it del: of_nat_add)
  next
    case 3
    then obtain t u where t: "it0 = t # u # r" "is_trail t" "is_trail u"
      "cp = unat l * 4096 mod 65536 + unat t * 64 mod 4096 + unat u mod 64"
      using ok by (auto simp: seqs split: if_splits sum.splits dest!: increase_safely_Inr)
    obtain a where a: "a < 16" "unat l = a + 224" "l = of_nat (a + 224)"
      by (rule lead_offset [of 224 l 16]) (use 3 in \<open>simp_all add: sequence_length_cases del: of_nat_add\<close>)
    obtain b where b: "b < 64" "unat t = b + 128" "t = of_nat (b + 128)" using t(2) by (rule trail_offset)
    obtain c where c: "c < 64" "unat u = c + 128" "u = of_nat (c + 128)" using t(3) by (rule trail_offset)
    have cp: "cp = a * 4096 + b * 64 + c" using t(4) a b c by (simp add: seq_arith seq_expanded)
    then have d: "cp div 64 = a * 64 + b" "cp mod 64 = c" "cp div 4096 = a" "cp div 64 mod 64 = b"
      using b c divmod_offset [of c 64 cp "a * 64 + b"] divmod_offset [of "b * 64 + c" 4096 cp a]
        divmod_offset [of b 64 "a * 64 + b" a] by simp_all
    have "0x800 \<le> cp" "cp < 0x10000"
      using no 3 a b c cp by (auto simp: is_overlong_sequence_def split: if_splits)
    with v a(3) b(3) c(3) d(2-4) t(1) show ?thesis by (simp add: utf8_append_cases it del: of_nat_add)
  next
    case 4
    then obtain t u w where t: "it0 = t # u # w # r" "is_trail t" "is_trail u" "is_trail w"
      "cp = unat l * 262144 mod 2097152 + unat t * 4096 mod 262144 + unat u * 64 mod 4096 + unat w mod 64"
      using ok by (auto simp: seqs split: if_splits sum.splits dest!: increase_safely_Inr)
    obtain a where a: "a < 8" "unat l = a + 240" "l = of_nat (a + 240)"
      by (rule lead_offset [of 240 l 8]) (use 4 in \<open>simp_all add: sequence_length_cases del: of_nat_add\<close>)
    obtain b where b: "b < 64" "unat t = b + 128" "t = of_nat (b + 128)" using t(2) by (rule trail_offset)
    obtain c where c: "c < 64" "unat u = c + 128" "u = of_nat (c + 128)" using t(3) by (rule trail_offset)
    obtain e where e: "e < 64" "unat w = e + 128" "w = of_nat (e + 128)" using t(4) by (rule trail_offset)
    have cp: "cp = a * 262144 + b * 4096 + c * 64 + e" using t(5) a b c e by (simp add: seq_arith seq_expanded)
    then have d: "cp div 64 = a * 4096 + b * 64 + c" "cp mod 64 = e" "cp div 4096 = a * 64 + b" "cp div 262144 = a"
      using b c e divmod_offset [of e 64 cp "a * 4096 + b * 64 + c"]
        divmod_offset [of "c * 64 + e" 4096 cp "a * 64 + b"] divmod_offset [of "b * 4096 + c * 64 + e" 262144 cp a]
      by simp_all
    then have "cp div 64 mod 64 = c" "cp div 4096 mod 64 = b"
      using b c divmod_offset [of c 64 "a * 4096 + b * 64 + c" "a * 64 + b"]
        divmod_offset [of b 64 "a * 64 + b" a] by simp_all
    moreover have "0x10000 \<le> cp"
      using no 4 cp by (auto simp: is_overlong_sequence_def split: if_splits)
    ultimately show ?thesis using v a(3) b(3) c(3) e(3) d(2,4) t(1)
      by (simp add: utf8_append_cases it del: of_nat_add)
  qed
  with v show ?thesis by simp
qed

lemma utf8_append_nonempty: "is_code_point_valid cp \<Longrightarrow> the (utf8_append cp) \<noteq> []"
  by (simp add: utf8_append_def)

lemma find_invalid_Nil [simp]: "find_invalid [] = []"
  by (simp add: find_invalid.simps)

lemma find_invalid_append:
  "is_code_point_valid cp \<Longrightarrow> find_invalid (the (utf8_append cp) @ r) = find_invalid r"
  by (subst find_invalid.simps) (simp add: validate_next_append utf8_append_nonempty)

lemma is_valid_encoded:
  "(\<And>cp. cp \<in> set cps \<Longrightarrow> is_code_point_valid cp) \<Longrightarrow>
    is_valid (concat (map (\<lambda>cp. the (utf8_append cp)) cps))"
  by (induction cps) (auto simp: is_valid_def find_invalid_append)

lemma is_valid_decoded:
  "is_valid bs \<Longrightarrow> \<exists>cps. list_all is_code_point_valid cps \<and>
    bs = concat (map (\<lambda>cp. the (utf8_append cp)) cps)"
proof (induction bs rule: find_invalid.induct)
  case (1 bs)
  show ?case
  proof (cases "bs = []")
    case True
    then show ?thesis by (intro exI [of _ "[]"]) simp
  next
    case False
    with "1.prems" obtain cp r where ok: "validate_next bs = Inr (cp, r)" and r: "is_valid r"
      by (auto simp: is_valid_def find_invalid.simps [of bs] split: sum.splits)
    from "1.IH" [OF False ok refl r] obtain cps where
      "list_all is_code_point_valid cps" "r = concat (map (\<lambda>cp. the (utf8_append cp)) cps)"
      by blast
    with validate_next_sound [OF ok False] show ?thesis
      by (intro exI [of _ "cp # cps"]) simp
  qed
qed

text \<open>C32: UTF-8 validation accepts exactly the well-formed strings: \<open>utf8::is_valid\<close> holds
  of a byte string if and only if the string is the concatenation of the octets
  \<open>utf8::append\<close> writes for some sequence of valid code points (so truncated, overlong,
  surrogate and out-of-range sequences are all refused, and nothing else is).\<close>

theorem is_valid_iff_encoded:
  "is_valid bs \<longleftrightarrow>
    (\<exists>cps. list_all is_code_point_valid cps \<and> bs = concat (map (\<lambda>cp. the (utf8_append cp)) cps))"
  using is_valid_decoded is_valid_encoded by (metis list.pred_set)

lemma is_valid_ascii: "(\<And>b. b \<in> set bs \<Longrightarrow> unat b < 128) \<Longrightarrow> is_valid bs"
proof (induction bs)
  case Nil
  then show ?case by (simp add: is_valid_def)
next
  case (Cons b bs)
  then have "unat b < 128" by simp
  then have "is_code_point_valid (unat b)"
    by (simp add: is_code_point_valid_def CODE_POINT_MAX_def is_surrogate_def LEAD_SURROGATE_MIN_def)
  with Cons show ?case
    using find_invalid_append [of "unat b" bs] by (simp add: utf8_append_cases is_valid_def)
qed

end
