(* ===== verification/Byte_Buffer.thy ===== *)
theory Byte_Buffer
  imports Message_Buffer Byte_Converter String_Util Utf8
begin

text \<open>
  \<^verbatim>\<open>src/src/shared/Packets/ByteBuffer.h\<close> and \<^verbatim>\<open>ByteBuffer.cpp\<close>: the typed
  serialisation buffer. An operation takes the buffer and returns the exception it throws or
  its result, together with the buffer as the operation leaves it (an exception does not undo
  what was already consumed). \<open>endian\<close> is the byte order of the host; a value of a
  fundamental type of \<open>n\<close> bits is an \<open>n\<close>-bit word, signed types and IEEE floats by
  their bits. Positions and sizes are \<^verbatim>\<open>size_t\<close> values, with the wrap-around of the bounds
  checks written out. \<open>OutOfBounds\<close> is an access outside the vector, which the source
  leaves undefined; \<open>bb_capacity\<close> follows the growth rule of libstdc++'s vector.
\<close>

unbundle bit_operations_syntax

section \<open>State and exceptions\<close>

record ByteBuffer =
  bb_rpos :: nat
  bb_wpos :: nat
  bb_storage :: "u8 list"
  bb_capacity :: nat

datatype bb_error =
    PositionException string
  | SourceException string
  | InvalidValueException string
  | BaseException
  | AssertionFailed
  | OutOfBounds
  | Diverges

type_synonym 'a bbm = "ByteBuffer \<Rightarrow> (bb_error + 'a) \<times> ByteBuffer"

definition ByteBufferPositionException :: "bool \<Rightarrow> nat \<Rightarrow> nat \<Rightarrow> nat \<Rightarrow> bb_error" where
  "ByteBufferPositionException add pos sz valueSize =
     PositionException (''Attempted to '' @ (if add then ''put'' else ''get'') @ '' value with size: ''
       @ dec_nat valueSize @ '' in ByteBuffer (pos: '' @ dec_nat pos @ '' size: '' @ dec_nat sz @ '')'')"

definition ByteBufferSourceException :: "nat \<Rightarrow> nat \<Rightarrow> nat \<Rightarrow> bb_error" where
  "ByteBufferSourceException pos sz valueSize =
     SourceException (''Attempted to put a '' @ (if valueSize > 0 then ''NULL-pointer'' else ''zero-sized value'')
       @ '' in ByteBuffer (pos: '' @ dec_nat pos @ '' size: '' @ dec_nat sz @ '')'')"

definition ByteBufferInvalidValueException :: "string \<Rightarrow> string \<Rightarrow> bb_error" where
  "ByteBufferInvalidValueException type value =
     InvalidValueException (''Invalid '' @ type @ '' value ('' @ value @ '') found in ByteBuffer'')"

definition bb_return :: "'a \<Rightarrow> 'a bbm" where
  "bb_return x b = (Inr x, b)"

definition bb_throw :: "bb_error \<Rightarrow> 'a bbm" where
  "bb_throw e b = (Inl e, b)"

definition bb_bind :: "'a bbm \<Rightarrow> ('a \<Rightarrow> 'b bbm) \<Rightarrow> 'b bbm" where
  "bb_bind m f b = (case m b of (Inl e, b') \<Rightarrow> (Inl e, b') | (Inr x, b') \<Rightarrow> f x b')"

section \<open>Construction and assignment\<close>

definition DEFAULT_SIZE :: nat where
  "DEFAULT_SIZE = 0x1000"

definition ByteBuffer_default :: ByteBuffer where
  "ByteBuffer_default = \<lparr>bb_rpos = 0, bb_wpos = 0, bb_storage = [], bb_capacity = DEFAULT_SIZE\<rparr>"

text \<open>\<^verbatim>\<open>ByteBuffer(const char* buffer, size_t reserve)\<close> reserves and copies into the reserved
  memory; \<^verbatim>\<open>reserve\<close> does not change the size, so the vector stays empty.\<close>

definition ByteBuffer_of_pointer :: "string \<Rightarrow> nat \<Rightarrow> ByteBuffer" where
  "ByteBuffer_of_pointer buffer res = \<lparr>bb_rpos = 0, bb_wpos = 0, bb_storage = [], bb_capacity = res\<rparr>"

definition ByteBuffer_reserving :: "nat \<Rightarrow> ByteBuffer" where
  "ByteBuffer_reserving res = \<lparr>bb_rpos = 0, bb_wpos = 0, bb_storage = [], bb_capacity = res\<rparr>"

definition ByteBuffer_moved_from :: "ByteBuffer \<Rightarrow> ByteBuffer" where
  "ByteBuffer_moved_from b = \<lparr>bb_rpos = 0, bb_wpos = 0, bb_storage = [], bb_capacity = 0\<rparr>"

definition ByteBuffer_move :: "ByteBuffer \<Rightarrow> ByteBuffer \<times> ByteBuffer" where
  "ByteBuffer_move buf = (buf, ByteBuffer_moved_from buf)"

definition ByteBuffer_copy :: "ByteBuffer \<Rightarrow> ByteBuffer" where
  "ByteBuffer_copy right = right\<lparr>bb_capacity := length (bb_storage right)\<rparr>"

definition ByteBuffer_of_MessageBuffer :: "MessageBuffer \<Rightarrow> ByteBuffer \<times> MessageBuffer" where
  "ByteBuffer_of_MessageBuffer buffer =
     (let (st, buffer') = MessageBuffer_Move buffer
      in (\<lparr>bb_rpos = 0, bb_wpos = 0, bb_storage = st, bb_capacity = length st\<rparr>, buffer'))"

text \<open>The assignments; \<open>self\<close> says whether \<^verbatim>\<open>this == &right\<close>.\<close>

definition ByteBuffer_copy_assign :: "bool \<Rightarrow> ByteBuffer \<Rightarrow> ByteBuffer \<Rightarrow> ByteBuffer" where
  "ByteBuffer_copy_assign self right b =
     (if \<not> self then
        \<lparr>bb_rpos = bb_rpos right, bb_wpos = bb_wpos right, bb_storage = bb_storage right,
         bb_capacity = max (bb_capacity b) (length (bb_storage right))\<rparr>
      else b)"

definition ByteBuffer_move_assign :: "bool \<Rightarrow> ByteBuffer \<Rightarrow> ByteBuffer \<Rightarrow> ByteBuffer \<times> ByteBuffer" where
  "ByteBuffer_move_assign self right b =
     (if \<not> self then (right, ByteBuffer_moved_from right) else (b, right))"

definition ByteBuffer_clear :: "ByteBuffer \<Rightarrow> ByteBuffer" where
  "ByteBuffer_clear b = b\<lparr>bb_storage := [], bb_rpos := 0, bb_wpos := 0\<rparr>"

section \<open>Positions and sizes\<close>

definition ByteBuffer_size :: "ByteBuffer \<Rightarrow> nat" where
  "ByteBuffer_size b = length (bb_storage b)"

definition ByteBuffer_empty :: "ByteBuffer \<Rightarrow> bool" where
  "ByteBuffer_empty b \<longleftrightarrow> bb_storage b = []"

definition ByteBuffer_set_rpos :: "nat \<Rightarrow> ByteBuffer \<Rightarrow> ByteBuffer" where
  "ByteBuffer_set_rpos p b = b\<lparr>bb_rpos := p\<rparr>"

definition ByteBuffer_set_wpos :: "nat \<Rightarrow> ByteBuffer \<Rightarrow> ByteBuffer" where
  "ByteBuffer_set_wpos p b = b\<lparr>bb_wpos := p\<rparr>"

definition ByteBuffer_rfinish :: "ByteBuffer \<Rightarrow> ByteBuffer" where
  "ByteBuffer_rfinish b = b\<lparr>bb_rpos := bb_wpos b\<rparr>"

definition ByteBuffer_contents :: "ByteBuffer \<Rightarrow> bb_error + u8 list" where
  "ByteBuffer_contents b = (if bb_storage b = [] then Inl BaseException else Inr (bb_storage b))"

definition ByteBuffer_index :: "nat \<Rightarrow> ByteBuffer \<Rightarrow> bb_error + u8" where
  "ByteBuffer_index pos b =
     (if pos \<ge> ByteBuffer_size b then Inl (ByteBufferPositionException False pos 1 (ByteBuffer_size b))
      else Inr (bb_storage b ! pos))"

text \<open>The vector: \<^verbatim>\<open>reserve\<close>, the growth of \<^verbatim>\<open>resize\<close>, \<^verbatim>\<open>shrink_to_fit\<close>.\<close>

definition vec_reserve :: "nat \<Rightarrow> ByteBuffer \<Rightarrow> ByteBuffer" where
  "vec_reserve n b = b\<lparr>bb_capacity := max (bb_capacity b) n\<rparr>"

definition vec_resize_storage :: "nat \<Rightarrow> ByteBuffer \<Rightarrow> ByteBuffer" where
  "vec_resize_storage n b =
     (let sz = length (bb_storage b) in
      b\<lparr>bb_storage := vec_resize n 0 (bb_storage b),
        bb_capacity := (if n \<le> bb_capacity b then bb_capacity b else sz + max sz (n - sz))\<rparr>)"

definition ByteBuffer_resize :: "nat \<Rightarrow> ByteBuffer \<Rightarrow> ByteBuffer" where
  "ByteBuffer_resize newsize b =
     (let b1 = vec_resize_storage newsize b in b1\<lparr>bb_rpos := 0, bb_wpos := ByteBuffer_size b1\<rparr>)"

definition ByteBuffer_reserve :: "nat \<Rightarrow> ByteBuffer \<Rightarrow> ByteBuffer" where
  "ByteBuffer_reserve ressize b = (if ressize > ByteBuffer_size b then vec_reserve ressize b else b)"

definition ByteBuffer_shrink_to_fit :: "ByteBuffer \<Rightarrow> ByteBuffer" where
  "ByteBuffer_shrink_to_fit b = b\<lparr>bb_capacity := length (bb_storage b)\<rparr>"

section \<open>Writing\<close>

text \<open>\<^verbatim>\<open>append(uint8 const* src, size_t cnt)\<close>; \<open>None\<close> is a null pointer.\<close>

definition ByteBuffer_append :: "u8 list option \<Rightarrow> unit bbm" where
  "ByteBuffer_append src b =
     (case src of
        None \<Rightarrow> (Inl AssertionFailed, b)
      | Some data \<Rightarrow>
          (let cnt = length data in
           if cnt = 0 then (Inl AssertionFailed, b)
           else if \<not> ByteBuffer_size b < 10000000 then (Inl AssertionFailed, b)
           else
             (let newSize = sz_add (bb_wpos b) cnt;
                  b1 = (if bb_capacity b < newSize then
                          (if newSize < 100 then vec_reserve 300 b
                           else if newSize < 750 then vec_reserve 2500 b
                           else if newSize < 6000 then vec_reserve 10000 b
                           else vec_reserve 400000 b)
                        else b);
                  b2 = (if ByteBuffer_size b1 < newSize then vec_resize_storage newSize b1 else b1)
              in case mem_write (bb_wpos b) data (bb_storage b2) of
                   None \<Rightarrow> (Inl OutOfBounds, b2)
                 | Some st \<Rightarrow> (Inr (), b2\<lparr>bb_storage := st, bb_wpos := newSize\<rparr>))))"

definition ByteBuffer_put_bytes :: "nat \<Rightarrow> u8 list option \<Rightarrow> unit bbm" where
  "ByteBuffer_put_bytes pos src b =
     (case src of
        None \<Rightarrow> (Inl AssertionFailed, b)
      | Some data \<Rightarrow>
          (let cnt = length data in
           if \<not> sz_add pos cnt \<le> ByteBuffer_size b then (Inl AssertionFailed, b)
           else if cnt = 0 then (Inl AssertionFailed, b)
           else case mem_write pos data (bb_storage b) of
                  None \<Rightarrow> (Inl OutOfBounds, b)
                | Some st \<Rightarrow> (Inr (), b\<lparr>bb_storage := st\<rparr>)))"

text \<open>\<^verbatim>\<open>append<T>(T value)\<close> and \<^verbatim>\<open>put<T>(pos, value)\<close>: the object representation after
  \<open>EndianConvert\<close>. Every integral and floating \<^verbatim>\<open>operator<<\<close> is \<open>append<T>\<close>.\<close>

definition ByteBuffer_append_value :: "endian \<Rightarrow> 'a::len word \<Rightarrow> unit bbm" where
  "ByteBuffer_append_value e value = ByteBuffer_append (Some (EndianConvert e (object_bytes e value)))"

definition ByteBuffer_put_value :: "endian \<Rightarrow> nat \<Rightarrow> 'a::len word \<Rightarrow> unit bbm" where
  "ByteBuffer_put_value e pos value = ByteBuffer_put_bytes pos (Some (EndianConvert e (object_bytes e value)))"

definition ByteBuffer_write_bool :: "endian \<Rightarrow> bool \<Rightarrow> unit bbm" where
  "ByteBuffer_write_bool e value = ByteBuffer_append_value e (if value then 1 else 0 :: u8)"

definition ByteBuffer_write_string :: "endian \<Rightarrow> string \<Rightarrow> unit bbm" where
  "ByteBuffer_write_string e value =
     bb_bind (if length value \<noteq> 0 then ByteBuffer_append (Some (bytes value)) else bb_return ())
       (\<lambda>_. ByteBuffer_append_value e (0 :: u8))"

text \<open>\<^verbatim>\<open>operator<<(char const*)\<close>: the string up to the first NUL of the memory pointed to.\<close>

definition ByteBuffer_write_cstring :: "endian \<Rightarrow> string option \<Rightarrow> unit bbm" where
  "ByteBuffer_write_cstring e str =
     ByteBuffer_write_string e (case str of None \<Rightarrow> [] | Some s \<Rightarrow> takeWhile (\<lambda>c. c \<noteq> CHR 0x00) s)"

definition ByteBuffer_append_buffer :: "ByteBuffer \<Rightarrow> unit bbm" where
  "ByteBuffer_append_buffer buffer b =
     (if bb_wpos buffer \<noteq> 0 then
        (case ByteBuffer_contents buffer of
           Inl x \<Rightarrow> (Inl x, b)
         | Inr c \<Rightarrow> (case mem_read 0 (bb_wpos buffer) c of
                       None \<Rightarrow> (Inl OutOfBounds, b)
                     | Some d \<Rightarrow> ByteBuffer_append (Some d) b))
      else (Inr (), b))"

text \<open>\<open>appendPackXYZ\<close>; the arguments are the values of the expressions
  \<^verbatim>\<open>(int)(x / 0.25f)\<close> and so on.\<close>

definition ByteBuffer_appendPackXYZ :: "endian \<Rightarrow> u32 \<Rightarrow> u32 \<Rightarrow> u32 \<Rightarrow> unit bbm" where
  "ByteBuffer_appendPackXYZ e x y z =
     ByteBuffer_append_value e
       ((x AND 0x7FF) OR push_bit 11 (y AND 0x7FF) OR push_bit 22 (z AND 0x3FF))"

lemma unat_drop_bit_8: "unat (drop_bit 8 (guid :: u64)) = unat guid div 256"
proof -
  have "take_bit 64 (unat guid) = unat guid"
    using unsigned_less [of guid] by (intro take_bit_nat_eq_self) simp
  then show ?thesis by (simp add: unsigned_drop_bit_eq drop_bit_nat_def)
qed

lemma drop_bit_8_less: "(guid :: u64) \<noteq> 0 \<Longrightarrow> unat (drop_bit 8 guid) < unat guid"
proof -
  assume "guid \<noteq> 0"
  then have "0 < unat guid" by (simp add: unat_gt_0)
  moreover have "unat (drop_bit 8 guid) = unat guid div 256" by (rule unat_drop_bit_8)
  ultimately show ?thesis by simp
qed

function appendPackGUID_loop :: "nat \<Rightarrow> u64 \<Rightarrow> u8 \<Rightarrow> u8 list \<Rightarrow> u8 \<times> u8 list" where
  "appendPackGUID_loop i guid mark out =
     (if guid \<noteq> 0 then
        (if guid AND 0xFF \<noteq> 0 then
           appendPackGUID_loop (i + 1) (drop_bit 8 guid) (mark OR push_bit i 1) (out @ [ucast (guid AND 0xFF)])
         else appendPackGUID_loop (i + 1) (drop_bit 8 guid) mark out)
      else (mark, out))"
  by pat_completeness auto
termination
  by (relation "measure (\<lambda>(i, guid, mark, out). unat guid)") (auto dest: drop_bit_8_less)

declare appendPackGUID_loop.simps [simp del]

definition ByteBuffer_appendPackGUID :: "u64 \<Rightarrow> unit bbm" where
  "ByteBuffer_appendPackGUID guid =
     (let (mark, out) = appendPackGUID_loop 0 guid 0 [] in ByteBuffer_append (Some (mark # out)))"

section \<open>Reading\<close>

definition ByteBuffer_read_at :: "endian \<Rightarrow> nat \<Rightarrow> ByteBuffer \<Rightarrow> bb_error + 'a::len word" where
  "ByteBuffer_read_at e pos b =
     (let n = LENGTH('a) div 8 in
      if sz_add pos n > ByteBuffer_size b
      then Inl (ByteBufferPositionException False pos n (ByteBuffer_size b))
      else case mem_read pos n (bb_storage b) of
             None \<Rightarrow> Inl OutOfBounds
           | Some m \<Rightarrow> Inr (object_value e (EndianConvert e m)))"

definition ByteBuffer_read :: "endian \<Rightarrow> ('a::len word) bbm" where
  "ByteBuffer_read e b =
     (case ByteBuffer_read_at e (bb_rpos b) b of
        Inl x \<Rightarrow> (Inl x, b)
      | Inr r \<Rightarrow> (Inr r, b\<lparr>bb_rpos := sz_add (bb_rpos b) (LENGTH('a) div 8)\<rparr>))"

definition ByteBuffer_read_skip :: "nat \<Rightarrow> unit bbm" where
  "ByteBuffer_read_skip skip b =
     (if sz_add (bb_rpos b) skip > ByteBuffer_size b
      then (Inl (ByteBufferPositionException False (bb_rpos b) skip (ByteBuffer_size b)), b)
      else (Inr (), b\<lparr>bb_rpos := sz_add (bb_rpos b) skip\<rparr>))"

definition ByteBuffer_read_bytes :: "nat \<Rightarrow> (u8 list) bbm" where
  "ByteBuffer_read_bytes len b =
     (if sz_add (bb_rpos b) len > ByteBuffer_size b
      then (Inl (ByteBufferPositionException False (bb_rpos b) len (ByteBuffer_size b)), b)
      else case mem_read (bb_rpos b) len (bb_storage b) of
             None \<Rightarrow> (Inl OutOfBounds, b)
           | Some d \<Rightarrow> (Inr d, b\<lparr>bb_rpos := sz_add (bb_rpos b) len\<rparr>))"

text \<open>\<^verbatim>\<open>operator>>(bool&)\<close> compares a signed \<^verbatim>\<open>char\<close> with zero.\<close>

definition ByteBuffer_read_bool :: "endian \<Rightarrow> bool bbm" where
  "ByteBuffer_read_bool e = bb_bind (ByteBuffer_read e) (\<lambda>c :: u8. bb_return (sint c > 0))"

text \<open>\<^verbatim>\<open>std::isfinite\<close> on the bits of an IEEE single or double: the exponent is not all ones.\<close>

definition isfinite32 :: "u32 \<Rightarrow> bool" where
  "isfinite32 w \<longleftrightarrow> drop_bit 23 w AND 0xFF \<noteq> 0xFF"

definition isfinite64 :: "u64 \<Rightarrow> bool" where
  "isfinite64 w \<longleftrightarrow> drop_bit 52 w AND 0x7FF \<noteq> 0x7FF"

definition ByteBuffer_read_float :: "endian \<Rightarrow> u32 bbm" where
  "ByteBuffer_read_float e =
     bb_bind (ByteBuffer_read e)
       (\<lambda>value. if \<not> isfinite32 value then bb_throw (ByteBufferInvalidValueException ''float'' ''infinity'')
                else bb_return value)"

definition ByteBuffer_read_double :: "endian \<Rightarrow> u64 bbm" where
  "ByteBuffer_read_double e =
     bb_bind (ByteBuffer_read e)
       (\<lambda>value. if \<not> isfinite64 value then bb_throw (ByteBufferInvalidValueException ''double'' ''infinity'')
                else bb_return value)"

text \<open>The loop of \<open>ReadCString\<close>, with one unit of fuel per byte of the storage; it never
  runs out (\<open>ReadCString_loop_spec\<close>).\<close>

primrec ReadCString_loop :: "nat \<Rightarrow> endian \<Rightarrow> u8 list \<Rightarrow> (u8 list) bbm" where
  "ReadCString_loop 0 e value b = (if bb_rpos b < ByteBuffer_size b then (Inl Diverges, b) else (Inr value, b))"
| "ReadCString_loop (Suc fuel) e value b =
     (if bb_rpos b < ByteBuffer_size b then
        bb_bind (ByteBuffer_read e)
          (\<lambda>c :: u8. if c = 0 then bb_return value else ReadCString_loop fuel e (value @ [c])) b
      else (Inr value, b))"

definition ByteBuffer_ReadCString :: "endian \<Rightarrow> bool \<Rightarrow> string bbm" where
  "ByteBuffer_ReadCString e requireValidUtf8 b =
     bb_bind (ReadCString_loop (ByteBuffer_size b) e [])
       (\<lambda>value. if requireValidUtf8 \<and> \<not> is_valid value
                then bb_throw (ByteBufferInvalidValueException ''string'' (chars value))
                else bb_return (chars value)) b"

text \<open>\<^verbatim>\<open>operator>>(std::string&)\<close>, \<^verbatim>\<open>read<std::string>\<close> and
  \<^verbatim>\<open>read_skip<char*>\<close>.\<close>

definition ByteBuffer_read_string :: "endian \<Rightarrow> string bbm" where
  "ByteBuffer_read_string e = ByteBuffer_ReadCString e True"

definition ByteBuffer_read_skip_string :: "endian \<Rightarrow> unit bbm" where
  "ByteBuffer_read_skip_string e = bb_bind (ByteBuffer_read_string e) (\<lambda>_. bb_return ())"

primrec readPackGUID_loop :: "endian \<Rightarrow> u8 \<Rightarrow> nat list \<Rightarrow> u64 \<Rightarrow> u64 bbm" where
  "readPackGUID_loop e guidmark [] guid b = (Inr guid, b)"
| "readPackGUID_loop e guidmark (i # is) guid b =
     (if guidmark AND push_bit i 1 \<noteq> 0 then
        (if sz_add (bb_rpos b) 1 > ByteBuffer_size b
         then (Inl (ByteBufferPositionException False (bb_rpos b) 1 (ByteBuffer_size b)), b)
         else bb_bind (ByteBuffer_read e)
                (\<lambda>bt :: u8. readPackGUID_loop e guidmark is (guid OR push_bit (i * 8) (ucast bt))) b)
      else readPackGUID_loop e guidmark is guid b)"

definition ByteBuffer_readPackGUID :: "endian \<Rightarrow> u64 bbm" where
  "ByteBuffer_readPackGUID e b =
     (if sz_add (bb_rpos b) 1 > ByteBuffer_size b
      then (Inl (ByteBufferPositionException False (bb_rpos b) 1 (ByteBuffer_size b)), b)
      else bb_bind (ByteBuffer_read e) (\<lambda>guidmark. readPackGUID_loop e guidmark [0..<8] 0) b)"

section \<open>Packed time\<close>

text \<open>\<^verbatim>\<open>struct tm\<close>. The conversions between calendar time and \<^verbatim>\<open>struct tm\<close> depend on the
  host's time zone data; they are the arguments \<open>localtime\<close> (that is,
  \<open>Warhead::Time::TimeBreakdown\<close> of the given time) and \<open>mktime\<close>.\<close>

record tm =
  tm_sec :: int
  tm_min :: int
  tm_hour :: int
  tm_mday :: int
  tm_mon :: int
  tm_year :: int
  tm_wday :: int
  tm_yday :: int
  tm_isdst :: int

definition tm_zero :: tm where
  "tm_zero = \<lparr>tm_sec = 0, tm_min = 0, tm_hour = 0, tm_mday = 0, tm_mon = 0, tm_year = 0,
     tm_wday = 0, tm_yday = 0, tm_isdst = 0\<rparr>"

definition ByteBuffer_AppendPackedTime :: "(int \<Rightarrow> tm) \<Rightarrow> endian \<Rightarrow> int \<Rightarrow> unit bbm" where
  "ByteBuffer_AppendPackedTime localtime e time =
     (let lt = localtime time in
      ByteBuffer_append_value e
        ((push_bit 24 (word_of_int (tm_year lt - 100)) OR push_bit 20 (word_of_int (tm_mon lt))
          OR push_bit 14 (word_of_int (tm_mday lt - 1)) OR push_bit 11 (word_of_int (tm_wday lt))
          OR push_bit 6 (word_of_int (tm_hour lt)) OR word_of_int (tm_min lt)) :: u32))"

definition ByteBuffer_ReadPackedTime :: "(tm \<Rightarrow> int) \<Rightarrow> endian \<Rightarrow> u32 bbm" where
  "ByteBuffer_ReadPackedTime mktime e =
     bb_bind (ByteBuffer_read e)
       (\<lambda>packedDate :: u32.
          bb_return (word_of_int (mktime (tm_zero
            \<lparr>tm_min := uint (packedDate AND 0x3F),
             tm_hour := uint (drop_bit 6 packedDate AND 0x1F),
             tm_mday := uint (drop_bit 14 packedDate AND 0x3F) + 1,
             tm_mon := uint (drop_bit 20 packedDate AND 0xF),
             tm_year := uint (drop_bit 24 packedDate AND 0x1F) + 100\<rparr>))))"

section \<open>Dumps\<close>

text \<open>The text built by \<open>print_storage\<close>, \<open>textlike\<close> and \<open>hexlike\<close> for the log.\<close>

definition ByteBuffer_print_storage :: "ByteBuffer \<Rightarrow> string" where
  "ByteBuffer_print_storage b =
     ''STORAGE_SIZE: '' @ dec_nat (ByteBuffer_size b)
       @ concat (map (\<lambda>x. char_of_byte x # '' - '') (bb_storage b)) @ '' ''"

definition ByteBuffer_textlike :: "ByteBuffer \<Rightarrow> string" where
  "ByteBuffer_textlike b =
     ''STORAGE_SIZE: '' @ dec_nat (ByteBuffer_size b) @ chars (bb_storage b) @ '' ''"

primrec hexlike_loop :: "u8 list \<Rightarrow> nat \<Rightarrow> nat \<Rightarrow> nat \<Rightarrow> string" where
  "hexlike_loop [] i j k = []"
| "hexlike_loop (x # xs) i j k =
     (if i = j * 8 \<and> i \<noteq> k * 16 then ''| '' @ dec_nat (unat x) @ hexlike_loop xs (i + 1) (j + 1) k
      else if i = k * 16 then CHR 0x0A # dec_nat (unat x) @ hexlike_loop xs (i + 1) (j + 1) (k + 1)
      else dec_nat (unat x) @ hexlike_loop xs (i + 1) j k)"

definition ByteBuffer_hexlike :: "ByteBuffer \<Rightarrow> string" where
  "ByteBuffer_hexlike b =
     ''STORAGE_SIZE: '' @ dec_nat (ByteBuffer_size b) @ hexlike_loop (bb_storage b) 0 1 1 @ '' ''"

section \<open>Well-formed buffers and their unread bytes\<close>

text \<open>A buffer that is written by appending only: the write position is the end of the data and
  the read position is inside it.\<close>

definition bb_wf :: "ByteBuffer \<Rightarrow> bool" where
  "bb_wf b \<longleftrightarrow> bb_rpos b \<le> length (bb_storage b) \<and> bb_wpos b = length (bb_storage b)
     \<and> length (bb_storage b) \<le> bb_capacity b \<and> length (bb_storage b) < size_t_mod div 4"

definition bb_unread :: "ByteBuffer \<Rightarrow> u8 list" where
  "bb_unread b = drop (bb_rpos b) (bb_storage b)"

lemma bb_wf_default: "bb_wf ByteBuffer_default"
  by (simp add: bb_wf_def ByteBuffer_default_def size_t_mod_def)

lemma bb_unread_default: "bb_unread ByteBuffer_default = []"
  by (simp add: bb_unread_def ByteBuffer_default_def)

lemma vec_reserve_sel [simp]:
  "bb_storage (vec_reserve n b) = bb_storage b" "bb_rpos (vec_reserve n b) = bb_rpos b"
  "bb_wpos (vec_reserve n b) = bb_wpos b" "bb_capacity (vec_reserve n b) = max (bb_capacity b) n"
  by (simp_all add: vec_reserve_def)

lemma vec_resize_storage_sel [simp]:
  "bb_storage (vec_resize_storage n b) = vec_resize n 0 (bb_storage b)"
  "bb_rpos (vec_resize_storage n b) = bb_rpos b" "bb_wpos (vec_resize_storage n b) = bb_wpos b"
  by (simp_all add: vec_resize_storage_def Let_def)

lemma vec_resize_storage_capacity: "n \<le> bb_capacity (vec_resize_storage n b)"
  unfolding vec_resize_storage_def Let_def by auto

lemma blit_at_end: "blit (length xs) ys (vec_resize (length xs + length ys) z xs) = xs @ ys"
  by (simp add: blit_def vec_resize_def)

lemma append_spec:
  assumes wf: "bb_wf b" and sz: "length (bb_storage b) < 10000000"
    and data: "data \<noteq> []" "length data < 10000000"
  obtains b' where "ByteBuffer_append (Some data) b = (Inr (), b')" "bb_wf b'"
    "bb_storage b' = bb_storage b @ data" "bb_rpos b' = bb_rpos b"
proof -
  let ?n = "length (bb_storage b) + length data"
  have small: "?n < size_t_mod div 4" using sz data by (simp add: size_t_mod_def)
  then have new: "sz_add (bb_wpos b) (length data) = ?n"
    using wf by (simp add: bb_wf_def sz_add_exact)
  define b1 where "b1 = (if bb_capacity b < ?n then
      (if ?n < 100 then vec_reserve 300 b else if ?n < 750 then vec_reserve 2500 b
       else if ?n < 6000 then vec_reserve 10000 b else vec_reserve 400000 b) else b)"
  have b1: "bb_storage b1 = bb_storage b" "bb_rpos b1 = bb_rpos b" "bb_wpos b1 = bb_wpos b"
    by (simp_all add: b1_def)
  have less: "ByteBuffer_size b1 < ?n" using data b1 by (simp add: ByteBuffer_size_def)
  define b2 where "b2 = vec_resize_storage ?n b1"
  have "mem_write (bb_wpos b) data (bb_storage b2) = Some (bb_storage b @ data)"
    using wf b1 by (simp add: mem_write_def b2_def bb_wf_def blit_at_end)
  then have "ByteBuffer_append (Some data) b
      = (Inr (), b2\<lparr>bb_storage := bb_storage b @ data, bb_wpos := ?n\<rparr>)"
    using data sz less unfolding ByteBuffer_append_def option.case Let_def new b1_def [symmetric]
    by (simp add: ByteBuffer_size_def b2_def [symmetric])
  moreover have "bb_wf (b2\<lparr>bb_storage := bb_storage b @ data, bb_wpos := ?n\<rparr>)"
    using wf small b1 vec_resize_storage_capacity [of ?n b1] by (simp add: bb_wf_def b2_def)
  ultimately show ?thesis by (rule that) (simp_all add: b2_def b1)
qed

lemma read_bytes_spec:
  assumes wf: "bb_wf b" and unread: "bb_unread b = data @ rest"
  shows "sz_add (bb_rpos b) (length data) = bb_rpos b + length data"
    and "bb_rpos b + length data \<le> length (bb_storage b)"
    and "mem_read (bb_rpos b) (length data) (bb_storage b) = Some data"
    and "bb_wf (b\<lparr>bb_rpos := bb_rpos b + length data\<rparr>)"
    and "bb_unread (b\<lparr>bb_rpos := bb_rpos b + length data\<rparr>) = rest"
proof -
  have len: "length (bb_storage b) = bb_rpos b + length data + length rest"
    using wf arg_cong [OF unread, of length] unfolding bb_unread_def bb_wf_def by simp linarith
  show *: "bb_rpos b + length data \<le> length (bb_storage b)" using len by simp
  show "sz_add (bb_rpos b) (length data) = bb_rpos b + length data"
    using wf * unfolding bb_wf_def by (intro sz_add_exact) linarith
  show "mem_read (bb_rpos b) (length data) (bb_storage b) = Some data"
    using * unread by (simp add: mem_read_def segment_def bb_unread_def)
  show "bb_wf (b\<lparr>bb_rpos := bb_rpos b + length data\<rparr>)" using wf * by (simp add: bb_wf_def)
  show "bb_unread (b\<lparr>bb_rpos := bb_rpos b + length data\<rparr>) = rest"
    using arg_cong [OF unread, of "drop (length data)"] by (simp add: bb_unread_def add.commute)
qed

section \<open>The codec interface\<close>

text \<open>A packet body: one stream operator after the other.\<close>

primrec bb_write_all :: "('v \<Rightarrow> unit bbm) \<Rightarrow> 'v list \<Rightarrow> unit bbm" where
  "bb_write_all wr [] = bb_return ()"
| "bb_write_all wr (v # vs) = bb_bind (wr v) (\<lambda>_. bb_write_all wr vs)"

primrec bb_read_all :: "('k \<Rightarrow> 'v bbm) \<Rightarrow> 'k list \<Rightarrow> 'v list bbm" where
  "bb_read_all rd [] = bb_return []"
| "bb_read_all rd (k # ks) = bb_bind (rd k) (\<lambda>v. bb_bind (bb_read_all rd ks) (\<lambda>vs. bb_return (v # vs)))"

text \<open>What a pair of stream operators promises: the writer appends the encoding of the value,
  the reader takes exactly that encoding off the unread bytes and returns the value. \<open>tag\<close> is
  what the reader knows of the value beforehand, its type.\<close>

locale wire_codec =
  fixes wr :: "'v \<Rightarrow> unit bbm"
    and rd :: "'k \<Rightarrow> 'v bbm"
    and tag :: "'v \<Rightarrow> 'k"
    and enc :: "'v \<Rightarrow> u8 list"
    and ok :: "'v \<Rightarrow> bool"
  assumes write_law: "ok v \<Longrightarrow> bb_wf b \<Longrightarrow> length (bb_storage b) + length (enc v) < 10000000 \<Longrightarrow>
      \<exists>b'. wr v b = (Inr (), b') \<and> bb_wf b' \<and> bb_storage b' = bb_storage b @ enc v
        \<and> bb_rpos b' = bb_rpos b"
    and read_law: "ok v \<Longrightarrow> bb_wf b \<Longrightarrow> bb_unread b = enc v @ rest \<Longrightarrow>
      rd (tag v) b = (Inr v, b\<lparr>bb_rpos := bb_rpos b + length (enc v)\<rparr>)"
begin

lemma write_all_appends:
  "list_all ok vs \<Longrightarrow> bb_wf b \<Longrightarrow> length (bb_storage b) + length (concat (map enc vs)) < 10000000 \<Longrightarrow>
    \<exists>b'. bb_write_all wr vs b = (Inr (), b') \<and> bb_wf b'
      \<and> bb_storage b' = bb_storage b @ concat (map enc vs) \<and> bb_rpos b' = bb_rpos b"
proof (induction vs arbitrary: b)
  case Nil
  then show ?case by (simp add: bb_return_def)
next
  case (Cons v vs)
  then obtain b1 where b1: "wr v b = (Inr (), b1)" "bb_wf b1"
      "bb_storage b1 = bb_storage b @ enc v" "bb_rpos b1 = bb_rpos b"
    using write_law [of v b] by auto
  from Cons b1 obtain b' where "bb_write_all wr vs b1 = (Inr (), b')" "bb_wf b'"
      "bb_storage b' = bb_storage b1 @ concat (map enc vs)" "bb_rpos b' = bb_rpos b1"
    using Cons.IH [of b1] by auto
  then show ?case using b1 by (simp add: bb_bind_def)
qed

lemma read_all_consumes:
  "list_all ok vs \<Longrightarrow> bb_wf b \<Longrightarrow> bb_unread b = concat (map enc vs) @ rest \<Longrightarrow>
    bb_read_all rd (map tag vs) b = (Inr vs, b\<lparr>bb_rpos := bb_rpos b + length (concat (map enc vs))\<rparr>)"
proof (induction vs arbitrary: b)
  case Nil
  then show ?case by (simp add: bb_return_def)
next
  case (Cons v vs)
  let ?b1 = "b\<lparr>bb_rpos := bb_rpos b + length (enc v)\<rparr>"
  have un: "bb_unread b = enc v @ (concat (map enc vs) @ rest)" using Cons.prems by simp
  have "rd (tag v) b = (Inr v, ?b1)" using Cons.prems un by (intro read_law) auto
  moreover have "bb_read_all rd (map tag vs) ?b1
      = (Inr vs, ?b1\<lparr>bb_rpos := bb_rpos ?b1 + length (concat (map enc vs))\<rparr>)"
    using Cons.prems read_bytes_spec(4,5) [OF _ un] by (intro Cons.IH) auto
  ultimately show ?case by (simp add: bb_bind_def bb_return_def add.assoc)
qed

lemma write_read_all:
  assumes "list_all ok vs" and "length (concat (map enc vs)) < 10000000"
  shows "\<exists>b b'. bb_write_all wr vs ByteBuffer_default = (Inr (), b) \<and> bb_storage b = concat (map enc vs)
    \<and> bb_read_all rd (map tag vs) b = (Inr vs, b') \<and> bb_rpos b' = ByteBuffer_size b'"
proof -
  from assms obtain b where b: "bb_write_all wr vs ByteBuffer_default = (Inr (), b)" "bb_wf b"
      "bb_storage b = concat (map enc vs)" "bb_rpos b = 0"
    using write_all_appends [OF assms(1) bb_wf_default] by (auto simp: ByteBuffer_default_def)
  then have "bb_read_all rd (map tag vs) b = (Inr vs, b\<lparr>bb_rpos := bb_rpos b + length (concat (map enc vs))\<rparr>)"
    using assms by (intro read_all_consumes [where rest = "[]"]) (simp_all add: bb_unread_def)
  then show ?thesis using b by (auto simp: ByteBuffer_size_def)
qed

end

end
