(* ===== verification/Wire_Codecs.thy ===== *)
theory Wire_Codecs
  imports Byte_Buffer
begin

text \<open>
  The stream operators of \<^verbatim>\<open>ByteBuffer\<close> as codecs: integers of every width, strings and
  packed identifiers are interpretations of \<open>wire_codec\<close>, and so is the sum of all of them,
  which gives the round trip of a packet with any sequence of fields. Then the packed
  date and the readers on input that no writer produced: they stay inside the buffer or
  raise, and change nothing but the read position.
\<close>

unbundle bit_operations_syntax

section \<open>Integers\<close>

definition int_enc :: "'a::len word \<Rightarrow> u8 list" where
  "int_enc w = le_bytes (LENGTH('a) div 8) (unat w)"

lemma int_enc_object_bytes: "EndianConvert e (object_bytes e w) = int_enc w"
  by (simp add: EndianConvert_object_bytes) (simp add: object_bytes_def Let_def int_enc_def)

lemma append_value_spec:
  assumes wf: "bb_wf b" and sz: "length (bb_storage b) < 10000000"
    and w: "8 \<le> LENGTH('a)" "LENGTH('a) < 10000000"
  shows "\<exists>b'. ByteBuffer_append_value e (w :: 'a::len word) b = (Inr (), b') \<and> bb_wf b'
    \<and> bb_storage b' = bb_storage b @ int_enc w \<and> bb_rpos b' = bb_rpos b"
proof -
  have "length (int_enc w) = LENGTH('a) div 8" by (simp add: int_enc_def)
  with w have "length (int_enc w) \<noteq> 0" "length (int_enc w) < 10000000" by linarith+
  then have "int_enc w \<noteq> []" "length (int_enc w) < 10000000" by auto
  from append_spec [OF wf sz this] show ?thesis
    unfolding ByteBuffer_append_value_def int_enc_object_bytes by metis
qed

lemma read_value_spec:
  assumes wf: "bb_wf b" and un: "bb_unread b = int_enc w @ rest" and w: "8 dvd LENGTH('a)"
  shows "ByteBuffer_read e b = (Inr (w :: 'a::len word), b\<lparr>bb_rpos := bb_rpos b + LENGTH('a) div 8\<rparr>)"
proof -
  have len: "length (int_enc w) = LENGTH('a) div 8" by (simp add: int_enc_def)
  note spec = read_bytes_spec [OF wf un, unfolded len]
  have "object_value WARHEAD_LITTLEENDIAN (int_enc w) = w"
    using object_value_bytes [OF w, of WARHEAD_LITTLEENDIAN] by (simp add: object_bytes_def Let_def int_enc_def)
  then show ?thesis
    using spec by (simp add: ByteBuffer_read_def ByteBuffer_read_at_def Let_def ByteBuffer_size_def
        object_value_EndianConvert)
qed

lemma wire_codec_int:
  assumes "8 dvd LENGTH('a::len)" "8 \<le> LENGTH('a)" "LENGTH('a) < 10000000"
  shows "wire_codec (ByteBuffer_append_value e :: 'a word \<Rightarrow> _) (\<lambda>_ :: unit. ByteBuffer_read e) (\<lambda>_. ())
    int_enc (\<lambda>_. True)"
proof
  fix v :: "'a word" and b
  assume "bb_wf b" and "length (bb_storage b) + length (int_enc v) < 10000000"
  then show "\<exists>b'. ByteBuffer_append_value e v b = (Inr (), b') \<and> bb_wf b'
      \<and> bb_storage b' = bb_storage b @ int_enc v \<and> bb_rpos b' = bb_rpos b"
    using assms by (intro append_value_spec) simp_all
next
  fix v :: "'a word" and b rest
  assume "bb_wf b" and "bb_unread b = int_enc v @ rest"
  then show "ByteBuffer_read e b = (Inr v, b\<lparr>bb_rpos := bb_rpos b + length (int_enc v)\<rparr>)"
    using assms by (simp add: read_value_spec int_enc_def)
qed

interpretation u8c: wire_codec "ByteBuffer_append_value e :: u8 \<Rightarrow> _" "\<lambda>_ :: unit. ByteBuffer_read e"
    "\<lambda>_. ()" int_enc "\<lambda>_. True" for e
  by (rule wire_codec_int) simp_all

interpretation u16c: wire_codec "ByteBuffer_append_value e :: u16 \<Rightarrow> _" "\<lambda>_ :: unit. ByteBuffer_read e"
    "\<lambda>_. ()" int_enc "\<lambda>_. True" for e
  by (rule wire_codec_int) simp_all

interpretation u32c: wire_codec "ByteBuffer_append_value e :: u32 \<Rightarrow> _" "\<lambda>_ :: unit. ByteBuffer_read e"
    "\<lambda>_. ()" int_enc "\<lambda>_. True" for e
  by (rule wire_codec_int) simp_all

interpretation u64c: wire_codec "ByteBuffer_append_value e :: u64 \<Rightarrow> _" "\<lambda>_ :: unit. ByteBuffer_read e"
    "\<lambda>_. ()" int_enc "\<lambda>_. True" for e
  by (rule wire_codec_int) simp_all

section \<open>Strings\<close>

definition string_enc :: "string \<Rightarrow> u8 list" where
  "string_enc s = bytes s @ [0]"

definition string_ok :: "string \<Rightarrow> bool" where
  "string_ok s \<longleftrightarrow> CHR 0x00 \<notin> set s \<and> is_valid (bytes s)"

lemma int_enc_u8 [simp]: "int_enc (w :: u8) = [w]"
  by (simp add: int_enc_def)

lemma read_u8_Cons:
  assumes "bb_wf b" and "bb_unread b = c # rest"
  shows "ByteBuffer_read e b = (Inr c, b\<lparr>bb_rpos := bb_rpos b + 1\<rparr>)"
  using read_value_spec [OF assms(1), of c rest] assms(2) by simp

lemma bb_unread_iff: "bb_rpos b < ByteBuffer_size b \<longleftrightarrow> bb_unread b \<noteq> []"
  by (auto simp: bb_unread_def ByteBuffer_size_def)

lemma ReadCString_loop_spec:
  assumes "bb_wf b" and "length (bb_unread b) \<le> fuel"
  shows "ReadCString_loop fuel e acc b =
    (Inr (acc @ takeWhile (\<lambda>c. c \<noteq> 0) (bb_unread b)),
     b\<lparr>bb_rpos := min (bb_rpos b + length (takeWhile (\<lambda>c. c \<noteq> 0) (bb_unread b)) + 1) (ByteBuffer_size b)\<rparr>)"
  using assms
proof (induction fuel arbitrary: b acc)
  case 0
  then have "bb_unread b = []" "bb_rpos b = ByteBuffer_size b"
    by (auto simp: bb_unread_def bb_wf_def ByteBuffer_size_def)
  then show ?case by simp
next
  case (Suc fuel)
  show ?case
  proof (cases "bb_unread b")
    case Nil
    then have "bb_rpos b = ByteBuffer_size b"
      using Suc.prems by (auto simp: bb_unread_def bb_wf_def ByteBuffer_size_def)
    then show ?thesis using Nil by simp
  next
    case (Cons c rest)
    let ?b1 = "b\<lparr>bb_rpos := bb_rpos b + 1\<rparr>"
    have un: "bb_unread b = [c] @ rest" using Cons by simp
    have b1: "bb_wf ?b1" "bb_unread ?b1 = rest"
      using read_bytes_spec(4,5) [OF Suc.prems(1) un] by simp_all
    have lt: "bb_rpos b < ByteBuffer_size b" using Cons by (simp add: bb_unread_iff)
    have rd: "ByteBuffer_read e b = (Inr c, ?b1)" by (rule read_u8_Cons [OF Suc.prems(1) Cons])
    show ?thesis
    proof (cases "c = 0")
      case True
      have "min (bb_rpos b + 1) (ByteBuffer_size b) = bb_rpos b + 1" using lt by simp
      then show ?thesis using True lt rd Cons by (simp add: bb_bind_def bb_return_def)
    next
      case False
      have "length (bb_unread ?b1) \<le> fuel" using Suc.prems(2) Cons b1 by simp
      from Suc.IH [OF b1(1) this, of "acc @ [c]"] show ?thesis
        using lt rd Cons b1(2) False by (simp add: bb_bind_def ByteBuffer_size_def)
    qed
  qed
qed

lemma ReadCString_spec:
  assumes "bb_wf b"
  shows "ByteBuffer_ReadCString e utf b =
    (let v = takeWhile (\<lambda>c. c \<noteq> 0) (bb_unread b) in
     (if utf \<and> \<not> is_valid v then Inl (ByteBufferInvalidValueException ''string'' (chars v)) else Inr (chars v),
      b\<lparr>bb_rpos := min (bb_rpos b + length v + 1) (ByteBuffer_size b)\<rparr>))"
proof -
  have "length (bb_unread b) \<le> ByteBuffer_size b" by (simp add: bb_unread_def ByteBuffer_size_def)
  from ReadCString_loop_spec [OF assms this] show ?thesis
    by (simp add: ByteBuffer_ReadCString_def bb_bind_def bb_throw_def bb_return_def Let_def)
qed

lemma byte_of_char_0 [simp]: "byte_of_char c = 0 \<longleftrightarrow> c = CHR 0x00"
proof -
  have "byte_of_char (CHR 0x00) = 0" by (simp add: byte_of_char_def of_char_def)
  then show ?thesis by (metis byte_of_char_eq_iff)
qed

lemma takeWhile_string_enc:
  "CHR 0x00 \<notin> set s \<Longrightarrow> takeWhile (\<lambda>c. c \<noteq> 0) (string_enc s @ rest) = bytes s"
  by (induction s) (auto simp: string_enc_def)

lemma write_string_spec:
  assumes wf: "bb_wf b" and sz: "length (bb_storage b) + length (string_enc v) < 10000000"
  shows "\<exists>b'. ByteBuffer_write_string e v b = (Inr (), b') \<and> bb_wf b'
      \<and> bb_storage b' = bb_storage b @ string_enc v \<and> bb_rpos b' = bb_rpos b"
proof -
  have sz1: "length (bb_storage b) + length v < 10000000 - 1" using sz by (simp add: string_enc_def)
  obtain b1 where b1: "(if length v \<noteq> 0 then ByteBuffer_append (Some (bytes v)) else bb_return ()) b = (Inr (), b1)"
      "bb_wf b1" "bb_storage b1 = bb_storage b @ bytes v" "bb_rpos b1 = bb_rpos b"
  proof (cases "v = []")
    case True
    then show ?thesis using wf by (intro that [of b]) (simp_all add: bb_return_def)
  next
    case False
    then have "bytes v \<noteq> []" "length (bytes v) < 10000000" "length (bb_storage b) < 10000000" using sz1 by auto
    from append_spec [OF wf this(3,1,2)] obtain b' where
      "ByteBuffer_append (Some (bytes v)) b = (Inr (), b')" "bb_wf b'"
      "bb_storage b' = bb_storage b @ bytes v" "bb_rpos b' = bb_rpos b" .
    then show ?thesis using False by (intro that [of b']) simp_all
  qed
  have "length (bb_storage b1) < 10000000" using b1 sz1 by simp
  from append_value_spec [OF b1(2) this, of e "0 :: u8"] b1
  show ?thesis
    by (auto simp: ByteBuffer_write_string_def bb_bind_def string_enc_def)
qed

interpretation strc: wire_codec "ByteBuffer_write_string e" "\<lambda>_ :: unit. ByteBuffer_read_string e"
    "\<lambda>_. ()" string_enc string_ok for e
proof
  fix v b
  assume "bb_wf b" and "length (bb_storage b) + length (string_enc v) < 10000000"
  then show "\<exists>b'. ByteBuffer_write_string e v b = (Inr (), b') \<and> bb_wf b'
      \<and> bb_storage b' = bb_storage b @ string_enc v \<and> bb_rpos b' = bb_rpos b"
    by (rule write_string_spec)
next
  fix v b rest
  assume ok: "string_ok v" and wf: "bb_wf b" and un: "bb_unread b = string_enc v @ rest"
  have v: "takeWhile (\<lambda>c. c \<noteq> 0) (bb_unread b) = bytes v"
    using ok un takeWhile_string_enc by (simp add: string_ok_def)
  have "min (bb_rpos b + length v + 1) (ByteBuffer_size b) = bb_rpos b + length (string_enc v)"
    using read_bytes_spec(2) [OF wf un] by (simp add: string_enc_def ByteBuffer_size_def)
  then show "ByteBuffer_read_string e b = (Inr v, b\<lparr>bb_rpos := bb_rpos b + length (string_enc v)\<rparr>)"
    using ok by (simp add: ByteBuffer_read_string_def ReadCString_spec [OF wf] v Let_def string_ok_def)
qed

section \<open>Packed identifiers\<close>

primrec guid_mark :: "nat \<Rightarrow> u8 list \<Rightarrow> u8" where
  "guid_mark i [] = 0"
| "guid_mark i (x # xs) = (if x \<noteq> 0 then push_bit i 1 else 0) OR guid_mark (i + 1) xs"

definition guid_enc :: "u64 \<Rightarrow> u8 list" where
  "guid_enc g = guid_mark 0 (int_enc g) # filter (\<lambda>x. x \<noteq> 0) (int_enc g)"

lemma bit_guid_mark:
  "bit (guid_mark i xs) j \<longleftrightarrow> j < 8 \<and> i \<le> j \<and> j < i + length xs \<and> xs ! (j - i) \<noteq> 0"
proof (induction xs arbitrary: i)
  case Nil
  then show ?case by simp
next
  case (Cons x xs)
  have "bit (push_bit i 1 :: u8) j \<longleftrightarrow> j = i \<and> j < 8" by (auto simp: bit_simps)
  then show ?case using Cons [of "i + 1"] by (auto simp: bit_or_iff nth_Cons')
qed

lemma low_byte: "ucast (g AND 0xFF :: u64) = (of_nat (unat g) :: u8)"
proof -
  have "(g AND 0xFF) = (take_bit 8 g :: u64)" by (simp add: take_bit_eq_mask mask_eq_exp_minus_1)
  then have "ucast (g AND 0xFF) = (ucast g :: u8)"
    by (simp add: bit_eq_iff bit_simps)
  then show ?thesis by (simp add: of_nat_unat)
qed

lemma low_byte_0: "(g :: u64) AND 0xFF = 0 \<longleftrightarrow> (of_nat (unat g) :: u8) = 0"
proof -
  have m: "(g AND 0xFF) = (take_bit 8 g :: u64)" by (simp add: take_bit_eq_mask mask_eq_exp_minus_1)
  have "(of_nat (unat g) :: u8) = ucast g" by (simp add: of_nat_unat)
  then show ?thesis unfolding m by (auto simp: bit_eq_iff bit_simps)
qed

lemma appendPackGUID_loop_spec:
  "unat guid < 256 ^ n \<Longrightarrow>
    appendPackGUID_loop i guid mark out =
      (mark OR guid_mark i (le_bytes n (unat guid)), out @ filter (\<lambda>x. x \<noteq> 0) (le_bytes n (unat guid)))"
proof (induction n arbitrary: i guid mark out)
  case 0
  then have "guid = 0" by (simp add: unat_eq_0)
  then show ?case by (simp add: appendPackGUID_loop.simps)
next
  case (Suc n)
  show ?case
  proof (cases "guid = 0")
    case True
    have z: "filter (\<lambda>x. x \<noteq> 0) (le_bytes m 0) = []" for m by (induction m) simp_all
    have "guid_mark i (le_bytes m 0) = 0" for i m by (induction m arbitrary: i) simp_all
    then show ?thesis using True z by (simp add: appendPackGUID_loop.simps del: le_bytes.simps)
  next
    case False
    have "unat (drop_bit 8 guid) < 256 ^ n" using Suc.prems by (simp add: unat_drop_bit_8 less_mult_imp_div_less)
    note IH = Suc.IH [OF this]
    have low: "ucast (guid AND 0xFF) = (of_nat (unat guid) :: u8)" by (rule low_byte)
    show ?thesis
    proof (cases "guid AND 0xFF = 0")
      case True
      then have "(of_nat (unat guid) :: u8) = 0" by (simp add: low_byte_0)
      then show ?thesis
        using True False IH [of "i + 1" mark out]
        by (subst appendPackGUID_loop.simps) (simp add: unat_drop_bit_8 del: of_nat_unat)
    next
      case nz: False
      then have "(of_nat (unat guid) :: u8) \<noteq> 0" by (simp add: low_byte_0)
      then show ?thesis
        using nz False IH [of "i + 1" "mark OR push_bit i 1" "out @ [ucast (guid AND 0xFF)]"] low
        by (subst appendPackGUID_loop.simps) (simp add: unat_drop_bit_8 or.assoc del: of_nat_unat)
    qed
  qed
qed

lemma join_low_byte:
  "push_bit k (ucast (x :: u8)) OR push_bit (k + 8) (of_nat v) = (push_bit k (of_nat (unat x + 256 * v)) :: u64)"
proof -
  have "(of_nat (unat x + 256 * v) :: u64) = ucast x + push_bit 8 (of_nat v)"
    by (simp add: push_bit_eq_mult)
  also have "\<dots> = ucast x OR push_bit 8 (of_nat v)"
    by (rule disjunctive_add_eq_or) (auto simp: bit_eq_iff bit_simps dest: bit_imp_le_length)
  finally have "(of_nat (unat x + 256 * v) :: u64) = ucast x OR push_bit 8 (of_nat v)" .
  then show ?thesis by (simp add: add.commute)
qed

lemma readPackGUID_loop_spec:
  assumes "bb_wf b" and "bb_unread b = filter (\<lambda>x. x \<noteq> 0) xs @ rest"
    and "\<And>k. k < length xs \<Longrightarrow> bit mark (i + k) \<longleftrightarrow> xs ! k \<noteq> 0"
  shows "readPackGUID_loop e mark [i..<i + length xs] g b =
    (Inr (g OR push_bit (i * 8) (of_nat (le_val xs))),
     b\<lparr>bb_rpos := bb_rpos b + length (filter (\<lambda>x. x \<noteq> 0) xs)\<rparr>)"
  using assms
proof (induction xs arbitrary: b i g)
  case Nil
  then show ?case by simp
next
  case (Cons x xs)
  have upt: "[i..<i + length (x # xs)] = i # [i + 1..<(i + 1) + length xs]"
    using upt_conv_Cons [of i "i + length (x # xs)"] by (simp del: upt.simps)
  have bits: "\<And>k. k < length xs \<Longrightarrow> bit mark (i + 1 + k) \<longleftrightarrow> xs ! k \<noteq> 0"
    using Cons.prems(3) by (metis Suc_less_eq add.assoc length_Cons nth_Cons_Suc plus_1_eq_Suc)
  have bit0: "mark AND push_bit i 1 \<noteq> 0 \<longleftrightarrow> x \<noteq> 0"
    using Cons.prems(3) [of 0] unfolding bit_iff_and_push_bit_not_eq_0 by simp
  have fold: "(g OR push_bit (i * 8) (ucast x)) OR push_bit ((i + 1) * 8) (of_nat (le_val xs))
      = g OR push_bit (i * 8) (of_nat (le_val (x # xs)))" for g :: u64
    using join_low_byte [of "i * 8" x "le_val xs"] by (simp add: or.assoc add.commute)
  show ?case
  proof (cases "x = 0")
    case True
    have "readPackGUID_loop e mark [i + 1..<(i + 1) + length xs] g b =
      (Inr (g OR push_bit ((i + 1) * 8) (of_nat (le_val xs))),
       b\<lparr>bb_rpos := bb_rpos b + length (filter (\<lambda>x. x \<noteq> 0) xs)\<rparr>)"
      using Cons.prems True by (intro Cons.IH bits) simp_all
    then show ?thesis using True bit0 fold [of g] unfolding upt by simp
  next
    case False
    let ?b1 = "b\<lparr>bb_rpos := bb_rpos b + 1\<rparr>"
    have un: "bb_unread b = [x] @ (filter (\<lambda>x. x \<noteq> 0) xs @ rest)" using Cons.prems False by simp
    note spec = read_bytes_spec [OF Cons.prems(1) un, unfolded list.size, simplified]
    have "readPackGUID_loop e mark [i + 1..<(i + 1) + length xs] (g OR push_bit (i * 8) (ucast x)) ?b1 =
      (Inr ((g OR push_bit (i * 8) (ucast x)) OR push_bit ((i + 1) * 8) (of_nat (le_val xs))),
       ?b1\<lparr>bb_rpos := bb_rpos ?b1 + length (filter (\<lambda>x. x \<noteq> 0) xs)\<rparr>)"
      using spec by (intro Cons.IH bits) simp_all
    moreover have "ByteBuffer_read e b = (Inr x, ?b1)"
      using un by (intro read_u8_Cons [OF Cons.prems(1)]) simp
    ultimately show ?thesis
      using False bit0 fold [of g] spec unfolding upt
      by (simp add: bb_bind_def ByteBuffer_size_def)
  qed
qed

lemma guid_enc_length: "length (guid_enc g) \<le> 9"
proof -
  have "length (filter (\<lambda>x. x \<noteq> 0) (int_enc g)) \<le> length (int_enc g)" by (rule length_filter_le)
  then show ?thesis by (simp add: guid_enc_def int_enc_def)
qed

lemma appendPackGUID_enc: "ByteBuffer_appendPackGUID g = ByteBuffer_append (Some (guid_enc g))"
proof -
  have "unat g < 256 ^ 8" using unsigned_less [of g] by simp
  from appendPackGUID_loop_spec [OF this, of 0 0 "[]"] show ?thesis
    by (simp add: ByteBuffer_appendPackGUID_def guid_enc_def int_enc_def del: le_bytes.simps)
qed

interpretation guidc: wire_codec ByteBuffer_appendPackGUID "\<lambda>_ :: unit. ByteBuffer_readPackGUID e"
    "\<lambda>_. ()" guid_enc "\<lambda>_. True" for e
proof
  fix v b
  assume "bb_wf b" and "length (bb_storage b) + length (guid_enc v) < 10000000"
  then have "bb_wf b" "length (bb_storage b) < 10000000" "guid_enc v \<noteq> []" "length (guid_enc v) < 10000000"
    using guid_enc_length [of v] by (simp_all add: guid_enc_def)
  from append_spec [OF this] obtain b' where "ByteBuffer_append (Some (guid_enc v)) b = (Inr (), b')"
      "bb_wf b'" "bb_storage b' = bb_storage b @ guid_enc v" "bb_rpos b' = bb_rpos b" .
  then show "\<exists>b'. ByteBuffer_appendPackGUID v b = (Inr (), b') \<and> bb_wf b'
      \<and> bb_storage b' = bb_storage b @ guid_enc v \<and> bb_rpos b' = bb_rpos b"
    by (simp add: appendPackGUID_enc)
next
  fix v b rest
  assume wf: "bb_wf b" and un0: "bb_unread b = guid_enc v @ rest"
  let ?xs = "int_enc v" and ?b1 = "b\<lparr>bb_rpos := bb_rpos b + 1\<rparr>"
  let ?m = "guid_mark 0 ?xs"
  have un: "bb_unread b = [?m] @ (filter (\<lambda>x. x \<noteq> 0) ?xs @ rest)" using un0 by (simp add: guid_enc_def)
  note spec = read_bytes_spec [OF wf un, unfolded list.size, simplified]
  have len: "length ?xs = 8" by (simp add: int_enc_def)
  have val: "of_nat (le_val ?xs) = v"
    using unsigned_less [of v, where 'a = nat] by (simp add: int_enc_def del: le_bytes.simps)
  have "readPackGUID_loop e ?m [0..<0 + length ?xs] 0 ?b1 =
    (Inr (0 OR push_bit (0 * 8) (of_nat (le_val ?xs))),
     ?b1\<lparr>bb_rpos := bb_rpos ?b1 + length (filter (\<lambda>x. x \<noteq> 0) ?xs)\<rparr>)"
    using spec len by (intro readPackGUID_loop_spec) (simp_all add: bit_guid_mark)
  moreover have "ByteBuffer_read e b = (Inr ?m, ?b1)" using un by (intro read_u8_Cons [OF wf]) simp
  ultimately show "ByteBuffer_readPackGUID e b = (Inr v, b\<lparr>bb_rpos := bb_rpos b + length (guid_enc v)\<rparr>)"
    using spec len val by (simp add: ByteBuffer_readPackGUID_def bb_bind_def ByteBuffer_size_def guid_enc_def
        del: upt.simps)
qed

section \<open>A packet of fields of any type\<close>

text \<open>The overloads of \<^verbatim>\<open>operator<<\<close> and \<^verbatim>\<open>operator>>\<close>; the signed integers are
  the unsigned words of the same width.\<close>

datatype bb_kind = KBool | KU8 | KU16 | KU32 | KU64 | KFloat | KDouble | KString | KGuid

datatype bb_value =
    VBool bool
  | VU8 u8
  | VU16 u16
  | VU32 u32
  | VU64 u64
  | VFloat u32
  | VDouble u64
  | VString string
  | VGuid u64

fun value_kind :: "bb_value \<Rightarrow> bb_kind" where
  "value_kind (VBool _) = KBool"
| "value_kind (VU8 _) = KU8"
| "value_kind (VU16 _) = KU16"
| "value_kind (VU32 _) = KU32"
| "value_kind (VU64 _) = KU64"
| "value_kind (VFloat _) = KFloat"
| "value_kind (VDouble _) = KDouble"
| "value_kind (VString _) = KString"
| "value_kind (VGuid _) = KGuid"

fun ByteBuffer_write_value :: "endian \<Rightarrow> bb_value \<Rightarrow> unit bbm" where
  "ByteBuffer_write_value e (VBool v) = ByteBuffer_write_bool e v"
| "ByteBuffer_write_value e (VU8 v) = ByteBuffer_append_value e v"
| "ByteBuffer_write_value e (VU16 v) = ByteBuffer_append_value e v"
| "ByteBuffer_write_value e (VU32 v) = ByteBuffer_append_value e v"
| "ByteBuffer_write_value e (VU64 v) = ByteBuffer_append_value e v"
| "ByteBuffer_write_value e (VFloat v) = ByteBuffer_append_value e v"
| "ByteBuffer_write_value e (VDouble v) = ByteBuffer_append_value e v"
| "ByteBuffer_write_value e (VString v) = ByteBuffer_write_string e v"
| "ByteBuffer_write_value e (VGuid v) = ByteBuffer_appendPackGUID v"

definition bb_map :: "('a \<Rightarrow> 'b) \<Rightarrow> 'a bbm \<Rightarrow> 'b bbm" where
  "bb_map f m = bb_bind m (\<lambda>x. bb_return (f x))"

fun ByteBuffer_read_value :: "endian \<Rightarrow> bb_kind \<Rightarrow> bb_value bbm" where
  "ByteBuffer_read_value e KBool = bb_map VBool (ByteBuffer_read_bool e)"
| "ByteBuffer_read_value e KU8 = bb_map VU8 (ByteBuffer_read e)"
| "ByteBuffer_read_value e KU16 = bb_map VU16 (ByteBuffer_read e)"
| "ByteBuffer_read_value e KU32 = bb_map VU32 (ByteBuffer_read e)"
| "ByteBuffer_read_value e KU64 = bb_map VU64 (ByteBuffer_read e)"
| "ByteBuffer_read_value e KFloat = bb_map VFloat (ByteBuffer_read_float e)"
| "ByteBuffer_read_value e KDouble = bb_map VDouble (ByteBuffer_read_double e)"
| "ByteBuffer_read_value e KString = bb_map VString (ByteBuffer_read_string e)"
| "ByteBuffer_read_value e KGuid = bb_map VGuid (ByteBuffer_readPackGUID e)"

fun value_enc :: "bb_value \<Rightarrow> u8 list" where
  "value_enc (VBool v) = [if v then 1 else 0]"
| "value_enc (VU8 v) = int_enc v"
| "value_enc (VU16 v) = int_enc v"
| "value_enc (VU32 v) = int_enc v"
| "value_enc (VU64 v) = int_enc v"
| "value_enc (VFloat v) = int_enc v"
| "value_enc (VDouble v) = int_enc v"
| "value_enc (VString v) = string_enc v"
| "value_enc (VGuid v) = guid_enc v"

fun value_ok :: "bb_value \<Rightarrow> bool" where
  "value_ok (VFloat v) = isfinite32 v"
| "value_ok (VDouble v) = isfinite64 v"
| "value_ok (VString v) = string_ok v"
| "value_ok _ = True"

lemmas int_write_laws = u8c.write_law u16c.write_law u32c.write_law u64c.write_law
lemmas int_read_laws = u8c.read_law [where rest = rest for rest] u16c.read_law u32c.read_law u64c.read_law
lemmas bbm_defs = bb_map_def bb_bind_def bb_return_def bb_throw_def

interpretation packet: wire_codec "ByteBuffer_write_value e" "ByteBuffer_read_value e'" value_kind value_enc value_ok
  for e e'
proof
  fix v b
  assume "value_ok v" "bb_wf b" "length (bb_storage b) + length (value_enc v) < 10000000"
  then show "\<exists>b'. ByteBuffer_write_value e v b = (Inr (), b') \<and> bb_wf b'
      \<and> bb_storage b' = bb_storage b @ value_enc v \<and> bb_rpos b' = bb_rpos b"
    using int_write_laws strc.write_law guidc.write_law
    by (cases v) (simp_all add: ByteBuffer_write_bool_def)
next
  fix v b rest
  assume ok: "value_ok v" and "bb_wf b" "bb_unread b = value_enc v @ rest"
  then show "ByteBuffer_read_value e' (value_kind v) b
      = (Inr v, b\<lparr>bb_rpos := bb_rpos b + length (value_enc v)\<rparr>)"
    using int_read_laws strc.read_law guidc.read_law
    by (cases v) (simp_all add: bbm_defs ByteBuffer_read_bool_def ByteBuffer_read_float_def
        ByteBuffer_read_double_def read_u8_Cons)
qed

text \<open>C15: Any sequence of fields written with \<^verbatim>\<open>operator<<\<close> into a new \<open>ByteBuffer\<close>
  (integers, finite floats, NUL-free UTF-8 strings, packed identifiers) is stored in the
  little-endian wire format, whatever the byte order of the host, and reading the fields back with
  \<^verbatim>\<open>operator>>\<close> of the same types, on a host of any byte order, returns them all and
  leaves no byte unread.\<close>

theorem packet_roundtrip:
  assumes "list_all value_ok vs" and "length (concat (map value_enc vs)) < 10000000"
  shows "\<exists>b b'. bb_write_all (ByteBuffer_write_value e) vs ByteBuffer_default = (Inr (), b)
    \<and> bb_storage b = concat (map value_enc vs)
    \<and> bb_read_all (ByteBuffer_read_value e') (map value_kind vs) b = (Inr vs, b')
    \<and> bb_rpos b' = ByteBuffer_size b'"
  using assms by (rule packet.write_read_all)

theorem packet_roundtrip_witness:
  "\<exists>b b'. bb_write_all (ByteBuffer_write_value WARHEAD_BIGENDIAN) [VU32 0x01020304, VString ''FIX'', VGuid 0x5500] ByteBuffer_default = (Inr (), b)
    \<and> bb_storage b = [4, 3, 2, 1, 70, 73, 88, 0, 2, 0x55]
    \<and> bb_read_all (ByteBuffer_read_value WARHEAD_LITTLEENDIAN) [KU32, KString, KGuid] b = (Inr [VU32 0x01020304, VString ''FIX'', VGuid 0x5500], b')
    \<and> bb_rpos b' = ByteBuffer_size b'"
proof -
  let ?vs = "[VU32 0x01020304, VString ''FIX'', VGuid 0x5500]"
  have enc: "concat (map value_enc ?vs) = [4, 3, 2, 1, 70, 73, 88, 0, 2, 0x55]"
    by (simp add: le_bytes_numeral int_enc_def guid_enc_def string_enc_def byte_of_char_def)
  have "is_valid [70, 73, 88]" by (rule is_valid_ascii) auto
  then have "list_all value_ok ?vs" by (simp add: string_ok_def byte_of_char_def)
  moreover have "length (concat (map value_enc ?vs)) < 10000000" unfolding enc by simp
  ultimately show ?thesis
    using packet_roundtrip [of ?vs WARHEAD_BIGENDIAN WARHEAD_LITTLEENDIAN] unfolding enc by simp
qed

section \<open>Reading what no writer wrote\<close>

text \<open>\<open>bb_safe b r b'\<close>: an outcome that accessed nothing outside the vector, with only the
  read position changed and still inside the data.\<close>

definition bb_safe :: "ByteBuffer \<Rightarrow> (bb_error + 'a) \<times> ByteBuffer \<Rightarrow> bool" where
  "bb_safe b out \<longleftrightarrow> fst out \<noteq> Inl OutOfBounds \<and> fst out \<noteq> Inl Diverges \<and> fst out \<noteq> Inl AssertionFailed
     \<and> (\<exists>p. snd out = b\<lparr>bb_rpos := p\<rparr> \<and> bb_rpos b \<le> p \<and> p \<le> ByteBuffer_size b)"

lemma bb_safe_bind:
  assumes "bb_safe b (m b)" and "\<And>x b'. m b = (Inr x, b') \<Longrightarrow> bb_wf b' \<Longrightarrow> bb_safe b' (f x b')" and "bb_wf b"
  shows "bb_safe b (bb_bind m f b)"
proof (cases "m b")
  case (Pair r b')
  then obtain p where p: "b' = b\<lparr>bb_rpos := p\<rparr>" "bb_rpos b \<le> p" "p \<le> ByteBuffer_size b"
    using assms(1) by (auto simp: bb_safe_def)
  show ?thesis
  proof (cases r)
    case (Inl x)
    then show ?thesis using Pair assms(1) by (simp add: bb_bind_def bb_safe_def)
  next
    case (Inr x)
    have "bb_wf b'" using p assms(3) by (simp add: bb_wf_def ByteBuffer_size_def)
    then have "bb_safe b' (f x b')" using assms(2) Pair Inr by simp
    then show ?thesis using Pair Inr p by (auto simp: bb_bind_def bb_safe_def ByteBuffer_size_def)
  qed
qed

lemma bb_safe_return [simp]: "bb_wf b \<Longrightarrow> bb_safe b (bb_return x b)"
  by (auto simp: bb_safe_def bb_return_def bb_wf_def ByteBuffer_size_def intro!: exI [of _ "bb_rpos b"])

lemma bb_safe_invalid [simp]: "bb_wf b \<Longrightarrow> bb_safe b (bb_throw (ByteBufferInvalidValueException t v) b)"
  by (auto simp: bb_safe_def bb_throw_def bb_wf_def ByteBuffer_size_def ByteBufferInvalidValueException_def
      intro!: exI [of _ "bb_rpos b"])

lemma bb_safe_position: "bb_wf b \<Longrightarrow> bb_safe b (Inl (ByteBufferPositionException a p q r), b)"
  by (auto simp: bb_safe_def bb_wf_def ByteBuffer_size_def ByteBufferPositionException_def
      intro!: exI [of _ "bb_rpos b"])

lemma sz_add_wf: "bb_wf b \<Longrightarrow> n < size_t_mod div 4 \<Longrightarrow> sz_add (bb_rpos b) n = bb_rpos b + n"
  unfolding bb_wf_def by (intro sz_add_exact) linarith

lemma bb_safe_read:
  assumes wf: "bb_wf b" and n: "LENGTH('a) < 10000000"
  shows "bb_safe b (ByteBuffer_read e b :: (bb_error + 'a::len word) \<times> ByteBuffer)"
proof -
  let ?n = "LENGTH('a) div 8"
  have "?n < size_t_mod div 4" using n by (simp add: size_t_mod_def)
  note sz = sz_add_wf [OF wf this]
  show ?thesis
  proof (cases "bb_rpos b + ?n > ByteBuffer_size b")
    case True
    then show ?thesis using bb_safe_position [OF wf]
      by (simp add: ByteBuffer_read_def ByteBuffer_read_at_def Let_def sz)
  next
    case False
    then have "mem_read (bb_rpos b) ?n (bb_storage b) = Some (segment (bb_rpos b) ?n (bb_storage b))"
      by (simp add: mem_read_def ByteBuffer_size_def)
    then show ?thesis using False
      by (auto simp: ByteBuffer_read_def ByteBuffer_read_at_def Let_def sz bb_safe_def ByteBuffer_size_def
          intro!: exI [of _ "bb_rpos b + ?n"])
  qed
qed

lemma bb_safe_string: "bb_wf b \<Longrightarrow> bb_safe b (ByteBuffer_ReadCString e utf b)"
  by (auto simp: ReadCString_spec Let_def bb_safe_def ByteBufferInvalidValueException_def bb_wf_def ByteBuffer_size_def
      intro!: exI [of _ "min (bb_rpos b + length (takeWhile (\<lambda>c. c \<noteq> 0) (bb_unread b)) + 1) (ByteBuffer_size b)"])

lemma bb_safe_guid_loop: "bb_wf b \<Longrightarrow> bb_safe b (readPackGUID_loop e mark is g b)"
proof (induction "is" arbitrary: g b)
  case Nil
  then show ?case using bb_safe_return [of b g] by (simp add: bb_return_def)
next
  case (Cons i "is")
  have "bb_safe b (bb_bind (ByteBuffer_read e)
      (\<lambda>bt :: u8. readPackGUID_loop e mark is (g OR push_bit (i * 8) (ucast bt))) b)"
    using Cons by (intro bb_safe_bind bb_safe_read) simp_all
  then show ?case using Cons by (simp add: bb_safe_position)
qed

lemma bb_safe_guid:
  assumes "bb_wf b"
  shows "bb_safe b (ByteBuffer_readPackGUID e b)"
proof -
  have "bb_safe b (bb_bind (ByteBuffer_read e) (\<lambda>mark. readPackGUID_loop e mark [0..<8] 0) b)"
    using assms by (intro bb_safe_bind bb_safe_read bb_safe_guid_loop) simp_all
  then show ?thesis using assms by (simp add: ByteBuffer_readPackGUID_def bb_safe_position del: upt.simps)
qed

lemma bb_safe_value: "bb_wf b \<Longrightarrow> bb_safe b (ByteBuffer_read_value e k b)"
  by (cases k)
    (auto simp: bb_map_def ByteBuffer_read_bool_def ByteBuffer_read_float_def ByteBuffer_read_double_def
      ByteBuffer_read_string_def intro!: bb_safe_bind bb_safe_read bb_safe_string bb_safe_guid)

text \<open>C16: Reading any sequence of field types from a well-formed buffer with arbitrary bytes never
  accesses memory outside the vector, never loops forever and never trips an assertion: it
  returns values or throws one of the buffer's exceptions, the bytes stay as they are and the
  read position moves forward inside the data.\<close>

theorem read_packet_safe:
  assumes "bb_wf b"
  shows "bb_safe b (bb_read_all (ByteBuffer_read_value e) ks b)"
  using assms
proof (induction ks arbitrary: b)
  case Nil
  then show ?case by simp
next
  case (Cons k ks)
  have "bb_safe b (ByteBuffer_read_value e k b)" by (rule bb_safe_value [OF Cons.prems])
  moreover have "bb_safe b' (bb_bind (bb_read_all (ByteBuffer_read_value e) ks) (\<lambda>vs. bb_return (v # vs)) b')"
    if "bb_wf b'" for v b'
    using that by (intro bb_safe_bind Cons.IH) simp_all
  ultimately show ?case using Cons.prems by (auto intro: bb_safe_bind)
qed

theorem read_packet_safe_witness:
  "bb_safe \<lparr>bb_rpos = 0, bb_wpos = 3, bb_storage = [255, 1, 2], bb_capacity = 3\<rparr>
     (bb_read_all (ByteBuffer_read_value WARHEAD_LITTLEENDIAN) [KGuid, KString]
       \<lparr>bb_rpos = 0, bb_wpos = 3, bb_storage = [255, 1, 2], bb_capacity = 3\<rparr>)"
  by (rule read_packet_safe) (simp add: bb_wf_def size_t_mod_def)

section \<open>Packed dates\<close>

text \<open>A broken-down time as \<^verbatim>\<open>localtime\<close> delivers it, in the years 2000 to 2031 that five bits
  can hold.\<close>

definition tm_packable :: "tm \<Rightarrow> bool" where
  "tm_packable lt \<longleftrightarrow> 0 \<le> tm_min lt \<and> tm_min lt < 60 \<and> 0 \<le> tm_hour lt \<and> tm_hour lt < 24
     \<and> 0 \<le> tm_wday lt \<and> tm_wday lt < 7 \<and> 1 \<le> tm_mday lt \<and> tm_mday lt < 32
     \<and> 0 \<le> tm_mon lt \<and> tm_mon lt < 12 \<and> 100 \<le> tm_year lt \<and> tm_year lt < 132"

definition small_word :: "nat \<Rightarrow> u32 \<Rightarrow> bool" where
  "small_word k w \<longleftrightarrow> (\<forall>n. bit w n \<longrightarrow> n < k)"

lemma small_word_of_int:
  assumes "0 \<le> v" and "v < 2 ^ k"
  shows "small_word k (word_of_int v)"
proof -
  have "take_bit k v = v" using assms by (simp add: take_bit_int_eq_self)
  then have "n < k" if "bit v n" for n using that by (metis bit_take_bit_iff)
  then show ?thesis by (auto simp: small_word_def bit_simps)
qed

lemma uint_small: "0 \<le> v \<Longrightarrow> v < 2 ^ 32 \<Longrightarrow> uint (word_of_int v :: u32) = v"
  by (simp add: unsigned_of_int take_bit_int_eq_self)

lemma packed_fields:
  fixes y mo d wd h mi :: u32
  assumes "small_word 5 y" "small_word 4 mo" "small_word 5 d" "small_word 3 wd" "small_word 5 h" "small_word 6 mi"
  defines "p \<equiv> push_bit 24 y OR push_bit 20 mo OR push_bit 14 d OR push_bit 11 wd OR push_bit 6 h OR mi"
  shows "p AND mask 6 = mi" "drop_bit 6 p AND mask 5 = h" "drop_bit 14 p AND mask 6 = d"
    "drop_bit 20 p AND mask 4 = mo" "drop_bit 24 p AND mask 5 = y"
  using assms(1-6) unfolding p_def small_word_def
  by (auto simp: bit_eq_iff bit_simps dest: bit_imp_le_length)

lemma mask_values: "(0xF :: u32) = mask 4" "(0x1F :: u32) = mask 5" "(0x3F :: u32) = mask 6"
  by (simp_all add: mask_eq_exp_minus_1)

text \<open>A date written by \<open>AppendPackedTime\<close> comes back from \<open>ReadPackedTime\<close> with its
  minute, hour, day, month and year: the time returned is \<^verbatim>\<open>mktime\<close> of exactly those fields
  (seconds dropped), for every date of the years 2000 to 2031.\<close>

theorem packed_time_roundtrip:
  assumes "tm_packable (localtime t)" and "bb_wf b" and "bb_rpos b = ByteBuffer_size b" and "ByteBuffer_size b < 9999996"
  shows "\<exists>b1 b2. ByteBuffer_AppendPackedTime localtime e t b = (Inr (), b1)
    \<and> ByteBuffer_ReadPackedTime mktime e' b1 =
        (Inr (word_of_int (mktime (tm_zero\<lparr>tm_min := tm_min (localtime t), tm_hour := tm_hour (localtime t),
           tm_mday := tm_mday (localtime t), tm_mon := tm_mon (localtime t), tm_year := tm_year (localtime t)\<rparr>))), b2)"
proof -
  let ?lt = "localtime t"
  let ?y = "word_of_int (tm_year ?lt - 100) :: u32" and ?mo = "word_of_int (tm_mon ?lt) :: u32"
    and ?d = "word_of_int (tm_mday ?lt - 1) :: u32" and ?wd = "word_of_int (tm_wday ?lt) :: u32"
    and ?h = "word_of_int (tm_hour ?lt) :: u32" and ?mi = "word_of_int (tm_min ?lt) :: u32"
  let ?p = "push_bit 24 ?y OR push_bit 20 ?mo OR push_bit 14 ?d OR push_bit 11 ?wd OR push_bit 6 ?h OR ?mi"
  have f: "?p AND mask 6 = ?mi" "drop_bit 6 ?p AND mask 5 = ?h" "drop_bit 14 ?p AND mask 6 = ?d"
      "drop_bit 20 ?p AND mask 4 = ?mo" "drop_bit 24 ?p AND mask 5 = ?y"
    by (rule packed_fields; rule small_word_of_int; use assms(1) in \<open>simp add: tm_packable_def\<close>)+
  have u: "uint ?y = tm_year ?lt - 100" "uint ?mo = tm_mon ?lt" "uint ?d = tm_mday ?lt - 1"
      "uint ?h = tm_hour ?lt" "uint ?mi = tm_min ?lt"
    by (rule uint_small; use assms(1) in \<open>simp add: tm_packable_def\<close>)+
  have "length (bb_storage b) + length (int_enc ?p) < 10000000"
    using assms(4) by (simp add: int_enc_def ByteBuffer_size_def)
  then obtain b1 where b1: "ByteBuffer_append_value e ?p b = (Inr (), b1)" "bb_wf b1"
      "bb_storage b1 = bb_storage b @ int_enc ?p" "bb_rpos b1 = bb_rpos b"
    using u32c.write_law [OF _ assms(2)] by blast
  have un: "bb_unread b1 = int_enc ?p @ []" using b1 assms(3) by (simp add: bb_unread_def ByteBuffer_size_def)
  show ?thesis
    using b1(1) u32c.read_law [OF _ b1(2) un, of e'] f u
    unfolding ByteBuffer_AppendPackedTime_def ByteBuffer_ReadPackedTime_def mask_values Let_def bb_bind_def
    by (simp add: bb_return_def)
qed

theorem packed_time_roundtrip_witness:
  "\<exists>b1 b2. ByteBuffer_AppendPackedTime (\<lambda>t. tm_zero\<lparr>tm_min := t, tm_hour := 9, tm_mday := 17, tm_mon := 4, tm_year := 121\<rparr>)
       WARHEAD_LITTLEENDIAN 30 ByteBuffer_default = (Inr (), b1)
    \<and> ByteBuffer_ReadPackedTime (\<lambda>lt. tm_mday lt * 1440 + tm_hour lt * 60 + tm_min lt) WARHEAD_BIGENDIAN b1
        = (Inr 25050, b2)"
  using packed_time_roundtrip [of "\<lambda>t. tm_zero\<lparr>tm_min := t, tm_hour := 9, tm_mday := 17, tm_mon := 4, tm_year := 121\<rparr>"
      30 ByteBuffer_default WARHEAD_LITTLEENDIAN "\<lambda>lt. tm_mday lt * 1440 + tm_hour lt * 60 + tm_min lt" WARHEAD_BIGENDIAN]
  by (simp add: tm_packable_def tm_zero_def bb_wf_default ByteBuffer_size_def) (simp add: ByteBuffer_default_def)

text \<open>\<open>append\<close> at any write position inside the data, in every growth case: the bytes are
  written at the write position, what was there is overwritten, the vector grows only by what
  does not fit, its capacity covers its size, and the write position is the end of the new bytes. A
  null pointer, an empty source or a buffer of ten million bytes is an assertion failure that
  changes nothing.\<close>

theorem append_overwrites:
  assumes "bb_wpos b \<le> ByteBuffer_size b" and "ByteBuffer_size b \<le> bb_capacity b" and "length data < 10000000"
  shows "(let (r, b') = ByteBuffer_append (Some data) b in
     if data = [] \<or> \<not> ByteBuffer_size b < 10000000 then r = Inl AssertionFailed \<and> b' = b
     else r = Inr () \<and> bb_storage b' = take (bb_wpos b) (bb_storage b) @ data @ drop (bb_wpos b + length data) (bb_storage b)
       \<and> bb_wpos b' = bb_wpos b + length data \<and> bb_rpos b' = bb_rpos b \<and> ByteBuffer_size b' \<le> bb_capacity b')
   \<and> ByteBuffer_append None b = (Inl AssertionFailed, b)"
proof (cases "data = [] \<or> \<not> ByteBuffer_size b < 10000000")
  case True
  then show ?thesis by (auto simp: ByteBuffer_append_def Let_def)
next
  case False
  let ?n = "bb_wpos b + length data"
  have new: "sz_add (bb_wpos b) (length data) = ?n"
    using assms False by (intro sz_add_exact) (simp add: size_t_mod_def)
  define b1 where "b1 = (if bb_capacity b < ?n then
      (if ?n < 100 then vec_reserve 300 b else if ?n < 750 then vec_reserve 2500 b
       else if ?n < 6000 then vec_reserve 10000 b else vec_reserve 400000 b) else b)"
  define b2 where "b2 = (if ByteBuffer_size b1 < ?n then vec_resize_storage ?n b1 else b1)"
  have b1: "bb_storage b1 = bb_storage b" "bb_rpos b1 = bb_rpos b" "bb_capacity b \<le> bb_capacity b1"
    by (simp_all add: b1_def)
  have b2: "bb_rpos b2 = bb_rpos b" "length (bb_storage b2) = max (ByteBuffer_size b) ?n"
      "ByteBuffer_size b2 \<le> bb_capacity b2"
      "blit (bb_wpos b) data (bb_storage b2) = take (bb_wpos b) (bb_storage b) @ data @ drop ?n (bb_storage b)"
    using b1 assms vec_resize_storage_capacity [of ?n b1]
    by (simp_all add: b2_def ByteBuffer_size_def blit_def vec_resize_def max_def)
  have "ByteBuffer_append (Some data) b = (Inr (), b2\<lparr>bb_storage := blit (bb_wpos b) data (bb_storage b2), bb_wpos := ?n\<rparr>)"
    using False b2 unfolding ByteBuffer_append_def option.case Let_def new b1_def [symmetric] b2_def [symmetric]
    by (simp add: mem_write_def)
  moreover have "length (blit (bb_wpos b) data (bb_storage b2)) = length (bb_storage b2)"
    using b2(2) by (intro length_blit) simp
  moreover have "ByteBuffer_append None b = (Inl AssertionFailed, b)" by (simp add: ByteBuffer_append_def)
  ultimately show ?thesis using False b2 assms(1) by (simp add: ByteBuffer_size_def)
qed

theorem append_overwrites_witness:
  "ByteBuffer_append (Some [7, 8]) \<lparr>bb_rpos = 0, bb_wpos = 1, bb_storage = [1, 2], bb_capacity = 2\<rparr>
     = (Inr (), \<lparr>bb_rpos = 0, bb_wpos = 3, bb_storage = [1, 7, 8], bb_capacity = 300\<rparr>)"
  using append_overwrites [of "\<lparr>bb_rpos = 0, bb_wpos = 1, bb_storage = [1, 2], bb_capacity = 2\<rparr>" "[7, 8]"]
  by (simp add: ByteBuffer_append_def ByteBuffer_size_def Let_def sz_add_def size_t_mod_def vec_reserve_def
      vec_resize_storage_def vec_resize_def mem_write_def blit_def)

end
