(* ===== verification/Timer.thy ===== *)
theory Timer
  imports Wire_Codecs
begin

text \<open>
  \<^verbatim>\<open>src/src/common/Utilities/Timer.h\<close> and \<^verbatim>\<open>Timer.cpp\<close>: millisecond differences, the
  timer structures, the text of a duration, and the calendar helpers. \<^verbatim>\<open>time_t\<close> is a signed
  64-bit integer, reduced to its width by every operation; the 32-bit counters are words. The
  clocks (\<open>now\<close>), \<open>localtime\<close>, \<open>mktime\<close> and \<^verbatim>\<open>std::put_time\<close> are arguments.
\<close>

section \<open>Millisecond clocks\<close>

definition GetMSTimeDiff :: "int \<Rightarrow> int \<Rightarrow> int" where
  "GetMSTimeDiff oldMSTime newMSTime =
     (if oldMSTime > newMSTime then int_wrap 64 (oldMSTime - newMSTime) else int_wrap 64 (newMSTime - oldMSTime))"

text \<open>\<open>elapsed\<close> is the time since the start of the application in nanoseconds.\<close>

definition GetTimeMS :: "int \<Rightarrow> int" where
  "GetTimeMS elapsed = cdiv elapsed 1000000"

definition GetMSTimeDiffToNow_ms :: "int \<Rightarrow> int \<Rightarrow> int" where
  "GetMSTimeDiffToNow_ms elapsed oldMSTime = GetMSTimeDiff oldMSTime (GetTimeMS elapsed)"

definition getMSTime :: "int \<Rightarrow> u32" where
  "getMSTime elapsed = word_of_int (cdiv elapsed 1000000)"

definition getMSTimeDiff :: "u32 \<Rightarrow> u32 \<Rightarrow> u32" where
  "getMSTimeDiff oldMSTime newMSTime =
     (if oldMSTime > newMSTime then (0xFFFFFFFF - oldMSTime) + newMSTime else newMSTime - oldMSTime)"

definition getMSTimeDiff_point :: "u32 \<Rightarrow> int \<Rightarrow> u32" where
  "getMSTimeDiff_point oldMSTime elapsed = getMSTimeDiff oldMSTime (getMSTime elapsed)"

definition GetMSTimeDiffToNow :: "int \<Rightarrow> u32 \<Rightarrow> u32" where
  "GetMSTimeDiffToNow elapsed oldMSTime = getMSTimeDiff oldMSTime (getMSTime elapsed)"

section \<open>Timers\<close>

record IntervalTimer =
  it_interval :: int
  it_current :: int

definition IntervalTimer_default :: IntervalTimer where
  "IntervalTimer_default = \<lparr>it_interval = 0, it_current = 0\<rparr>"

definition IntervalTimer_Update :: "int \<Rightarrow> IntervalTimer \<Rightarrow> IntervalTimer" where
  "IntervalTimer_Update diff t =
     (let c = int_wrap 64 (it_current t + diff) in t\<lparr>it_current := (if c < 0 then 0 else c)\<rparr>)"

definition IntervalTimer_Passed :: "IntervalTimer \<Rightarrow> bool" where
  "IntervalTimer_Passed t \<longleftrightarrow> it_current t \<ge> it_interval t"

text \<open>\<open>None\<close>: the remainder by a zero interval, a division by zero.\<close>

definition IntervalTimer_Reset :: "IntervalTimer \<Rightarrow> IntervalTimer option" where
  "IntervalTimer_Reset t =
     (if it_current t \<ge> it_interval t then
        (if it_interval t = 0 then None else Some (t\<lparr>it_current := crem (it_current t) (it_interval t)\<rparr>))
      else Some t)"

definition IntervalTimer_SetCurrent :: "int \<Rightarrow> IntervalTimer \<Rightarrow> IntervalTimer" where
  "IntervalTimer_SetCurrent c t = t\<lparr>it_current := c\<rparr>"

definition IntervalTimer_SetInterval :: "int \<Rightarrow> IntervalTimer \<Rightarrow> IntervalTimer" where
  "IntervalTimer_SetInterval i t = t\<lparr>it_interval := i\<rparr>"

text \<open>\<open>TimeTracker\<close> is its remaining time; the small one has 32 bits.\<close>

definition TimeTracker_new :: "int \<Rightarrow> int" where
  "TimeTracker_new expiry = expiry"

definition TimeTracker_Update :: "int \<Rightarrow> int \<Rightarrow> int" where
  "TimeTracker_Update diff i_expiryTime = int_wrap 64 (i_expiryTime - diff)"

definition TimeTracker_Passed :: "int \<Rightarrow> bool" where
  "TimeTracker_Passed i_expiryTime \<longleftrightarrow> i_expiryTime \<le> 0"

definition TimeTracker_Reset :: "int \<Rightarrow> int \<Rightarrow> int" where
  "TimeTracker_Reset interval i_expiryTime = interval"

definition TimeTrackerSmall_new :: "u32 \<Rightarrow> int" where
  "TimeTrackerSmall_new expiry = sint expiry"

definition TimeTrackerSmall_Update :: "int \<Rightarrow> int \<Rightarrow> int" where
  "TimeTrackerSmall_Update diff i_expiryTime = int_wrap 32 (i_expiryTime - diff)"

definition TimeTrackerSmall_Reset :: "u32 \<Rightarrow> int \<Rightarrow> int" where
  "TimeTrackerSmall_Reset interval i_expiryTime = sint interval"

definition TimeTrackerSmall_Passed :: "int \<Rightarrow> bool" where
  "TimeTrackerSmall_Passed i_expiryTime \<longleftrightarrow> i_expiryTime \<le> 0"

record PeriodicTimer =
  pt_period :: int
  pt_expireTime :: int

definition PeriodicTimer_new :: "int \<Rightarrow> int \<Rightarrow> PeriodicTimer" where
  "PeriodicTimer_new period start_time = \<lparr>pt_period = period, pt_expireTime = start_time\<rparr>"

definition PeriodicTimer_Update :: "u32 \<Rightarrow> PeriodicTimer \<Rightarrow> bool \<times> PeriodicTimer" where
  "PeriodicTimer_Update diff t =
     (let e = int_wrap 32 (pt_expireTime t - uint diff) in
      if e > 0 then (False, t\<lparr>pt_expireTime := e\<rparr>)
      else (True, t\<lparr>pt_expireTime := int_wrap 32 (e + (if pt_period t > sint diff then pt_period t else uint diff))\<rparr>))"

definition PeriodicTimer_SetPeriodic :: "int \<Rightarrow> int \<Rightarrow> PeriodicTimer \<Rightarrow> PeriodicTimer" where
  "PeriodicTimer_SetPeriodic period start_time t = t\<lparr>pt_expireTime := start_time, pt_period := period\<rparr>"

definition PeriodicTimer_TUpdate :: "int \<Rightarrow> PeriodicTimer \<Rightarrow> PeriodicTimer" where
  "PeriodicTimer_TUpdate diff t = t\<lparr>pt_expireTime := int_wrap 32 (pt_expireTime t - diff)\<rparr>"

definition PeriodicTimer_TPassed :: "PeriodicTimer \<Rightarrow> bool" where
  "PeriodicTimer_TPassed t \<longleftrightarrow> pt_expireTime t \<le> 0"

definition PeriodicTimer_TReset :: "int \<Rightarrow> int \<Rightarrow> PeriodicTimer \<Rightarrow> PeriodicTimer" where
  "PeriodicTimer_TReset diff period t =
     t\<lparr>pt_expireTime := int_wrap 32 (pt_expireTime t + (if period > diff then period else diff))\<rparr>"

section \<open>The text of a duration\<close>

datatype TimeFormat = FullText | ShortText | Numeric

definition TD_MILLISECONDS :: nat where "TD_MILLISECONDS = 1000"
definition TD_SECONDS :: nat where "TD_SECONDS = 1000 * TD_MILLISECONDS"
definition TD_MINUTES :: nat where "TD_MINUTES = 60 * TD_SECONDS"
definition TD_HOURS :: nat where "TD_HOURS = 60 * TD_MINUTES"
definition TD_DAYS :: nat where "TD_DAYS = 24 * TD_HOURS"

text \<open>Days, hours, minutes, seconds, milliseconds and microseconds of a count of microseconds.
  The division is unsigned, the remainder by 1000 signed.\<close>

definition time_units :: "int \<Rightarrow> nat list" where
  "time_units count =
     (let u = nat (count mod 2 ^ 64) in
      [u div TD_DAYS, u div TD_HOURS mod 24, u div TD_MINUTES mod 60, u div TD_SECONDS mod 60,
       u div TD_MILLISECONDS mod 1000, nat (crem count 1000 mod 2 ^ 64)])"

text \<open>The state of the two lambdas: the output, the count of units and (numeric format)
  whether the first unit is out.\<close>

definition AddOutNumeric :: "string \<times> nat \<times> bool \<Rightarrow> nat \<Rightarrow> string \<times> nat \<times> bool" where
  "AddOutNumeric st time =
     (case st of (out, count, isFirst) \<Rightarrow>
        if count \<ge> 3 then st
        else if \<not> isFirst then (out @ dec_nat time @ '':'', count + 1, True)
        else (out @ (if time < 10 then ''0'' else []) @ dec_nat time @ '':'', count + 1, True))"

definition AddOut :: "TimeFormat \<Rightarrow> string \<times> nat \<Rightarrow> nat \<times> string \<times> string \<times> string \<Rightarrow> string \<times> nat" where
  "AddOut timeFormat st arg =
     (case st of (out, count) \<Rightarrow> case arg of (time, shortText, fullText1, fullText) \<Rightarrow>
        if count \<ge> 3 then st
        else (let timeCount = time mod 2 ^ 32 in
          (out @ dec_nat timeCount @
             (case timeFormat of
                ShortText \<Rightarrow> shortText
              | FullText \<Rightarrow> (if timeCount = 1 then fullText1 else fullText)
              | Numeric \<Rightarrow> ''<Unknown time format>''), count + 1)))"

definition unit_texts :: "(string \<times> string \<times> string) list" where
  "unit_texts =
     [(''d '', '' Day '', '' Days ''), (''h '', '' Hour '', '' Hours ''), (''m '', '' Minute '', '' Minutes ''),
      (''s '', '' Second '', '' Seconds ''), (''ms '', '' Millisecond '', '' Milliseconds ''),
      (''us '', '' Microsecond '', '' Microseconds '')]"

definition ToTimeString :: "int \<Rightarrow> TimeFormat \<Rightarrow> string" where
  "ToTimeString durationTime timeFormat =
     (if timeFormat = Numeric then
        (let out = fst (foldl AddOutNumeric ([], 0, False) (filter (\<lambda>u. u \<noteq> 0) (time_units durationTime)))
         in if out \<noteq> [] then butlast out else out)
      else
        TrimRightInPlace (fst (foldl (AddOut timeFormat) ([], 0)
          (filter (\<lambda>a. fst a \<noteq> 0) (zip (time_units durationTime) unit_texts)))))"

definition ToTimeString_Microseconds :: "u64 \<Rightarrow> TimeFormat \<Rightarrow> string" where
  "ToTimeString_Microseconds t = ToTimeString (sint t)"

definition ToTimeString_Milliseconds :: "u64 \<Rightarrow> TimeFormat \<Rightarrow> string" where
  "ToTimeString_Milliseconds t = ToTimeString_Microseconds (t * of_nat TD_MILLISECONDS)"

definition ToTimeString_Seconds :: "u64 \<Rightarrow> TimeFormat \<Rightarrow> string" where
  "ToTimeString_Seconds t = ToTimeString_Microseconds (t * of_nat TD_SECONDS)"

definition ToTimeString_Minutes :: "u64 \<Rightarrow> TimeFormat \<Rightarrow> string" where
  "ToTimeString_Minutes t = ToTimeString_Microseconds (t * of_nat TD_MINUTES)"

section \<open>Calendar helpers\<close>

text \<open>\<open>epoch\<close> is \<open>GetEpochTime().count()\<close>.\<close>

definition TimeBreakdown :: "(int \<Rightarrow> tm) \<Rightarrow> int \<Rightarrow> int \<Rightarrow> tm" where
  "TimeBreakdown localtime epoch time = localtime (if time = 0 then epoch else time)"

definition LocalTimeToUTCTime :: "int \<Rightarrow> int \<Rightarrow> int" where
  "LocalTimeToUTCTime timezone time = int_wrap 64 (time + timezone)"

definition GetLocalHourTimestamp :: "(int \<Rightarrow> tm) \<Rightarrow> (tm \<Rightarrow> int) \<Rightarrow> int \<Rightarrow> int \<Rightarrow> u8 \<Rightarrow> bool \<Rightarrow> int" where
  "GetLocalHourTimestamp localtime mktime epoch time hour onlyAfterTime =
     (let timeLocal = (TimeBreakdown localtime epoch time)\<lparr>tm_hour := 0, tm_min := 0, tm_sec := 0\<rparr>;
          midnightLocal = mktime timeLocal;
          hourLocal = int_wrap 64 (midnightLocal + uint hour * 3600)
      in if onlyAfterTime \<and> hourLocal \<le> time then int_wrap 64 (hourLocal + 86400) else hourLocal)"

definition TimeToTimestampStr :: "(int \<Rightarrow> tm) \<Rightarrow> (tm \<Rightarrow> string \<Rightarrow> string) \<Rightarrow> int \<Rightarrow> string \<Rightarrow> string" where
  "TimeToTimestampStr localtime put_time time fmt =
     put_time (localtime time) (if fmt = [] then ''%Y-%m-%d %X'' else fmt)"

definition TimeToHumanReadable :: "(int \<Rightarrow> tm) \<Rightarrow> (tm \<Rightarrow> string \<Rightarrow> string) \<Rightarrow> int \<Rightarrow> string \<Rightarrow> string" where
  "TimeToHumanReadable localtime put_time time fmt =
     put_time (localtime time) (if fmt = [] then ''%a %b %d %Y %X'' else fmt)"

text \<open>\<open>GetSeconds\<close> to \<open>GetYear\<close>: a field of the local time of \<open>time\<close>, or of now for zero.\<close>

definition time_field :: "(tm \<Rightarrow> int) \<Rightarrow> (int \<Rightarrow> tm) \<Rightarrow> int \<Rightarrow> int \<Rightarrow> u32" where
  "time_field f localtime epoch time =
     (let time = (if time = 0 then epoch else time) in word_of_int (f (TimeBreakdown localtime epoch time)))"

definition GetSeconds :: "(int \<Rightarrow> tm) \<Rightarrow> int \<Rightarrow> int \<Rightarrow> u32" where "GetSeconds = time_field tm_sec"
definition GetMinutes :: "(int \<Rightarrow> tm) \<Rightarrow> int \<Rightarrow> int \<Rightarrow> u32" where "GetMinutes = time_field tm_min"
definition GetHours :: "(int \<Rightarrow> tm) \<Rightarrow> int \<Rightarrow> int \<Rightarrow> u32" where "GetHours = time_field tm_hour"
definition GetDayInWeek :: "(int \<Rightarrow> tm) \<Rightarrow> int \<Rightarrow> int \<Rightarrow> u32" where "GetDayInWeek = time_field tm_wday"
definition GetDayInMonth :: "(int \<Rightarrow> tm) \<Rightarrow> int \<Rightarrow> int \<Rightarrow> u32" where "GetDayInMonth = time_field tm_mday"
definition GetDayInYear :: "(int \<Rightarrow> tm) \<Rightarrow> int \<Rightarrow> int \<Rightarrow> u32" where "GetDayInYear = time_field tm_yday"
definition GetMonth :: "(int \<Rightarrow> tm) \<Rightarrow> int \<Rightarrow> int \<Rightarrow> u32" where "GetMonth = time_field tm_mon"
definition GetYear :: "(int \<Rightarrow> tm) \<Rightarrow> int \<Rightarrow> int \<Rightarrow> u32" where "GetYear = time_field tm_year"

section \<open>Properties\<close>

text \<open>\<open>getMSTimeDiff\<close> is the elapsed time modulo \<open>2\<^sup>3\<^sup>2\<close> as long as the counter has not
  wrapped; across the wrap it is one millisecond less than the elapsed time.\<close>

theorem getMSTimeDiff_elapsed:
  "getMSTimeDiff old (old + d) = (if old \<le> old + d then d else d - 1)"
proof (cases "old \<le> old + d")
  case True
  then show ?thesis by (simp add: getMSTimeDiff_def)
next
  case False
  have m1: "(0xFFFFFFFF :: u32) = - 1" by simp
  show ?thesis using False unfolding getMSTimeDiff_def m1 by (simp add: not_le)
qed

lemma crem_nonneg:
  assumes "0 \<le> a" and "0 < b"
  shows "crem a b = a mod b"
  using assms by (simp add: crem_def cdiv_nonneg minus_mult_div_eq_mod)

text \<open>An interval timer with a positive interval: \<open>Reset\<close> after it has passed leaves the
  remainder, so the timer has not passed any more and the time consumed is a whole number of
  intervals; before it has passed \<open>Reset\<close> changes nothing. With interval zero, \<open>Reset\<close>
  divides by zero.\<close>

theorem interval_timer_reset:
  assumes "0 \<le> it_current t" and "0 \<le> it_interval t"
  shows "(case IntervalTimer_Reset t of
      None \<Rightarrow> it_interval t = 0
    | Some t' \<Rightarrow> it_interval t' = it_interval t \<and> \<not> IntervalTimer_Passed t' \<and> 0 \<le> it_current t'
        \<and> it_interval t dvd it_current t - it_current t'
        \<and> (IntervalTimer_Passed t \<or> t' = t))"
proof (cases "IntervalTimer_Passed t")
  case False
  then show ?thesis using assms by (simp add: IntervalTimer_Reset_def IntervalTimer_Passed_def)
next
  case True
  show ?thesis
  proof (cases "it_interval t = 0")
    case True
    then show ?thesis using assms by (simp add: IntervalTimer_Reset_def)
  next
    case False
    then have pos: "0 < it_interval t" using assms by simp
    have "crem (it_current t) (it_interval t) = it_current t mod it_interval t"
      using assms(1) pos by (rule crem_nonneg)
    then show ?thesis using True False pos
      by (simp add: IntervalTimer_Reset_def IntervalTimer_Passed_def dvd_minus_mod not_le)
  qed
qed

theorem interval_timer_reset_witness:
  "IntervalTimer_Reset \<lparr>it_interval = 100, it_current = 250\<rparr> = Some \<lparr>it_interval = 100, it_current = 50\<rparr>
    \<and> \<not> IntervalTimer_Passed \<lparr>it_interval = 100, it_current = 50\<rparr>"
proof -
  have r: "IntervalTimer_Reset \<lparr>it_interval = 100, it_current = 250\<rparr> = Some \<lparr>it_interval = 100, it_current = 50\<rparr>"
    by (simp add: IntervalTimer_Reset_def crem_def cdiv_def)
  then show ?thesis using interval_timer_reset [of "\<lparr>it_interval = 100, it_current = 250\<rparr>"] by simp
qed

lemma mixed_radix_step: "n div (k * j) * (k * j) + n div k mod j * k = n div k * (k::nat)"
proof -
  have "n div (k * j) * (k * j) + n div k mod j * k = (n div k div j * j + n div k mod j) * k"
    by (simp only: div_mult2_eq distrib_right mult.assoc mult.commute [of j k])
  then show ?thesis by (simp only: div_mult_mod_eq)
qed

lemma TD_values:
  "TD_DAYS = 86400000000" "TD_HOURS = 3600000000" "TD_MINUTES = 60000000" "TD_SECONDS = 1000000"
  "TD_MILLISECONDS = 1000"
  by (simp_all add: TD_DAYS_def TD_HOURS_def TD_MINUTES_def TD_SECONDS_def TD_MILLISECONDS_def)

lemma time_units_sum:
  assumes "0 \<le> c" and "c < 2 ^ 63"
  shows "\<exists>d h m s ms us. time_units c = [d, h, m, s, ms, us]
      \<and> nat c = d * TD_DAYS + h * TD_HOURS + m * TD_MINUTES + s * TD_SECONDS + ms * TD_MILLISECONDS + us
      \<and> d < 2 ^ 32 \<and> h < 24 \<and> m < 60 \<and> s < 60 \<and> ms < 1000 \<and> us < 1000"
proof -
  define n where "n = nat c"
  have c: "c = int n" using assms by (simp add: n_def)
  have u: "nat (c mod 2 ^ 64) = n" using assms c by simp
  have us: "nat (crem c 1000 mod 2 ^ 64) = n mod 1000"
    using assms c by (simp add: crem_nonneg nat_mod_distrib flip: zmod_int)
  have sum: "n div TD_DAYS * TD_DAYS + n div TD_HOURS mod 24 * TD_HOURS + n div TD_MINUTES mod 60 * TD_MINUTES
      + n div TD_SECONDS mod 60 * TD_SECONDS + n div TD_MILLISECONDS mod 1000 * TD_MILLISECONDS + n mod 1000 = n"
    using mixed_radix_step [of n TD_HOURS 24] mixed_radix_step [of n TD_MINUTES 60]
      mixed_radix_step [of n TD_SECONDS 60] mixed_radix_step [of n TD_MILLISECONDS 1000] mixed_radix_step [of n 1 1000]
    by (simp add: TD_values)
  have "n < 2 ^ 63" using assms c by simp
  then have d: "n div TD_DAYS < 2 ^ 32"
    by (simp add: TD_values div_less_iff_less_mult)
  show ?thesis unfolding time_units_def Let_def u us using sum d by (simp add: n_def)
qed

definition unit_out :: "TimeFormat \<Rightarrow> nat \<times> string \<times> string \<times> string \<Rightarrow> string" where
  "unit_out f a = fst (AddOut f ([], 0) a)"

lemma AddOut_below: "k < 3 \<Longrightarrow> AddOut f (out, k) a = (out @ unit_out f a, Suc k)"
  by (simp add: AddOut_def unit_out_def Let_def split: prod.splits)

lemma AddOut_full: "\<not> k < 3 \<Longrightarrow> AddOut f (out, k) a = (out, k)"
  by (simp add: AddOut_def)

lemma foldl_AddOut: "fst (foldl (AddOut f) (out, k) xs) = out @ concat (map (unit_out f) (take (3 - k) xs))"
proof (induction xs arbitrary: out k)
  case (Cons x xs)
  show ?case
  proof (cases "k < 3")
    case True
    then have "3 - k = Suc (3 - Suc k)" by simp
    then show ?thesis using Cons.IH [of "out @ unit_out f x" "Suc k"] True by (simp add: AddOut_below)
  next
    case False
    then show ?thesis using Cons.IH [of out k] by (simp add: AddOut_full)
  qed
qed simp

lemma join_with_snoc: "join_with c (ts @ [t]) = concat (map (\<lambda>t. t @ [c]) ts) @ t"
proof (induction ts)
  case (Cons a ts)
  then show ?case by (cases "ts @ [t]") simp_all
qed simp

lemma trim_words:
  assumes "\<And>t. t \<in> set ts \<Longrightarrow> t \<noteq> [] \<and> \<not> isspace (last t)"
  shows "TrimRightInPlace (concat (map (\<lambda>t. t @ '' '') ts)) = join_with (CHR '' '') ts"
proof (cases ts rule: rev_cases)
  case Nil
  then show ?thesis by (simp add: TrimRightInPlace_eq)
next
  case (snoc xs t)
  then have "t \<noteq> []" "\<not> isspace (last t)" using assms by simp_all
  then have drop: "dropWhile isspace (rev t @ ys) = rev t @ ys" for ys
    by (cases t rule: rev_cases) simp_all
  have "isspace (CHR '' '')" by (simp add: isspace_def)
  then show ?thesis by (simp add: snoc TrimRightInPlace_eq drop join_with_snoc)
qed

text \<open>The text of a unit without its final space.\<close>

definition unit_word :: "TimeFormat \<Rightarrow> nat \<times> string \<times> string \<times> string \<Rightarrow> string" where
  "unit_word f a = (case a of (n, short, one, many) \<Rightarrow>
     dec_nat n @ butlast (if f = ShortText then short else if n = 1 then one else many))"

lemma unit_out_word:
  assumes "f \<noteq> Numeric" and "fst a < 2 ^ 32" and "snd a \<in> set unit_texts"
  shows "unit_out f a = unit_word f a @ '' ''" "unit_word f a \<noteq> []" "\<not> isspace (last (unit_word f a))"
  using assms dec_nat_head(2)
  by (cases f; cases a; auto simp: unit_out_def unit_word_def AddOut_def unit_texts_def isspace_def)+

text \<open>The text of a duration (not negative, below \<open>2\<^sup>6\<^sup>3\<close> microseconds): the duration is
  split exactly into days, hours, minutes, seconds, milliseconds and microseconds, each within
  its range, and the text is the first three units that are not zero, each with its name (the
  singular for one in the full format), separated by single spaces.\<close>

theorem time_string_units:
  assumes "0 \<le> c" and "c < 2 ^ 63" and "f \<noteq> Numeric"
  shows "\<exists>d h m s ms us.
      nat c = d * 86400000000 + h * 3600000000 + m * 60000000 + s * 1000000 + ms * 1000 + us
      \<and> h < 24 \<and> m < 60 \<and> s < 60 \<and> ms < 1000 \<and> us < 1000
      \<and> ToTimeString c f = join_with (CHR '' '')
          (map (unit_word f) (take 3 (filter (\<lambda>a. fst a \<noteq> 0) (zip [d, h, m, s, ms, us] unit_texts))))"
proof -
  obtain d h m s ms us where u: "time_units c = [d, h, m, s, ms, us]"
    and n: "nat c = d * TD_DAYS + h * TD_HOURS + m * TD_MINUTES + s * TD_SECONDS + ms * TD_MILLISECONDS + us"
    and r: "d < 2 ^ 32" "h < 24" "m < 60" "s < 60" "ms < 1000" "us < 1000"
    using time_units_sum [OF assms(1,2)] by blast
  define xs where "xs = take 3 (filter (\<lambda>a. fst a \<noteq> 0) (zip [d, h, m, s, ms, us] unit_texts))"
  have xs: "fst a < 2 ^ 32 \<and> snd a \<in> set unit_texts" if "a \<in> set xs" for a
  proof -
    have "a \<in> set (zip [d, h, m, s, ms, us] unit_texts)" using that in_set_takeD unfolding xs_def by fastforce
    then have "fst a \<in> set [d, h, m, s, ms, us]" "snd a \<in> set unit_texts"
      by (metis in_set_zipE prod.collapse)+
    then show ?thesis using r by auto
  qed
  have eq: "map (unit_out f) xs = map (\<lambda>t. t @ '' '') (map (unit_word f) xs)"
    using xs assms(3) by (simp add: unit_out_word)
  have "ToTimeString c f = TrimRightInPlace (concat (map (unit_out f) xs))"
    using assms(3) by (simp add: ToTimeString_def u foldl_AddOut xs_def)
  also have "\<dots> = TrimRightInPlace (concat (map (\<lambda>t. t @ '' '') (map (unit_word f) xs)))"
    by (simp only: eq)
  also have "\<dots> = join_with (CHR '' '') (map (unit_word f) xs)"
    using xs assms(3) unit_out_word by (intro trim_words) auto
  finally show ?thesis using n [unfolded TD_values] r(2-) unfolding xs_def by blast
qed

theorem time_string_units_witness:
  "\<exists>d h m s ms us. nat 3661000005 = d * 86400000000 + h * 3600000000 + m * 60000000 + s * 1000000 + ms * 1000 + us
      \<and> ToTimeString 3661000005 ShortText = join_with (CHR '' '')
          (map (unit_word ShortText) (take 3 (filter (\<lambda>a. fst a \<noteq> 0) (zip [d, h, m, s, ms, us] unit_texts))))"
  using time_string_units [of 3661000005 ShortText] by simp blast

text \<open>The numeric format drops the units that are zero without a place holder, so different
  durations share a text: an hour and five seconds reads like a minute and five seconds.\<close>

theorem numeric_time_string_ambiguous:
  "ToTimeString 3605000000 Numeric = ''1:05'' \<and> ToTimeString 65000000 Numeric = ''1:05''
    \<and> ToTimeString 0 Numeric = [] \<and> ToTimeString 0 ShortText = []"
  by code_simp

end
