(* ===== verification/Config.thy ===== *)
theory Config
  imports Log_Core "HOL-Library.Multiset"
begin

text \<open>
  \<^verbatim>\<open>src/src/common/Configuration/Config.cpp\<close>: the parser of configuration files, the
  two-layer loading (the \<^verbatim>\<open>.dist\<close> file, then the user's file) and the typed lookup of
  options. The files are an argument: for each path the lines \<^verbatim>\<open>std::getline\<close> delivers and
  whether the stream goes bad after them, \<open>None\<close> for a file that cannot be opened. The
  iteration order of an \<^verbatim>\<open>unordered_map\<close> is an argument as well. Log statements are the
  lines they deliver, as in theory \<open>Log_Core\<close>; the configuration lock is not part of the
  state, since every operation holds it throughout.
\<close>

section \<open>State and files\<close>

record Config =
  cfg_filename :: string
  cfg_options :: "string \<rightharpoonup> string"
  cfg_usingDistConfig :: bool

definition Config_new :: Config where
  "Config_new = \<lparr>cfg_filename = [], cfg_options = Map.empty, cfg_usingDistConfig = False\<rparr>"

datatype input_file = Input (file_lines: "string list") (file_bad: bool)

type_synonym file_system = "string \<rightharpoonup> input_file"

type_synonym options = "string \<rightharpoonup> string"

text \<open>\<^verbatim>\<open>optionName.find(text) != npos\<close>.\<close>

fun contains_text :: "string \<Rightarrow> string \<Rightarrow> bool" where
  "contains_text pat [] = (pat = [])"
| "contains_text pat (c # cs) = (take (length pat) (c # cs) = pat \<or> contains_text pat cs)"

definition IsLoggingSystemOptions :: "string \<Rightarrow> bool" where
  "IsLoggingSystemOptions optionName = (contains_text ''Sink.'' optionName \<or> contains_text ''Logger.'' optionName)"

definition PrintError :: "Log \<Rightarrow> string option \<Rightarrow> log_event list" where
  "PrintError lg msg = LOG_MSG_BODY lg ''config'' Level_Error msg"

definition quoted :: "string \<Rightarrow> string" where
  "quoted s = CHR 0x27 # s @ [CHR 0x27]"

text \<open>\<^verbatim>\<open>fmt::format\<close> with automatic replacement fields and text arguments.\<close>

fun fmt_format :: "string \<Rightarrow> string list \<Rightarrow> string option" where
  "fmt_format [] args = Some []"
| "fmt_format (c # cs) args =
     (if c = CHR ''{'' \<or> c = CHR ''}'' then
        (case cs of
           d # ds \<Rightarrow>
             (if d = c then map_option ((#) c) (fmt_format ds args)
              else if c = CHR ''{'' \<and> d = CHR ''}'' then
                (case args of a # as \<Rightarrow> map_option ((@) a) (fmt_format ds as) | [] \<Rightarrow> None)
              else None)
         | [] \<Rightarrow> None)
      else map_option ((#) c) (fmt_format cs args))"

section \<open>Parsing a file\<close>

datatype config_line = Skip | BadLine | Entry string string

definition parse_line :: "string \<Rightarrow> config_line" where
  "parse_line line0 =
     (let line1 = Trim line0 in
      if line1 = [] then Skip
      else if hd line1 = CHR ''#'' \<or> hd line1 = CHR ''['' then Skip
      else
        (let line = takeWhile (\<lambda>c. c \<noteq> CHR ''#'') line1 in
         case find_idx (CHR ''='') line of
           None \<Rightarrow> BadLine
         | Some equal_pos \<Rightarrow>
             Entry (Trim (take equal_pos line))
               (filter (\<lambda>c. c \<noteq> CHR 0x22) (Trim (drop (equal_pos + 1) line)))))"

text \<open>The loop over the lines; \<open>fc\<close> is \<^verbatim>\<open>fileConfigs\<close>, in the order of insertion.
  The report of a duplicate passes the file name as the format string.\<close>

primrec parse_lines :: "Log \<Rightarrow> string \<Rightarrow> nat \<Rightarrow> string list \<Rightarrow> (string \<times> string) list \<Rightarrow> (string \<times> string) list \<times> log_event list" where
  "parse_lines lg file lineNumber [] fc = (fc, [])"
| "parse_lines lg file lineNumber (l # ls) fc =
     (let n = (lineNumber + 1) mod 2 ^ 32 in
      case parse_line l of
        Skip \<Rightarrow> parse_lines lg file n ls fc
      | BadLine \<Rightarrow>
          (case parse_lines lg file n ls fc of
             (fc', out) \<Rightarrow>
               (fc', PrintError lg (Some (''> Config::LoadFile: Failure to read line number '' @ dec_nat n @ '' in file ''
                  @ quoted file @ ''. Skip this line'')) @ out))
      | Entry entry val \<Rightarrow>
          (if map_of fc entry \<noteq> None then
             (case parse_lines lg file n ls fc of
                (fc', out) \<Rightarrow>
                  (fc', PrintError lg (fmt_format file
                     [''> Config::LoadFile: Dublicate key name '' @ quoted ''{}'' @ '' in config file '' @ quoted ''{}'', entry, file]) @ out))
           else parse_lines lg file n ls (fc @ [(entry, val)])))"

section \<open>Adding the keys\<close>

definition AddKey :: "Log \<Rightarrow> string \<Rightarrow> bool \<Rightarrow> bool \<Rightarrow> string \<times> string \<Rightarrow> options \<Rightarrow> options \<times> log_event list" where
  "AddKey lg fileName isOptional isReload kv opts =
     (case kv of (optionName, optionKey) \<Rightarrow>
        if isOptional \<and> opts optionName = None \<and> \<not> IsLoggingSystemOptions optionName \<and> \<not> isReload
        then (opts, PrintError lg (Some (''> Config::LoadFile: Found incorrect option '' @ quoted optionName
                @ '' in config file '' @ quoted fileName @ ''. Skip'')))
        else (opts(optionName \<mapsto> optionKey), []))"

primrec add_keys :: "Log \<Rightarrow> string \<Rightarrow> bool \<Rightarrow> bool \<Rightarrow> (string \<times> string) list \<Rightarrow> options \<Rightarrow> options \<times> log_event list" where
  "add_keys lg fileName isOptional isReload [] opts = (opts, [])"
| "add_keys lg fileName isOptional isReload (kv # kvs) opts =
     (case AddKey lg fileName isOptional isReload kv opts of
        (opts1, out1) \<Rightarrow>
          (case add_keys lg fileName isOptional isReload kvs opts1 of (opts2, out2) \<Rightarrow> (opts2, out1 @ out2)))"

text \<open>\<open>Inl\<close> is the message of a \<open>ConfigException\<close>. \<open>it\<close> is the order in which the map
  is traversed.\<close>

definition ParseFile ::
  "Log \<Rightarrow> file_system \<Rightarrow> ((string \<times> string) list \<Rightarrow> (string \<times> string) list) \<Rightarrow> string \<Rightarrow> bool \<Rightarrow> bool \<Rightarrow> options
     \<Rightarrow> (string + bool) \<times> options \<times> log_event list" where
  "ParseFile lg files it file isOptional isReload opts =
     (case files file of
        None \<Rightarrow>
          (if isOptional then (Inr False, opts, [])
           else (Inl (''Config::LoadFile: Failed open file '' @ quoted file), opts, []))
      | Some (Input ls bad) \<Rightarrow>
          (case parse_lines lg file 0 ls [] of
             (fileConfigs, out) \<Rightarrow>
               (if bad then
                  (Inl (''> Config::LoadFile: Failure to read line number '' @ dec_nat (Suc (length ls) mod 2 ^ 32)
                     @ '' in file '' @ quoted file), opts, out)
                else if length fileConfigs mod 2 ^ 32 = 0 then
                  (if isOptional then (Inr False, opts, out)
                   else (Inl (''Config::LoadFile: Empty file '' @ quoted file), opts, out))
                else
                  (case add_keys lg file isOptional isReload (it fileConfigs) opts of
                     (opts', out') \<Rightarrow> (Inr True, opts', out @ out')))))"

definition LoadFile ::
  "Log \<Rightarrow> file_system \<Rightarrow> ((string \<times> string) list \<Rightarrow> (string \<times> string) list) \<Rightarrow> string \<Rightarrow> bool \<Rightarrow> bool \<Rightarrow> options
     \<Rightarrow> bool \<times> options \<times> log_event list" where
  "LoadFile lg files it file isOptional isReload opts =
     (case ParseFile lg files it file isOptional isReload opts of
        (Inr r, opts', out) \<Rightarrow> (r, opts', out)
      | (Inl e, opts', out) \<Rightarrow> (False, opts', out @ PrintError lg (Some (''> '' @ e))))"

definition LoadInitial ::
  "Log \<Rightarrow> file_system \<Rightarrow> ((string \<times> string) list \<Rightarrow> (string \<times> string) list) \<Rightarrow> string \<Rightarrow> bool \<Rightarrow> Config
     \<Rightarrow> bool \<times> Config \<times> log_event list" where
  "LoadInitial lg files it file isReload cfg =
     (case LoadFile lg files it file False isReload Map.empty of
        (r, opts, out) \<Rightarrow> (r, cfg\<lparr>cfg_options := opts\<rparr>, out))"

definition LoadAdditionalFile ::
  "Log \<Rightarrow> file_system \<Rightarrow> ((string \<times> string) list \<Rightarrow> (string \<times> string) list) \<Rightarrow> string \<Rightarrow> bool \<Rightarrow> bool \<Rightarrow> Config
     \<Rightarrow> bool \<times> Config \<times> log_event list" where
  "LoadAdditionalFile lg files it file isOptional isReload cfg =
     (case LoadFile lg files it file isOptional isReload (cfg_options cfg) of
        (r, opts, out) \<Rightarrow> (r, cfg\<lparr>cfg_options := opts\<rparr>, out))"

text \<open>The last component is the text on the console, if any; its formatting may throw
  (\<open>Some None\<close>).\<close>

definition LoadAppConfigs ::
  "Log \<Rightarrow> file_system \<Rightarrow> ((string \<times> string) list \<Rightarrow> (string \<times> string) list) \<Rightarrow> string \<Rightarrow> Config
     \<Rightarrow> bool \<times> Config \<times> log_event list \<times> string option option" where
  "LoadAppConfigs lg files it initFileName cfg0 =
     (let cfg = cfg0\<lparr>cfg_filename := initFileName\<rparr> in
      case LoadInitial lg files it (initFileName @ ''.dist'') False cfg of
        (False, cfg1, out) \<Rightarrow>
          (False, cfg1, out, Some (FMT_LOG_ERROR (''> Bad file path for config file '' @ quoted initFileName)))
      | (True, cfg1, out) \<Rightarrow>
          (case LoadAdditionalFile lg files it initFileName True False cfg1 of
             (r, cfg2, out2) \<Rightarrow> (True, if r then cfg2 else cfg2\<lparr>cfg_usingDistConfig := True\<rparr>, out @ out2, None)))"

section \<open>Reading options\<close>

text \<open>The generic lookup, for the conversions \<open>StringTo<T>\<close> and \<open>ToString\<close> of a type.\<close>

definition GetValueDefault ::
  "(string \<Rightarrow> 'a option) \<Rightarrow> ('a \<Rightarrow> string) \<Rightarrow> Log \<Rightarrow> Config \<Rightarrow> string \<Rightarrow> 'a \<Rightarrow> bool \<Rightarrow> 'a \<times> log_event list" where
  "GetValueDefault StringTo ToString lg cfg name def showLogs =
     (case cfg_options cfg name of
        None \<Rightarrow>
          (def, if showLogs then LOG_MSG_BODY lg ''config'' Level_Error
             (Some (''> Config: Missing property '' @ name @ '' in all config files, at least the .dist file must contain: ''
                @ [CHR 0x22] @ name @ '' = '' @ ToString def @ [CHR 0x22])) else [])
      | Some v \<Rightarrow>
          (case StringTo v of
             None \<Rightarrow>
               (def, if showLogs then LOG_MSG_BODY lg ''config'' Level_Error
                  (Some (''> Config: Bad value defined for name '' @ quoted name @ '', going to use '' @ quoted (ToString def)
                     @ '' instead'')) else [])
           | Some x \<Rightarrow> (x, [])))"

definition GetOption_string :: "Log \<Rightarrow> Config \<Rightarrow> string \<Rightarrow> string \<Rightarrow> bool \<Rightarrow> string \<times> log_event list" where
  "GetOption_string lg cfg name def showLogs =
     (case cfg_options cfg name of
        None \<Rightarrow>
          (def, if showLogs then LOG_MSG_BODY lg ''config'' Level_Error
             (Some (''> Config: Missing option '' @ name @ '', add '' @ [CHR 0x22] @ name @ '' = '' @ def @ [CHR 0x22]))
            else [])
      | Some v \<Rightarrow> (v, []))"

definition GetOption_int :: "bool \<Rightarrow> nat \<Rightarrow> Log \<Rightarrow> Config \<Rightarrow> string \<Rightarrow> int \<Rightarrow> bool \<Rightarrow> int \<times> log_event list" where
  "GetOption_int sg bits = GetValueDefault (\<lambda>s. FromString_int sg bits s 10) dec_int"

definition GetOption_bool :: "Log \<Rightarrow> Config \<Rightarrow> string \<Rightarrow> bool \<Rightarrow> bool \<Rightarrow> bool \<times> log_event list" where
  "GetOption_bool lg cfg name def showLogs =
     (case GetOption_string lg cfg name (ToString_bool def) showLogs of
        (val, out) \<Rightarrow>
          (case FromString_bool val 0 of
             None \<Rightarrow>
               (def, out @ (if showLogs then LOG_MSG_BODY lg ''config'' Level_Error
                  (Some (''> Config: Bad value defined for name '' @ quoted name @ '', going to use ''
                     @ quoted (if def then ''true'' else ''false'') @ '' instead'')) else []))
           | Some b \<Rightarrow> (b, out)))"

text \<open>\<open>order\<close> is the sequence in which the option names are traversed.\<close>

definition GetKeysByString :: "string list \<Rightarrow> string \<Rightarrow> string list" where
  "GetKeysByString order name = filter (\<lambda>optionName. take (length name) optionName = name) order"

definition GetConfigPath :: "bool \<Rightarrow> string \<Rightarrow> string" where
  "GetConfigPath windows conf_dir = (if windows then ''configs/'' else conf_dir @ ''/'')"

section \<open>What a file defines\<close>

text \<open>The entries of a file in the order of its lines.\<close>

definition file_entries :: "string list \<Rightarrow> (string \<times> string) list" where
  "file_entries ls = concat (map (\<lambda>l. case parse_line l of Entry e v \<Rightarrow> [(e, v)] | _ \<Rightarrow> []) ls)"

lemma file_entries_simps [simp]:
  "file_entries [] = []"
  "file_entries (l # ls) = (case parse_line l of Entry e v \<Rightarrow> (e, v) # file_entries ls | _ \<Rightarrow> file_entries ls)"
  by (simp_all add: file_entries_def split: config_line.split)

lemma fst_parse_lines_Cons:
  "fst (parse_lines lg file n (l # ls) fc) = fst (parse_lines lg file (Suc n mod 2 ^ 32) ls
     (case parse_line l of Entry e v \<Rightarrow> if map_of fc e \<noteq> None then fc else fc @ [(e, v)] | _ \<Rightarrow> fc))"
  by (simp add: Let_def case_prod_beta split: config_line.split)

lemma parse_lines_map: "map_of (fst (parse_lines lg file n ls fc)) = map_of (fc @ file_entries ls)"
proof (induction ls arbitrary: n fc)
  case (Cons l ls)
  have skip: "map_of (fc @ (e, v) # es) = map_of (fc @ es)" if "map_of fc e \<noteq> None" for e v and es :: "(string \<times> string) list"
    using that by (auto simp: fun_eq_iff map_add_def split: option.split)
  show ?case unfolding fst_parse_lines_Cons Cons
    using skip by (cases "parse_line l") (simp_all add: Let_def)
qed simp

lemma parse_lines_distinct: "distinct (map fst fc) \<Longrightarrow> distinct (map fst (fst (parse_lines lg file n ls fc)))"
proof (induction ls arbitrary: n fc)
  case (Cons l ls)
  have "distinct (map fst (case parse_line l of Entry e v \<Rightarrow> if map_of fc e \<noteq> None then fc else fc @ [(e, v)] | _ \<Rightarrow> fc))"
    using Cons.prems by (auto simp: map_of_eq_None_iff split: config_line.split)
  then show ?case unfolding fst_parse_lines_Cons by (rule Cons.IH)
qed simp

lemma parse_lines_length: "length (fst (parse_lines lg file n ls fc)) \<le> length fc + length ls"
proof (induction ls arbitrary: n fc)
  case (Cons l ls)
  have "length (case parse_line l of Entry e v \<Rightarrow> if map_of fc e \<noteq> None then fc else fc @ [(e, v)] | _ \<Rightarrow> fc) \<le> Suc (length fc)"
    by (simp split: config_line.split)
  then show ?case unfolding fst_parse_lines_Cons
    by (intro order_trans [OF Cons.IH]) simp
qed simp

lemma parse_lines_empty: "fst (parse_lines lg file n ls []) = [] \<longleftrightarrow> file_entries ls = []"
  using parse_lines_map [where fc = "[]"]
  by (metis append_Nil map_of.simps(1) map_of_eq_empty_iff)

lemma fst_add_keys_Cons:
  "fst (add_keys lg file isOptional isReload (kv # kvs) opts) =
     fst (add_keys lg file isOptional isReload kvs (fst (AddKey lg file isOptional isReload kv opts)))"
  by (simp add: case_prod_beta)

lemma add_keys_lookup:
  "distinct (map fst kvs) \<Longrightarrow>
   fst (add_keys lg file isOptional isReload kvs opts) k =
     (case map_of kvs k of
        None \<Rightarrow> opts k
      | Some v \<Rightarrow> if isOptional \<and> opts k = None \<and> \<not> IsLoggingSystemOptions k \<and> \<not> isReload then None else Some v)"
proof (induction kvs arbitrary: opts)
  case (Cons kv kvs)
  obtain a v where kv: "kv = (a, v)" by (cases kv)
  have none: "map_of kvs a = None" and d: "distinct (map fst kvs)"
    using Cons.prems kv by (simp_all add: map_of_eq_None_iff)
  show ?case unfolding fst_add_keys_Cons Cons.IH [OF d]
    using none by (auto simp: AddKey_def kv split: option.split)
qed simp

text \<open>What loading a readable file does to the options, for any order of traversal.\<close>

definition permutes_list :: "('a list \<Rightarrow> 'a list) \<Rightarrow> bool" where
  "permutes_list it \<longleftrightarrow> (\<forall>xs. mset (it xs) = mset xs)"

definition layer :: "bool \<Rightarrow> options \<Rightarrow> options \<Rightarrow> options" where
  "layer isOptional new old = (\<lambda>k. case new k of
      None \<Rightarrow> old k
    | Some v \<Rightarrow> if isOptional \<and> old k = None \<and> \<not> IsLoggingSystemOptions k then None else Some v)"

lemma map_of_permuted:
  assumes "permutes_list it" and "distinct (map fst kvs)"
  shows "map_of (it kvs) = map_of kvs" "distinct (map fst (it kvs))"
proof -
  have m: "mset (it kvs) = mset kvs" using assms(1) by (simp add: permutes_list_def)
  have "mset (map fst (it kvs)) = mset (map fst kvs)" using m by (simp only: mset_map)
  then show d: "distinct (map fst (it kvs))" using assms(2) mset_eq_imp_distinct_iff by blast
  show "map_of (it kvs) = map_of kvs"
    using m by (intro map_of_inject_set [OF d assms(2), THEN iffD2]) (metis set_mset_mset)
qed

lemma LoadFile_readable:
  assumes "files file = Some (Input ls False)" and "length ls < 2 ^ 32" and "permutes_list it"
  shows "fst (LoadFile lg files it file isOptional False opts) \<longleftrightarrow> file_entries ls \<noteq> []"
    and "fst (snd (LoadFile lg files it file isOptional False opts)) = layer isOptional (map_of (file_entries ls)) opts"
proof -
  define fc where "fc = fst (parse_lines lg file 0 ls [])"
  have len: "length fc mod 2 ^ 32 = 0 \<longleftrightarrow> file_entries ls = []"
    using parse_lines_length [of lg "file" 0 ls "[]"] assms(2) parse_lines_empty [of lg "file" 0 ls]
    by (simp add: fc_def)
  have map: "map_of fc = map_of (file_entries ls)" using parse_lines_map [of lg "file" 0 ls "[]"] by (simp add: fc_def)
  have d: "distinct (map fst fc)" using parse_lines_distinct [of "[]" lg "file" 0 ls] by (simp add: fc_def)
  note p = map_of_permuted [OF assms(3) d]
  have add: "fst (add_keys lg file isOptional False (it fc) opts) = layer isOptional (map_of (file_entries ls)) opts"
    by (rule ext) (simp add: add_keys_lookup [OF p(2)] p(1) map layer_def split: option.split)
  obtain out where pl: "parse_lines lg file 0 ls [] = (fc, out)" by (metis fc_def prod.collapse)
  have empty: "layer isOptional (map_of []) opts = opts" by (simp add: layer_def)
  show "fst (LoadFile lg files it file isOptional False opts) \<longleftrightarrow> file_entries ls \<noteq> []"
    using len by (simp add: LoadFile_def ParseFile_def assms(1) pl case_prod_beta)
  show "fst (snd (LoadFile lg files it file isOptional False opts)) = layer isOptional (map_of (file_entries ls)) opts"
  proof (cases "file_entries ls = []")
    case True
    then show ?thesis using len empty by (simp add: LoadFile_def ParseFile_def assms(1) pl)
  next
    case False
    then show ?thesis using len add by (simp add: LoadFile_def ParseFile_def assms(1) pl case_prod_beta)
  qed
qed

lemma LoadAppConfigs_layers:
  assumes "files (name @ ''.dist'') = Some (Input dist False)" and "file_entries dist \<noteq> []"
    and "length dist < 2 ^ 32"
    and "files name = Some (Input conf False)" and "length conf < 2 ^ 32" and "permutes_list it"
  shows "\<exists>out. LoadAppConfigs lg files it name cfg0 =
    (True, cfg0\<lparr>cfg_filename := name, cfg_options := layer True (map_of (file_entries conf)) (map_of (file_entries dist)),
       cfg_usingDistConfig := cfg_usingDistConfig cfg0 \<or> file_entries conf = []\<rparr>, out, None)"
proof -
  note d = LoadFile_readable [of files "name @ ''.dist''" dist, OF assms(1,3,6)]
  note c = LoadFile_readable [of files name conf, OF assms(4,5,6)]
  obtain opts1 out1 where l1: "LoadFile lg files it (name @ ''.dist'') False False Map.empty = (True, opts1, out1)"
    using d(1) [of lg False] assms(2) by (metis prod.collapse)
  have o1: "opts1 = map_of (file_entries dist)"
    using d(2) [of lg False Map.empty] l1 by (simp add: layer_def fun_eq_iff split: option.splits)
  obtain opts2 out2 where l2: "LoadFile lg files it name True False opts1 = (file_entries conf \<noteq> [], opts2, out2)"
    using c(1) [of lg True opts1] by (cases "LoadFile lg files it name True False opts1") auto
  have o2: "opts2 = layer True (map_of (file_entries conf)) (map_of (file_entries dist))"
    using c(2) [of lg True opts1] l2 unfolding o1 by simp
  let ?cfg = "cfg0\<lparr>cfg_filename := name, cfg_options := opts2,
    cfg_usingDistConfig := cfg_usingDistConfig cfg0 \<or> file_entries conf = []\<rparr>"
  have "LoadAppConfigs lg files it name cfg0 = (True, ?cfg, out1 @ out2, None)"
    by (cases "file_entries conf = []")
      (simp_all add: LoadAppConfigs_def LoadInitial_def LoadAdditionalFile_def l1 l2)
  then show ?thesis unfolding o2 by blast
qed

section \<open>Properties\<close>



lemma no_log_before_initialize: "\<not> ShouldLog Log_new t Level_Error"
  by (simp add: ShouldLog_def Log_new_def)

lemma PrintError_new [simp]: "PrintError Log_new msg = []"
  by (simp add: PrintError_def LOG_MSG_BODY_def no_log_before_initialize)

lemma parse_lines_silent: "snd (parse_lines Log_new file n ls fc) = []"
  by (induction ls arbitrary: n fc) (simp_all add: Let_def case_prod_beta split: config_line.split)

lemma add_keys_silent: "snd (add_keys Log_new file isOptional isReload kvs opts) = []"
  by (induction kvs arbitrary: opts) (simp_all add: AddKey_def case_prod_beta)

lemma LoadFile_silent: "snd (snd (LoadFile Log_new files it file isOptional isReload opts)) = []"
  using parse_lines_silent [of "file" 0 _ "[]"] add_keys_silent [of "file" isOptional isReload]
  by (auto simp: LoadFile_def ParseFile_def case_prod_beta split: option.split input_file.split)

text \<open>The configuration is loaded before the loggers exist, and then no report about it reaches
  a sink: not a duplicate, not an unknown option, not an unreadable line, not a missing file.\<close>

theorem config_errors_unreported:
  "fst (snd (snd (LoadAppConfigs Log_new files it name cfg))) = []"
  by (simp add: LoadFile_silent LoadAppConfigs_def LoadInitial_def LoadAdditionalFile_def case_prod_beta Let_def split: bool.split)

lemma parse_line_assignment:
  assumes "name \<noteq> []" and "\<not> isspace (hd name)" and "\<not> isspace (last name)"
    and "CHR ''='' \<notin> set name" and "CHR ''#'' \<notin> set name" and "hd name \<noteq> CHR ''[''"
  shows "parse_line (name @ '' = '' @ dec_int v) = Entry name (dec_int v)"
proof -
  let ?line = "name @ '' = '' @ dec_int v"
  have v: "hd (dec_int v) \<in> set (dec_int v)" "last (dec_int v) \<in> set (dec_int v)" by simp_all
  note sp = v [THEN dec_int_not_special(1)]
  have trim: "Trim ?line = ?line" using Trim_spaced [of ?line "[]" "[]"] assms sp by simp
  have "CHR ''#'' \<notin> set ?line" using assms(5) dec_int_not_special(2) by auto
  then have cut: "takeWhile (\<lambda>c. c \<noteq> CHR ''#'') ?line = ?line" by (intro takeWhile_eq_all_conv [THEN iffD2]) auto
  have eq: "find_idx (CHR ''='') ?line = Some (length (name @ '' ''))"
    using find_idx_append [of "CHR ''=''" "name @ '' ''" "'' '' @ dec_int v"] assms(4) by simp
  have parts: "take (length (name @ '' '')) ?line = name @ '' ''" "drop (length (name @ '' '') + 1) ?line = '' '' @ dec_int v"
    by simp_all
  have space: "isspace (CHR '' '')" by (simp add: isspace_def)
  have "Trim (name @ '' '') = name" using Trim_spaced [of name "[]" "'' ''"] assms space by simp
  moreover have "Trim ('' '' @ dec_int v) = dec_int v" using Trim_spaced [of "dec_int v" "'' ''" "[]"] sp space by simp
  moreover have "filter (\<lambda>c. c \<noteq> CHR 0x22) (dec_int v) = dec_int v"
    using dec_int_not_special(4) by (simp add: filter_id_conv)
  moreover have "hd ?line \<noteq> CHR ''#''" "hd ?line \<noteq> CHR ''[''" using assms(1,5,6) by (cases name; auto)+
  ultimately show ?thesis using assms(1) unfolding parse_line_def Let_def trim cut eq option.case parts by simp
qed

lemma FromString_int_range: "FromString_int sg bits s b = Some v \<Longrightarrow> in_int_range sg bits v"
  by (auto simp: FromString_int_def from_chars_def Let_def split: if_splits prod.splits)

text \<open>An integer option written as \<open>name = value\<close> on a line of its own is parsed to that
  entry and read back as the value, for every integer type of at most 64 bits; a missing or
  unparsable option gives the default, and the result is always within the range of the type.\<close>

theorem integer_option_roundtrip:
  assumes "in_int_range sg bits v" and "0 < bits" and "bits \<le> 64" and "in_int_range sg bits def"
    and "name \<noteq> []" and "\<not> isspace (hd name)" and "\<not> isspace (last name)"
    and "CHR ''='' \<notin> set name" and "CHR ''#'' \<notin> set name" and "hd name \<noteq> CHR ''[''"
  shows "parse_line (name @ '' = '' @ dec_int v) = Entry name (dec_int v)
    \<and> GetOption_int sg bits lg (cfg\<lparr>cfg_options := opts(name \<mapsto> dec_int v)\<rparr>) name def showLogs = (v, [])
    \<and> fst (GetOption_int sg bits lg (cfg\<lparr>cfg_options := opts(name := None)\<rparr>) name def showLogs) = def
    \<and> in_int_range sg bits (fst (GetOption_int sg bits lg cfg name def showLogs))"
proof (intro conjI)
  show "parse_line (name @ '' = '' @ dec_int v) = Entry name (dec_int v)"
    using assms by (intro parse_line_assignment)
  have "FromString_int sg bits (dec_int v) 10 = Some v"
    using from_chars_dec_int [OF assms(1)] by (simp add: FromString_int_def Let_def)
  then show "GetOption_int sg bits lg (cfg\<lparr>cfg_options := opts(name \<mapsto> dec_int v)\<rparr>) name def showLogs = (v, [])"
    by (simp add: GetOption_int_def GetValueDefault_def)
  show "fst (GetOption_int sg bits lg (cfg\<lparr>cfg_options := opts(name := None)\<rparr>) name def showLogs) = def"
    by (simp add: GetOption_int_def GetValueDefault_def)
  show "in_int_range sg bits (fst (GetOption_int sg bits lg cfg name def showLogs))"
    using assms(4) FromString_int_range by (auto simp: GetOption_int_def GetValueDefault_def split: option.split)
qed

theorem integer_option_roundtrip_witness:
  "parse_line ''ServerPort = 5001'' = Entry ''ServerPort'' ''5001''
    \<and> GetOption_int True 32 Log_new (Config_new\<lparr>cfg_options := [''ServerPort'' \<mapsto> ''5001'']\<rparr>) ''ServerPort'' 80 True = (5001, [])"
proof -
  have "dec_int 5001 = ''5001''" by code_simp
  then show ?thesis
    using integer_option_roundtrip [where sg = True and bits = 32 and v = 5001 and def = 80 and name = "''ServerPort''" and lg = Log_new and cfg = Config_new and opts = Map.empty and showLogs = True]
    by (simp add: in_int_range_def isspace_def)
qed

end
