(* ===== verification/Logging.thy ===== *)
theory Logging
  imports Config
begin

text \<open>
  The rest of \<^verbatim>\<open>src/src/common/Logging/Log.cpp\<close>: creating the sinks and loggers from the
  configuration. The state is the \<open>Log\<close> object (with the registry of loggers) and the lines
  printed on the console; an operation fails with \<open>Aborted\<close> (\<^verbatim>\<open>ABORT\<close>) or with
  \<open>FormatError\<close>, the exception of the second formatting in \<^verbatim>\<open>FMT_LOG_ERROR\<close>. The
  order in which the option names are traversed is an argument, and so is \<open>open_sink\<close>, the
  constructor of the rotating file sink, which returns the text of its exception if it throws.
  Modelled for hosts other than Windows, where no colours are set.
\<close>

datatype log_fatal = Aborted | FormatError

type_synonym log_state = "Log \<times> string list"

definition console_error :: "string \<Rightarrow> log_state \<Rightarrow> log_fatal + log_state" where
  "console_error msg st =
     (case FMT_LOG_ERROR msg of
        None \<Rightarrow> Inl FormatError
      | Some t \<Rightarrow> Inr (fst st, snd st @ [t]))"

section \<open>Options\<close>

definition GetPositionOptions :: "string \<Rightarrow> nat \<Rightarrow> string \<Rightarrow> string" where
  "GetPositionOptions opts position dflt =
     (let tokens = Tokenize opts (CHR '','') True
      in if length tokens mod 256 < position + 1 then dflt else tokens ! position)"

abbreviation SinkOptions_Type :: nat where "SinkOptions_Type \<equiv> 0"
abbreviation SinkOptions_Level :: nat where "SinkOptions_Level \<equiv> 1"
abbreviation SinkOptions_Pattern :: nat where "SinkOptions_Pattern \<equiv> 2"
abbreviation SinkOptions_Option1 :: nat where "SinkOptions_Option1 \<equiv> 3"
abbreviation SinkOptions_Option2 :: nat where "SinkOptions_Option2 \<equiv> 4"
abbreviation SinkOptions_Option3 :: nat where "SinkOptions_Option3 \<equiv> 5"
abbreviation SinkOptions_Option4 :: nat where "SinkOptions_Option4 \<equiv> 6"
abbreviation SinkOptions_Max :: nat where "SinkOptions_Max \<equiv> 7"

text \<open>\<^verbatim>\<open>StringTo<uint8>(text).value_or(LogLevel::Max)\<close>.\<close>

definition read_level :: "string \<Rightarrow> LogLevel" where
  "read_level s = (case FromString_int False 8 s 10 of None \<Rightarrow> Level_Max | Some v \<Rightarrow> nat v)"

definition GetColorCode :: "string \<Rightarrow> log_state \<Rightarrow> log_fatal + (nat \<times> log_state)" where
  "GetColorCode colorName st =
     (if StringEqualI colorName ''black'' then Inr (0x0000, st)
      else if StringEqualI colorName ''red'' then Inr (0x0004, st)
      else if StringEqualI colorName ''green'' then Inr (0x0002, st)
      else if StringEqualI colorName ''brown'' then Inr (0x0006, st)
      else if StringEqualI colorName ''blue'' then Inr (0x0001, st)
      else if StringEqualI colorName ''magenta'' then Inr (0x0005, st)
      else if StringEqualI colorName ''cyan'' then Inr (0x0003, st)
      else if StringEqualI colorName ''gray'' then Inr (0x0007, st)
      else if StringEqualI colorName ''darkGray'' then Inr (0x0008, st)
      else if StringEqualI colorName ''lightRed'' then Inr (0x000C, st)
      else if StringEqualI colorName ''lightGreen'' then Inr (0x000A, st)
      else if StringEqualI colorName ''yellow'' then Inr (0x000E, st)
      else if StringEqualI colorName ''lightBlue'' then Inr (0x0009, st)
      else if StringEqualI colorName ''lightMagenta'' then Inr (0x000D, st)
      else if StringEqualI colorName ''lightCyan'' then Inr (0x000B, st)
      else if StringEqualI colorName ''white'' then Inr (0x000F, st)
      else err_bind (console_error (''> Invalid color '' @ quoted colorName) st) (\<lambda>st. Inr (0x000F, st)))"

section \<open>Sinks\<close>

definition AddSink :: "string \<Rightarrow> Log_sink \<Rightarrow> log_state \<Rightarrow> log_fatal + log_state" where
  "AddSink sinkName sink st =
     (if sinkList (fst st) sinkName \<noteq> None
      then console_error (''> AddSink: Sink with name '' @ quoted sinkName @ '' is exist!. Skip add'') st
      else Inr ((fst st)\<lparr>sinkList := (sinkList (fst st))(sinkName \<mapsto> Some sink)\<rparr>, snd st))"

text \<open>\<open>GetSink\<close> moves the shared pointer out of the list.\<close>

definition GetSink :: "string \<Rightarrow> log_state \<Rightarrow> log_fatal + (Log_sink option \<times> log_state)" where
  "GetSink sinkName st =
     (case sinkList (fst st) sinkName of
        None \<Rightarrow>
          err_bind (console_error (''> GetSink: Sink with name '' @ quoted sinkName @ '' is don'' @ CHR 0x27 # ''t exist!'') st)
            (\<lambda>st. Inr (None, st))
      | Some p \<Rightarrow> Inr (p, (fst st)\<lparr>sinkList := (sinkList (fst st))(sinkName \<mapsto> None)\<rparr>, snd st))"

type_synonym sink_opener = "string \<Rightarrow> nat \<Rightarrow> nat \<Rightarrow> bool \<Rightarrow> string option"

definition create_file_sink ::
  "sink_opener \<Rightarrow> string \<Rightarrow> string \<Rightarrow> nat \<Rightarrow> LogLevel \<Rightarrow> string \<Rightarrow> log_state \<Rightarrow> log_fatal + log_state" where
  "create_file_sink open_sink sinkName opts ntokens level pattern st =
     (if ntokens < SinkOptions_Option1 + 1 then Inl Aborted
      else
        (let fileName = GetPositionOptions opts SinkOptions_Option1 [] in
         case (FromString_bool (GetPositionOptions opts SinkOptions_Option2 []) 0,
               FromString_int False 64 (GetPositionOptions opts SinkOptions_Option3 []) 10,
               FromString_int False 64 (GetPositionOptions opts SinkOptions_Option4 []) 10) of
           (Some rotateOnOpen, Some maxFilesSize, Some maxFiles) \<Rightarrow>
             (let path = m_logsDir (fst st) @ fileName;
                  sz = nat (maxFilesSize * 1048576 mod 2 ^ 64)
              in case open_sink path sz (nat maxFiles) rotateOnOpen of
                   Some what \<Rightarrow> console_error (''CreateSinksFromConfig: Sink init failed: '' @ what) st
                 | None \<Rightarrow> AddSink sinkName (FileSink path sz (nat maxFiles) rotateOnOpen level pattern) st)
         | _ \<Rightarrow> Inl Aborted))"

definition CreateSinksFromConfig :: "sink_opener \<Rightarrow> Config \<Rightarrow> string \<Rightarrow> log_state \<Rightarrow> log_fatal + log_state" where
  "CreateSinksFromConfig open_sink cfg loggerSinkName st =
     (if loggerSinkName = [] then Inr st
      else
        (let opts = fst (GetOption_string (fst st) cfg loggerSinkName [] False);
             sinkName = drop 5 loggerSinkName
         in if opts = [] then console_error (''CreateSinksFromConfig: Missing config option Sink.'' @ sinkName) st
            else
              (let tokens = Tokenize opts (CHR '','') True in
               if length tokens < SinkOptions_Pattern + 1 \<or> length tokens > SinkOptions_Max
               then console_error (''CreateSinksFromConfig: Wrong config option Sink.'' @ sinkName @ ''='' @ opts) st
               else
                 (let channelType = FromString_int False 8 (GetPositionOptions opts SinkOptions_Type []) 10 in
                  if channelType = None \<or> the channelType \<ge> 2
                  then console_error (''CreateSinksFromConfig: Wrong sink type for Sink.'' @ sinkName @ [CHR 0x0A]) st
                  else
                    (let level = read_level (GetPositionOptions opts SinkOptions_Level []) in
                     if level \<ge> Level_Max
                     then console_error (''CreateSinksFromConfig: Wrong Log Level for Sink.'' @ sinkName) st
                     else
                       (let pattern = GetPositionOptions opts SinkOptions_Pattern [] in
                        if pattern = [] then console_error (''CreateSinksFromConfig: Empty pattern for Sink.'' @ sinkName) st
                        else if the channelType = 0 then AddSink sinkName (ConsoleSink level pattern) st
                        else create_file_sink open_sink sinkName opts (length tokens) level pattern st))))))"

section \<open>Loggers\<close>

primrec collect_sinks :: "string list \<Rightarrow> Log_sink list \<Rightarrow> log_state \<Rightarrow> log_fatal + (Log_sink list \<times> log_state)" where
  "collect_sinks [] acc st = Inr (acc, st)"
| "collect_sinks (n # ns) acc st =
     err_bind (GetSink n st)
       (\<lambda>(p, st). collect_sinks ns (case p of None \<Rightarrow> acc | Some s \<Rightarrow> acc @ [s]) st)"

text \<open>\<^verbatim>\<open>spdlog::register_logger\<close> throws if the name is taken; the exception is caught and
  printed.\<close>

definition register_logger :: "string \<Rightarrow> spd_logger \<Rightarrow> log_state \<Rightarrow> log_fatal + log_state" where
  "register_logger name l st =
     (if loggers (fst st) name \<noteq> None
      then console_error (''Log::CreateLogger - logger with name '' @ quoted name @ '' already exists'') st
      else Inr ((fst st)\<lparr>loggers := (loggers (fst st))(name \<mapsto> l)\<rparr>, snd st))"

definition CreateLoggerFromConfig :: "Config \<Rightarrow> string \<Rightarrow> log_state \<Rightarrow> log_fatal + log_state" where
  "CreateLoggerFromConfig cfg configLoggerName st =
     (if configLoggerName = [] then Inr st
      else
        (let opts = fst (GetOption_string (fst st) cfg configLoggerName [] False);
             loggerName = drop 7 configLoggerName
         in if opts = [] then console_error (''Log::CreateLoggerFromConfig: Missing config option Logger.'' @ loggerName) st
            else if length (Tokenize opts (CHR '','') True) < 2
            then console_error (''Log::CreateLoggerFromConfig: Bad config options for Logger ('' @ loggerName @ '')'') st
            else
              (let level = read_level (GetPositionOptions opts 0 []) in
               if level \<ge> Level_Max
               then console_error (''Log::CreateLoggerFromConfig: Wrong Log Level for logger '' @ loggerName) st
               else
                 (let lg = (if level < lowestLogLevel (fst st) then (fst st)\<lparr>lowestLogLevel := level\<rparr> else fst st)
                  in err_bind (collect_sinks (Tokenize (GetPositionOptions opts 1 []) (CHR '' '') False) [] (lg, snd st))
                       (\<lambda>(sinks, st). register_logger loggerName \<lparr>lg_level = level, lg_sinks = sinks\<rparr> st)))))"

section \<open>Loading\<close>

definition InitLogsDir :: "Config \<Rightarrow> Log \<Rightarrow> Log" where
  "InitLogsDir cfg lg =
     (let dir = fst (GetOption_string lg cfg ''LogsDir'' [] False) in
      lg\<lparr>m_logsDir := (if dir \<noteq> [] \<and> last dir \<noteq> CHR ''/'' \<and> last dir \<noteq> CHR 0x5C then dir @ ''/'' else dir)\<rparr>)"

definition Log_Clear :: "Log \<Rightarrow> Log" where
  "Log_Clear lg = lg\<lparr>loggers := Map.empty, sinkList := Map.empty\<rparr>"

primrec for_each :: "('a \<Rightarrow> 's \<Rightarrow> 'e + 's) \<Rightarrow> 'a list \<Rightarrow> 's \<Rightarrow> 'e + 's" where
  "for_each f [] s = Inr s"
| "for_each f (x # xs) s = err_bind (f x s) (for_each f xs)"

definition ReadSinksFromConfig :: "sink_opener \<Rightarrow> Config \<Rightarrow> string list \<Rightarrow> log_state \<Rightarrow> log_fatal + log_state" where
  "ReadSinksFromConfig open_sink cfg order st =
     (let keys = GetKeysByString order ''Sink.'' in
      if keys = [] then console_error ''Log::ReadChannelsFromConfig - Not found sinks, change config file!'' st
      else for_each (CreateSinksFromConfig open_sink cfg) keys st)"

definition ReadLoggersFromConfig :: "Config \<Rightarrow> string list \<Rightarrow> log_state \<Rightarrow> log_fatal + log_state" where
  "ReadLoggersFromConfig cfg order st =
     (let keys = GetKeysByString order ''Logger.'' in
      if keys = [] then console_error ''Log::ReadLoggersFromConfig - Not found loggers, change config file!'' st
      else
        err_bind (for_each (CreateLoggerFromConfig cfg) keys st)
          (\<lambda>st. if loggers (fst st) LOGGER_ROOT = None
                then console_error (''Log::ReadLoggersFromConfig - Logger '' @ quoted ''root'' @ '' not found!''
                       @ CHR 0x0A # ''Please change or add '' @ quoted ''Logger.root'' @ '' option in config file!'') st
                else Inr st))"

definition LoadFromConfig :: "sink_opener \<Rightarrow> Config \<Rightarrow> string list \<Rightarrow> log_state \<Rightarrow> log_fatal + log_state" where
  "LoadFromConfig open_sink cfg order st =
     (let lg = InitLogsDir cfg (Log_Clear ((fst st)\<lparr>lowestLogLevel := Level_Critical\<rparr>)) in
      err_bind (ReadSinksFromConfig open_sink cfg order (lg, snd st))
        (\<lambda>st. err_bind (ReadLoggersFromConfig cfg order st)
          (\<lambda>st. Inr ((fst st)\<lparr>sinkList := Map.empty\<rparr>, snd st))))"

text \<open>\<open>GetChannelsFromLogger\<close>; \<open>None\<close> is the exception of \<^verbatim>\<open>at\<close>.\<close>

definition GetChannelsFromLogger :: "Log \<Rightarrow> Config \<Rightarrow> string \<Rightarrow> string option" where
  "GetChannelsFromLogger lg cfg loggerName =
     (let tokens = Tokenize (fst (GetOption_string lg cfg (''Logger.'' @ loggerName) ''2, Console Server'' False)) (CHR '','') True
      in if tokens = [] then Some [] else if length tokens > 1 then Some (tokens ! 1) else None)"

section \<open>The cached lowest level\<close>

text \<open>\<open>lowestLogLevel\<close> is a lower bound of the levels of the registered loggers.\<close>

definition log_inv :: "log_state \<Rightarrow> bool" where
  "log_inv st \<longleftrightarrow> (\<forall>n l. loggers (fst st) n = Some l \<longrightarrow> lowestLogLevel (fst st) \<le> lg_level l \<and> lg_level l < Level_Max)"

text \<open>The operations on sinks leave the loggers and the cached level alone.\<close>

definition same_loggers :: "log_state \<Rightarrow> log_state \<Rightarrow> bool" where
  "same_loggers st st' \<longleftrightarrow> loggers (fst st') = loggers (fst st) \<and> lowestLogLevel (fst st') = lowestLogLevel (fst st)"

lemma same_loggers_refl [simp]: "same_loggers st st"
  by (simp add: same_loggers_def)

lemma same_loggers_trans [trans]: "same_loggers a b \<Longrightarrow> same_loggers b c \<Longrightarrow> same_loggers a c"
  by (simp add: same_loggers_def)

lemma same_loggers_inv: "same_loggers st st' \<Longrightarrow> log_inv st' \<longleftrightarrow> log_inv st"
  by (simp add: same_loggers_def log_inv_def)

lemma console_error_same: "console_error msg st = Inr st' \<Longrightarrow> same_loggers st st'"
  by (auto simp: console_error_def same_loggers_def split: option.splits)

lemma if_console_same: "(if c then console_error msg st else Inr st) = Inr st' \<Longrightarrow> same_loggers st st'"
  by (cases c) (auto dest: console_error_same)

lemma AddSink_same: "AddSink n s st = Inr st' \<Longrightarrow> same_loggers st st'"
  by (auto simp: AddSink_def same_loggers_def console_error_same [unfolded same_loggers_def] split: if_splits)

lemma GetSink_same: "GetSink n st = Inr (p, st') \<Longrightarrow> same_loggers st st'"
  by (auto simp: GetSink_def err_bind_Inr_iff split: option.splits dest: console_error_same)
     (simp add: same_loggers_def)

lemma create_file_sink_same: "create_file_sink op n opts k l p st = Inr st' \<Longrightarrow> same_loggers st st'"
  by (auto simp: create_file_sink_def Let_def split: if_splits option.splits dest: console_error_same AddSink_same)

lemma CreateSinksFromConfig_same: "CreateSinksFromConfig op cfg n st = Inr st' \<Longrightarrow> same_loggers st st'"
  by (auto simp: CreateSinksFromConfig_def Let_def split: if_splits
      dest: console_error_same AddSink_same create_file_sink_same)

lemma collect_sinks_same: "collect_sinks ns acc st = Inr (ss, st') \<Longrightarrow> same_loggers st st'"
proof (induction ns arbitrary: acc st)
  case (Cons n ns)
  then obtain p st1 where "GetSink n st = Inr (p, st1)"
    and rest: "collect_sinks ns (case p of None \<Rightarrow> acc | Some s \<Rightarrow> acc @ [s]) st1 = Inr (ss, st')"
    by (auto simp: err_bind_Inr_iff)
  then have "same_loggers st st1" by (rule_tac GetSink_same)
  also have "same_loggers st1 st'" using rest by (rule Cons.IH)
  finally show ?case .
qed simp

lemma register_logger_inv:
  assumes "register_logger n l st = Inr st'" and "log_inv st"
    and "lowestLogLevel (fst st) \<le> lg_level l" and "lg_level l < Level_Max"
  shows "log_inv st'"
proof (cases "loggers (fst st) n")
  case None
  then have "st' = ((fst st)\<lparr>loggers := (loggers (fst st))(n \<mapsto> l)\<rparr>, snd st)"
    using assms(1) by (simp add: register_logger_def)
  then show ?thesis using assms(2-4) by (simp add: log_inv_def)
next
  case (Some l')
  then have "same_loggers st st'" using assms(1) by (simp add: register_logger_def console_error_same)
  then show ?thesis using assms(2) by (simp add: same_loggers_inv)
qed

lemma CreateLoggerFromConfig_inv:
  assumes "CreateLoggerFromConfig cfg n st = Inr st'" and "log_inv st"
  shows "log_inv st'"
proof -
  define level where "level = read_level (GetPositionOptions (fst (GetOption_string (fst st) cfg n [] False)) 0 [])"
  define lg where "lg = (if level < lowestLogLevel (fst st) then (fst st)\<lparr>lowestLogLevel := level\<rparr> else fst st)"
  have inv: "log_inv (lg, snd st)" using assms(2) by (fastforce simp: log_inv_def lg_def)
  consider "same_loggers st st'"
    | sinks st1 names where "collect_sinks names [] (lg, snd st) = Inr (sinks, st1)" "level < Level_Max"
        "register_logger (drop 7 n) \<lparr>lg_level = level, lg_sinks = sinks\<rparr> st1 = Inr st'"
    using assms(1) console_error_same unfolding CreateLoggerFromConfig_def Let_def level_def [symmetric] lg_def [symmetric]
    by (auto simp: err_bind_Inr_iff split: if_splits)
  then show ?thesis
  proof cases
    case 1
    then show ?thesis using assms(2) by (simp add: same_loggers_inv)
  next
    case 2
    have same: "same_loggers (lg, snd st) st1" using 2(1) by (rule collect_sinks_same)
    moreover have "lowestLogLevel lg \<le> level" by (simp add: lg_def)
    ultimately have "lowestLogLevel (fst st1) \<le> level" by (simp add: same_loggers_def)
    moreover have "log_inv st1" using same inv by (simp add: same_loggers_inv)
    ultimately show ?thesis using 2(2) by (intro register_logger_inv [OF 2(3)]) simp_all
  qed
qed

lemma for_each_invariant:
  assumes "\<And>x s s'. P s \<Longrightarrow> f x s = Inr s' \<Longrightarrow> P s'"
  shows "for_each f xs s = Inr s' \<Longrightarrow> P s \<Longrightarrow> P s'"
  using assms by (induction xs arbitrary: s) (auto simp: err_bind_Inr_iff)

lemma LoadFromConfig_inv:
  assumes "LoadFromConfig op cfg order st = Inr st'"
  shows "log_inv st'"
proof -
  define lg0 where "lg0 = InitLogsDir cfg (Log_Clear ((fst st)\<lparr>lowestLogLevel := Level_Critical\<rparr>))"
  have "log_inv (lg0, snd st)" by (simp add: log_inv_def lg0_def InitLogsDir_def Log_Clear_def Let_def)
  moreover obtain st1 st2 where 1: "ReadSinksFromConfig op cfg order (lg0, snd st) = Inr st1"
    and 2: "ReadLoggersFromConfig cfg order st1 = Inr st2" and 3: "st' = ((fst st2)\<lparr>sinkList := Map.empty\<rparr>, snd st2)"
    using assms by (auto simp: LoadFromConfig_def lg0_def [symmetric] Let_def err_bind_Inr_iff)
  have "log_inv st1" if "log_inv (lg0, snd st)"
    using 1 that for_each_invariant [where P = log_inv, of "CreateSinksFromConfig op cfg"]
      CreateSinksFromConfig_same same_loggers_inv console_error_same
    unfolding ReadSinksFromConfig_def Let_def by (metis (no_types, lifting))
  moreover have "log_inv st2" if "log_inv st1"
  proof (cases "GetKeysByString order ''Logger.'' = []")
    case True
    then have "same_loggers st1 st2" using 2 by (simp add: ReadLoggersFromConfig_def console_error_same)
    then show ?thesis using that by (simp add: same_loggers_inv)
  next
    case False
    then obtain st3 where s3: "for_each (CreateLoggerFromConfig cfg) (GetKeysByString order ''Logger.'') st1 = Inr st3"
      and "same_loggers st3 st2"
      using 2 unfolding ReadLoggersFromConfig_def Let_def by (simp only: if_False err_bind_Inr_iff) (blast dest: if_console_same)
    moreover have "log_inv st3"
      using for_each_invariant [of log_inv, OF _ s3 that] CreateLoggerFromConfig_inv by blast
    ultimately show ?thesis using same_loggers_inv by blast
  qed
  ultimately show ?thesis using 3 by (simp add: log_inv_def)
qed

section \<open>Properties\<close>

text \<open>C21: After loading the configuration the shortcut of \<open>ShouldLog\<close> through the cached lowest
  level changes no answer: a message is logged exactly when its logger is not disabled and its
  level is at least the logger's.\<close>

theorem should_log_exact:
  assumes "LoadFromConfig open_sink cfg order st = Inr (lg, out)"
  shows "ShouldLog lg type level \<longleftrightarrow>
    (\<exists>n l. GetLoggerByType lg type = Some (n, l) \<and> lg_level l \<noteq> Level_Disabled \<and> lg_level l \<le> level)"
proof -
  have inv: "log_inv (lg, out)" using assms by (rule LoadFromConfig_inv)
  have "lowestLogLevel lg \<le> lg_level l" if "GetLoggerByType lg type = Some (n, l)" for n l
  proof -
    have "\<exists>m. loggers lg m = Some l"
      using that by (auto simp: find_logger_path bind_eq_Some_conv)
    then show ?thesis using inv by (auto simp: log_inv_def)
  qed
  then show ?thesis
    unfolding ShouldLog_def by (force split: option.splits prod.splits)
qed

text \<open>The option lines of the shipped \<^verbatim>\<open>src/src/app/WarheadFix.conf.dist\<close>; \<^verbatim>\<open>~\<close> stands for
  the double quote.\<close>

definition shipped_config :: "string list" where
  "shipped_config = map (map (\<lambda>c. if c = CHR ''~'' then CHR 0x22 else c))
     [''LogsDir = ~~'', ''ServerPort = 5001'', ''BindIP = ~0.0.0.0~'',
      ''Sink.Console = 0,0,~%^[%T] %v%$~,~green lightMagenta cyan brown red lightRed~'',
      ''Sink.Auth = 1,0,~[%Y-%m-%d %H:%M:%S.%e] [%l] %v~,~Auth.log~,1,10,5'',
      ''Logger.root = 0,Console Auth'']"

definition shipped_options :: Config where
  "shipped_options = fst (snd (LoadAppConfigs Log_new [''f.dist'' \<mapsto> Input shipped_config False] id ''f'' Config_new))"

definition shipped_order :: "string list" where
  "shipped_order = [''LogsDir'', ''ServerPort'', ''BindIP'', ''Sink.Console'', ''Sink.Auth'', ''Logger.root'']"

definition shipped_sinks :: "Log_sink list" where
  "shipped_sinks = [ConsoleSink 0 ''%^[%T] %v%$'', FileSink ''Auth.log'' 10485760 5 True 0 ''[%Y-%m-%d %H:%M:%S.%e] [%l] %v'']"

definition shipped_log :: "log_fatal + log_state" where
  "shipped_log = LoadFromConfig (\<lambda>_ _ _ _. None) shipped_options shipped_order (Log_new, [])"

text \<open>The shipped configuration file loads without a complaint on the console, and gives one
  logger, the root logger at level \<open>Trace\<close>, with the console sink and the rotating file
  \<^verbatim>\<open>Auth.log\<close> of 5 files of 10 MiB; so every message of the program is logged.\<close>

theorem shipped_configuration:
  "(case shipped_log of
      Inl _ \<Rightarrow> False
    | Inr (lg, out) \<Rightarrow>
        out = [] \<and> loggers lg ''root'' = Some \<lparr>lg_level = 0, lg_sinks = shipped_sinks\<rparr>
        \<and> ShouldLog lg ''fix.message'' Level_Debug
        \<and> LOG_MSG_BODY lg ''auth'' Level_Error (Some ''hello'')
            = map (\<lambda>s. Log_line s Level_Error (Message ''hello'')) shipped_sinks)"
  by code_simp

theorem should_log_exact_witness:
  "\<exists>lg out. shipped_log = Inr (lg, out) \<and> ShouldLog lg ''fix.message'' Level_Trace"
proof -
  obtain lg out where s: "shipped_log = Inr (lg, out)" and r: "GetLoggerByType lg ''fix.message'' \<noteq> None"
    and l: "lg_level (snd (the (GetLoggerByType lg ''fix.message''))) = 0"
  proof -
    have "(case shipped_log of Inl _ \<Rightarrow> False | Inr (lg, out) \<Rightarrow> GetLoggerByType lg ''fix.message'' \<noteq> None
        \<and> lg_level (snd (the (GetLoggerByType lg ''fix.message''))) = 0)" by code_simp
    then show ?thesis using that by (auto split: sum.splits prod.splits)
  qed
  then show ?thesis
    using should_log_exact [of "\<lambda>_ _ _ _. None" shipped_options shipped_order "(Log_new, [])" lg out "''fix.message''" 0]
    by (auto simp: shipped_log_def)
qed

text \<open>Two loggers that name the same sink.\<close>

definition two_loggers :: Config where
  "two_loggers = Config_new\<lparr>cfg_options := [''Sink.Console'' \<mapsto> ''0,0,%v'', ''Logger.root'' \<mapsto> ''0,Console'', ''Logger.auth'' \<mapsto> ''0,Console'']\<rparr>"

definition sinks_of :: "string \<Rightarrow> log_fatal + log_state \<Rightarrow> Log_sink list option" where
  "sinks_of n st = (case st of Inl _ \<Rightarrow> None | Inr (lg, out) \<Rightarrow> map_option lg_sinks (loggers lg n))"

text \<open>A sink that two loggers name goes to the logger created first only: \<open>GetSink\<close> moves it
  out of the list. Which logger that is depends on the traversal order of the hash map; the other
  one is registered without a sink and its messages are lost without any report.\<close>

theorem shared_sink_goes_to_first_logger:
  "sinks_of ''root'' (LoadFromConfig (\<lambda>_ _ _ _. None) two_loggers [''Sink.Console'', ''Logger.root'', ''Logger.auth''] (Log_new, []))
       = Some [ConsoleSink 0 ''%v'']
   \<and> sinks_of ''auth'' (LoadFromConfig (\<lambda>_ _ _ _. None) two_loggers [''Sink.Console'', ''Logger.root'', ''Logger.auth''] (Log_new, []))
       = Some []
   \<and> sinks_of ''root'' (LoadFromConfig (\<lambda>_ _ _ _. None) two_loggers [''Sink.Console'', ''Logger.auth'', ''Logger.root''] (Log_new, []))
       = Some []
   \<and> sinks_of ''auth'' (LoadFromConfig (\<lambda>_ _ _ _. None) two_loggers [''Sink.Console'', ''Logger.auth'', ''Logger.root''] (Log_new, []))
       = Some [ConsoleSink 0 ''%v'']"
  by code_simp

end
