(* ===== verification/Fix_Message.thy ===== *)
theory Fix_Message
  imports Hffix_Proofs Wire_Codecs Timer Logging
begin

text \<open>
  \<^verbatim>\<open>src/src/shared/FixMessage/FixMessage.cpp\<close>: the application's use of the FIX library on a
  \<open>ByteBuffer\<close>. A failure is an exception of the buffer or of the library; \<open>out_of_buffer\<close>
  and \<open>diverges\<close> stand for undefined behaviour and an endless loop. A log statement evaluates
  its arguments only when its message is enabled, and catches the exceptions of that evaluation;
  its effect on the iterator (\<^verbatim>\<open>i++\<close> among the arguments) depends on the log level for that
  reason. \<open>addr\<close> is the address of the packet's storage, \<open>elapsed\<close> the reading of the
  stopwatch in microseconds.
\<close>

section \<open>Errors and output\<close>

datatype fm_error = BB bb_error | HF hffix_error

definition hf :: "hffix_error + 'a \<Rightarrow> fm_error + 'a" where
  "hf r = (case r of Inl e \<Rightarrow> Inl (HF e) | Inr x \<Rightarrow> Inr x)"

text \<open>The exceptions derived from \<^verbatim>\<open>std::exception\<close>.\<close>

fun catchable :: "hffix_error \<Rightarrow> bool" where
  "catchable out_of_buffer = False"
| "catchable diverges = False"
| "catchable _ = True"

text \<open>Their texts, as far as the readers can meet them.\<close>

fun hffix_what :: "hffix_error \<Rightarrow> string" where
  "hffix_what range_error = ''hffix message_writer buffer full''"
| "hffix_what logic_error = ''hffix Cannot return iterator for an invalid message.''"
| "hffix_what _ = ''basic_string::_M_create''"

fun bb_catchable :: "bb_error \<Rightarrow> bool" where
  "bb_catchable AssertionFailed = False"
| "bb_catchable OutOfBounds = False"
| "bb_catchable Diverges = False"
| "bb_catchable _ = True"

text \<open>A computation of the library that also logs.\<close>

type_synonym 'a lw = "(hffix_error + 'a) \<times> log_event list"

definition lw_bind :: "'a lw \<Rightarrow> ('a \<Rightarrow> 'b lw) \<Rightarrow> 'b lw" where
  "lw_bind m f =
     (case m of
        (Inl e, out) \<Rightarrow> (Inl e, out)
      | (Inr x, out) \<Rightarrow> (case f x of (r, out') \<Rightarrow> (r, out @ out')))"

definition lw_lift :: "hffix_error + 'a \<Rightarrow> 'a lw" where
  "lw_lift r = (r, [])"

definition LOG_FIX :: "Log \<Rightarrow> LogLevel \<Rightarrow> hffix_error + string \<Rightarrow> unit lw" where
  "LOG_FIX lg level msg =
     (if ShouldLog lg ''fix.message'' level then
        (case msg of
           Inr m \<Rightarrow> (Inr (), LOG_EXCEPTION_FREE lg ''fix.message'' level (Some m))
         | Inl e \<Rightarrow>
             (if catchable e then (Inr (), LOG_EXCEPTION_FREE lg ''fix.message'' level None) else (Inl e, [])))
      else (Inr (), []))"

section \<open>Reading a packet\<close>

definition packet_reader :: "nat \<Rightarrow> ByteBuffer \<Rightarrow> fm_error + message_reader" where
  "packet_reader addr packet =
     (case ByteBuffer_contents packet of
        Inl e \<Rightarrow> Inl (BB e)
      | Inr st \<Rightarrow> hf (message_reader_init addr (chars st)))"

definition GetCommand :: "nat \<Rightarrow> ByteBuffer \<Rightarrow> fm_error + string" where
  "GetCommand addr packet =
     err_bind (packet_reader addr packet) (\<lambda>reader.
       if mr_is_valid reader then hf (err_bind (reader_begin reader) (as_string reader)) else Inr [])"

definition IsValidCommand :: "nat \<Rightarrow> ByteBuffer \<Rightarrow> string \<Rightarrow> fm_error + bool" where
  "IsValidCommand addr packet command =
     err_bind (packet_reader addr packet) (\<lambda>reader.
       if mr_is_valid reader then hf (err_bind (reader_begin reader) (\<lambda>it. field_eq_string reader it command))
       else Inr False)"

text \<open>\<^verbatim>\<open>if (reader.find_with_hint(tag, i)) ...\<close>.\<close>

definition if_found :: "message_reader \<Rightarrow> int \<Rightarrow> (hf_iterator \<Rightarrow> hf_iterator lw) \<Rightarrow> hf_iterator \<Rightarrow> hf_iterator lw" where
  "if_found reader tag f i =
     lw_bind (lw_lift (find_with_hint reader tag i)) (\<lambda>(found, j). if found then f j else lw_lift (Inr j))"

text \<open>\<^verbatim>\<open>LOG_INFO("fix.message", ..., i++->value() ...)\<close>.\<close>

definition log_next :: "Log \<Rightarrow> message_reader \<Rightarrow> (hf_iterator \<Rightarrow> hffix_error + string) \<Rightarrow> hf_iterator \<Rightarrow> hf_iterator lw" where
  "log_next lg reader txt i =
     (if ShouldLog lg ''fix.message'' Level_Info then
        (case iterator_increment reader i of
           Inr j \<Rightarrow> lw_bind (LOG_FIX lg Level_Info (txt i)) (\<lambda>_. lw_lift (Inr j))
         | Inl e \<Rightarrow> lw_bind (LOG_FIX lg Level_Info (Inl e)) (\<lambda>_. lw_lift (Inr i)))
      else lw_lift (Inr i))"

definition text_of :: "string \<Rightarrow> hffix_error + string \<Rightarrow> hffix_error + string" where
  "text_of prefix r = err_bind r (\<lambda>s. Inr (prefix @ s))"

definition int_text :: "hffix_error + int \<Rightarrow> hffix_error + string" where
  "int_text r = err_bind r (\<lambda>k. Inr (dec_int k))"

text \<open>The bodies of the \<^verbatim>\<open>try\<close> blocks; the result is the value returned there, \<open>None\<close> when
  control reaches the end of the block.\<close>

definition logon_fields :: "Log \<Rightarrow> (int \<Rightarrow> string) \<Rightarrow> message_reader \<Rightarrow> bool option lw" where
  "logon_fields lg human reader =
     lw_bind (lw_lift (reader_begin reader)) (\<lambda>mt.
     lw_bind (lw_lift (field_eq_cstring reader mt ''A'')) (\<lambda>eq.
     if \<not> eq then
       lw_bind (LOG_FIX lg Level_Error (text_of ''> Message is not logon type. Message type ''
         (err_bind (as_string reader mt) (\<lambda>s. Inr (quoted s))))) (\<lambda>_. lw_lift (Inr (Some False)))
     else
       lw_bind (LOG_FIX lg Level_Info (Inr ''Logon message'')) (\<lambda>_.
       lw_bind (lw_lift (reader_begin reader)) (\<lambda>i.
       lw_bind (if_found reader 49 (log_next lg reader (\<lambda>i. text_of ''SenderCompID = '' (as_string reader i))) i) (\<lambda>i.
       lw_bind (if_found reader 8 (log_next lg reader (\<lambda>i. text_of ''BeginString = '' (as_string reader i))) i) (\<lambda>i.
       lw_bind (if_found reader 34 (log_next lg reader (\<lambda>i. text_of ''MsgSeqNum = '' (int_text (as_int 32 reader i)))) i) (\<lambda>i.
       lw_bind (if_found reader 52
         (\<lambda>i. lw_bind (lw_lift (iterator_increment reader i)) (\<lambda>j.
              lw_bind (lw_lift (as_timestamp reader i)) (\<lambda>now.
              lw_bind (LOG_FIX lg Level_Info (Inr (''SendingTime = ''
                @ (case now of None \<Rightarrow> ''<error>'' | Some ms \<Rightarrow> human (cdiv ms 1000))))) (\<lambda>_. lw_lift (Inr j))))) i)
         (\<lambda>i. lw_lift (Inr None)))))))))"

definition order_fields :: "Log \<Rightarrow> message_reader \<Rightarrow> bool option lw" where
  "order_fields lg reader =
     lw_bind (lw_lift (reader_begin reader)) (\<lambda>mt.
     lw_bind (lw_lift (field_eq_cstring reader mt ''D'')) (\<lambda>eq.
     if \<not> eq then
       lw_bind (LOG_FIX lg Level_Error (text_of ''> Message is not New Order Single type. Message type ''
         (err_bind (as_string reader mt) (\<lambda>s. Inr (quoted s))))) (\<lambda>_. lw_lift (Inr (Some False)))
     else
       lw_bind (LOG_FIX lg Level_Info (Inr ''New Order Single message'')) (\<lambda>_.
       lw_bind (lw_lift (reader_begin reader)) (\<lambda>i.
       lw_bind (if_found reader 54 (log_next lg reader
         (\<lambda>i. text_of ''SenderCompID = '' (err_bind (as_char reader i) (\<lambda>c. Inr (if c = CHR ''1'' then ''Buy'' else ''Sell''))))) i) (\<lambda>i.
       lw_bind (if_found reader 55 (log_next lg reader (as_string reader)) i) (\<lambda>i.
       lw_bind (if_found reader 38 (log_next lg reader (\<lambda>i. int_text (as_int 32 reader i))) i) (\<lambda>i.
       lw_bind (if_found reader 44
         (\<lambda>i. lw_bind (lw_lift (as_decimal 32 reader i)) (\<lambda>(mantissa, exponent).
              lw_bind (LOG_FIX lg Level_Info (Inr (''@ $'' @ dec_int mantissa @ '' E'' @ dec_int exponent))) (\<lambda>_. lw_lift (Inr i)))) i)
         (\<lambda>i. lw_lift (Inr None)))))))))"

text \<open>The common frame of the two readers: construction and validity check of the reader, the
  \<^verbatim>\<open>try\<close> block with its handler, the closing log lines.\<close>

definition read_message ::
  "Log \<Rightarrow> endian \<Rightarrow> int \<Rightarrow> string \<Rightarrow> (message_reader \<Rightarrow> bool option lw) \<Rightarrow> nat \<Rightarrow> ByteBuffer
     \<Rightarrow> fm_error + (bool \<times> ByteBuffer \<times> log_event list)" where
  "read_message lg e elapsed fn body addr packet =
     err_bind (packet_reader addr packet) (\<lambda>reader.
       if \<not> mr_is_valid reader then
         (if ShouldLog lg ''fix.message'' Level_Error then
            (case ByteBuffer_ReadCString e True packet of
               (Inr s, packet') \<Rightarrow>
                 Inr (False, packet', LOG_EXCEPTION_FREE lg ''fix.message'' Level_Error (Some (''Invalid FIX message: '' @ quoted s)))
             | (Inl x, packet') \<Rightarrow>
                 (if bb_catchable x then Inr (False, packet', LOG_EXCEPTION_FREE lg ''fix.message'' Level_Error None)
                  else Inl (BB x)))
          else Inr (False, packet, []))
       else
         (case body reader of
            (Inl x, out) \<Rightarrow>
              (if catchable x
               then Inr (False, packet, out @ LOG_MSG_BODY lg ''fix.message'' Level_Error
                      (Some (''> '' @ fn @ '': Error reading fields: '' @ quoted (hffix_what x))))
               else Inl (HF x))
          | (Inr (Some b), out) \<Rightarrow> Inr (b, packet, out)
          | (Inr None, out) \<Rightarrow>
              Inr (True, packet, out
                @ LOG_MSG_BODY lg ''fix.message'' Level_Debug (Some (''> Read message in '' @ ToTimeString elapsed ShortText))
                @ LOG_MSG_BODY lg ''fix.message'' Level_Info (Some []))))"

definition IsReadLogonMessage ::
  "Log \<Rightarrow> endian \<Rightarrow> int \<Rightarrow> (int \<Rightarrow> string) \<Rightarrow> nat \<Rightarrow> ByteBuffer \<Rightarrow> fm_error + (bool \<times> ByteBuffer \<times> log_event list)" where
  "IsReadLogonMessage lg e elapsed human = read_message lg e elapsed ''IsReadLogonMessage'' (logon_fields lg human)"

definition IsReadNewOrderSingleMessage ::
  "Log \<Rightarrow> endian \<Rightarrow> int \<Rightarrow> nat \<Rightarrow> ByteBuffer \<Rightarrow> fm_error + (bool \<times> ByteBuffer \<times> log_event list)" where
  "IsReadNewOrderSingleMessage lg e elapsed = read_message lg e elapsed ''IsReadNewOrderSingleMessage'' (order_fields lg)"

section \<open>The test message\<close>

text \<open>\<open>now\<close> is the clock in nanoseconds since the epoch, \<open>stack\<close> the uninitialised array
  \<^verbatim>\<open>buffer\<close>. Printing it reads up to the first NUL; without one the read leaves the array.\<close>

definition test_logon :: "int \<Rightarrow> (message_writer \<Rightarrow> hffix_error + message_writer) list" where
  "test_logon now =
     [push_back_cstring 35 ''A'', push_back_cstring 49 ''AAAA'', push_back_cstring 56 ''BBBB'', push_back_int 34 32 1,
      push_back_timepoint 52 1000000000 now, push_back_int 98 32 0, push_back_int 108 32 10]"

definition test_order :: "int \<Rightarrow> (message_writer \<Rightarrow> hffix_error + message_writer) list" where
  "test_order now =
     [push_back_cstring 35 ''D'', push_back_cstring 49 ''AAAA'', push_back_cstring 56 ''BBBB'', push_back_int 34 32 2,
      push_back_timepoint 52 1000000000 now, push_back_cstring 11 ''A1'', push_back_char 21 (CHR ''1''),
      push_back_cstring 55 ''OIH'', push_back_char 54 (CHR ''1''), push_back_timepoint 60 1000000000 now,
      push_back_int 38 32 100, push_back_char 40 (CHR ''2''), push_back_decimal 44 32 50001 (- 2),
      push_back_char 59 (CHR ''1'')]"

definition test_messages :: "int \<Rightarrow> string \<Rightarrow> hffix_error + string" where
  "test_messages now stack =
     err_bind (write_message ''FIX.5.0'' (test_logon now) (writer_new stack)) (\<lambda>logon.
     err_bind (write_message ''FIX.5.0'' (test_order now) (writer_new (drop (mw_next logon) (mw_mem logon)))) (\<lambda>new_order.
       Inr (writer_message logon @ mw_mem new_order)))"

definition PrepareTestMessage :: "endian \<Rightarrow> int \<Rightarrow> string \<Rightarrow> ByteBuffer \<Rightarrow> fm_error + ByteBuffer" where
  "PrepareTestMessage e now stack packet =
     err_bind (hf (test_messages now stack)) (\<lambda>buffer.
       if CHR 0x00 \<notin> set buffer then Inl (HF out_of_buffer)
       else case ByteBuffer_write_cstring e (Some buffer) (ByteBuffer_resize 4096 packet) of
              (Inl x, _) \<Rightarrow> Inl (BB x)
            | (Inr _, packet') \<Rightarrow> Inr packet')"

end
