(* ===== verification/Auth_Session.thy ===== *)
theory Auth_Session
  imports Socket_Proofs Fix_Message_Proofs
begin

text \<open>
  \<^verbatim>\<open>src/src/app/Server/AuthSession.cpp\<close> and \<^verbatim>\<open>AuthSession.h\<close>: a client's session on its
  socket. \<open>dispatch\<close> is the first half of \<open>ReadHandler\<close>, up to the call of the handler. What a
  call takes from its surroundings (clock, stopwatch, address of the buffers, contents of the stack,
  answers of the socket) is the argument \<open>env\<close>. \<open>Undefined\<close> is an access outside a
  \<open>MessageBuffer\<close>; \<open>Uncaught\<close> is an exception nobody catches, or undefined behaviour below.
\<close>

section \<open>State\<close>

datatype AuthStatus = NotAuthed | Authed

record AuthSession = Socket +
  as_status :: AuthStatus

datatype session_error = Undefined | Uncaught fm_error

record session_env =
  se_sock :: socket_env
  se_endian :: endian
  se_elapsed :: int
  se_human :: "int \<Rightarrow> string"
  se_addr :: nat
  se_addr_copy :: nat
  se_now :: int
  se_stack :: string

abbreviation se_log :: "session_env \<Rightarrow> Log" where
  "se_log env \<equiv> env_log (se_sock env)"

definition AuthSession_new :: "string \<Rightarrow> nat \<Rightarrow> AuthSession" where
  "AuthSession_new address port = Socket.extend (Socket_new address port) \<lparr>as_status = NotAuthed\<rparr>"

definition defined :: "'a option \<Rightarrow> session_error + 'a" where
  "defined r = (case r of None \<Rightarrow> Inl Undefined | Some x \<Rightarrow> Inr x)"

definition uncaught :: "fm_error + 'a \<Rightarrow> session_error + 'a" where
  "uncaught r = (case r of Inl e \<Rightarrow> Inl (Uncaught e) | Inr x \<Rightarrow> Inr x)"

lemma defined_simps [simp]: "defined None = Inl Undefined" "defined (Some x) = Inr x"
  by (simp_all add: defined_def)

lemma uncaught_simps [simp]: "uncaught (Inl e) = Inl (Uncaught e)" "uncaught (Inr x) = Inr x"
  by (simp_all add: uncaught_def)

section \<open>Operations\<close>

datatype auth_handler = HandleLogon | HandleNewOrderSingle

definition Handlers :: "string \<rightharpoonup> AuthStatus \<times> auth_handler" where
  "Handlers = [''A'' \<mapsto> (NotAuthed, HandleLogon), ''D'' \<mapsto> (Authed, HandleNewOrderSingle)]"

definition client_text :: "'a Socket_scheme \<Rightarrow> string" where
  "client_text s = sk_remoteAddress s @ '':'' @ dec_nat (sk_remotePort s)"

definition auth_log :: "session_env \<Rightarrow> LogLevel \<Rightarrow> string \<Rightarrow> 'a Socket_scheme \<Rightarrow> 'a Socket_scheme" where
  "auth_log env level msg = sock_log (LOG_MSG_BODY (se_log env) ''auth'' level (Some msg))"

definition AuthSession_Start :: "session_env \<Rightarrow> AuthSession \<Rightarrow> session_error + AuthSession" where
  "AuthSession_Start env s =
     defined (AsyncRead (auth_log env Level_Trace (''Accepted connection from '' @ client_text s) s))"

definition AuthSession_OnClose :: "session_env \<Rightarrow> AuthSession \<Rightarrow> log_event list" where
  "AuthSession_OnClose env s =
     LOG_MSG_BODY (se_log env) ''auth'' Level_Trace (Some (''End connection from '' @ client_text s))"

abbreviation close_session :: "session_env \<Rightarrow> AuthSession \<Rightarrow> AuthSession" where
  "close_session env \<equiv> CloseSocket (se_sock env) (AuthSession_OnClose env)"

definition AuthSession_Update :: "session_env \<Rightarrow> AuthSession \<Rightarrow> session_error + (bool \<times> AuthSession)" where
  "AuthSession_Update env s =
     err_bind (defined (Socket_Update (se_sock env) (AuthSession_OnClose env) s))
       (\<lambda>(ok, s). if \<not> ok then Inr (False, s) else Inr (True, s))"

definition SendPacket :: "session_env \<Rightarrow> ByteBuffer \<Rightarrow> AuthSession \<Rightarrow> session_error + AuthSession" where
  "SendPacket env packet s =
     (if \<not> IsOpen s then Inr (auth_log env Level_Error ''> Can't send packet. Socket is close'' s)
      else if ByteBuffer_empty packet then Inr (auth_log env Level_Error ''> Can't send packet. Packet is empty'' s)
      else case ByteBuffer_contents packet of
             Inl x \<Rightarrow> Inl (Uncaught (BB x))
           | Inr contents \<Rightarrow>
               err_bind (defined (MessageBuffer_Write (take (ByteBuffer_size packet) contents)
                           (MessageBuffer_sized (ByteBuffer_size packet))))
                 (\<lambda>buffer. Inr (QueuePacket buffer s)))"

text \<open>\<^verbatim>\<open>ByteBuffer buffer(std::move(MessageBuffer(...)))\<close>: a copy of the whole read buffer, not
  only of its active bytes.\<close>

definition packet_copy :: "'a Socket_scheme \<Rightarrow> ByteBuffer" where
  "packet_copy s = fst (ByteBuffer_of_MessageBuffer (MessageBuffer_copy (sk_readBuffer s)))"

definition HandleLogonMessage :: "session_env \<Rightarrow> AuthSession \<Rightarrow> session_error + (bool \<times> AuthSession)" where
  "HandleLogonMessage env s =
     err_bind (uncaught (IsReadLogonMessage (se_log env) (se_endian env) (se_elapsed env) (se_human env)
                 (se_addr_copy env) (packet_copy s)))
       (\<lambda>(ok, buffer, out).
          let s = sock_log out s in
          if ok then
            err_bind (uncaught (PrepareTestMessage (se_endian env) (se_now env) (se_stack env) buffer))
              (\<lambda>buffer. err_bind (SendPacket env buffer (s\<lparr>as_status := Authed\<rparr>)) (\<lambda>s. Inr (True, s)))
          else Inr (False, s))"

definition HandleNewOrderSingleMessage :: "session_env \<Rightarrow> AuthSession \<Rightarrow> session_error + (bool \<times> AuthSession)" where
  "HandleNewOrderSingleMessage env s =
     err_bind (uncaught (IsReadNewOrderSingleMessage (se_log env) (se_endian env) (se_elapsed env)
                 (se_addr_copy env) (packet_copy s)))
       (\<lambda>(ok, buffer, out). Inr (ok, sock_log out s))"

fun call_handler :: "session_env \<Rightarrow> auth_handler \<Rightarrow> AuthSession \<Rightarrow> session_error + (bool \<times> AuthSession)" where
  "call_handler env HandleLogon s = HandleLogonMessage env s"
| "call_handler env HandleNewOrderSingle s = HandleNewOrderSingleMessage env s"

definition FIX_PROTOCOL_SUPPORT :: string where
  "FIX_PROTOCOL_SUPPORT = ''FIX.5.0''"

definition read_protocol :: "session_env \<Rightarrow> AuthSession \<Rightarrow> session_error + string" where
  "read_protocol env s =
     (let packet = sk_readBuffer s in
      err_bind (defined (mem_read (mb_rpos packet + 2) 7 (mb_storage packet))) (\<lambda>d.
      err_bind (defined (MessageBuffer_Write d (MessageBuffer_Resize 7 MessageBuffer_default))) (\<lambda>header.
        case ByteBuffer_read_string (se_endian env) (fst (ByteBuffer_of_MessageBuffer header)) of
          (Inl x, _) \<Rightarrow> Inl (Uncaught (BB x))
        | (Inr fixProtocol, _) \<Rightarrow> Inr fixProtocol)))"

datatype verdict =
    Unsupported string
  | Unknown_command string
  | Wrong_status
  | Invalid_command string
  | Handle auth_handler

definition dispatch :: "session_env \<Rightarrow> AuthSession \<Rightarrow> session_error + verdict" where
  "dispatch env s =
     err_bind (read_protocol env s) (\<lambda>fixProtocol.
       if fixProtocol \<noteq> FIX_PROTOCOL_SUPPORT then Inr (Unsupported fixProtocol)
       else
         (let buffer = packet_copy s in
          err_bind (uncaught (GetCommand (se_addr env) buffer)) (\<lambda>cmd.
            case Handlers cmd of
              None \<Rightarrow> Inr (Unknown_command cmd)
            | Some (status, handler) \<Rightarrow>
                (if as_status s \<noteq> status then Inr Wrong_status
                 else err_bind (uncaught (IsValidCommand (se_addr env) buffer cmd)) (\<lambda>valid.
                        Inr (if valid then Handle handler else Invalid_command cmd))))))"

definition ReadHandler :: "session_env \<Rightarrow> AuthSession \<Rightarrow> session_error + AuthSession" where
  "ReadHandler env s =
     err_bind (dispatch env s) (\<lambda>v.
       case v of
         Unsupported p \<Rightarrow>
           Inr (close_session env (auth_log env Level_Error (''> Client '' @ client_text s @ '' using unsupport protocol '' @ p) s))
       | Unknown_command cmd \<Rightarrow>
           Inr (auth_log env Level_Error (''> Client '' @ client_text s @ '' using unknown command '' @ quoted cmd) s)
       | Wrong_status \<Rightarrow> Inr (close_session env s)
       | Invalid_command cmd \<Rightarrow>
           Inr (auth_log env Level_Error (''> Client '' @ client_text s @ '' using invalid command '' @ quoted cmd) s)
       | Handle h \<Rightarrow>
           err_bind (call_handler env h s) (\<lambda>(ok, s).
             if \<not> ok then Inr (close_session env s)
             else defined (AsyncRead (s\<lparr>sk_readBuffer := MessageBuffer_Reset (sk_readBuffer s)\<rparr>))))"

text \<open>The completion of a read of the session.\<close>

definition session_read :: "session_env \<Rightarrow> u8 list option \<Rightarrow> AuthSession \<Rightarrow> session_error + AuthSession" where
  "session_read env result s =
     (case ReadHandlerInternal (se_sock env) (AuthSession_OnClose env) (ReadHandler env) result s of
        None \<Rightarrow> Inl Undefined
      | Some r \<Rightarrow> r)"

end
