(* ===== verification/Network.thy ===== *)
theory Network
  imports Auth_Session
begin

text \<open>
  \<^verbatim>\<open>src/src/shared/Network/NetworkThread.h\<close>, \<^verbatim>\<open>SocketMgr.h\<close>, \<^verbatim>\<open>AsyncAcceptor.h\<close> and
  \<^verbatim>\<open>src/src/app/Server/AuthSocketMgr.h\<close>: the threads that update the sessions, the manager that
  distributes connections over them, and the acceptor. A \<open>shared_ptr\<close> to a session is a key of the
  store. The template parameter \<open>SocketType\<close> is the argument \<open>ops\<close>: the operations a thread
  calls on its sockets. Locks make \<open>AddSocket\<close> and \<open>AddNewSockets\<close> atomic; the pass over the
  sockets runs outside of the lock, so that connections can arrive between the two halves of
  \<open>Update\<close>. What the system answers (errors of bind, listen, accept) is an argument.
\<close>

section \<open>NetworkThread\<close>

datatype net_error = AssertFailed string | OutOfBounds_access | Null_pointer | Session session_error

record 's socket_ops =
  op_IsOpen :: "'s \<Rightarrow> bool"
  op_Update :: "nat \<Rightarrow> 's \<Rightarrow> session_error + (bool \<times> 's)"
  op_CloseSocket :: "nat \<Rightarrow> 's \<Rightarrow> 's"

record NetworkThread =
  nt_connections :: int
  nt_stopped :: bool
  nt_thread :: bool
  nt_sockets :: "nat list"
  nt_newSockets :: "nat list"
  nt_timer :: nat
  nt_io_stopped :: bool

definition NetworkThread_new :: NetworkThread where
  "NetworkThread_new =
     \<lparr>nt_connections = 0, nt_stopped = False, nt_thread = False, nt_sockets = [], nt_newSockets = [], nt_timer = 0,
      nt_io_stopped = False\<rparr>"

definition NetworkThread_Stop :: "NetworkThread \<Rightarrow> NetworkThread" where
  "NetworkThread_Stop t = t\<lparr>nt_stopped := True, nt_io_stopped := True\<rparr>"

definition NetworkThread_Start :: "NetworkThread \<Rightarrow> bool \<times> NetworkThread" where
  "NetworkThread_Start t = (if nt_thread t then (False, t) else (True, t\<lparr>nt_thread := True\<rparr>))"

definition NetworkThread_Wait :: "NetworkThread \<Rightarrow> net_error + NetworkThread" where
  "NetworkThread_Wait t =
     (if \<not> nt_thread t then Inl (AssertFailed ''_thread'') else Inr (t\<lparr>nt_thread := False\<rparr>))"

definition NetworkThread_destroy :: "NetworkThread \<Rightarrow> net_error + NetworkThread" where
  "NetworkThread_destroy t =
     (let t = NetworkThread_Stop t in if nt_thread t then NetworkThread_Wait t else Inr t)"

definition GetConnectionCount :: "NetworkThread \<Rightarrow> int" where
  "GetConnectionCount t = nt_connections t"

definition AddSocket :: "nat \<Rightarrow> NetworkThread \<Rightarrow> NetworkThread" where
  "AddSocket sock t =
     t\<lparr>nt_connections := int_wrap 32 (nt_connections t + 1), nt_newSockets := nt_newSockets t @ [sock]\<rparr>"

primrec add_new_sockets :: "'s socket_ops \<Rightarrow> (nat \<rightharpoonup> 's) \<Rightarrow> nat list \<Rightarrow> NetworkThread \<Rightarrow> net_error + NetworkThread" where
  "add_new_sockets ops store [] t = Inr t"
| "add_new_sockets ops store (sock # rest) t =
     (case store sock of
        None \<Rightarrow> Inl Null_pointer
      | Some s \<Rightarrow>
          add_new_sockets ops store rest
            (if \<not> op_IsOpen ops s then t\<lparr>nt_connections := int_wrap 32 (nt_connections t - 1)\<rparr>
             else t\<lparr>nt_sockets := nt_sockets t @ [sock]\<rparr>))"

definition AddNewSockets :: "'s socket_ops \<Rightarrow> (nat \<rightharpoonup> 's) \<Rightarrow> NetworkThread \<Rightarrow> net_error + NetworkThread" where
  "AddNewSockets ops store t =
     (if nt_newSockets t = [] then Inr t
      else err_bind (add_new_sockets ops store (nt_newSockets t) t) (\<lambda>t. Inr (t\<lparr>nt_newSockets := []\<rparr>)))"

text \<open>\<^verbatim>\<open>std::remove_if\<close> over the sockets: the ones kept, the store afterwards and the connections left.\<close>

primrec update_sockets ::
  "'s socket_ops \<Rightarrow> nat list \<Rightarrow> (nat \<rightharpoonup> 's) \<Rightarrow> int \<Rightarrow> net_error + (nat list \<times> (nat \<rightharpoonup> 's) \<times> int)" where
  "update_sockets ops [] store n = Inr ([], store, n)"
| "update_sockets ops (sock # rest) store n =
     (case store sock of
        None \<Rightarrow> Inl Null_pointer
      | Some s \<Rightarrow>
          (case op_Update ops sock s of
             Inl e \<Rightarrow> Inl (Session e)
           | Inr (False, s1) \<Rightarrow>
               update_sockets ops rest (store(sock \<mapsto> if op_IsOpen ops s1 then op_CloseSocket ops sock s1 else s1)) (int_wrap 32 (n - 1))
           | Inr (True, s1) \<Rightarrow>
               err_bind (update_sockets ops rest (store(sock \<mapsto> s1)) n)
                 (\<lambda>(kept, store', n'). Inr (sock # kept, store', n'))))"

definition update_pass ::
  "'s socket_ops \<Rightarrow> NetworkThread \<Rightarrow> (nat \<rightharpoonup> 's) \<Rightarrow> net_error + (NetworkThread \<times> (nat \<rightharpoonup> 's))" where
  "update_pass ops t store =
     err_bind (update_sockets ops (nt_sockets t) store (nt_connections t))
       (\<lambda>(kept, store', n). Inr (t\<lparr>nt_sockets := kept, nt_connections := n\<rparr>, store'))"

definition NetworkThread_Update ::
  "'s socket_ops \<Rightarrow> NetworkThread \<Rightarrow> (nat \<rightharpoonup> 's) \<Rightarrow> net_error + (NetworkThread \<times> (nat \<rightharpoonup> 's))" where
  "NetworkThread_Update ops t store =
     (if nt_stopped t then Inr (t, store)
      else err_bind (AddNewSockets ops store (t\<lparr>nt_timer := nt_timer t + 1\<rparr>)) (\<lambda>t. update_pass ops t store))"

text \<open>\<open>Run\<close> up to and after \<^verbatim>\<open>_ioContext.run()\<close>.\<close>

definition Run_begin :: "Log \<Rightarrow> NetworkThread \<Rightarrow> NetworkThread \<times> log_event list" where
  "Run_begin lg t =
     (t\<lparr>nt_timer := nt_timer t + 1\<rparr>, LOG_MSG_BODY lg ''network'' Level_Debug (Some ''Network Thread Starting''))"

definition Run_end :: "Log \<Rightarrow> NetworkThread \<Rightarrow> NetworkThread \<times> log_event list" where
  "Run_end lg t =
     (t\<lparr>nt_newSockets := [], nt_sockets := []\<rparr>, LOG_MSG_BODY lg ''network'' Level_Debug (Some ''Network Thread exits''))"

section \<open>AsyncAcceptor\<close>

record AsyncAcceptor =
  ac_address :: string
  ac_port :: nat
  ac_closed :: bool
  ac_factory :: bool
  ac_listening :: bool
  ac_accepting :: "nat option"

datatype bind_call = Open | Set_reuse_address | Bind_endpoint | Listen

definition AsyncAcceptor_new :: "(string \<Rightarrow> string option) \<Rightarrow> string \<Rightarrow> nat \<Rightarrow> AsyncAcceptor option" where
  "AsyncAcceptor_new make_address bindIp port =
     map_option (\<lambda>address. \<lparr>ac_address = address, ac_port = port, ac_closed = False, ac_factory = False, ac_listening = False,
        ac_accepting = None\<rparr>) (make_address bindIp)"

definition AsyncAcceptor_Bind ::
  "Log \<Rightarrow> (bind_call \<Rightarrow> string option) \<Rightarrow> AsyncAcceptor \<Rightarrow> bool \<times> AsyncAcceptor \<times> log_event list" where
  "AsyncAcceptor_Bind lg sys a =
     (let info = (\<lambda>msg. LOG_MSG_BODY lg ''network'' Level_Info (Some msg));
          endpoint = ac_address a @ '':'' @ dec_nat (ac_port a)
      in case sys Open of
           Some err \<Rightarrow> (False, a, info (''Failed to open acceptor '' @ err))
         | None \<Rightarrow>
         (case sys Set_reuse_address of
           Some err \<Rightarrow> (False, a, info (''Failed to set reuse_address option on acceptor '' @ err))
         | None \<Rightarrow>
         (case sys Bind_endpoint of
           Some err \<Rightarrow> (False, a, info (''Could not bind to '' @ endpoint @ '' '' @ err))
         | None \<Rightarrow>
         (case sys Listen of
           Some err \<Rightarrow> (False, a, info (''Failed to start listening on '' @ endpoint @ '' '' @ err))
         | None \<Rightarrow> (True, a\<lparr>ac_listening := True\<rparr>, [])))))"

definition AsyncAcceptor_Close :: "AsyncAcceptor \<Rightarrow> AsyncAcceptor" where
  "AsyncAcceptor_Close a = (if ac_closed a then a else a\<lparr>ac_closed := True, ac_listening := False\<rparr>)"

definition SetSocketFactory :: "AsyncAcceptor \<Rightarrow> AsyncAcceptor" where
  "SetSocketFactory a = a\<lparr>ac_factory := True\<rparr>"

definition DefeaultSocketFactory :: nat where
  "DefeaultSocketFactory = 0"

section \<open>SocketMgr\<close>

record SocketMgr =
  sm_acceptor :: "AsyncAcceptor option"
  sm_threads :: "NetworkThread list option"
  sm_threadCount :: int

definition SocketMgr_new :: SocketMgr where
  "SocketMgr_new = \<lparr>sm_acceptor = None, sm_threads = None, sm_threadCount = 0\<rparr>"

definition SocketMgr_destroy :: "SocketMgr \<Rightarrow> net_error + unit" where
  "SocketMgr_destroy m =
     (if sm_threads m = None \<and> sm_acceptor m = None \<and> sm_threadCount m = 0 then Inr ()
      else Inl (AssertFailed ''StopNetwork must be called prior to SocketMgr destruction''))"

text \<open>\<^verbatim>\<open>for (int32 i = 0; i < _threadCount; ++i) _threads[i].f();\<close>\<close>

primrec for_threads ::
  "(NetworkThread \<Rightarrow> net_error + NetworkThread) \<Rightarrow> nat \<Rightarrow> nat \<Rightarrow> NetworkThread list \<Rightarrow> net_error + NetworkThread list" where
  "for_threads f 0 i ts = Inr ts"
| "for_threads f (Suc n) i ts =
     (if i < length ts then err_bind (f (ts ! i)) (\<lambda>t. for_threads f n (i + 1) (ts[i := t])) else Inl OutOfBounds_access)"

definition SocketMgr_threads ::
  "(NetworkThread \<Rightarrow> net_error + NetworkThread) \<Rightarrow> SocketMgr \<Rightarrow> net_error + SocketMgr" where
  "SocketMgr_threads f m =
     (if sm_threadCount m \<le> 0 then Inr m
      else case sm_threads m of
             None \<Rightarrow> Inl Null_pointer
           | Some ts \<Rightarrow> err_bind (for_threads f (nat (sm_threadCount m)) 0 ts) (\<lambda>ts. Inr (m\<lparr>sm_threads := Some ts\<rparr>)))"

text \<open>\<open>createThreads\<close> is the virtual \<open>CreateThreads\<close>.\<close>

definition StartNetwork ::
  "Log \<Rightarrow> (string \<Rightarrow> string option) \<Rightarrow> string \<Rightarrow> (bind_call \<Rightarrow> string option) \<Rightarrow> NetworkThread list option
     \<Rightarrow> string \<Rightarrow> nat \<Rightarrow> int \<Rightarrow> SocketMgr \<Rightarrow> net_error + (bool \<times> SocketMgr \<times> log_event list)" where
  "StartNetwork lg make_address what sys createThreads bindIp port threadCount m =
     (if \<not> 0 < threadCount then Inl (AssertFailed ''threadCount > 0'')
      else case AsyncAcceptor_new make_address bindIp port of
        None \<Rightarrow> Inr (False, m, LOG_MSG_BODY lg ''network'' Level_Error
          (Some (''Exception caught in SocketMgr.StartNetwork ('' @ bindIp @ '':'' @ dec_nat port @ ''): '' @ what)))
      | Some acceptor \<Rightarrow>
          (case AsyncAcceptor_Bind lg sys acceptor of
             (False, _, out) \<Rightarrow> Inr (False, m, out @ LOG_MSG_BODY lg ''network'' Level_Error
                (Some ''StartNetwork failed to bind socket acceptor''))
           | (True, acceptor, out) \<Rightarrow>
               (if createThreads = None then Inl (AssertFailed ''_threads'')
                else err_bind (SocketMgr_threads (\<lambda>t. Inr (snd (NetworkThread_Start t)))
                       \<lparr>sm_acceptor = Some acceptor, sm_threads = createThreads, sm_threadCount = threadCount\<rparr>)
                     (\<lambda>m. Inr (True, m\<lparr>sm_acceptor := map_option SetSocketFactory (sm_acceptor m)\<rparr>, out)))))"

definition SocketMgr_Wait :: "SocketMgr \<Rightarrow> net_error + SocketMgr" where
  "SocketMgr_Wait = SocketMgr_threads NetworkThread_Wait"

text \<open>\<^verbatim>\<open>delete[] _threads\<close> runs the destructor of every thread.\<close>

definition StopNetwork :: "SocketMgr \<Rightarrow> net_error + SocketMgr" where
  "StopNetwork m =
     (case sm_acceptor m of
        None \<Rightarrow> Inl Null_pointer
      | Some a \<Rightarrow>
          err_bind (SocketMgr_threads (\<lambda>t. Inr (NetworkThread_Stop t)) (m\<lparr>sm_acceptor := Some (AsyncAcceptor_Close a)\<rparr>)) (\<lambda>m.
          err_bind (SocketMgr_Wait m) (\<lambda>m.
          err_bind (case sm_threads m of
                      None \<Rightarrow> Inr []
                    | Some ts \<Rightarrow> for_threads NetworkThread_destroy (length ts) 0 ts) (\<lambda>_.
            Inr (m\<lparr>sm_acceptor := None, sm_threads := None, sm_threadCount := 0\<rparr>)))))"

text \<open>The loop of \<open>SelectThreadWithMinConnections\<close>.\<close>

primrec select_min :: "NetworkThread list \<Rightarrow> nat \<Rightarrow> nat \<Rightarrow> nat \<Rightarrow> net_error + nat" where
  "select_min ts 0 i mi = Inr mi"
| "select_min ts (Suc n) i mi =
     (if i < length ts \<and> mi < length ts
      then select_min ts n (i + 1) (if GetConnectionCount (ts ! i) < GetConnectionCount (ts ! mi) then i else mi)
      else Inl OutOfBounds_access)"

definition SelectThreadWithMinConnections :: "SocketMgr \<Rightarrow> net_error + nat" where
  "SelectThreadWithMinConnections m =
     (if sm_threadCount m \<le> 1 then Inr 0
      else case sm_threads m of
             None \<Rightarrow> Inl Null_pointer
           | Some ts \<Rightarrow> select_min ts (nat (sm_threadCount m - 1)) 1 0)"

definition GetSocketForAccept :: "SocketMgr \<Rightarrow> net_error + nat" where
  "GetSocketForAccept m =
     err_bind (SelectThreadWithMinConnections m) (\<lambda>i.
       case sm_threads m of
         None \<Rightarrow> Inl Null_pointer
       | Some ts \<Rightarrow> if i < length ts then Inr i else Inl OutOfBounds_access)"

text \<open>\<open>made\<close> is the new session, or the text of the exception its constructor throws; \<open>sock\<close> is the
  pointer to it.\<close>

definition OnSocketOpen ::
  "session_env \<Rightarrow> string + AuthSession \<Rightarrow> nat \<Rightarrow> nat \<Rightarrow> SocketMgr \<Rightarrow> (nat \<rightharpoonup> AuthSession)
     \<Rightarrow> net_error + (SocketMgr \<times> (nat \<rightharpoonup> AuthSession) \<times> log_event list)" where
  "OnSocketOpen env made sock threadIndex m store =
     (case made of
        Inl what \<Rightarrow> Inr (m, store, LOG_MSG_BODY (se_log env) ''network'' Level_Warning
          (Some (''Failed to retrieve client's remote address '' @ what)))
      | Inr newSocket \<Rightarrow>
          (case AuthSession_Start env newSocket of
             Inl e \<Rightarrow> Inl (Session e)
           | Inr s \<Rightarrow>
               (case sm_threads m of
                  None \<Rightarrow> Inl Null_pointer
                | Some ts \<Rightarrow>
                    (if threadIndex < length ts
                     then Inr (m\<lparr>sm_threads := Some (ts[threadIndex := AddSocket sock (ts ! threadIndex)])\<rparr>, store(sock \<mapsto> s), [])
                     else Inl OutOfBounds_access))))"

text \<open>\<open>AsyncAcceptWithCallback\<close>: asking the factory for a socket and waiting for a connection; and
  the completion, which accepts the connection and waits for the next one.\<close>

definition AsyncAcceptWithCallback :: "SocketMgr \<Rightarrow> net_error + SocketMgr" where
  "AsyncAcceptWithCallback m =
     (case sm_acceptor m of
        None \<Rightarrow> Inl Null_pointer
      | Some a \<Rightarrow>
          err_bind (if ac_factory a then GetSocketForAccept m else Inr DefeaultSocketFactory)
            (\<lambda>i. Inr (m\<lparr>sm_acceptor := Some (a\<lparr>ac_accepting := Some i\<rparr>)\<rparr>)))"

datatype accept_result = Accept_error | Blocking_mode_error string | Accepted "string + AuthSession"

definition accept_completed ::
  "session_env \<Rightarrow> accept_result \<Rightarrow> nat \<Rightarrow> SocketMgr \<Rightarrow> (nat \<rightharpoonup> AuthSession)
     \<Rightarrow> net_error + (SocketMgr \<times> (nat \<rightharpoonup> AuthSession) \<times> log_event list)" where
  "accept_completed env result sock m store =
     (case sm_acceptor m of
        None \<Rightarrow> Inl Null_pointer
      | Some a \<Rightarrow>
          (case ac_accepting a of
             None \<Rightarrow> Inr (m, store, [])
           | Some i \<Rightarrow>
               err_bind (case result of
                   Accept_error \<Rightarrow> Inr (m, store, [])
                 | Blocking_mode_error what \<Rightarrow> Inr (m, store, LOG_MSG_BODY (se_log env) ''network'' Level_Info
                     (Some (''Failed to initialize client's socket '' @ what)))
                 | Accepted made \<Rightarrow> OnSocketOpen env made sock i m store) (\<lambda>(m, store, out).
               let m = m\<lparr>sm_acceptor := map_option (\<lambda>a. a\<lparr>ac_accepting := None\<rparr>) (sm_acceptor m)\<rparr> in
               if \<not> ac_closed a then err_bind (AsyncAcceptWithCallback m) (\<lambda>m. Inr (m, store, out))
               else Inr (m, store, out))))"

section \<open>AuthSocketMgr\<close>

text \<open>One thread, whatever the number asked for.\<close>

definition AuthSocketMgr_CreateThreads :: "NetworkThread list option" where
  "AuthSocketMgr_CreateThreads = Some [NetworkThread_new]"

definition AuthSocketMgr_StartNetwork ::
  "Log \<Rightarrow> (string \<Rightarrow> string option) \<Rightarrow> string \<Rightarrow> (bind_call \<Rightarrow> string option)
     \<Rightarrow> string \<Rightarrow> nat \<Rightarrow> int \<Rightarrow> SocketMgr \<Rightarrow> net_error + (bool \<times> SocketMgr \<times> log_event list)" where
  "AuthSocketMgr_StartNetwork lg make_address what sys bindIp port threadCount m =
     err_bind (StartNetwork lg make_address what sys AuthSocketMgr_CreateThreads bindIp port threadCount m) (\<lambda>(ok, m, out).
       if \<not> ok then Inr (False, m, out)
       else err_bind (AsyncAcceptWithCallback m) (\<lambda>m. Inr (True, m, out)))"

text \<open>The operations of a session, as its thread calls them.\<close>

definition session_ops :: "(nat \<Rightarrow> session_env) \<Rightarrow> AuthSession socket_ops" where
  "session_ops env =
     \<lparr>op_IsOpen = IsOpen, op_Update = (\<lambda>sock. AuthSession_Update (env sock)), op_CloseSocket = (\<lambda>sock. close_session (env sock))\<rparr>"

end
