(* ===== verification/Auth_Session_Proofs.thy ===== *)
theory Auth_Session_Proofs
  imports Auth_Session
begin

text \<open>
  The life of a session as a step relation: completed and failed reads, updates of its thread,
  notifications of its socket. \<open>session s vs\<close> says that \<open>s\<close> is reached from a started session
  in which the packets received were judged \<open>vs\<close>. \<open>frame\<close> is what the writing side leaves alone.
\<close>

section \<open>Outstanding reads\<close>

fun is_read :: "sock_call \<Rightarrow> bool" where
  "is_read (Async_read_some h n) = True"
| "is_read _ = False"

fun is_read_done :: "sock_call \<Rightarrow> bool" where
  "is_read_done (Read_done r) = True"
| "is_read_done _ = False"

definition reads :: "'a Socket_scheme \<Rightarrow> nat" where
  "reads s = length (filter is_read (sk_socket s))"

definition reads_done :: "'a Socket_scheme \<Rightarrow> nat" where
  "reads_done s = length (filter is_read_done (sk_socket s))"

definition reading :: "'a Socket_scheme \<Rightarrow> bool" where
  "reading s \<longleftrightarrow> reads s = Suc (reads_done s)"

lemma reads_sock_do [simp]:
  "reads (sock_do c s) = reads s + (if is_read c then 1 else 0)"
  "reads_done (sock_do c s) = reads_done s + (if is_read_done c then 1 else 0)"
  by (simp_all add: reads_def reads_done_def)

lemma reads_cong [simp]:
  "reads (sock_log out s) = reads s" "reads_done (sock_log out s) = reads_done s"
  "reads (s\<lparr>sk_writeQueue := q\<rparr>) = reads s" "reads_done (s\<lparr>sk_writeQueue := q\<rparr>) = reads_done s"
  "reads (s\<lparr>sk_readBuffer := b\<rparr>) = reads s" "reads_done (s\<lparr>sk_readBuffer := b\<rparr>) = reads_done s"
  "reads (s\<lparr>sk_isWritingAsync := w\<rparr>) = reads s" "reads_done (s\<lparr>sk_isWritingAsync := w\<rparr>) = reads_done s"
  "reads (CloseSocket env oc s) = reads s" "reads_done (CloseSocket env oc s) = reads_done s"
  "reads (pop_front env oc s) = reads s" "reads_done (pop_front env oc s) = reads_done s"
  "reads (snd (AsyncProcessQueue s)) = reads s" "reads_done (snd (AsyncProcessQueue s)) = reads_done s"
  by (simp_all add: reads_def reads_done_def pop_front_calls)

lemma reads_status [simp]:
  "reads (s\<lparr>as_status := st\<rparr>) = reads s" "reads_done (s\<lparr>as_status := st\<rparr>) = reads_done s"
  by (simp_all add: reads_def reads_done_def)

lemma as_status_keep [simp]:
  "as_status (sock_do c s) = as_status s" "as_status (sock_log out s) = as_status s"
  "as_status (CloseSocket env oc s) = as_status s" "as_status (pop_front env oc s) = as_status s"
  "as_status (snd (AsyncProcessQueue s)) = as_status s" "as_status (auth_log senv l m s) = as_status s"
  by (simp_all add: sock_do_def sock_log_def CloseSocket_def pop_front_def AsyncProcessQueue_def auth_log_def Let_def split: option.split)

lemma auth_log_keep [simp]:
  "sk_socket (auth_log env l m s) = sk_socket s" "sk_writeQueue (auth_log env l m s) = sk_writeQueue s"
  "sk_closed (auth_log env l m s) = sk_closed s" "sk_closing (auth_log env l m s) = sk_closing s"
  "sk_readBuffer (auth_log env l m s) = sk_readBuffer s" "reads (auth_log env l m s) = reads s"
  "reads_done (auth_log env l m s) = reads_done s" "sent_bytes (auth_log env l m s) = sent_bytes s"
  by (simp_all add: auth_log_def sent_bytes_def)

lemma sent_bytes_keep [simp]:
  "sent_bytes (sock_log out s) = sent_bytes s" "sent_bytes (s\<lparr>sk_readBuffer := b\<rparr>) = sent_bytes s"
  by (simp_all add: sent_bytes_def)

lemma sent_bytes_status [simp]: "sent_bytes (s\<lparr>as_status := st\<rparr>) = sent_bytes s"
  by (simp add: sent_bytes_def)

section \<open>What writing leaves alone\<close>

definition frame :: "AuthSession \<Rightarrow> AuthSession \<Rightarrow> bool" where
  "frame s s' \<longleftrightarrow> as_status s' = as_status s \<and> sk_readBuffer s' = sk_readBuffer s \<and> sk_closing s' = sk_closing s
     \<and> (\<not> sk_closing s \<longrightarrow> sk_closed s' = sk_closed s) \<and> reads s' = reads s \<and> reads_done s' = reads_done s
     \<and> (sk_writeQueue s = [] \<longrightarrow> sk_writeQueue s' = [] \<and> sent_bytes s' = sent_bytes s)"

lemma frame_refl [simp]: "frame s s"
  by (simp add: frame_def)

lemma frame_trans: "frame a b \<Longrightarrow> frame b c \<Longrightarrow> frame a c"
  by (auto simp: frame_def)

lemma HandleQueue_frame: "HandleQueue env oc s = Some (again, s') \<Longrightarrow> frame s s'"
  by (auto simp: HandleQueue_def Let_def frame_def AsyncProcessQueue_def pop_front_closed
      split: list.splits option.splits write_result.splits if_splits)

lemma HandleQueue_loop_frame: "HandleQueue_loop env oc s = Some s' \<Longrightarrow> frame s s'"
proof (induction env oc s arbitrary: s' rule: HandleQueue_loop.induct)
  case (1 env oc s)
  from 1(2) obtain again s1 where s1: "HandleQueue env oc s = Some (again, s1)"
      "(if again then HandleQueue_loop env oc s1 else Some s1) = Some s'"
    by (subst (asm) HandleQueue_loop.simps) (auto split: option.splits)
  with 1(1) [OF s1(1) refl] HandleQueue_frame [OF s1(1)] frame_trans show ?case by (auto split: if_splits)
qed

lemma AuthSession_Update_frame: "AuthSession_Update env s = Inr (b, s') \<Longrightarrow> frame s s'"
  by (auto simp: AuthSession_Update_def Socket_Update_def err_bind_Inr_iff defined_def HandleQueue_loop_frame
      split: option.splits if_splits)

lemma WriteHandlerWrapper_frame:
  assumes "WriteHandlerWrapper env oc s = Some s'"
  shows "frame s s'"
proof -
  let ?t = "sock_do Writable (s\<lparr>sk_isWritingAsync := False\<rparr>)"
  obtain again where "HandleQueue env oc ?t = Some (again, s')" using assms by (auto simp: WriteHandlerWrapper_def)
  from HandleQueue_frame [OF this] have "frame ?t s'" .
  moreover have "frame s ?t" by (simp add: frame_def)
  ultimately show ?thesis by (rule frame_trans [rotated])
qed

section \<open>The read handler\<close>

lemma SendPacket_result:
  assumes "SendPacket env packet s = Inr s'"
  shows "sk_readBuffer s' = sk_readBuffer s \<and> sk_closed s' = sk_closed s \<and> sk_closing s' = sk_closing s
    \<and> as_status s' = as_status s \<and> reads s' = reads s \<and> reads_done s' = reads_done s \<and> sent_bytes s' = sent_bytes s"
  using assms by (auto simp: SendPacket_def QueuePacket_def err_bind_Inr_iff split: if_splits sum.splits)

fun handler_status :: "auth_handler \<Rightarrow> AuthStatus" where
  "handler_status HandleLogon = NotAuthed"
| "handler_status HandleNewOrderSingle = Authed"

lemma dispatch_status: "dispatch env s = Inr (Handle h) \<Longrightarrow> as_status s = handler_status h"
  by (auto simp: dispatch_def err_bind_Inr_iff Let_def Handlers_def split: if_splits)

text \<open>A handler that accepts leaves the session authenticated; one that refuses changes nothing.\<close>

lemma call_handler_result:
  assumes "call_handler env h s = Inr (ok, s')" and "as_status s = handler_status h"
  shows "sk_readBuffer s' = sk_readBuffer s \<and> sk_closed s' = sk_closed s \<and> sk_closing s' = sk_closing s
    \<and> reads s' = reads s \<and> reads_done s' = reads_done s \<and> sent_bytes s' = sent_bytes s
    \<and> (if ok then as_status s' = Authed else as_status s' = as_status s \<and> sk_writeQueue s' = sk_writeQueue s)"
  using assms
  by (cases h)
     (auto simp: HandleLogonMessage_def HandleNewOrderSingleMessage_def err_bind_Inr_iff Let_def dest!: SendPacket_result
       split: if_splits prod.splits)

lemma AsyncRead_reset:
  assumes "IsOpen s" and "length (mb_storage (sk_readBuffer s)) = 4096"
  shows "\<exists>s'. AsyncRead (s\<lparr>sk_readBuffer := MessageBuffer_Reset (sk_readBuffer s)\<rparr>) = Some s'
    \<and> sk_readBuffer s' = \<lparr>mb_wpos = 0, mb_rpos = 0, mb_storage = mb_storage (sk_readBuffer s)\<rparr>
    \<and> as_status s' = as_status s \<and> sk_closed s' = sk_closed s \<and> sk_closing s' = sk_closing s \<and> reads s' = Suc (reads s)
    \<and> reads_done s' = reads_done s \<and> sent_bytes s' = sent_bytes s \<and> sk_writeQueue s' = sk_writeQueue s"
  using assms
  by (simp add: AsyncRead_def AsyncRead_to_def IsOpen_def MessageBuffer_Normalize_def MessageBuffer_EnsureFreeSpace_def
      MessageBuffer_GetRemainingSpace_def MessageBuffer_Reset_def sz_sub_def size_t_mod_def Let_def)

lemma ReadHandler_result:
  assumes "dispatch env s = Inr v" and "ReadHandler env s = Inr s'" and "IsOpen s" and "length (mb_storage (sk_readBuffer s)) = 4096"
  shows "reads_done s' = reads_done s \<and> \<not> sk_closing s' \<and> sent_bytes s' = sent_bytes s
    \<and> (if \<exists>h. v = Handle h \<and> \<not> sk_closed s'
        then as_status s' = Authed \<and> reads s' = Suc (reads s)
          \<and> sk_readBuffer s' = \<lparr>mb_wpos = 0, mb_rpos = 0, mb_storage = mb_storage (sk_readBuffer s)\<rparr>
        else as_status s' = as_status s \<and> reads s' = reads s \<and> sk_writeQueue s' = sk_writeQueue s)"
proof (cases "\<exists>h. v = Handle h")
  case False
  then show ?thesis using assms by (cases v) (auto simp: ReadHandler_def IsOpen_def)
next
  case True
  then obtain h where h: "v = Handle h" by blast
  from assms(2) obtain ok s1 where one: "call_handler env h s = Inr (ok, s1)"
      "(if \<not> ok then Inr (close_session env s1)
        else defined (AsyncRead (s1\<lparr>sk_readBuffer := MessageBuffer_Reset (sk_readBuffer s1)\<rparr>))) = Inr s'"
    unfolding ReadHandler_def assms(1) h by (auto simp: err_bind_Inr_iff)
  note r = call_handler_result [OF one(1) dispatch_status [OF assms(1) [unfolded h]]]
  show ?thesis
  proof (cases ok)
    case True
    have "IsOpen s1" "length (mb_storage (sk_readBuffer s1)) = 4096" using r assms(3,4) by (auto simp: IsOpen_def)
    from AsyncRead_reset [OF this] True one r h assms(3) show ?thesis by (auto simp: IsOpen_def)
  next
    case False
    then show ?thesis using one r h assms(3) by (auto simp: IsOpen_def)
  qed
qed

definition received :: "u8 list \<Rightarrow> AuthSession \<Rightarrow> AuthSession" where
  "received data s =
     (sock_do (Read_done (Some data)) s)\<lparr>sk_readBuffer :=
        \<lparr>mb_wpos = length data, mb_rpos = 0, mb_storage = data @ drop (length data) (mb_storage (sk_readBuffer s))\<rparr>\<rparr>"

definition ready :: "AuthSession \<Rightarrow> bool" where
  "ready s \<longleftrightarrow> mb_rpos (sk_readBuffer s) = 0 \<and> mb_wpos (sk_readBuffer s) = 0 \<and> length (mb_storage (sk_readBuffer s)) = 4096"

lemma session_read_received:
  assumes "ready s" and "length data \<le> 4096"
  shows "session_read env (Some data) s = ReadHandler env (received data s)"
proof -
  obtain st where b: "sk_readBuffer s = \<lparr>mb_wpos = 0, mb_rpos = 0, mb_storage = st\<rparr>" "length st = 4096"
    using assms(1) by (cases "sk_readBuffer s") (auto simp: ready_def)
  then show ?thesis using assms(2)
    by (simp add: session_read_def ReadHandlerInternal_def MessageBuffer_fill_def mem_write_def MessageBuffer_WriteCompleted_def
        sz_add_def size_t_mod_def blit_def received_def)
qed

lemma received_sel [simp]:
  "as_status (received data s) = as_status s" "sk_closed (received data s) = sk_closed s"
  "sk_closing (received data s) = sk_closing s" "sk_writeQueue (received data s) = sk_writeQueue s"
  "reads (received data s) = reads s" "reads_done (received data s) = Suc (reads_done s)"
  "sent_bytes (received data s) = sent_bytes s"
  "sk_readBuffer (received data s) = \<lparr>mb_wpos = length data, mb_rpos = 0,
      mb_storage = data @ drop (length data) (mb_storage (sk_readBuffer s))\<rparr>"
  by (simp_all add: received_def)

section \<open>The life of a session\<close>

inductive session_step :: "AuthSession \<Rightarrow> verdict list \<Rightarrow> AuthSession \<Rightarrow> bool" where
  Read: "reading s \<Longrightarrow> length data \<le> 4096 \<Longrightarrow> dispatch env (received data s) = Inr v \<Longrightarrow>
    session_read env (Some data) s = Inr s' \<Longrightarrow> session_step s [v] s'"
| Read_error: "reading s \<Longrightarrow> session_read env None s = Inr s' \<Longrightarrow> session_step s [] s'"
| Update: "AuthSession_Update env s = Inr (b, s') \<Longrightarrow> session_step s [] s'"
| Writable: "sk_isWritingAsync s \<Longrightarrow> WriteHandlerWrapper (se_sock env) (AuthSession_OnClose env) s = Some s' \<Longrightarrow>
    session_step s [] s'"

inductive session :: "AuthSession \<Rightarrow> verdict list \<Rightarrow> bool" where
  Start: "AuthSession_Start env (AuthSession_new address port) = Inr s \<Longrightarrow> session s []"
| Step: "session s vs \<Longrightarrow> session_step s l s' \<Longrightarrow> session s' (vs @ l)"

inductive_cases session_stepE: "session_step s l s'"

text \<open>The conversation so far, as far as it went well.\<close>

fun conversation :: "AuthStatus \<Rightarrow> verdict list \<Rightarrow> bool" where
  "conversation NotAuthed vs \<longleftrightarrow> vs = []"
| "conversation Authed vs \<longleftrightarrow> (\<exists>k. vs = Handle HandleLogon # replicate k (Handle HandleNewOrderSingle))"

definition well_formed :: "AuthStatus \<Rightarrow> verdict list \<Rightarrow> bool" where
  "well_formed st vs \<longleftrightarrow> (\<exists>ws rest. vs = ws @ rest \<and> conversation st ws
     \<and> (rest = [] \<or> (\<exists>v. rest = [v] \<and> (\<forall>h. v = Handle h \<longrightarrow> handler_status h = st))))"

lemma well_formed_intros:
  "conversation st vs \<Longrightarrow> well_formed st vs"
  "conversation st vs \<Longrightarrow> (\<And>h. v = Handle h \<Longrightarrow> handler_status h = st) \<Longrightarrow> well_formed st (vs @ [v])"
  unfolding well_formed_def by blast+

definition session_inv :: "AuthSession \<Rightarrow> verdict list \<Rightarrow> bool" where
  "session_inv s vs \<longleftrightarrow> \<not> sk_closing s \<and> reads s \<le> Suc (reads_done s)
     \<and> (reading s \<longrightarrow> \<not> sk_closed s \<and> ready s \<and> conversation (as_status s) vs)
     \<and> (as_status s = NotAuthed \<longrightarrow> sk_writeQueue s = [] \<and> sent_bytes s = [])
     \<and> well_formed (as_status s) vs"

lemma frame_inv: "frame s s' \<Longrightarrow> session_inv s vs \<Longrightarrow> session_inv s' vs"
  unfolding frame_def session_inv_def reading_def ready_def by auto

lemma Start_inv:
  assumes "AuthSession_Start env (AuthSession_new address port) = Inr s"
  shows "session_inv s []"
  using assms
  by (auto simp: AuthSession_Start_def AsyncRead_def AsyncRead_to_def IsOpen_def AuthSession_new_def Socket.extend_def Socket_new_def
      MessageBuffer_Normalize_def MessageBuffer_EnsureFreeSpace_def MessageBuffer_GetRemainingSpace_def sz_sub_def size_t_mod_def
      MessageBuffer_Resize_def MessageBuffer_default_def READ_BLOCK_SIZE_def Let_def session_inv_def reading_def ready_def well_formed_intros
      auth_log_def sock_log_def sock_do_def reads_def reads_done_def sent_bytes_def)

lemma Read_inv:
  assumes inv: "session_inv s vs" and rd: "reading s" and len: "length data \<le> 4096"
    and v: "dispatch env (received data s) = Inr v" and s': "session_read env (Some data) s = Inr s'"
  shows "session_inv s' (vs @ [v])"
proof -
  let ?r = "received data s"
  have s: "\<not> sk_closed s" "\<not> sk_closing s" "ready s" "conversation (as_status s) vs" "reads s = Suc (reads_done s)"
      "as_status s = NotAuthed \<Longrightarrow> sk_writeQueue s = [] \<and> sent_bytes s = []"
    using inv rd by (auto simp: session_inv_def reading_def)
  have r: "IsOpen ?r" "length (mb_storage (sk_readBuffer ?r)) = 4096" using s len by (auto simp: IsOpen_def ready_def)
  have "ReadHandler env ?r = Inr s'" using s' session_read_received [OF s(3) len] by simp
  note res = ReadHandler_result [OF v this r]
  show ?thesis
  proof (cases "\<exists>h. v = Handle h \<and> \<not> sk_closed s'")
    case True
    then obtain h where h: "v = Handle h" "\<not> sk_closed s'" by blast
    have "as_status s = handler_status h" using dispatch_status [OF v [unfolded h]] by simp
    with s(4) have "conversation Authed (vs @ [v])"
      unfolding h(1) by (cases h) (auto simp: replicate_append_same intro: exI [of _ "Suc _"] exI [of _ 0])
    then show ?thesis using True res s r len well_formed_intros(1)
      by (auto simp: session_inv_def reading_def ready_def)
  next
    case False
    have "handler_status h = as_status s" if "v = Handle h" for h using dispatch_status [of env ?r h] v that by simp
    with s(4) have "well_formed (as_status s) (vs @ [v])" by (rule well_formed_intros)
    then show ?thesis using False res s by (auto simp: session_inv_def reading_def)
  qed
qed

lemma Read_error_inv:
  assumes inv: "session_inv s vs" and rd: "reading s" and s': "session_read env None s = Inr s'"
  shows "session_inv s' vs"
proof -
  have "s' = close_session env (sock_do (Read_done None) s)" using s' by (simp add: session_read_def ReadHandlerInternal_def)
  then show ?thesis using inv rd by (auto simp: session_inv_def reading_def)
qed

lemma session_step_inv:
  assumes "session_step s l s'" and "session_inv s vs"
  shows "session_inv s' (vs @ l)"
  using assms
  by cases (auto intro: Read_inv Read_error_inv frame_inv AuthSession_Update_frame WriteHandlerWrapper_frame)

lemma session_invariant: "session s vs \<Longrightarrow> session_inv s vs"
  by (induction rule: session.induct) (auto intro: Start_inv session_step_inv)

text \<open>A session that does not read stays as it is, apart from its write queue.\<close>

lemma not_reading_step:
  assumes "session_step s l s'" and "\<not> reading s"
  shows "l = [] \<and> frame s s'"
  using assms by cases (auto intro: AuthSession_Update_frame WriteHandlerWrapper_frame)

lemma not_reading_steps:
  "(\<lambda>a b. \<exists>l. session_step a l b)\<^sup>*\<^sup>* s s' \<Longrightarrow> \<not> reading s \<Longrightarrow> frame s s'"
proof (induction rule: rtranclp_induct)
  case (step y z)
  then obtain l where "session_step y l z" "frame s y" by blast
  moreover have "\<not> reading y" using step.prems \<open>frame s y\<close> by (simp add: frame_def reading_def)
  ultimately show ?case using not_reading_step frame_trans by blast
qed simp

text \<open>The protocol, of a session whose messages were judged \<open>vs\<close>.\<close>

definition follows_protocol :: "AuthSession \<Rightarrow> verdict list \<Rightarrow> bool" where
  "follows_protocol s vs \<longleftrightarrow> (\<exists>ws rest. vs = ws @ rest \<and> length rest \<le> 1
      \<and> (case as_status s of
            NotAuthed \<Rightarrow> ws = [] \<and> rest \<noteq> [Handle HandleNewOrderSingle] \<and> sk_writeQueue s = [] \<and> sent_bytes s = []
          | Authed \<Rightarrow> rest \<noteq> [Handle HandleLogon] \<and> (\<exists>k. ws = Handle HandleLogon # replicate k (Handle HandleNewOrderSingle))))
    \<and> reads s \<le> Suc (reads_done s) \<and> (reading s \<longrightarrow> IsOpen s)"

lemma session_follows_protocol:
  assumes "session s vs"
  shows "follows_protocol s vs"
proof -
  from session_invariant [OF assms] have inv: "session_inv s vs" .
  then obtain ws rest where w: "vs = ws @ rest" "conversation (as_status s) ws"
      "rest = [] \<or> (\<exists>v. rest = [v] \<and> (\<forall>h. v = Handle h \<longrightarrow> handler_status h = as_status s))"
    unfolding session_inv_def well_formed_def by blast
  have "length rest \<le> 1 \<and> (case as_status s of
        NotAuthed \<Rightarrow> ws = [] \<and> rest \<noteq> [Handle HandleNewOrderSingle] \<and> sk_writeQueue s = [] \<and> sent_bytes s = []
      | Authed \<Rightarrow> rest \<noteq> [Handle HandleLogon] \<and> (\<exists>k. ws = Handle HandleLogon # replicate k (Handle HandleNewOrderSingle)))"
    using w(2,3) inv by (cases "as_status s") (auto simp: session_inv_def)
  with w(1) inv show ?thesis unfolding follows_protocol_def by (auto simp: session_inv_def IsOpen_def)
qed

section \<open>Properties\<close>

text \<open>C4: The protocol of a session, for every sequence of reads, read errors, updates and
  notifications: a New Order Single is handled only after a Logon was accepted, a Logon only once, and
  any other message ends the conversation; until the Logon is accepted nothing is sent to the client;
  at most one read is outstanding, and only on an open socket.\<close>

theorem session_protocol:
  assumes "session s vs"
  shows "(\<exists>ws rest. vs = ws @ rest \<and> length rest \<le> 1
      \<and> (case as_status s of
            NotAuthed \<Rightarrow> ws = [] \<and> rest \<noteq> [Handle HandleNewOrderSingle] \<and> sk_writeQueue s = [] \<and> sent_bytes s = []
          | Authed \<Rightarrow> rest \<noteq> [Handle HandleLogon] \<and> (\<exists>k. ws = Handle HandleLogon # replicate k (Handle HandleNewOrderSingle))))
    \<and> reads s \<le> Suc (reads_done s) \<and> (reading s \<longrightarrow> IsOpen s)"
  using session_follows_protocol [OF assms] unfolding follows_protocol_def .

text \<open>C10: What becomes of a session that has read something: it is closed, or it reads on, or -- after
  a command it does not know or that is not valid -- it stays open without reading, and nothing that
  happens later makes it read or closes it.\<close>

theorem read_outcome:
  assumes "session s vs" and "reading s" and "length data \<le> 4096" and "dispatch env (received data s) = Inr v"
    and "session_read env (Some data) s = Inr s'"
  shows "(sk_closed s' \<and> \<not> reading s') \<or> (IsOpen s' \<and> reading s' \<and> (\<exists>h. v = Handle h))
    \<or> ((\<exists>c. v = Unknown_command c \<or> v = Invalid_command c)
        \<and> (\<forall>t. (\<lambda>a b. \<exists>l. session_step a l b)\<^sup>*\<^sup>* s' t \<longrightarrow> IsOpen t \<and> \<not> reading t))"
proof -
  let ?r = "received data s"
  have s: "\<not> sk_closed s" "\<not> sk_closing s" "ready s" "reads s = Suc (reads_done s)"
    using session_invariant [OF assms(1)] assms(2) by (auto simp: session_inv_def reading_def)
  have r: "IsOpen ?r" "length (mb_storage (sk_readBuffer ?r)) = 4096" using s assms(3) by (auto simp: IsOpen_def ready_def)
  have rh: "ReadHandler env ?r = Inr s'" using assms(5) session_read_received [OF s(3) assms(3)] by simp
  note res = ReadHandler_result [OF assms(4) rh r]
  show ?thesis
  proof (cases "sk_closed s'")
    case True
    then show ?thesis using res s by (simp add: reading_def)
  next
    case open': False
    show ?thesis
    proof (cases "\<exists>h. v = Handle h")
      case True
      then show ?thesis using open' res s by (auto simp: reading_def IsOpen_def)
    next
      case False
      then have "\<exists>c. v = Unknown_command c \<or> v = Invalid_command c"
        using rh open' unfolding ReadHandler_def assms(4) by (cases v) auto
      moreover have "IsOpen t \<and> \<not> reading t" if "(\<lambda>a b. \<exists>l. session_step a l b)\<^sup>*\<^sup>* s' t" for t
      proof -
        have dead: "\<not> reading s'" "\<not> sk_closing s'" using False res s by (auto simp: reading_def)
        show ?thesis using not_reading_steps [OF that dead(1)] dead open' by (simp add: frame_def reading_def IsOpen_def)
      qed
      ultimately show ?thesis by blast
    qed
  qed
qed

end
