(* ===== verification/Auth_Session_Messages.thy ===== *)
theory Auth_Session_Messages
  imports Auth_Session_Proofs
begin

text \<open>
  A session and the messages of \<^verbatim>\<open>FixMessage.cpp\<close>: an accepted Logon from the connection to the
  reply in the write queue, a version field that ends the server, and an order that is accepted again
  from stale bytes; then a concrete session, on which the properties of both theories are witnessed.
\<close>

lemma read_protocol_received:
  assumes "9 \<le> length data"
  shows "read_protocol env (received data s) =
    (let d = takeWhile (\<lambda>c. c \<noteq> 0) (take 7 (drop 2 data)) in
     if is_valid d then Inr (chars d) else Inl (Uncaught (BB (ByteBufferInvalidValueException ''string'' (chars d)))))"
proof -
  let ?d = "take 7 (drop 2 data)"
  let ?b = "\<lparr>bb_rpos = 0, bb_wpos = 0, bb_storage = ?d, bb_capacity = 7\<rparr>"
  have len: "length ?d = 7" using assms by simp
  then have ne: "?d \<noteq> []" by auto
  have rd: "mem_read (Suc (Suc 0)) 7 (data @ rest) = Some ?d" for rest
    using assms by (simp add: mem_read_def segment_def numeral_2_eq_2)
  have "MessageBuffer_Write ?d (MessageBuffer_Resize 7 MessageBuffer_default) = Some \<lparr>mb_wpos = 7, mb_rpos = 0, mb_storage = ?d\<rparr>"
    using len ne
    by (simp add: MessageBuffer_Write_def MessageBuffer_Resize_def MessageBuffer_default_def mem_write_def
        MessageBuffer_WriteCompleted_def sz_add_def size_t_mod_def blit_def)
  moreover have "bb_readable ?b" using len by (simp add: bb_readable_def bb_wf_def size_t_mod_def)
  ultimately show ?thesis
    using rd len ReadCString_readable [of ?b "se_endian env" True]
    by (simp add: read_protocol_def ByteBuffer_of_MessageBuffer_def MessageBuffer_Move_def ByteBuffer_read_string_def
        bb_unread_def Let_def del: length_take)
qed

text \<open>A client can end the server with nine bytes: when the seven bytes where the protocol version
  stands are not UTF-8, reading them throws an exception that neither the read handler nor its caller
  catches.\<close>

theorem invalid_version_escapes:
  assumes "ready s" and "9 \<le> length data" and "length data \<le> 4096"
    and "0 \<notin> set (take 7 (drop 2 data))" and "\<not> is_valid (take 7 (drop 2 data))"
  shows "session_read env (Some data) s
    = Inl (Uncaught (BB (ByteBufferInvalidValueException ''string'' (chars (take 7 (drop 2 data))))))"
proof -
  have "takeWhile (\<lambda>c. c \<noteq> 0) (take 7 (drop 2 data)) = take 7 (drop 2 data)"
    using assms(4) by (auto simp: takeWhile_eq_all_conv)
  then have "read_protocol env (received data s)
      = Inl (Uncaught (BB (ByteBufferInvalidValueException ''string'' (chars (take 7 (drop 2 data))))))"
    using assms(5) unfolding read_protocol_received [OF assms(2)] Let_def by (simp only: if_False)
  then show ?thesis using session_read_received [OF assms(1,3)] by (simp add: ReadHandler_def dispatch_def)
qed

lemma packet_copy_cong: "mb_storage (sk_readBuffer a) = mb_storage (sk_readBuffer b) \<Longrightarrow> packet_copy a = packet_copy b"
  by (simp add: packet_copy_def ByteBuffer_of_MessageBuffer_def MessageBuffer_Move_def MessageBuffer_copy_def Let_def)

lemma dispatch_cong:
  assumes "mb_storage (sk_readBuffer a) = mb_storage (sk_readBuffer b)" and "mb_rpos (sk_readBuffer a) = mb_rpos (sk_readBuffer b)"
    and "as_status a = as_status b"
  shows "dispatch env a = dispatch env b"
proof -
  have "read_protocol env a = read_protocol env b" unfolding read_protocol_def Let_def using assms(1,2) by (simp only:)
  then show ?thesis unfolding dispatch_def packet_copy_cong [OF assms(1)] assms(3) by simp
qed

lemma overwrite_prefix: "take k xs @ drop (length (take k xs)) (xs @ ys) = xs @ ys"
proof -
  have "take k xs = take (length (take k xs)) (xs @ ys)" by (simp add: min_def)
  then show ?thesis by (metis append_take_drop_id)
qed

text \<open>C40: The read buffer is reset, not cleared, and a packet is always the whole buffer: once an order
  has been accepted, a client that sends the first bytes of it again -- a single byte is enough --
  has the same order accepted again.\<close>

theorem order_replayed:
  assumes "ready s" and "IsOpen s" and "length data \<le> 4096"
    and "dispatch env (received data s) = Inr (Handle HandleNewOrderSingle)"
    and "session_read env (Some data) s = Inr s'" and "\<not> sk_closed s'"
  shows "\<exists>s''. dispatch env (received (take k data) s') = Inr (Handle HandleNewOrderSingle)
    \<and> session_read env (Some (take k data)) s' = Inr s'' \<and> IsOpen s''"
proof -
  let ?r = "received data s" and ?t = "received (take k data) s'"
  have r: "IsOpen ?r" "length (mb_storage (sk_readBuffer ?r)) = 4096" using assms(1-3) by (auto simp: IsOpen_def ready_def)
  have rh: "ReadHandler env ?r = Inr s'" using assms(5) session_read_received [OF assms(1,3)] by simp
  note res = ReadHandler_result [OF assms(4) rh r]
  have st: "as_status s = Authed" using dispatch_status [OF assms(4)] by simp
  have s': "as_status s' = Authed" "ready s'" "\<not> sk_closing s'"
      "mb_storage (sk_readBuffer s') = data @ drop (length data) (mb_storage (sk_readBuffer s))"
    using res assms(6) r by (auto simp: ready_def)
  have same: "mb_storage (sk_readBuffer ?t) = mb_storage (sk_readBuffer ?r)"
    using s'(4) overwrite_prefix by simp
  have d: "dispatch env ?t = Inr (Handle HandleNewOrderSingle)"
    using assms(4) dispatch_cong [OF same] s' st by simp
  have copy: "packet_copy ?t = packet_copy ?r" using same by (rule packet_copy_cong)
  obtain p out where ok: "IsReadNewOrderSingleMessage (se_log env) (se_endian env) (se_elapsed env) (se_addr_copy env) (packet_copy ?r)
      = Inr (True, p, out)"
    using rh assms(6) unfolding ReadHandler_def assms(4)
    by (auto simp: HandleNewOrderSingleMessage_def err_bind_Inr_iff uncaught_def split: sum.splits if_splits)
  have "IsOpen (sock_log out ?t)" "length (mb_storage (sk_readBuffer (sock_log out ?t))) = 4096"
    using s' assms(6) same r by (auto simp: IsOpen_def)
  from AsyncRead_reset [OF this] obtain s'' where
      "AsyncRead ((sock_log out ?t)\<lparr>sk_readBuffer := MessageBuffer_Reset (sk_readBuffer (sock_log out ?t))\<rparr>) = Some s''"
      "sk_closed s'' = sk_closed (sock_log out ?t)" "sk_closing s'' = sk_closing (sock_log out ?t)" by blast
  then have "ReadHandler env ?t = Inr s'' \<and> IsOpen s''"
    using s' assms(6) unfolding ReadHandler_def d by (simp add: HandleNewOrderSingleMessage_def copy ok IsOpen_def)
  with d show ?thesis using session_read_received [OF s'(2), of "take k data"] assms(3) by (auto simp: min_def)
qed

lemma scan_tag_append: "scan_tag stop m i t = Inr x \<Longrightarrow> scan_tag stop (m @ z) i t = Inr x"
proof (induction stop m i t rule: scan_tag.induct)
  case (1 stop m i t)
  have i: "0 \<le> i" "i < int (length m)" using 1(2) by (subst (asm) scan_tag.simps, simp split: if_splits)+
  then have nth: "(m @ z) ! nat i = m ! nat i" by (simp add: nth_append nat_less_iff)
  show ?case
  proof (cases "m ! nat i = CHR ''='' \<or> stop \<and> m ! nat i = SOH")
    case True
    then show ?thesis using 1(2) i nth by (subst scan_tag.simps, subst (asm) scan_tag.simps) simp
  next
    case False
    with 1(2) i have "scan_tag stop m (i + 1) (int_wrap 32 (int_wrap 32 (t * 10) + (schar (m ! nat i) - 48))) = Inr x"
      by (subst (asm) scan_tag.simps) (simp add: Let_def)
    from 1(1) [OF conjI [OF i] refl False this] show ?thesis using i nth False by (subst scan_tag.simps) (auto simp: Let_def)
  qed
qed

lemma scan_tag_nuls:
  assumes "int (length m) \<le> i"
  shows "scan_tag stop (m @ replicate n (CHR 0x00)) i t = Inl out_of_buffer"
  using assms
proof (induction stop "m @ replicate n (CHR 0x00)" i t rule: scan_tag.induct)
  case (1 stop i t)
  show ?case
  proof (cases "i < int (length m + n)")
    case True
    then have "(m @ replicate n (CHR 0x00)) ! nat i = CHR 0x00" using 1(2) by (simp add: nth_append nat_less_iff)
    with 1 True show ?thesis by (subst scan_tag.simps) (simp add: Let_def)
  qed (simp add: scan_tag.simps)
qed

lemma no_data_fields_nuls:
  assumes "no_data_fields (m @ [SOH])"
  shows "no_data_fields (m @ SOH # replicate n (CHR 0x00))"
proof -
  let ?m = "m @ [SOH]" and ?z = "replicate n (CHR 0x00)"
  have "case scan_tag True (?m @ ?z) (int p) 0 of Inr (i, tag) \<Rightarrow> \<not> is_tag_a_data_length tag | Inl _ \<Rightarrow> True" for p
  proof (cases "p < length ?m")
    case True
    then have "\<exists>j tag'. scan_tag True ?m (int p) 0 = Inr (j, tag') \<and> int p \<le> j \<and> j \<le> int (length m)"
      by (intro scan_tag_stops) (simp_all add: nth_append)
    then obtain j t where jt: "scan_tag True ?m (int p) 0 = Inr (j, t)" by blast
    then have "\<not> is_tag_a_data_length t" using no_data_fieldsD [OF assms jt] True by simp
    then show ?thesis unfolding scan_tag_append [OF jt] by simp
  next
    case False
    then have "scan_tag True (?m @ ?z) (int p) 0 = Inl out_of_buffer" by (intro scan_tag_nuls) simp
    then show ?thesis by simp
  qed
  then show ?thesis by (simp add: no_data_fields_def list_all_iff)
qed

text \<open>A message the library could have written, at the start of the buffer: it is a safe packet, and its
  type is the command.\<close>

lemma message_packet:
  assumes buf: "chars (bb_storage p) = message_text ''FIX.5.0'' ((35, mt) # fs) @ replicate n (CHR 0x00)"
    and rd: "bb_readable p" and mt: "mt \<noteq> []" "SOH \<notin> set mt" "CHR 0x00 \<notin> set mt"
    and plain: "no_data_fields (message_text ''FIX.5.0'' ((35, mt) # fs))"
    and len: "length (message_text ''FIX.5.0'' ((35, mt) # fs)) + n \<le> 4096" and addr: "addr + 4096 < 2 ^ 64"
  shows "\<exists>r. safe_packet addr p r \<and> mr_is_valid r \<and> GetCommand addr p = Inr mt"
proof -
  let ?m = "message_text ''FIX.5.0'' ((35, mt) # fs)" and ?z = "replicate n (CHR 0x00)" and ?B = "body_text ((35, mt) # fs)"
  have blen: "length ?B < 1000000" using len by (simp add: message_text_def Let_def)
  have ver: "SOH \<notin> set ''FIX.5.0''" "7 \<le> length ''FIX.5.0''" "length ''FIX.5.0'' \<le> 10" by simp_all
  obtain r where r: "message_reader_init addr (?m @ ?z) = Inr r" "reads_message r 19 ((35, mt) # fs)" "mr_buffer r = ?m @ ?z"
    using reader_accepts [OF ver mt(1,2) blen, of addr ?z] len addr by auto
  have val: "mr_is_valid r" and bgn: "mr_begin r = field_iterator 19 (35, mt)"
      and fin: "it_buffer (mr_end r) = int (19 + length ?B)"
    using r(2) by (simp_all add: reads_message_def)
  have B: "?B = field_text (35, mt) @ body_text fs" by (simp add: body_text_def)
  obtain cs where "drop 19 (mr_buffer r) = field_text (35, mt) @ cs"
    using r(2) unfolding reads_message_def B by auto
  from value_field [OF this] have v: "as_string r (mr_begin r) = Inr mt" unfolding bgn by simp
  then have vr: "value_range r (mr_begin r) = Inr mt" by (simp add: as_string_def split: if_splits sum.splits)
  have vend: "it_vend (mr_begin r) < it_buffer (mr_end r)"
    using field_iterator_next [of 19 "(35, mt)"] unfolding bgn fin B by simp
  obtain m' where m': "?m = m' @ [SOH]" by (simp add: message_text_def trailer_text_def Let_def)
  have "no_data_fields (?m @ ?z)" using no_data_fields_nuls plain unfolding m' by simp
  moreover have "bb_storage p \<noteq> []" using buf m' by auto
  ultimately have "safe_packet addr p r" using r(1) rd vend vr mt(3) by (simp add: safe_packet_def buf)
  moreover have "GetCommand addr p = Inr mt"
    using r(1) val v \<open>bb_storage p \<noteq> []\<close>
    by (simp add: GetCommand_def packet_reader_def ByteBuffer_contents_def buf hf_def reader_begin_def)
  ultimately show ?thesis using val by blast
qed

lemma IsReadLogonMessage_keeps:
  assumes "IsReadLogonMessage lg e t human addr packet = Inr (ok, packet', out)" and "ok"
  shows "packet' = packet"
  using assms
  by (auto simp: IsReadLogonMessage_def read_message_def err_bind_Inr_iff split: if_splits sum.splits prod.splits option.splits)

lemma SendPacket_queues:
  assumes "IsOpen s" and "bb_storage p \<noteq> []" and "length (bb_storage p) < size_t_mod div 4"
  shows "\<exists>m. SendPacket env p s = Inr (QueuePacket m s) \<and> mb_invar m \<and> mb_active m = bb_storage p"
proof -
  let ?b = "MessageBuffer_sized (length (bb_storage p))"
  have b: "mb_invar ?b" "mb_active ?b = []" "length (bb_storage p) \<le> MessageBuffer_GetRemainingSpace ?b"
    using assms(3) by (simp_all add: MessageBuffer_sized_def mb_invar_def mb_active_def segment_def
        MessageBuffer_GetRemainingSpace_def sz_sub_def size_t_mod_def)
  from Write_correct [OF b(1,3)] b(2) assms(1,2) show ?thesis
    by (auto simp: SendPacket_def ByteBuffer_empty_def ByteBuffer_contents_def ByteBuffer_size_def)
qed

lemma Start_state:
  assumes "AuthSession_Start env (AuthSession_new address port) = Inr s"
  shows "mb_storage (sk_readBuffer s) = replicate 4096 0" "sk_writeQueue s = []" "as_status s = NotAuthed" "ready s" "IsOpen s"
    "reading s" "reads_done s = 0"
  using assms
  by (auto simp: AuthSession_Start_def AsyncRead_def AsyncRead_to_def IsOpen_def AuthSession_new_def Socket.extend_def Socket_new_def
      MessageBuffer_Normalize_def MessageBuffer_EnsureFreeSpace_def MessageBuffer_GetRemainingSpace_def sz_sub_def size_t_mod_def
      MessageBuffer_Resize_def MessageBuffer_default_def READ_BLOCK_SIZE_def Let_def reading_def ready_def
      auth_log_def sock_log_def sock_do_def reads_def reads_done_def vec_resize_def)

lemma message_version: "take 7 (drop 2 (bytes (message_text ''FIX.5.0'' fs))) = bytes ''FIX.5.0''"
  "9 \<le> length (bytes (message_text ''FIX.5.0'' fs))"
  by (simp_all add: message_text_def head_text_def Let_def)

lemma supported_version:
  "takeWhile (\<lambda>c. c \<noteq> 0) (bytes ''FIX.5.0'') = bytes ''FIX.5.0''" "is_valid (bytes ''FIX.5.0'')"
  by code_simp+

lemma read_protocol_supported:
  "read_protocol env (received (bytes (message_text ''FIX.5.0'' fs)) s) = Inr FIX_PROTOCOL_SUPPORT"
  unfolding read_protocol_received [OF message_version(2)] message_version(1) Let_def supported_version(1)
  using supported_version(2) by (simp add: FIX_PROTOCOL_SUPPORT_def)

text \<open>The packet made of a received message, on a read buffer that was empty.\<close>

lemma received_packet:
  assumes st: "mb_storage (sk_readBuffer s) = replicate 4096 0"
    and data: "data = bytes (message_text ''FIX.5.0'' ((35, mt) # fs))" and len: "length data \<le> 4096"
    and plain: "no_data_fields (message_text ''FIX.5.0'' ((35, mt) # fs))" and addr: "addr + 4096 < 2 ^ 64"
    and mt: "mt \<noteq> []" "SOH \<notin> set mt" "CHR 0x00 \<notin> set mt"
  shows "\<exists>r. safe_packet addr (packet_copy (received data s)) r \<and> mr_is_valid r
    \<and> GetCommand addr (packet_copy (received data s)) = Inr mt
    \<and> IsValidCommand addr (packet_copy (received data s)) mt = Inr True"
proof -
  let ?p = "packet_copy (received data s)" and ?m = "message_text ''FIX.5.0'' ((35, mt) # fs)" and ?n = "4096 - length data"
  have p: "bb_storage ?p = data @ replicate ?n 0" "bb_rpos ?p = 0" "bb_capacity ?p = 4096"
    using st len by (simp_all add: packet_copy_def ByteBuffer_of_MessageBuffer_def MessageBuffer_Move_def MessageBuffer_copy_def)
  have nul: "char_of_byte 0 = CHR 0x00" by code_simp
  have "chars (bb_storage ?p) = ?m @ replicate ?n (CHR 0x00)" unfolding p(1) by (simp add: data nul)
  moreover have "bb_readable ?p" using p len by (simp add: bb_readable_def bb_wf_def size_t_mod_def)
  moreover have "length ?m + ?n \<le> 4096" using len data by simp
  ultimately obtain r where r: "safe_packet addr ?p r" "mr_is_valid r" "GetCommand addr ?p = Inr mt"
    using message_packet [of ?p mt fs ?n addr] mt plain addr by blast
  moreover have "IsValidCommand addr ?p mt = Inr True" using safe_packet_handling [OF r(1)] r(2,3) by auto
  ultimately show ?thesis by blast
qed

lemma logon_handled:
  assumes start: "AuthSession_Start env0 (AuthSession_new address port) = Inr s"
    and data: "data = bytes (message_text ''FIX.5.0'' ((35, ''A'') # fs))" and len: "length data \<le> 4096"
    and plain: "no_data_fields (message_text ''FIX.5.0'' ((35, ''A'') # fs))"
    and addr: "se_addr env + 4096 < 2 ^ 64" "se_addr_copy env + 4096 < 2 ^ 64"
    and stack: "length (se_stack env) = 4096" "CHR 0x00 \<in> set (drop 241 (se_stack env))"
  shows "\<exists>s' m. session_read env (Some data) s = Inr s' \<and> as_status s' = Authed \<and> IsOpen s' \<and> reading s'
    \<and> dispatch env (received data s) = Inr (Handle HandleLogon)
    \<and> sk_writeQueue s' = [m]
    \<and> mb_active m = data @ replicate (4096 - length data) 0
        @ bytes (message_text ''FIX.5.0'' (logon_fs (se_now env)) @ message_text ''FIX.5.0'' (order_fs (se_now env))
                 @ takeWhile (\<lambda>c. c \<noteq> CHR 0x00) (drop 241 (se_stack env))) @ [0]"
proof -
  let ?r = "received data s" and ?m = "message_text ''FIX.5.0'' ((35, ''A'') # fs)" and ?n = "4096 - length data"
  note s = Start_state [OF start]
  let ?p = "packet_copy ?r"
  have p: "bb_storage ?p = data @ replicate ?n 0"
    using s(1) len by (simp add: packet_copy_def ByteBuffer_of_MessageBuffer_def MessageBuffer_Move_def MessageBuffer_copy_def)
  have A: "''A'' \<noteq> []" "SOH \<notin> set ''A''" "CHR 0x00 \<notin> set ''A''" by simp_all
  note rp = received_packet [OF s(1) data len plain _ A]
  obtain r2 where r2: "safe_packet (se_addr_copy env) ?p r2" "mr_is_valid r2" "GetCommand (se_addr_copy env) ?p = Inr ''A''"
    using rp [OF addr(2)] by blast
  have r1: "GetCommand (se_addr env) ?p = Inr ''A''" "IsValidCommand (se_addr env) ?p ''A'' = Inr True"
    using rp [OF addr(1)] by auto
  have d: "dispatch env ?r = Inr (Handle HandleLogon)"
    using r1 s(3) unfolding dispatch_def data read_protocol_supported by (simp add: Handlers_def)
  obtain p1 out where logon: "IsReadLogonMessage (se_log env) (se_endian env) (se_elapsed env) (se_human env) (se_addr_copy env) ?p
      = Inr (True, p1, out)"
    using safe_packet_handling [OF r2(1)] r2(2,3) by fastforce
  have p1: "p1 = ?p" using IsReadLogonMessage_keeps [OF logon] by simp
  obtain reply where reply: "PrepareTestMessage (se_endian env) (se_now env) (se_stack env) ?p = Inr reply"
      "bb_storage reply = data @ replicate ?n 0
        @ bytes (message_text ''FIX.5.0'' (logon_fs (se_now env)) @ message_text ''FIX.5.0'' (order_fs (se_now env))
                 @ takeWhile (\<lambda>c. c \<noteq> CHR 0x00) (drop 241 (se_stack env))) @ [0]"
    using PrepareTestMessage_reply [OF stack, of "se_endian env" "se_now env" ?p] p len by (auto simp: vec_resize_def)
  let ?s1 = "(sock_log out ?r)\<lparr>as_status := Authed\<rparr>"
  have "length (bb_storage reply) < size_t_mod div 4"
    using reply(2) length_takeWhile_le [of "\<lambda>c. c \<noteq> CHR 0x00" "drop 241 (se_stack env)"] stack(1) len
    by (simp add: length_messages size_t_mod_def)
  moreover have "IsOpen ?s1" using s(5) by (simp add: IsOpen_def)
  ultimately obtain m where m: "SendPacket env reply ?s1 = Inr (QueuePacket m ?s1)" "mb_active m = bb_storage reply"
    using SendPacket_queues [of ?s1 reply env] reply(2) by auto
  let ?s2 = "QueuePacket m ?s1"
  have s2: "IsOpen ?s2" "length (mb_storage (sk_readBuffer ?s2)) = 4096"
    using s(1,5) len by (simp_all add: QueuePacket_def IsOpen_def)
  from AsyncRead_reset [OF s2] obtain s' where s':
      "AsyncRead (?s2\<lparr>sk_readBuffer := MessageBuffer_Reset (sk_readBuffer ?s2)\<rparr>) = Some s'"
      "as_status s' = as_status ?s2" "sk_closed s' = sk_closed ?s2" "sk_closing s' = sk_closing ?s2"
      "reads s' = Suc (reads ?s2)" "reads_done s' = reads_done ?s2" "sk_writeQueue s' = sk_writeQueue ?s2" by blast
  have "ReadHandler env ?r = Inr s'"
    unfolding ReadHandler_def d using s'(1) by (simp add: HandleLogonMessage_def logon p1 reply(1) m(1))
  moreover have "session_read env (Some data) s = ReadHandler env ?r" using session_read_received [OF s(4) len] .
  ultimately show ?thesis using s' s m(2) reply(2) d
    by (intro exI [of _ s'] exI [of _ m]) (simp add: IsOpen_def reading_def QueuePacket_def)
qed


lemma order_handled:
  assumes st: "mb_storage (sk_readBuffer s) = replicate 4096 0" "ready s" "IsOpen s" "as_status s = Authed"
    and data: "data = bytes (message_text ''FIX.5.0'' ((35, ''D'') # fs))" and len: "length data \<le> 4096"
    and plain: "no_data_fields (message_text ''FIX.5.0'' ((35, ''D'') # fs))"
    and addr: "se_addr env + 4096 < 2 ^ 64" "se_addr_copy env + 4096 < 2 ^ 64"
  shows "\<exists>s'. session_read env (Some data) s = Inr s' \<and> IsOpen s'
    \<and> dispatch env (received data s) = Inr (Handle HandleNewOrderSingle)"
proof -
  let ?r = "received data s" and ?p = "packet_copy (received data s)"
  have D: "''D'' \<noteq> []" "SOH \<notin> set ''D''" "CHR 0x00 \<notin> set ''D''" by simp_all
  note rp = received_packet [OF st(1) data len plain _ D]
  obtain r2 where r2: "safe_packet (se_addr_copy env) ?p r2" "mr_is_valid r2" "GetCommand (se_addr_copy env) ?p = Inr ''D''"
    using rp [OF addr(2)] by blast
  have r1: "GetCommand (se_addr env) ?p = Inr ''D''" "IsValidCommand (se_addr env) ?p ''D'' = Inr True"
    using rp [OF addr(1)] by auto
  have d: "dispatch env ?r = Inr (Handle HandleNewOrderSingle)"
    using r1 st(4) unfolding dispatch_def data read_protocol_supported by (simp add: Handlers_def)
  obtain p1 out where order: "IsReadNewOrderSingleMessage (se_log env) (se_endian env) (se_elapsed env) (se_addr_copy env) ?p
      = Inr (True, p1, out)"
    using safe_packet_handling [OF r2(1)] r2(2,3) by fastforce
  have "IsOpen (sock_log out ?r)" "length (mb_storage (sk_readBuffer (sock_log out ?r))) = 4096"
    using st len by (auto simp: IsOpen_def)
  from AsyncRead_reset [OF this] obtain s' where
      "AsyncRead ((sock_log out ?r)\<lparr>sk_readBuffer := MessageBuffer_Reset (sk_readBuffer (sock_log out ?r))\<rparr>) = Some s'"
      "sk_closed s' = sk_closed (sock_log out ?r)" "sk_closing s' = sk_closing (sock_log out ?r)" by blast
  then have "ReadHandler env ?r = Inr s' \<and> IsOpen s'"
    using st(3) unfolding ReadHandler_def d by (simp add: HandleNewOrderSingleMessage_def order IsOpen_def)
  then show ?thesis using session_read_received [OF st(2) len] d by simp
qed

section \<open>A concrete session\<close>

definition example_env :: session_env where
  "example_env =
     \<lparr>se_sock = slow_peer, se_endian = WARHEAD_LITTLEENDIAN, se_elapsed = 0, se_human = \<lambda>_. [], se_addr = 4096,
      se_addr_copy = 16384, se_now = 0, se_stack = replicate 4096 (CHR 0x00)\<rparr>"

definition example_logon :: "u8 list" where
  "example_logon = bytes (message_text ''FIX.5.0'' [(35, ''A'')])"

definition example_order :: "u8 list" where
  "example_order = bytes (message_text ''FIX.5.0'' [(35, ''D'')])"

lemma example_messages:
  "length example_logon \<le> 4096" "no_data_fields (message_text ''FIX.5.0'' [(35, ''A'')])"
  "length example_order \<le> 4096" "no_data_fields (message_text ''FIX.5.0'' [(35, ''D'')])"
proof -
  have "length (dec_int 35) = 2" by code_simp
  then show "length example_logon \<le> 4096" "length example_order \<le> 4096"
    by (simp_all add: example_logon_def example_order_def message_text_def head_text_def trailer_text_def body_text_def
        field_text_def three_digits_def Let_def)
qed code_simp+

lemma example_env_sel:
  "se_addr example_env + 4096 < 2 ^ 64" "se_addr_copy example_env + 4096 < 2 ^ 64"
  "length (se_stack example_env) = 4096" "CHR 0x00 \<in> set (drop 241 (se_stack example_env))"
  by (simp_all add: example_env_def)

lemma example_start: "\<exists>s. AuthSession_Start example_env (AuthSession_new ''127.0.0.1'' 5001) = Inr s"
  by (simp add: AuthSession_Start_def AsyncRead_def AsyncRead_to_def IsOpen_def AuthSession_new_def Socket.extend_def Socket_new_def
      MessageBuffer_Normalize_def MessageBuffer_Resize_def MessageBuffer_default_def Let_def auth_log_def sock_log_def)

lemma example_handled:
  obtains s s' where "AuthSession_Start example_env (AuthSession_new ''127.0.0.1'' 5001) = Inr s"
    "session_read example_env (Some example_logon) s = Inr s'" "dispatch example_env (received example_logon s) = Inr (Handle HandleLogon)"
    "session s []" "reading s" "session s' [Handle HandleLogon]" "as_status s' = Authed" "reading s'" "IsOpen s'"
proof -
  obtain s where s: "AuthSession_Start example_env (AuthSession_new ''127.0.0.1'' 5001) = Inr s" using example_start by blast
  from logon_handled [OF s example_logon_def example_messages(1,2) example_env_sel] obtain s' where
      s': "session_read example_env (Some example_logon) s = Inr s'" "dispatch example_env (received example_logon s) = Inr (Handle HandleLogon)"
      "as_status s' = Authed" "reading s'" "IsOpen s'" by blast
  have "session s []" "reading s" using session.Start [OF s] Start_state(6) [OF s] .
  moreover from this have "session s' ([] @ [Handle HandleLogon])"
    using session_step.Read [OF _ example_messages(1) s'(2,1)] by (intro session.Step) blast+
  ultimately show ?thesis using s s' that by simp
qed

theorem session_protocol_witness:
  "\<exists>s. session s [Handle HandleLogon] \<and> as_status s = Authed \<and> reading s \<and> IsOpen s"
proof (rule example_handled)
  fix s'
  assume "session s' [Handle HandleLogon]" "as_status s' = Authed" "reading s'"
  with session_protocol [of s' "[Handle HandleLogon]"] show ?thesis by blast
qed

theorem read_outcome_witness:
  "\<exists>s s'. session s [] \<and> session_read example_env (Some example_logon) s = Inr s' \<and> IsOpen s' \<and> reading s'"
proof (rule example_handled)
  fix s s'
  assume a: "session s []" "reading s" "dispatch example_env (received example_logon s) = Inr (Handle HandleLogon)"
    "session_read example_env (Some example_logon) s = Inr s'" "IsOpen s'"
  from read_outcome [OF a(1,2) example_messages(1) a(3,4)] a show ?thesis by (auto simp: IsOpen_def)
qed

theorem invalid_version_escapes_witness:
  "\<exists>s. AuthSession_Start example_env (AuthSession_new ''127.0.0.1'' 5001) = Inr s
    \<and> session_read example_env (Some ([0x38, 0x3D] @ replicate 7 0xFF)) s
        = Inl (Uncaught (BB (ByteBufferInvalidValueException ''string'' (chars (replicate 7 0xFF)))))"
proof -
  let ?d = "[0x38, 0x3D] @ replicate 7 0xFF :: u8 list"
  obtain s where s: "AuthSession_Start example_env (AuthSession_new ''127.0.0.1'' 5001) = Inr s" using example_start by blast
  have "9 \<le> length ?d" "length ?d \<le> 4096" "take 7 (drop 2 ?d) = replicate 7 0xFF" by simp_all
  moreover have "0 \<notin> set (take 7 (drop 2 ?d))" "\<not> is_valid (take 7 (drop 2 ?d))" by code_simp+
  ultimately show ?thesis using invalid_version_escapes [OF Start_state(4) [OF s], of ?d example_env] s by auto
qed


theorem order_replayed_witness:
  "\<exists>s' s''. session_read example_env (Some (take 1 example_order)) s' = Inr s'' \<and> IsOpen s''
    \<and> dispatch example_env (received (take 1 example_order) s') = Inr (Handle HandleNewOrderSingle)"
proof -
  obtain s where start: "AuthSession_Start example_env (AuthSession_new ''127.0.0.1'' 5001) = Inr s" using example_start by blast
  let ?s = "s\<lparr>as_status := Authed\<rparr>"
  have s: "mb_storage (sk_readBuffer ?s) = replicate 4096 0" "ready ?s" "IsOpen ?s" "as_status ?s = Authed"
    using Start_state [OF start] by (simp_all add: ready_def IsOpen_def)
  from order_handled [OF s example_order_def example_messages(3,4) example_env_sel(1,2)] obtain s' where
      "session_read example_env (Some example_order) ?s = Inr s'" "IsOpen s'"
      "dispatch example_env (received example_order ?s) = Inr (Handle HandleNewOrderSingle)" by blast
  with order_replayed [OF s(2,3) example_messages(3), of example_env s' 1] show ?thesis by (auto simp: IsOpen_def)
qed

end
