(* ===== verification/Network_Proofs.thy ===== *)
theory Network_Proofs
  imports Network Auth_Session_Messages
begin

text \<open>
  The network layer: the contract \<open>managed_socket\<close> between a thread and its sockets, interpreted on
  the sessions; the bookkeeping of a thread under every interleaving of arriving connections, the two
  halves of its update and the sessions' own changes (\<open>thread_run\<close>); the choice of a thread; the
  life cycle of the manager; the accept loop.
\<close>

section \<open>What a thread relies on\<close>

text \<open>The contract of the sockets of a thread: an update fails exactly on a closed socket, which it
  leaves alone, and a closed socket is not open.\<close>

locale managed_socket =
  fixes ops :: "'s socket_ops" and closed :: "'s \<Rightarrow> bool"
  assumes update_result: "op_Update ops p s = Inr (ok, s') \<Longrightarrow> ok = (\<not> closed s)"
    and update_closed: "closed s \<Longrightarrow> op_Update ops p s = Inr (False, s)"
    and closed_not_open: "closed s \<Longrightarrow> \<not> op_IsOpen ops s"
begin

lemma update_sockets_result:
  assumes "update_sockets ops ps store n = Inr (kept, store', n')" and "distinct ps"
    and "int (length ps) \<le> n" and "n < 2 ^ 31"
  shows "kept = filter (\<lambda>p. \<not> closed (the (store p))) ps \<and> n' + int (length ps) = n + int (length kept)
    \<and> dom store' = dom store \<and> (\<forall>p. p \<notin> set kept \<longrightarrow> store' p = store p)"
  using assms
proof (induction ps arbitrary: store n kept store' n')
  case (Cons p ps)
  then obtain s where s: "store p = Some s" by (auto split: option.splits)
  show ?case
  proof (cases "closed s")
    case True
    have wrap: "int_wrap 32 (n - 1) = n - 1" using Cons.prems by (intro int_wrap_id) auto
    have "update_sockets ops ps store (n - 1) = Inr (kept, store', n')"
      using Cons.prems(1) s True update_closed [OF True, of p] closed_not_open [OF True] wrap
      by (simp add: fun_upd_idem)
    from Cons.IH [OF this] Cons.prems s True show ?thesis by auto
  next
    case False
    obtain ok s1 where u: "op_Update ops p s = Inr (ok, s1)" using Cons.prems(1) s by (auto split: sum.splits)
    then have "ok" using update_result False by blast
    with u Cons.prems(1) s obtain kept' where k: "update_sockets ops ps (store(p \<mapsto> s1)) n = Inr (kept', store', n')" "kept = p # kept'"
      by (auto simp: err_bind_Inr_iff)
    have "filter (\<lambda>q. \<not> closed (the ((store(p \<mapsto> s1)) q))) ps = filter (\<lambda>q. \<not> closed (the (store q))) ps"
      using Cons.prems(2) by (intro filter_cong) auto
    with Cons.IH [OF k(1)] Cons.prems(2-4) have ih: "kept' = filter (\<lambda>q. \<not> closed (the (store q))) ps"
        "n' + int (length ps) = n + int (length kept')" "dom store' = dom (store(p \<mapsto> s1))"
        "\<forall>q. q \<notin> set kept' \<longrightarrow> store' q = (store(p \<mapsto> s1)) q" by auto
    have "dom store' = dom store" using ih(3) s by auto
    moreover have "\<forall>q. q \<notin> set kept \<longrightarrow> store' q = store q" using ih(4) k(2) by auto
    ultimately show ?thesis using ih(1,2) k(2) s False by simp
  qed
qed simp

lemma add_new_sockets_result:
  assumes "add_new_sockets ops store ps t = Inr t'" and "int (length ps) \<le> nt_connections t" and "nt_connections t < 2 ^ 31"
  shows "nt_sockets t' = nt_sockets t @ filter (\<lambda>p. op_IsOpen ops (the (store p))) ps
    \<and> nt_connections t' + int (length ps) = nt_connections t + int (length (filter (\<lambda>p. op_IsOpen ops (the (store p))) ps))"
  using assms
proof (induction ps arbitrary: t)
  case (Cons p ps)
  then obtain s where s: "store p = Some s" by (auto split: option.splits)
  have "int_wrap 32 (nt_connections t - 1) = nt_connections t - 1" using Cons.prems by (intro int_wrap_id) auto
  then show ?case using Cons.prems s
      Cons.IH [of "t\<lparr>nt_connections := nt_connections t - 1\<rparr>"] Cons.IH [of "t\<lparr>nt_sockets := nt_sockets t @ [p]\<rparr>"]
    by (cases "op_IsOpen ops s") auto
qed simp

end

interpretation managed_session: managed_socket "session_ops env" sk_closed for env
proof
  fix p s ok s'
  assume "op_Update (session_ops env) p s = Inr (ok, s')"
  then show "ok = (\<not> sk_closed s)"
    by (auto simp: session_ops_def AuthSession_Update_def Socket_Update_def defined_def err_bind_Inr_iff split: if_splits option.splits)
qed (simp_all add: session_ops_def AuthSession_Update_def Socket_Update_def IsOpen_def)

section \<open>The connections of a thread\<close>

text \<open>A thread and the sessions it points to, under everything that can happen: a connection arrives,
  the thread takes over the new connections, it updates its sockets, a session changes by itself.\<close>

inductive thread_run :: "'s socket_ops \<Rightarrow> NetworkThread \<Rightarrow> (nat \<rightharpoonup> 's) \<Rightarrow> bool" for ops :: "'s socket_ops" where
  Thread_new: "thread_run ops NetworkThread_new Map.empty"
| Thread_add: "thread_run ops t store \<Longrightarrow> p \<notin> dom store \<Longrightarrow> nt_connections t < 2 ^ 31 - 1 \<Longrightarrow>
    thread_run ops (AddSocket p t) (store(p \<mapsto> s))"
| Thread_collect: "thread_run ops t store \<Longrightarrow> AddNewSockets ops store t = Inr t' \<Longrightarrow> thread_run ops t' store"
| Thread_pass: "thread_run ops t store \<Longrightarrow> update_pass ops t store = Inr (t', store') \<Longrightarrow> thread_run ops t' store'"
| Thread_session: "thread_run ops t store \<Longrightarrow> p \<in> dom store \<Longrightarrow> thread_run ops t (store(p \<mapsto> s))"

definition thread_inv :: "NetworkThread \<Rightarrow> (nat \<rightharpoonup> 's) \<Rightarrow> bool" where
  "thread_inv t store \<longleftrightarrow> nt_connections t = int (length (nt_sockets t) + length (nt_newSockets t)) \<and> nt_connections t < 2 ^ 31
     \<and> distinct (nt_sockets t @ nt_newSockets t) \<and> set (nt_sockets t @ nt_newSockets t) \<subseteq> dom store"

lemma AddSocket_inv:
  assumes "thread_inv t store" and "p \<notin> dom store" and "nt_connections t < 2 ^ 31 - 1"
  shows "thread_inv (AddSocket p t) (store(p \<mapsto> s))"
proof -
  have "int_wrap 32 (nt_connections t + 1) = nt_connections t + 1"
    using assms by (intro int_wrap_id) (auto simp: thread_inv_def)
  then show ?thesis using assms by (auto simp: thread_inv_def AddSocket_def)
qed

context managed_socket
begin

lemma AddNewSockets_inv:
  assumes inv: "thread_inv t store" and t': "AddNewSockets ops store t = Inr t'"
  shows "thread_inv t' store \<and> nt_newSockets t' = []
    \<and> nt_sockets t' = nt_sockets t @ filter (\<lambda>p. op_IsOpen ops (the (store p))) (nt_newSockets t)"
proof (cases "nt_newSockets t = []")
  case True
  then show ?thesis using assms by (simp add: AddNewSockets_def)
next
  case False
  then obtain t1 where t1: "add_new_sockets ops store (nt_newSockets t) t = Inr t1" "t' = t1\<lparr>nt_newSockets := []\<rparr>"
    using t' by (auto simp: AddNewSockets_def err_bind_Inr_iff)
  let ?f = "filter (\<lambda>p. op_IsOpen ops (the (store p))) (nt_newSockets t)"
  have "int (length (nt_newSockets t)) \<le> nt_connections t" "nt_connections t < 2 ^ 31" using inv by (auto simp: thread_inv_def)
  note r = add_new_sockets_result [OF t1(1) this]
  have "int (length ?f) \<le> int (length (nt_newSockets t))" by simp
  then have "nt_connections t1 < 2 ^ 31" using r inv unfolding thread_inv_def by linarith
  then show ?thesis using r inv t1(2) by (auto simp: thread_inv_def)
qed

lemma update_pass_inv:
  assumes inv: "thread_inv t store" and t': "update_pass ops t store = Inr (t', store')"
  shows "thread_inv t' store' \<and> nt_newSockets t' = nt_newSockets t
    \<and> nt_sockets t' = filter (\<lambda>p. \<not> closed (the (store p))) (nt_sockets t)
    \<and> (\<forall>p. p \<notin> set (nt_sockets t') \<longrightarrow> store' p = store p)"
proof -
  obtain kept n where k: "update_sockets ops (nt_sockets t) store (nt_connections t) = Inr (kept, store', n)"
      "t' = t\<lparr>nt_sockets := kept, nt_connections := n\<rparr>"
    using t' by (auto simp: update_pass_def err_bind_Inr_iff)
  have "distinct (nt_sockets t)" "int (length (nt_sockets t)) \<le> nt_connections t" "nt_connections t < 2 ^ 31"
    using inv by (auto simp: thread_inv_def)
  note r = update_sockets_result [OF k(1) this]
  have "int (length kept) \<le> int (length (nt_sockets t))" using r by simp
  then have "n < 2 ^ 31" using r inv unfolding thread_inv_def by linarith
  then show ?thesis using r inv k(2) by (auto simp: thread_inv_def)
qed

lemma thread_run_inv: "thread_run ops t store \<Longrightarrow> thread_inv t store"
proof (induction rule: thread_run.induct)
  case Thread_new
  show ?case by (simp add: NetworkThread_new_def thread_inv_def)
next
  case (Thread_add t store p s)
  then show ?case by (intro AddSocket_inv)
next
  case (Thread_collect t store t')
  with AddNewSockets_inv [OF Thread_collect.IH] show ?case by simp
next
  case (Thread_pass t store t' store')
  with update_pass_inv [OF Thread_pass.IH] show ?case by simp
next
  case (Thread_session t store p s)
  then show ?case by (auto simp: thread_inv_def)
qed

lemma add_new_sockets_defined: "set ps \<subseteq> dom store \<Longrightarrow> \<exists>t'. add_new_sockets ops store ps t = Inr t'"
  by (induction ps arbitrary: t) auto

lemma update_sockets_defined:
  "set ps \<subseteq> dom store \<Longrightarrow> (\<exists>r. update_sockets ops ps store n = Inr r) \<or> (\<exists>e. update_sockets ops ps store n = Inl (Session e))"
proof (induction ps arbitrary: store n)
  case (Cons p ps)
  then obtain s where s: "store p = Some s" by auto
  have d: "set ps \<subseteq> dom (store(p \<mapsto> s'))" for s' using Cons.prems by auto
  show ?case
  proof (cases "op_Update ops p s")
    case (Inr r)
    obtain ok s1 where "r = (ok, s1)" by (cases r)
    with Inr s Cons.IH [OF d [of s1], of n]
      Cons.IH [OF d [of "if op_IsOpen ops s1 then op_CloseSocket ops p s1 else s1"], of "int_wrap 32 (n - 1)"]
    show ?thesis by (cases ok) (auto simp del: fun_upd_apply split del: if_split)
  qed (simp add: s)
qed simp

end

section \<open>Properties of a thread\<close>

text \<open>C9: The connection count of a thread is the number of its sockets and new sockets, no session is
  listed twice and no pointer dangles, whatever the order in which connections arrive, the thread
  collects them, updates its sockets, and sessions change; neither half of an update fails except by an
  exception of a session, and after one the thread keeps exactly the sockets that were not closed, in
  their order, and has touched no session it dropped.\<close>

theorem connection_count:
  assumes "thread_run (session_ops env) t store"
  shows "nt_connections t = int (length (nt_sockets t) + length (nt_newSockets t))
    \<and> distinct (nt_sockets t @ nt_newSockets t) \<and> set (nt_sockets t @ nt_newSockets t) \<subseteq> dom store
    \<and> (\<exists>t'. AddNewSockets (session_ops env) store t = Inr t'
         \<and> nt_sockets t' = nt_sockets t @ filter (\<lambda>p. IsOpen (the (store p))) (nt_newSockets t))
    \<and> (case update_pass (session_ops env) t store of
         Inl x \<Rightarrow> \<exists>e. x = Session e
       | Inr (t', store') \<Rightarrow> nt_sockets t' = filter (\<lambda>p. \<not> sk_closed (the (store p))) (nt_sockets t)
           \<and> (\<forall>p. p \<notin> set (nt_sockets t') \<longrightarrow> store' p = store p))"
proof -
  have inv: "thread_inv t store" using assms by (rule managed_session.thread_run_inv)
  then have d: "set (nt_newSockets t) \<subseteq> dom store" "set (nt_sockets t) \<subseteq> dom store" by (auto simp: thread_inv_def)
  obtain t' where t': "AddNewSockets (session_ops env) store t = Inr t'"
    using managed_session.add_new_sockets_defined [OF d(1), of env t]
    by (cases "nt_newSockets t = []") (auto simp: AddNewSockets_def)
  have new: "nt_sockets t' = nt_sockets t @ filter (\<lambda>p. IsOpen (the (store p))) (nt_newSockets t)"
    using managed_session.AddNewSockets_inv [OF inv t'] by (simp add: session_ops_def)
  have pass: "case update_pass (session_ops env) t store of
      Inl x \<Rightarrow> \<exists>e. x = Session e
    | Inr (t', store') \<Rightarrow> nt_sockets t' = filter (\<lambda>p. \<not> sk_closed (the (store p))) (nt_sockets t)
        \<and> (\<forall>p. p \<notin> set (nt_sockets t') \<longrightarrow> store' p = store p)"
  proof (cases "update_sockets (session_ops env) (nt_sockets t) store (nt_connections t)")
    case (Inl e)
    then show ?thesis using managed_session.update_sockets_defined [OF d(2), of env "nt_connections t"] by (auto simp: update_pass_def)
  next
    case (Inr r)
    then obtain t1 store1 where p: "update_pass (session_ops env) t store = Inr (t1, store1)" by (cases r) (simp add: update_pass_def)
    show ?thesis using managed_session.update_pass_inv [OF inv p] unfolding p by simp
  qed
  have counts: "nt_connections t = int (length (nt_sockets t) + length (nt_newSockets t))"
      "distinct (nt_sockets t @ nt_newSockets t)" "set (nt_sockets t @ nt_newSockets t) \<subseteq> dom store"
    using inv unfolding thread_inv_def by blast+
  show ?thesis by (intro conjI exI [of _ t'] counts t' new pass)
qed

section \<open>Choosing a thread\<close>

lemma select_min_result:
  assumes "mi < i" and "i + n = length ts"
    and "\<forall>j < i. GetConnectionCount (ts ! mi) \<le> GetConnectionCount (ts ! j)"
    and "\<forall>j < mi. GetConnectionCount (ts ! mi) < GetConnectionCount (ts ! j)"
  shows "\<exists>k < length ts. select_min ts n i mi = Inr k
    \<and> (\<forall>j < length ts. GetConnectionCount (ts ! k) \<le> GetConnectionCount (ts ! j))
    \<and> (\<forall>j < k. GetConnectionCount (ts ! k) < GetConnectionCount (ts ! j))"
  using assms
proof (induction n arbitrary: i mi)
  case (Suc n)
  let ?mi = "if GetConnectionCount (ts ! i) < GetConnectionCount (ts ! mi) then i else mi"
  have "?mi < i + 1" "i + 1 + n = length ts" using Suc.prems by simp_all
  moreover have "\<forall>j < i + 1. GetConnectionCount (ts ! ?mi) \<le> GetConnectionCount (ts ! j)"
    using Suc.prems(3) by (auto simp: less_Suc_eq)
  moreover have "\<forall>j < ?mi. GetConnectionCount (ts ! ?mi) < GetConnectionCount (ts ! j)"
    using Suc.prems(3,4) by fastforce
  ultimately show ?case using Suc.IH [of ?mi "i + 1"] Suc.prems(1,2) by simp
qed auto

lemma selected_thread:
  assumes "sm_threads m = Some ts" and "sm_threadCount m = int (length ts)" and "ts \<noteq> []"
  shows "\<exists>k < length ts. SelectThreadWithMinConnections m = Inr k \<and> GetSocketForAccept m = Inr k
    \<and> (\<forall>j < length ts. GetConnectionCount (ts ! k) \<le> GetConnectionCount (ts ! j))
    \<and> (\<forall>j < k. GetConnectionCount (ts ! k) < GetConnectionCount (ts ! j))"
proof (cases "length ts = 1")
  case True
  then show ?thesis using assms by (simp add: SelectThreadWithMinConnections_def GetSocketForAccept_def)
next
  case False
  have pos: "0 < length ts" using assms(3) by simp
  then have "1 + (length ts - 1) = length ts" by simp
  from select_min_result [OF _ this] obtain k where "k < length ts" "select_min ts (length ts - 1) 1 0 = Inr k"
      "\<forall>j < length ts. GetConnectionCount (ts ! k) \<le> GetConnectionCount (ts ! j)"
      "\<forall>j < k. GetConnectionCount (ts ! k) < GetConnectionCount (ts ! j)" by auto
  moreover have "nat (int (length ts) - 1) = length ts - 1" "\<not> int (length ts) \<le> 1" using pos False by linarith+
  ultimately show ?thesis using assms(1,2) by (auto simp: SelectThreadWithMinConnections_def GetSocketForAccept_def)
qed

text \<open>A new connection goes to the first of the threads with the fewest connections.\<close>

theorem min_connections_selected:
  assumes "sm_threads m = Some ts" and "sm_threadCount m = int (length ts)" and "ts \<noteq> []"
  shows "\<exists>k < length ts. SelectThreadWithMinConnections m = Inr k \<and> GetSocketForAccept m = Inr k
    \<and> (\<forall>j < length ts. GetConnectionCount (ts ! k) \<le> GetConnectionCount (ts ! j))
    \<and> (\<forall>j < k. GetConnectionCount (ts ! k) < GetConnectionCount (ts ! j))"
  using assms by (rule selected_thread)

section \<open>Starting and stopping\<close>

lemma Bind_ok: "fst (AsyncAcceptor_Bind lg sys a) \<longleftrightarrow> (\<forall>c. sys c = None)"
proof -
  have "(\<forall>c. sys c = None) \<longleftrightarrow> sys Open = None \<and> sys Set_reuse_address = None \<and> sys Bind_endpoint = None \<and> sys Listen = None"
    by (metis bind_call.exhaust)
  then show ?thesis by (simp add: AsyncAcceptor_Bind_def Let_def split: option.split)
qed

text \<open>The manager of a started network.\<close>

definition started_manager :: "string \<Rightarrow> nat \<Rightarrow> SocketMgr" where
  "started_manager address port =
     \<lparr>sm_acceptor = Some \<lparr>ac_address = address, ac_port = port, ac_closed = False, ac_factory = True, ac_listening = True,
        ac_accepting = Some 0\<rparr>,
      sm_threads = Some [NetworkThread_new\<lparr>nt_thread := True\<rparr>], sm_threadCount = 1\<rparr>"

lemma StartNetwork_succeeds:
  assumes "make_address bindIp = Some address" and "\<forall>c. sys c = None"
  shows "AuthSocketMgr_StartNetwork lg make_address what sys bindIp port 1 SocketMgr_new = Inr (True, started_manager address port, [])"
proof -
  have "sys = (\<lambda>_. None)" using assms(2) by auto
  with assms(1) show ?thesis
    by (simp add: AuthSocketMgr_StartNetwork_def StartNetwork_def AsyncAcceptor_new_def AsyncAcceptor_Bind_def started_manager_def
        AuthSocketMgr_CreateThreads_def SocketMgr_threads_def NetworkThread_Start_def NetworkThread_new_def SetSocketFactory_def
        AsyncAcceptWithCallback_def GetSocketForAccept_def SelectThreadWithMinConnections_def Let_def)
qed

lemma StartNetwork_fails:
  assumes "make_address bindIp = None \<or> \<not> (\<forall>c. sys c = None)"
  shows "\<exists>out. AuthSocketMgr_StartNetwork lg make_address what sys bindIp port 1 SocketMgr_new = Inr (False, SocketMgr_new, out)"
proof (cases "make_address bindIp")
  case None
  then show ?thesis
    by (simp add: AuthSocketMgr_StartNetwork_def StartNetwork_def AsyncAcceptor_new_def)
next
  case (Some address)
  let ?a = "\<lparr>ac_address = address, ac_port = port, ac_closed = False, ac_factory = False, ac_listening = False, ac_accepting = None\<rparr>"
  have "\<not> fst (AsyncAcceptor_Bind lg sys ?a)" using assms Some Bind_ok by auto
  then obtain a' out where "AsyncAcceptor_Bind lg sys ?a = (False, a', out)" by (cases "AsyncAcceptor_Bind lg sys ?a") auto
  with Some show ?thesis
    by (simp add: AuthSocketMgr_StartNetwork_def StartNetwork_def AsyncAcceptor_new_def)
qed

lemma StopNetwork_one_thread:
  assumes "sm_acceptor m = Some a" and "sm_threads m = Some [t]" and "sm_threadCount m = 1" and "nt_thread t"
  shows "StopNetwork m = Inr SocketMgr_new \<and> SocketMgr_destroy m \<noteq> Inr () \<and> SocketMgr_destroy SocketMgr_new = Inr ()"
  using assms
  by (simp add: StopNetwork_def SocketMgr_threads_def SocketMgr_Wait_def NetworkThread_Wait_def NetworkThread_Stop_def
      NetworkThread_destroy_def SocketMgr_new_def SocketMgr_destroy_def)

text \<open>C14: Starting the network with one thread either fails, with the manager as it was, or leaves it
  listening and waiting for a connection for the started thread; stopping it then joins the thread and
  returns the manager to its initial state, which its destructor requires.\<close>

theorem network_lifecycle:
  "if make_address bindIp \<noteq> None \<and> (\<forall>c. sys c = None)
   then \<exists>m a. AuthSocketMgr_StartNetwork lg make_address what sys bindIp port 1 SocketMgr_new = Inr (True, m, [])
     \<and> sm_acceptor m = Some a \<and> ac_listening a \<and> ac_accepting a = Some 0 \<and> \<not> ac_closed a
     \<and> map_option (map nt_thread) (sm_threads m) = Some [True]
     \<and> SocketMgr_destroy m \<noteq> Inr () \<and> StopNetwork m = Inr SocketMgr_new \<and> SocketMgr_destroy SocketMgr_new = Inr ()
   else \<exists>out. AuthSocketMgr_StartNetwork lg make_address what sys bindIp port 1 SocketMgr_new = Inr (False, SocketMgr_new, out)"
proof (cases "make_address bindIp \<noteq> None \<and> (\<forall>c. sys c = None)")
  case True
  then obtain address where addr: "make_address bindIp = Some address" "\<forall>c. sys c = None" by auto
  have "StopNetwork (started_manager address port) = Inr SocketMgr_new \<and> SocketMgr_destroy (started_manager address port) \<noteq> Inr ()
      \<and> SocketMgr_destroy SocketMgr_new = Inr ()"
    by (rule StopNetwork_one_thread [where t = "NetworkThread_new\<lparr>nt_thread := True\<rparr>"]) (simp_all add: started_manager_def NetworkThread_new_def)
  with True StartNetwork_succeeds [of make_address bindIp address sys lg what port] addr show ?thesis
    by (simp add: started_manager_def)
next
  case False
  then have "make_address bindIp = None \<or> \<not> (\<forall>c. sys c = None)" by blast
  from StartNetwork_fails [of make_address bindIp sys, OF this] show ?thesis unfolding if_not_P [OF False] .
qed

text \<open>Asked for more than one thread, \<open>AuthSocketMgr\<close> starts threads beyond the end of the array of
  one that \<open>CreateThreads\<close> made.\<close>

theorem more_threads_out_of_bounds:
  assumes "make_address bindIp \<noteq> None" and "\<forall>c. sys c = None" and "1 < threadCount"
  shows "AuthSocketMgr_StartNetwork lg make_address what sys bindIp port threadCount SocketMgr_new = Inl OutOfBounds_access"
proof -
  have "nat threadCount = Suc (Suc (nat (threadCount - 2)))" using assms(3) by arith
  then obtain n where "nat threadCount = Suc (Suc n)" by blast
  then show ?thesis using assms
    by (auto simp: AuthSocketMgr_StartNetwork_def StartNetwork_def AsyncAcceptor_new_def AsyncAcceptor_Bind_def
        AuthSocketMgr_CreateThreads_def SocketMgr_threads_def Let_def)
qed

section \<open>Accepting\<close>

lemma accept_waits:
  assumes "sm_acceptor m = Some a" and "ac_factory a" and "sm_threads m = Some ts" and "sm_threadCount m = int (length ts)" and "ts \<noteq> []"
  shows "\<exists>k < length ts. AsyncAcceptWithCallback m = Inr (m\<lparr>sm_acceptor := Some (a\<lparr>ac_accepting := Some k\<rparr>)\<rparr>)"
  using selected_thread [OF assms(3-5)] assms(1,2) by (auto simp: AsyncAcceptWithCallback_def)

lemma Start_defined: "\<exists>s. AuthSession_Start env (AuthSession_new address port) = Inr s"
  by (simp add: AuthSession_Start_def AsyncRead_def AsyncRead_to_def IsOpen_def AuthSession_new_def Socket.extend_def Socket_new_def
      MessageBuffer_Normalize_def MessageBuffer_Resize_def MessageBuffer_default_def Let_def auth_log_def sock_log_def)

lemma accept_completed_waits:
  assumes m: "sm_acceptor m = Some a" "\<not> ac_closed a" "ac_factory a" "ac_accepting a = Some i"
    and ts: "sm_threads new_m = Some ts" "sm_threadCount new_m = int (length ts)" "ts \<noteq> []" "sm_acceptor new_m = Some a"
    and out: "(case result of
        Accept_error \<Rightarrow> Inr (m, store, [])
      | Blocking_mode_error what \<Rightarrow> Inr (m, store, LOG_MSG_BODY (se_log env) ''network'' Level_Info
          (Some (''Failed to initialize client's socket '' @ what)))
      | Accepted made \<Rightarrow> OnSocketOpen env made sock i m store) = Inr (new_m, new_store, out)"
  shows "\<exists>m' k. accept_completed env result sock m store = Inr (m', new_store, out)
    \<and> sm_acceptor m' = Some (a\<lparr>ac_accepting := Some k\<rparr>) \<and> k < length ts \<and> sm_threads m' = Some ts"
proof -
  let ?m2 = "new_m\<lparr>sm_acceptor := Some (a\<lparr>ac_accepting := None\<rparr>)\<rparr>"
  obtain k where "k < length ts" "AsyncAcceptWithCallback ?m2 = Inr (?m2\<lparr>sm_acceptor := Some (a\<lparr>ac_accepting := Some k\<rparr>)\<rparr>)"
    using accept_waits [of ?m2 "a\<lparr>ac_accepting := None\<rparr>" ts] m ts by auto
  then show ?thesis unfolding accept_completed_def m(1) option.case m(4) out err_bind.simps prod.case Let_def ts(4)
    using m(2) ts(1) by (intro exI [of _ "?m2\<lparr>sm_acceptor := Some (a\<lparr>ac_accepting := Some k\<rparr>)\<rparr>"] exI [of _ k]) simp
qed

lemma accept_step:
  assumes "sm_acceptor m = Some a" and "\<not> ac_closed a" and "ac_factory a" and "ac_accepting a = Some i"
    and "sm_threads m = Some ts" and "sm_threadCount m = int (length ts)" and "i < length ts"
    and "\<forall>s. result = Accepted (Inr s) \<longrightarrow> (\<exists>address port. s = AuthSession_new address port)"
  shows "\<exists>m' store' out k. accept_completed env result sock m store = Inr (m', store', out)
    \<and> sm_acceptor m' = Some (a\<lparr>ac_accepting := Some k\<rparr>) \<and> k < length ts
    \<and> (if \<exists>address port. result = Accepted (Inr (AuthSession_new address port))
        then sm_threads m' = Some (ts[i := AddSocket sock (ts ! i)]) \<and> (\<exists>s. store' = store(sock \<mapsto> s) \<and> reading s \<and> IsOpen s)
        else sm_threads m' = Some ts \<and> store' = store)"
proof -
  have ne: "ts \<noteq> []" using assms(7) by auto
  note waits = accept_completed_waits [OF assms(1-4) assms(5,6) ne assms(1)]
  show ?thesis
  proof (cases "\<exists>address port. result = Accepted (Inr (AuthSession_new address port))")
    case True
    then obtain address port where r: "result = Accepted (Inr (AuthSession_new address port))" by blast
    obtain s where s: "AuthSession_Start env (AuthSession_new address port) = Inr s" using Start_defined by blast
    let ?ts = "ts[i := AddSocket sock (ts ! i)]"
    let ?m1 = "m\<lparr>sm_threads := Some ?ts\<rparr>"
    have open': "OnSocketOpen env (Inr (AuthSession_new address port)) sock i m store = Inr (?m1, store(sock \<mapsto> s), [])"
      using s assms(5,7) by (simp add: OnSocketOpen_def)
    have "sm_threads ?m1 = Some ?ts" "sm_threadCount ?m1 = int (length ?ts)" "?ts \<noteq> []" "sm_acceptor ?m1 = Some a"
      using assms(1,6) ne by simp_all
    from accept_completed_waits [OF assms(1-4) this, where result = result and env = env and sock = sock and store = store and new_store = "store(sock \<mapsto> s)" and out = "[]"]
    obtain m' k where "accept_completed env result sock m store = Inr (m', store(sock \<mapsto> s), [])"
        "sm_acceptor m' = Some (a\<lparr>ac_accepting := Some k\<rparr>)" "k < length ts" "sm_threads m' = Some ?ts"
      using r open' by auto
    with True Start_state(5,6) [OF s] show ?thesis by (intro exI [of _ m'] exI [of _ "store(sock \<mapsto> s)"] exI [of _ k]) auto
  next
    case False
    then have no: "\<nexists>s. result = Accepted (Inr s)" using assms(8) by blast
      obtain out where "(case result of
          Accept_error \<Rightarrow> Inr (m, store, [])
        | Blocking_mode_error what \<Rightarrow> Inr (m, store, LOG_MSG_BODY (se_log env) ''network'' Level_Info
            (Some (''Failed to initialize client's socket '' @ what)))
        | Accepted made \<Rightarrow> OnSocketOpen env made sock i m store) = Inr (m, store, out)"
        using no by (cases result; (cases "case result of Accepted x \<Rightarrow> x | _ \<Rightarrow> Inl []")?) (auto simp: OnSocketOpen_def)
      from waits [OF this] obtain m' k where "accept_completed env result sock m store = Inr (m', store, out)"
          "sm_acceptor m' = Some (a\<lparr>ac_accepting := Some k\<rparr>)" "k < length ts" "sm_threads m' = Some ts" by blast
      with False show ?thesis by (intro exI [of _ m'] exI [of _ store] exI [of _ out] exI [of _ k]) simp
  qed
qed

text \<open>C12: As long as the acceptor is not closed it waits for the next connection after every attempt.
  An accepted client whose session starts is added to the thread that was chosen when the wait began,
  and its session reads; a failed attempt, or a session that cannot be made, changes nothing.\<close>

theorem accept_continues:
  assumes "sm_acceptor m = Some a" and "\<not> ac_closed a" and "ac_factory a" and "ac_accepting a = Some i"
    and "sm_threads m = Some ts" and "sm_threadCount m = int (length ts)" and "i < length ts"
    and "\<forall>s. result = Accepted (Inr s) \<longrightarrow> (\<exists>address port. s = AuthSession_new address port)"
  shows "\<exists>m' store' out k. accept_completed env result sock m store = Inr (m', store', out)
    \<and> sm_acceptor m' = Some (a\<lparr>ac_accepting := Some k\<rparr>) \<and> k < length ts
    \<and> (if \<exists>address port. result = Accepted (Inr (AuthSession_new address port))
        then sm_threads m' = Some (ts[i := AddSocket sock (ts ! i)]) \<and> (\<exists>s. store' = store(sock \<mapsto> s) \<and> reading s \<and> IsOpen s)
        else sm_threads m' = Some ts \<and> store' = store)"
  using assms by (rule accept_step)

section \<open>Concrete networks\<close>

lemma example_threads: "thread_run (session_ops (\<lambda>_. example_env)) (AddSocket 7 NetworkThread_new) [7 \<mapsto> AuthSession_new [] 1]"
  using Thread_add [OF Thread_new, of 7 "session_ops (\<lambda>_. example_env)" "AuthSession_new [] 1"] by (simp add: NetworkThread_new_def)

theorem connection_count_witness:
  "thread_run (session_ops (\<lambda>_. example_env)) (AddSocket 7 NetworkThread_new) [7 \<mapsto> AuthSession_new [] 1]
   \<and> (\<exists>t'. AddNewSockets (session_ops (\<lambda>_. example_env)) [7 \<mapsto> AuthSession_new [] 1] (AddSocket 7 NetworkThread_new) = Inr t'
        \<and> nt_sockets t' = [7])"
proof -
  have "IsOpen (AuthSession_new [] 1)" by (simp add: IsOpen_def AuthSession_new_def Socket.extend_def Socket_new_def)
  with connection_count [OF example_threads] example_threads show ?thesis by (auto simp: AddSocket_def NetworkThread_new_def)
qed

definition three_threads :: SocketMgr where
  "three_threads = \<lparr>sm_acceptor = None, sm_threads = Some [AddSocket 1 NetworkThread_new, NetworkThread_new, NetworkThread_new],
     sm_threadCount = 3\<rparr>"

theorem min_connections_selected_witness:
  "SelectThreadWithMinConnections three_threads = Inr 1
   \<and> (\<exists>k < 3. SelectThreadWithMinConnections three_threads = Inr k \<and> GetSocketForAccept three_threads = Inr k)"
proof -
  have "SelectThreadWithMinConnections three_threads = Inr 1" by code_simp
  moreover have "length [AddSocket 1 NetworkThread_new, NetworkThread_new, NetworkThread_new] = 3" by simp
  ultimately show ?thesis
    using min_connections_selected [of three_threads "[AddSocket 1 NetworkThread_new, NetworkThread_new, NetworkThread_new]"]
    by (auto simp: three_threads_def)
qed

theorem more_threads_out_of_bounds_witness:
  "AuthSocketMgr_StartNetwork Log_new Some [] (\<lambda>_. None) ''0.0.0.0'' 5001 2 SocketMgr_new = Inl OutOfBounds_access"
  by (rule more_threads_out_of_bounds) simp_all

definition waiting_manager :: SocketMgr where
  "waiting_manager =
     \<lparr>sm_acceptor = Some \<lparr>ac_address = ''0.0.0.0'', ac_port = 5001, ac_closed = False, ac_factory = True, ac_listening = True,
        ac_accepting = Some 0\<rparr>, sm_threads = Some [NetworkThread_new], sm_threadCount = 1\<rparr>"

theorem accept_continues_witness:
  "\<exists>m' store' out s. accept_completed example_env (Accepted (Inr (AuthSession_new [] 1))) 7 waiting_manager Map.empty = Inr (m', store', out)
    \<and> sm_threads m' = Some [AddSocket 7 NetworkThread_new] \<and> store' = [7 \<mapsto> s] \<and> reading s"
  using accept_continues [of waiting_manager _ 0 "[NetworkThread_new]" "Accepted (Inr (AuthSession_new [] 1))" example_env 7 Map.empty]
  by (auto simp: waiting_manager_def)

end
