(* ===== verification/Server.thy ===== *)
theory Server
  imports Network_Proofs Logging
begin

text \<open>
  \<^verbatim>\<open>src/src/app/Main.cpp\<close>: the program from its command line to the loop that serves clients. The
  components are the ones of the other theories; what the machine answers (files, iteration order of
  the hash maps, sinks, addresses, the network) is the argument \<open>h\<close>. A \<^verbatim>\<open>Dies\<close> is an
  exception that leaves \<open>main\<close>, an abort, or undefined behaviour.
\<close>

section \<open>The surroundings of the process\<close>

record host =
  h_windows :: bool
  h_conf_dir :: string
  h_files :: file_system
  h_iterate :: "(string \<times> string) list \<Rightarrow> (string \<times> string) list"
  h_traverse :: "options \<Rightarrow> string list"
  h_open_sink :: sink_opener
  h_version :: string
  h_make_address :: "string \<Rightarrow> string option"
  h_address_error :: string
  h_sys :: "bind_call \<Rightarrow> string option"
  h_elapsed :: int

section \<open>The command line\<close>

text \<open>The loop over \<^verbatim>\<open>argv\<close>; the list begins after the program name. \<open>None\<close> is a \<^verbatim>\<open>-c\<close> without its
  argument.\<close>

fun parse_args :: "string list \<Rightarrow> string \<Rightarrow> string option" where
  "parse_args [] configFile = Some configFile"
| "parse_args (arg # rest) configFile =
     (if arg = ''-c'' then
        (case rest of
           [] \<Rightarrow> None
         | name # rest' \<Rightarrow> parse_args rest' name)
      else parse_args rest configFile)"

section \<open>Start-up\<close>

datatype death = Print_error | Log_death log_fatal | Network_death net_error

datatype outcome = Exit int | Serve SocketMgr

record main_state =
  ms_outcome :: outcome
  ms_config :: Config
  ms_log :: Log
  ms_out :: "log_event list"
  ms_console :: "string list"

definition log_server :: "Log \<Rightarrow> LogLevel \<Rightarrow> string \<Rightarrow> log_event list" where
  "log_server lg level msg = LOG_MSG_BODY lg ''server'' level (Some msg)"

text \<open>From the initialised log on: the port, the address, the acceptor.\<close>

definition start_server :: "host \<Rightarrow> Config \<Rightarrow> Log \<Rightarrow> net_error + (outcome \<times> log_event list)" where
  "start_server h cfg lg =
     (case GetOption_int True 32 lg cfg ''ServerPort'' 5001 True of
        (port, out1) \<Rightarrow>
          (if port < 0 \<or> port > 0xFFFF then
             Inr (Exit 1, out1 @ log_server lg Level_Error ''Specified port out of allowed range (1-65535)'')
           else
             (case GetOption_string lg cfg ''BindIP'' ''0.0.0.0'' True of
                (bindIp, out2) \<Rightarrow>
                  err_bind (AuthSocketMgr_StartNetwork lg (h_make_address h) (h_address_error h) (h_sys h) bindIp (nat port) 1 SocketMgr_new)
                    (\<lambda>(ok, m, out3).
                       if \<not> ok then Inr (Exit 1, out1 @ out2 @ out3 @ log_server lg Level_Error ''Failed to initialize network'')
                       else Inr (Serve m, out1 @ out2 @ out3
                              @ log_server lg Level_Debug (''Start network in '' @ ToTimeString (h_elapsed h) ShortText))))))"

definition main :: "host \<Rightarrow> string list \<Rightarrow> death + main_state" where
  "main h args =
     (let exit1 = \<lparr>ms_outcome = Exit 1, ms_config = Config_new, ms_log = Log_new, ms_out = [], ms_console = []\<rparr> in
      case parse_args args (GetConfigPath (h_windows h) (h_conf_dir h) @ ''WarheadFix.conf'') of
        None \<Rightarrow> Inr (exit1\<lparr>ms_console := [''Runtime-Error: -c option requires an input argument'' @ [CHR 0x0A]]\<rparr>)
      | Some configFile \<Rightarrow>
          (case LoadAppConfigs Log_new (h_files h) (h_iterate h) configFile Config_new of
             (loaded, cfg, out, printed) \<Rightarrow>
               (if printed = Some None then Inl Print_error
                else if \<not> loaded then
                  Inr (exit1\<lparr>ms_config := cfg, ms_out := out, ms_console := (case printed of Some (Some t) \<Rightarrow> [t] | _ \<Rightarrow> [])\<rparr>)
                else
                  (case LoadFromConfig (h_open_sink h) cfg (h_traverse h (cfg_options cfg)) (Log_new, []) of
                     Inl e \<Rightarrow> Inl (Log_death e)
                   | Inr (lg, console) \<Rightarrow>
                       (case start_server h cfg lg of
                          Inl e \<Rightarrow> Inl (Network_death e)
                        | Inr (result, out') \<Rightarrow>
                            Inr \<lparr>ms_outcome = result, ms_config = cfg, ms_log = lg,
                                 ms_out = out @ log_server lg Level_Info (h_version h) @ log_server lg Level_Info [] @ out',
                                 ms_console = console\<rparr>)))))"

text \<open>The end of \<open>main\<close> after the loop: the handle stops the network; then the static objects are
  destroyed.\<close>

definition main_return :: "SocketMgr \<Rightarrow> net_error + unit" where
  "main_return m = err_bind (StopNetwork m) SocketMgr_destroy"

end
