(* ===== verification/Server_Proofs.thy ===== *)
theory Server_Proofs
  imports Server
begin

text \<open>
  The program as a whole: what the command line and the configuration files lead to
  (\<open>program_serves\<close>), and the running server as a step relation over the manager, the store of the
  sessions and the judgements of their messages (\<open>server_run\<close>), in which the invariants of the network
  layer and of the sessions hold together (\<open>server_safe\<close>).
\<close>

section \<open>Start-up\<close>

definition port_of :: "options \<Rightarrow> int" where
  "port_of opts = (case Option.bind (opts ''ServerPort'') (\<lambda>v. FromString_int True 32 v 10) of None \<Rightarrow> 5001 | Some p \<Rightarrow> p)"

definition address_of :: "options \<Rightarrow> string" where
  "address_of opts = (case opts ''BindIP'' of None \<Rightarrow> ''0.0.0.0'' | Some a \<Rightarrow> a)"

lemma fst_options:
  "fst (GetOption_int True 32 lg cfg ''ServerPort'' 5001 True) = port_of (cfg_options cfg)"
  "fst (GetOption_string lg cfg ''BindIP'' ''0.0.0.0'' True) = address_of (cfg_options cfg)"
  by (simp_all add: GetOption_int_def GetValueDefault_def GetOption_string_def port_of_def address_of_def split: option.split)

lemma start_server_result:
  shows "\<exists>out. start_server h cfg lg =
    Inr ((if 0 \<le> port_of (cfg_options cfg) \<and> port_of (cfg_options cfg) \<le> 65535
             \<and> h_make_address h (address_of (cfg_options cfg)) \<noteq> None \<and> (\<forall>c. h_sys h c = None)
          then Serve (started_manager (the (h_make_address h (address_of (cfg_options cfg)))) (nat (port_of (cfg_options cfg))))
          else Exit 1), out)"
proof -
  let ?port = "port_of (cfg_options cfg)" and ?ip = "address_of (cfg_options cfg)"
  obtain out1 where p: "GetOption_int True 32 lg cfg ''ServerPort'' 5001 True = (?port, out1)"
    using fst_options(1) [of lg cfg] by (metis prod.collapse)
  obtain out2 where a: "GetOption_string lg cfg ''BindIP'' ''0.0.0.0'' True = (?ip, out2)"
    using fst_options(2) [of lg cfg] by (metis prod.collapse)
  show ?thesis
  proof (cases "h_make_address h ?ip \<noteq> None \<and> (\<forall>c. h_sys h c = None)")
    case True
    then obtain address where "h_make_address h ?ip = Some address" "\<forall>c. h_sys h c = None" by auto
    with StartNetwork_succeeds [of "h_make_address h" ?ip address "h_sys h"] show ?thesis
      by (simp add: start_server_def p a)
  next
    case False
    then have "h_make_address h ?ip = None \<or> \<not> (\<forall>c. h_sys h c = None)" by blast
    from StartNetwork_fails [of "h_make_address h" ?ip "h_sys h", OF this] obtain out where
      "AuthSocketMgr_StartNetwork lg (h_make_address h) (h_address_error h) (h_sys h) ?ip (nat ?port) 1 SocketMgr_new
         = Inr (False, SocketMgr_new, out)" by blast
    then show ?thesis unfolding if_not_P [OF False] using False by (auto simp: start_server_def p a simp del: not_None_eq)
  qed
qed

lemma start_server_Serve: "start_server h cfg lg = Inr (Serve m, out) \<Longrightarrow> \<exists>address port. m = started_manager address port"
  using start_server_result [of h cfg lg] by (auto split: if_splits)

lemma main_Serve: "main h args = Inr s \<Longrightarrow> ms_outcome s = Serve m \<Longrightarrow> \<exists>address port. m = started_manager address port"
  by (auto simp: main_def Let_def split: option.splits prod.splits sum.splits if_splits dest: start_server_Serve)

text \<open>C7: From the command line and the two configuration files to the listening server: once the files
  can be read and the loggers are made, the program serves exactly when the configured port (5001
  without a number) is at most 65535, the configured address is one, and the system opens, binds and
  listens; it then listens there, waits for the first client, and can be stopped cleanly. Otherwise it
  ends with exit code 1.\<close>

theorem program_serves:
  assumes "parse_args args (GetConfigPath (h_windows h) (h_conf_dir h) @ ''WarheadFix.conf'') = Some name"
    and "h_files h (name @ ''.dist'') = Some (Input dist False)" and "file_entries dist \<noteq> []" and "length dist < 2 ^ 32"
    and "h_files h name = Some (Input conf False)" and "length conf < 2 ^ 32" and "permutes_list (h_iterate h)"
    and "opts = layer True (map_of (file_entries conf)) (map_of (file_entries dist))"
    and "LoadFromConfig (h_open_sink h) \<lparr>cfg_filename = name, cfg_options = opts, cfg_usingDistConfig = (file_entries conf = [])\<rparr>
           (h_traverse h opts) (Log_new, []) = Inr (lg, con)"
  shows "\<exists>s. main h args = Inr s \<and> cfg_options (ms_config s) = opts \<and>
    (if 0 \<le> port_of opts \<and> port_of opts \<le> 65535 \<and> h_make_address h (address_of opts) \<noteq> None \<and> (\<forall>c. h_sys h c = None)
     then \<exists>m a. ms_outcome s = Serve m \<and> sm_acceptor m = Some a \<and> ac_listening a \<and> ac_accepting a = Some 0
            \<and> Some (ac_address a) = h_make_address h (address_of opts) \<and> int (ac_port a) = port_of opts
            \<and> main_return m = Inr ()
     else ms_outcome s = Exit 1)"
proof -
  let ?cfg = "\<lparr>cfg_filename = name, cfg_options = opts, cfg_usingDistConfig = (file_entries conf = [])\<rparr>"
  obtain out where cfg: "LoadAppConfigs Log_new (h_files h) (h_iterate h) name Config_new = (True, ?cfg, out, None)"
    using LoadAppConfigs_layers [OF assms(2-7), of Log_new Config_new] assms(8) by (auto simp: Config_new_def)
  obtain out' where st: "start_server h ?cfg lg =
    Inr ((if 0 \<le> port_of opts \<and> port_of opts \<le> 65535 \<and> h_make_address h (address_of opts) \<noteq> None \<and> (\<forall>c. h_sys h c = None)
          then Serve (started_manager (the (h_make_address h (address_of opts))) (nat (port_of opts)))
          else Exit 1), out')"
    using start_server_result [of h ?cfg lg] by auto
  have stop: "main_return (started_manager address port) = Inr ()" for address port
    using StopNetwork_one_thread [of "started_manager address port" _ "NetworkThread_new\<lparr>nt_thread := True\<rparr>"]
    by (simp add: main_return_def started_manager_def NetworkThread_new_def)
  show ?thesis using stop
    by (auto simp: main_def assms(1,9) cfg st started_manager_def)
qed

section \<open>The whole server\<close>

text \<open>Everything that can happen to a running server, in any order: an attempt to accept ends, with a
  client or not; the thread takes over its new sockets, or updates its sockets; the socket of a session
  completes a read, fails, or can be written. \<open>vs p\<close> is how the messages of the client \<open>p\<close> were judged.\<close>

inductive server_run ::
  "host \<Rightarrow> string list \<Rightarrow> SocketMgr \<Rightarrow> (nat \<rightharpoonup> AuthSession) \<Rightarrow> (nat \<Rightarrow> verdict list) \<Rightarrow> bool" for h :: host and args :: "string list" where
  Started: "main h args = Inr s \<Longrightarrow> ms_outcome s = Serve m \<Longrightarrow> server_run h args m Map.empty (\<lambda>_. [])"
| Accept: "server_run h args m store vs \<Longrightarrow> sock \<notin> dom store \<Longrightarrow>
    (\<forall>ts. sm_threads m = Some ts \<longrightarrow> (\<forall>t \<in> set ts. nt_connections t < 2 ^ 31 - 1)) \<Longrightarrow>
    (\<forall>s. result = Accepted (Inr s) \<longrightarrow> (\<exists>address port. s = AuthSession_new address port)) \<Longrightarrow>
    accept_completed env result sock m store = Inr (m', store', out) \<Longrightarrow> server_run h args m' store' vs"
| Collect: "server_run h args m store vs \<Longrightarrow> sm_threads m = Some [t] \<Longrightarrow>
    AddNewSockets (session_ops env) store (t\<lparr>nt_timer := nt_timer t + 1\<rparr>) = Inr t' \<Longrightarrow>
    server_run h args (m\<lparr>sm_threads := Some [t']\<rparr>) store vs"
| Pass: "server_run h args m store vs \<Longrightarrow> sm_threads m = Some [t] \<Longrightarrow>
    update_pass (session_ops env) t store = Inr (t', store') \<Longrightarrow>
    server_run h args (m\<lparr>sm_threads := Some [t']\<rparr>) store' vs"
| Client: "server_run h args m store vs \<Longrightarrow> store p = Some s \<Longrightarrow> session_step s l s' \<Longrightarrow>
    server_run h args m (store(p \<mapsto> s')) (vs(p := vs p @ l))"

definition sessions_ok :: "(nat \<rightharpoonup> AuthSession) \<Rightarrow> (nat \<Rightarrow> verdict list) \<Rightarrow> bool" where
  "sessions_ok store vs \<longleftrightarrow> (\<forall>p. case store p of None \<Rightarrow> vs p = [] | Some s \<Rightarrow> session s (vs p))"

definition manager_ok :: "SocketMgr \<Rightarrow> (nat \<rightharpoonup> AuthSession) \<Rightarrow> bool" where
  "manager_ok m store \<longleftrightarrow> sm_threadCount m = 1
     \<and> (\<exists>a. sm_acceptor m = Some a \<and> ac_listening a \<and> \<not> ac_closed a \<and> ac_factory a \<and> ac_accepting a = Some 0)
     \<and> (\<exists>t. sm_threads m = Some [t] \<and> nt_thread t \<and> thread_inv t store)"

lemma thread_inv_timer [simp]: "thread_inv (t\<lparr>nt_timer := k\<rparr>) store = thread_inv t store"
  by (simp add: thread_inv_def)

lemma thread_inv_store: "thread_inv t store \<Longrightarrow> dom store \<subseteq> dom store' \<Longrightarrow> thread_inv t store'"
  unfolding thread_inv_def by (meson subset_trans)

lemma thread_kept:
  "add_new_sockets ops store ps t = Inr t' \<Longrightarrow> nt_thread t' = nt_thread t"
  "AddNewSockets ops store t = Inr t' \<Longrightarrow> nt_thread t' = nt_thread t"
  "update_pass ops t store = Inr (t', store') \<Longrightarrow> nt_thread t' = nt_thread t"
proof -
  show add: "nt_thread t' = nt_thread t" if "add_new_sockets ops store ps t = Inr t'" for ps t t'
    using that by (induction ps arbitrary: t) (auto split: option.splits if_splits)
  show "AddNewSockets ops store t = Inr t' \<Longrightarrow> nt_thread t' = nt_thread t"
    using add by (fastforce simp: AddNewSockets_def err_bind_Inr_iff split: if_splits)
  show "update_pass ops t store = Inr (t', store') \<Longrightarrow> nt_thread t' = nt_thread t"
    by (auto simp: update_pass_def err_bind_Inr_iff)
qed

lemma sessions_ok_step:
  assumes "sessions_ok store vs" and "session s ws"
  shows "sessions_ok (store(p \<mapsto> s)) (vs(p := ws))"
  unfolding sessions_ok_def
proof
  fix q
  show "case (store(p \<mapsto> s)) q of None \<Rightarrow> (vs(p := ws)) q = [] | Some s \<Rightarrow> session s ((vs(p := ws)) q)"
  proof (cases "q = p")
    case False
    then have "(store(p \<mapsto> s)) q = store q" "(vs(p := ws)) q = vs q" by simp_all
    then show ?thesis using assms(1) unfolding sessions_ok_def by (simp only:)
  qed (simp add: assms(2))
qed

lemma sessions_ok_upd: "sessions_ok store vs \<Longrightarrow> session s (vs p) \<Longrightarrow> sessions_ok (store(p \<mapsto> s)) vs"
  using sessions_ok_step [of store vs s "vs p" p] by simp

lemma update_sockets_sessions:
  "update_sockets (session_ops env) ps store n = Inr (kept, store', n') \<Longrightarrow> sessions_ok store vs \<Longrightarrow>
     sessions_ok store' vs \<and> dom store \<subseteq> dom store'"
proof (induction ps arbitrary: store n kept)
  case (Cons p ps)
  then obtain s where s: "store p = Some s" by (auto split: option.splits)
  obtain ok s1 where u: "op_Update (session_ops env) p s = Inr (ok, s1)" using Cons.prems(1) s by (auto split: sum.splits)
  then have "AuthSession_Update (env p) s = Inr (ok, s1)" by (simp add: session_ops_def)
  moreover have "session s (vs p)" using Cons.prems(2) s by (auto simp: sessions_ok_def split: option.splits dest: spec [of _ p])
  ultimately have s1: "session s1 (vs p)" using session.Step [OF _ session_step.Update] by fastforce
  have sub: "dom store \<subseteq> dom (store(p \<mapsto> s1))" by auto
  have ok: "sessions_ok (store(p \<mapsto> s1)) vs" using Cons.prems(2) s1 by (rule sessions_ok_upd)
  show ?case
  proof (cases ok)
    case True
    then obtain kept' where "update_sockets (session_ops env) ps (store(p \<mapsto> s1)) n = Inr (kept', store', n')"
      using Cons.prems(1) s u by (auto simp: err_bind_Inr_iff)
    from Cons.IH [OF this ok] sub show ?thesis by blast
  next
    case False
    then have "sk_closed s" "s1 = s"
      using u managed_session.update_result managed_session.update_closed by fastforce+
    then have "\<not> op_IsOpen (session_ops env) s1" using managed_session.closed_not_open by blast
    then have "update_sockets (session_ops env) ps (store(p \<mapsto> s1)) (int_wrap 32 (n - 1)) = Inr (kept, store', n')"
      using Cons.prems(1) s u False by simp
    from Cons.IH [OF this ok] sub show ?thesis by blast
  qed
qed simp

lemma accept_completed_session:
  assumes "accept_completed env result sock m store = Inr (m', store', out)"
  shows "sm_threadCount m' = sm_threadCount m
    \<and> (store' = store \<or> (\<exists>made s. result = Accepted (Inr made) \<and> AuthSession_Start env made = Inr s \<and> store' = store(sock \<mapsto> s)))"
  using assms
  by (auto simp: accept_completed_def AsyncAcceptWithCallback_def OnSocketOpen_def err_bind_Inr_iff Let_def
      split: option.splits accept_result.splits sum.splits if_splits)

lemma server_run_inv: "server_run h args m store vs \<Longrightarrow> manager_ok m store \<and> sessions_ok store vs"
proof (induction rule: server_run.induct)
  case (Started s m)
  then obtain address port where "m = started_manager address port" using main_Serve by blast
  then show ?case
    by (auto simp: manager_ok_def sessions_ok_def started_manager_def NetworkThread_new_def thread_inv_def)
next
  case (Accept m store vs sock result env m' store' out)
  then obtain a t where m: "sm_threadCount m = 1" "sm_acceptor m = Some a" "ac_listening a" "\<not> ac_closed a" "ac_factory a"
      "ac_accepting a = Some 0" "sm_threads m = Some [t]" "nt_thread t" "thread_inv t store"
    unfolding manager_ok_def by blast
  from accept_step [OF m(2,4,5,6,7), of result env sock store] m(1) Accept(4,5) obtain k where
    k: "sm_acceptor m' = Some (a\<lparr>ac_accepting := Some k\<rparr>)" "k < 1"
      "if \<exists>address port. result = Accepted (Inr (AuthSession_new address port))
       then sm_threads m' = Some [AddSocket sock t] \<and> (\<exists>s. store' = store(sock \<mapsto> s)) else sm_threads m' = Some [t] \<and> store' = store"
    by (auto split: if_splits)
  note c = accept_completed_session [OF Accept(5)]
  have conn: "nt_connections t < 2 ^ 31 - 1" using Accept(3) m(7) by auto
  have "manager_ok m' store'"
  proof (cases "\<exists>address port. result = Accepted (Inr (AuthSession_new address port))")
    case True
    then obtain s where "sm_threads m' = Some [AddSocket sock t]" "store' = store(sock \<mapsto> s)" using k(3) by auto
    then show ?thesis using AddSocket_inv [OF m(9) Accept(2) conn] k(1,2) c m unfolding manager_ok_def
      by (auto simp: AddSocket_def)
  next
    case False
    then show ?thesis using k c m unfolding manager_ok_def by auto
  qed
  moreover have "sessions_ok store' vs"
  proof (cases "store' = store")
    case False
    then obtain made s where s: "result = Accepted (Inr made)" "AuthSession_Start env made = Inr s" "store' = store(sock \<mapsto> s)"
      using c by blast
    then obtain address port where "made = AuthSession_new address port" using Accept(4) by blast
    then have "session s []" using s(2) session.Start by blast
    moreover have "vs sock = []" using Accept(2) Accept.IH unfolding sessions_ok_def by (auto dest: spec [of _ sock] split: option.splits)
    ultimately show ?thesis using s(3) Accept.IH by (simp add: sessions_ok_upd)
  qed (use Accept.IH in simp)
  ultimately show ?case by blast
next
  case (Collect m store vs t env t')
  then have "thread_inv (t\<lparr>nt_timer := nt_timer t + 1\<rparr>) store" "nt_thread t" by (auto simp: manager_ok_def)
  with managed_session.AddNewSockets_inv [OF _ Collect(3)] thread_kept(2) [OF Collect(3)] Collect.IH show ?case
    by (auto simp: manager_ok_def)
next
  case (Pass m store vs t env t' store')
  then have "thread_inv t store" "nt_thread t" by (auto simp: manager_ok_def)
  moreover obtain kept n where "update_sockets (session_ops env) (nt_sockets t) store (nt_connections t) = Inr (kept, store', n)"
    using Pass(3) by (auto simp: update_pass_def err_bind_Inr_iff)
  ultimately show ?case
    using managed_session.update_pass_inv [OF _ Pass(3)] thread_kept(3) [OF Pass(3)] Pass.IH update_sockets_sessions
    by (fastforce simp: manager_ok_def)
next
  case (Client m store vs p s l s')
  then have "session s (vs p)" by (auto simp: sessions_ok_def dest: spec [of _ p])
  then have "session s' (vs p @ l)" using Client(3) by (rule session.Step)
  moreover have "dom store \<subseteq> dom (store(p \<mapsto> s'))" by auto
  then have "manager_ok m (store(p \<mapsto> s'))"
    using Client.IH thread_inv_store unfolding manager_ok_def by blast
  moreover have "sessions_ok (store(p \<mapsto> s')) (vs(p := vs p @ l))" using Client.IH calculation(1) by (blast intro: sessions_ok_step)
  ultimately show ?case by blast
qed


section \<open>A concrete server\<close>

definition example_dist :: "string list" where
  "example_dist = [''ServerPort = 5001'', ''BindIP = 0.0.0.0'', ''Sink.Console = 0,0,%v'', ''Logger.root = 0,Console'']"

definition example_order_of_options :: "string list" where
  "example_order_of_options = [''ServerPort'', ''BindIP'', ''Sink.Console'', ''Logger.root'']"

definition example_host :: host where
  "example_host =
     \<lparr>h_windows = False, h_conf_dir = ''/etc'',
      h_files = [''f.dist'' \<mapsto> Input example_dist False, ''f'' \<mapsto> Input [''ServerPort = 9000''] False],
      h_iterate = id, h_traverse = (\<lambda>_. example_order_of_options), h_open_sink = (\<lambda>_ _ _ _. None), h_version = ''1'',
      h_make_address = Some, h_address_error = [], h_sys = (\<lambda>_. None), h_elapsed = 5\<rparr>"

definition example_opts :: options where
  "example_opts = layer True (map_of (file_entries [''ServerPort = 9000''])) (map_of (file_entries example_dist))"

definition example_config :: Config where
  "example_config = \<lparr>cfg_filename = ''f'', cfg_options = example_opts, cfg_usingDistConfig = False\<rparr>"

lemma example_config_facts:
  "file_entries example_dist \<noteq> []" "\<not> file_entries [''ServerPort = 9000''] = []" "length example_dist < 2 ^ 32"
  "port_of example_opts = 9000" "address_of example_opts = ''0.0.0.0''"
  "\<exists>log. LoadFromConfig (\<lambda>_ _ _ _. None) example_config example_order_of_options (Log_new, []) = Inr log"
proof -
  have "case LoadFromConfig (\<lambda>_ _ _ _. None) example_config example_order_of_options (Log_new, []) of Inl _ \<Rightarrow> False | Inr _ \<Rightarrow> True"
    by code_simp
  then show "\<exists>log. LoadFromConfig (\<lambda>_ _ _ _. None) example_config example_order_of_options (Log_new, []) = Inr log"
    by (auto split: sum.splits)
qed code_simp+

lemma example_serves:
  "\<exists>s. main example_host [''-c'', ''f''] = Inr s \<and> ms_outcome s = Serve (started_manager ''0.0.0.0'' 9000)"
proof -
  obtain lg con where log: "LoadFromConfig (\<lambda>_ _ _ _. None) example_config example_order_of_options (Log_new, []) = Inr (lg, con)"
    using example_config_facts(6) by auto
  have "permutes_list id" by (simp add: permutes_list_def)
  from LoadAppConfigs_layers [of "h_files example_host" "''f''" example_dist "[''ServerPort = 9000'']" id Log_new Config_new]
    this example_config_facts(1-3) obtain out where
    cfg: "LoadAppConfigs Log_new (h_files example_host) id ''f'' Config_new = (True, example_config, out, None)"
    by (auto simp: example_host_def example_config_def example_opts_def Config_new_def)
  obtain out' where "start_server example_host example_config lg = Inr (Serve (started_manager ''0.0.0.0'' 9000), out')"
    using start_server_result [of example_host example_config lg] example_config_facts(4,5)
    by (auto simp: example_config_def example_host_def)
  with cfg log show ?thesis by (simp add: main_def Let_def) (simp add: example_host_def)
qed

theorem program_serves_witness:
  "\<exists>s m a. main example_host [''-c'', ''f''] = Inr s \<and> ms_outcome s = Serve m \<and> sm_acceptor m = Some a
    \<and> ac_address a = ''0.0.0.0'' \<and> ac_port a = 9000"
proof -
  obtain lg con where "LoadFromConfig (\<lambda>_ _ _ _. None) example_config example_order_of_options (Log_new, []) = Inr (lg, con)"
    using example_config_facts(6) by auto
  then have log: "LoadFromConfig (h_open_sink example_host) \<lparr>cfg_filename = ''f'', cfg_options = example_opts,
      cfg_usingDistConfig = (file_entries [''ServerPort = 9000''] = [])\<rparr> (h_traverse example_host example_opts) (Log_new, []) = Inr (lg, con)"
    using example_config_facts(2) by (simp add: example_config_def example_host_def del: file_entries_simps)
  have pre: "parse_args [''-c'', ''f''] (GetConfigPath (h_windows example_host) (h_conf_dir example_host) @ ''WarheadFix.conf'') = Some ''f''"
      "h_files example_host (''f'' @ ''.dist'') = Some (Input example_dist False)"
      "h_files example_host ''f'' = Some (Input [''ServerPort = 9000''] False)" "length [''ServerPort = 9000''] < 2 ^ 32"
      "permutes_list (h_iterate example_host)"
    by (simp_all add: example_host_def permutes_list_def)
  from program_serves [OF pre(1,2) example_config_facts(1,3) pre(3-5) example_opts_def log] example_config_facts(4,5)
  show ?thesis by (auto simp: example_host_def)
qed

lemma example_server:
  obtains m s where "server_run example_host [''-c'', ''f''] m [7 \<mapsto> s] ((\<lambda>_. [])(7 := [Handle HandleLogon]))"
    "as_status s = Authed" "reading s"
proof (rule example_handled)
  fix s s'
  assume s: "AuthSession_Start example_env (AuthSession_new ''127.0.0.1'' 5001) = Inr s" "session s []" "reading s"
    "session_read example_env (Some example_logon) s = Inr s'" "dispatch example_env (received example_logon s) = Inr (Handle HandleLogon)"
    "as_status s' = Authed" "reading s'"
  let ?m = "started_manager ''0.0.0.0'' 9000" and ?made = "AuthSession_new ''127.0.0.1'' 5001"
  obtain st where "main example_host [''-c'', ''f''] = Inr st" "ms_outcome st = Serve ?m" using example_serves by blast
  from server_run.Started [OF this] have run: "server_run example_host [''-c'', ''f''] ?m Map.empty (\<lambda>_. [])" .
  obtain m where acc: "accept_completed example_env (Accepted (Inr ?made)) 7 ?m Map.empty = Inr (m, [7 \<mapsto> s], [])"
    using s(1) by (simp add: accept_completed_def started_manager_def OnSocketOpen_def AsyncAcceptWithCallback_def GetSocketForAccept_def
        SelectThreadWithMinConnections_def Let_def)
  have "server_run example_host [''-c'', ''f''] m [7 \<mapsto> s] (\<lambda>_. [])"
    using acc by (intro server_run.Accept [OF run]) (auto simp: started_manager_def NetworkThread_new_def)
  from server_run.Client [OF this, of 7 s "[Handle HandleLogon]" s'] session_step.Read [OF s(3) example_messages(1) s(5,4)]
  have "server_run example_host [''-c'', ''f''] m [7 \<mapsto> s'] ((\<lambda>_. [])(7 := [Handle HandleLogon]))" by simp
  then show ?thesis using s(6,7) that by blast
qed


end
