(* ===== verification/Threading.thy ===== *)
theory Threading
  imports Prelude
begin

text \<open>
  \<^verbatim>\<open>src/src/common/Threading\<close>: \<open>LockedQueue\<close>, \<open>ProducerConsumerQueue\<close> and the two \<open>MPSCQueue\<close>s.
  The mutex of a \<open>LockedQueue\<close> can stay locked between its operations (\<open>peek\<close>), so it is part of the
  state; a producer-consumer queue releases its mutex at the end of each operation, and \<open>WaitAndPop\<close>
  is cut where it waits. Nodes and elements of the lock-free queues are keys of a store; \<open>None\<close> is an
  access to an object that does not exist (any more). An \<open>Enqueue\<close> is cut at its two atomic accesses.
\<close>

section \<open>LockedQueue\<close>

datatype 'r locked = Lock_blocked | Lock_undefined | Lock_done 'r

record 'a LockedQueue =
  lq_lock :: bool
  lq_queue :: "'a list"
  lq_canceled :: bool

definition LockedQueue_new :: "'a LockedQueue" where
  "LockedQueue_new = \<lparr>lq_lock = False, lq_queue = [], lq_canceled = False\<rparr>"

definition lq_lock_op :: "'a LockedQueue \<Rightarrow> 'a LockedQueue locked" where
  "lq_lock_op q = (if lq_lock q then Lock_blocked else Lock_done (q\<lparr>lq_lock := True\<rparr>))"

definition lq_unlock_op :: "'a LockedQueue \<Rightarrow> 'a LockedQueue locked" where
  "lq_unlock_op q = (if lq_lock q then Lock_done (q\<lparr>lq_lock := False\<rparr>) else Lock_undefined)"

text \<open>An operation under a guard that releases the mutex at its end.\<close>

definition guarded :: "('a LockedQueue \<Rightarrow> 'r locked) \<Rightarrow> 'a LockedQueue \<Rightarrow> 'r locked" where
  "guarded f q = (if lq_lock q then Lock_blocked else f q)"

definition lq_add :: "'a \<Rightarrow> 'a LockedQueue \<Rightarrow> 'a LockedQueue locked" where
  "lq_add item = guarded (\<lambda>q. Lock_done (q\<lparr>lq_queue := lq_queue q @ [item]\<rparr>))"

definition lq_readd :: "'a list \<Rightarrow> 'a LockedQueue \<Rightarrow> 'a LockedQueue locked" where
  "lq_readd items = guarded (\<lambda>q. Lock_done (q\<lparr>lq_queue := items @ lq_queue q\<rparr>))"

definition lq_next :: "'a LockedQueue \<Rightarrow> ('a option \<times> 'a LockedQueue) locked" where
  "lq_next = guarded (\<lambda>q.
     case lq_queue q of
       [] \<Rightarrow> Lock_done (None, q)
     | x # xs \<Rightarrow> Lock_done (Some x, q\<lparr>lq_queue := xs\<rparr>))"

text \<open>\<^verbatim>\<open>next(result, check)\<close>: the value returned, the value left in \<^verbatim>\<open>result\<close> if any.\<close>

definition lq_next_check :: "('a \<Rightarrow> bool) \<Rightarrow> 'a LockedQueue \<Rightarrow> (bool \<times> 'a option \<times> 'a LockedQueue) locked" where
  "lq_next_check process = guarded (\<lambda>q.
     case lq_queue q of
       [] \<Rightarrow> Lock_done (False, None, q)
     | x # xs \<Rightarrow> if \<not> process x then Lock_done (False, Some x, q) else Lock_done (True, Some x, q\<lparr>lq_queue := xs\<rparr>))"

definition lq_peek :: "bool \<Rightarrow> 'a LockedQueue \<Rightarrow> ('a \<times> 'a LockedQueue) locked" where
  "lq_peek autoUnlock q =
     (if lq_lock q then Lock_blocked
      else case lq_queue q of
             [] \<Rightarrow> Lock_undefined
           | x # _ \<Rightarrow> Lock_done (x, q\<lparr>lq_lock := \<not> autoUnlock\<rparr>))"

definition lq_cancel :: "'a LockedQueue \<Rightarrow> 'a LockedQueue locked" where
  "lq_cancel = guarded (\<lambda>q. Lock_done (q\<lparr>lq_canceled := True\<rparr>))"

definition lq_cancelled :: "'a LockedQueue \<Rightarrow> bool locked" where
  "lq_cancelled = guarded (\<lambda>q. Lock_done (lq_canceled q))"

definition lq_pop_front :: "'a LockedQueue \<Rightarrow> 'a LockedQueue locked" where
  "lq_pop_front = guarded (\<lambda>q. case lq_queue q of [] \<Rightarrow> Lock_undefined | x # xs \<Rightarrow> Lock_done (q\<lparr>lq_queue := xs\<rparr>))"

definition lq_empty :: "'a LockedQueue \<Rightarrow> bool locked" where
  "lq_empty = guarded (\<lambda>q. Lock_done (lq_queue q = []))"

section \<open>ProducerConsumerQueue\<close>

text \<open>\<open>pc_waiting\<close> are the threads blocked in \<^verbatim>\<open>_condition.wait\<close>, \<open>pc_woken\<close> those that have been
  notified and will look at the queue again. \<^verbatim>\<open>notify_one\<close> wakes the waiting thread that the argument
  \<open>pick\<close> picks.\<close>

record 'a PCQueue =
  pc_queue :: "'a list"
  pc_shutdown :: bool
  pc_waiting :: "nat list"
  pc_woken :: "nat list"

definition PCQueue_new :: "'a PCQueue" where
  "PCQueue_new = \<lparr>pc_queue = [], pc_shutdown = False, pc_waiting = [], pc_woken = []\<rparr>"

definition notify_one :: "nat \<Rightarrow> 'a PCQueue \<Rightarrow> 'a PCQueue" where
  "notify_one pick q =
     (if pc_waiting q = [] then q
      else let t = pc_waiting q ! (pick mod length (pc_waiting q)) in
           q\<lparr>pc_waiting := remove1 t (pc_waiting q), pc_woken := pc_woken q @ [t]\<rparr>)"

definition notify_all :: "'a PCQueue \<Rightarrow> 'a PCQueue" where
  "notify_all q = q\<lparr>pc_waiting := [], pc_woken := pc_woken q @ pc_waiting q\<rparr>"

definition pc_Push :: "nat \<Rightarrow> 'a \<Rightarrow> 'a PCQueue \<Rightarrow> 'a PCQueue" where
  "pc_Push pick v q = notify_one pick (q\<lparr>pc_queue := pc_queue q @ [v]\<rparr>)"

definition pc_Empty :: "'a PCQueue \<Rightarrow> bool" where
  "pc_Empty q \<longleftrightarrow> pc_queue q = []"

definition pc_Size :: "'a PCQueue \<Rightarrow> nat" where
  "pc_Size q = length (pc_queue q)"

definition pc_Pop :: "'a PCQueue \<Rightarrow> 'a option \<times> 'a PCQueue" where
  "pc_Pop q =
     (if pc_shutdown q then (None, q)
      else case pc_queue q of [] \<Rightarrow> (None, q) | v # vs \<Rightarrow> (Some v, q\<lparr>pc_queue := vs\<rparr>))"

text \<open>\<open>WaitAndPop\<close> of a thread, from its beginning or from a wakeup to where it waits or returns; the
  result is \<open>None\<close> when it waits, otherwise what it leaves in \<^verbatim>\<open>value\<close>.\<close>

definition pc_WaitAndPop :: "nat \<Rightarrow> 'a PCQueue \<Rightarrow> 'a option option \<times> 'a PCQueue" where
  "pc_WaitAndPop thread q0 =
     (let q = q0\<lparr>pc_woken := remove1 thread (pc_woken q0)\<rparr> in
      if pc_queue q = [] \<and> \<not> pc_shutdown q then (None, q\<lparr>pc_waiting := pc_waiting q @ [thread]\<rparr>)
      else if pc_queue q = [] \<or> pc_shutdown q then (Some None, q)
      else (Some (Some (hd (pc_queue q))), q\<lparr>pc_queue := tl (pc_queue q)\<rparr>))"

text \<open>\<open>Cancel\<close> destroys the queued values; those that are pointers are deleted.\<close>

definition pc_Cancel :: "'a PCQueue \<Rightarrow> 'a list \<times> 'a PCQueue" where
  "pc_Cancel q = (pc_queue q, notify_all (q\<lparr>pc_queue := [], pc_shutdown := True\<rparr>))"

section \<open>MPSCQueueNonIntrusive\<close>

text \<open>A node has its data, not initialised in the first one, and its next pointer.\<close>

record 'a MPSC =
  mp_nodes :: "nat \<rightharpoonup> 'a option \<times> nat option"
  mp_head :: nat
  mp_tail :: nat
  mp_fresh :: nat

definition MPSC_new :: "'a MPSC" where
  "MPSC_new = \<lparr>mp_nodes = [0 \<mapsto> (None, None)], mp_head = 0, mp_tail = 0, mp_fresh = 1\<rparr>"

definition mp_exchange :: "'a \<Rightarrow> 'a MPSC \<Rightarrow> (nat \<times> nat) \<times> 'a MPSC" where
  "mp_exchange input q =
     (let node = mp_fresh q; prevHead = mp_head q in
      ((prevHead, node), q\<lparr>mp_nodes := (mp_nodes q)(node \<mapsto> (Some input, None)), mp_head := node, mp_fresh := node + 1\<rparr>))"

definition mp_link :: "nat \<times> nat \<Rightarrow> 'a MPSC \<Rightarrow> 'a MPSC option" where
  "mp_link l q =
     (case mp_nodes q (fst l) of
        None \<Rightarrow> None
      | Some (data, _) \<Rightarrow> Some (q\<lparr>mp_nodes := (mp_nodes q)(fst l \<mapsto> (data, Some (snd l)))\<rparr>))"

definition mp_Enqueue :: "'a \<Rightarrow> 'a MPSC \<Rightarrow> 'a MPSC option" where
  "mp_Enqueue input q = (case mp_exchange input q of (l, q') \<Rightarrow> mp_link l q')"

text \<open>The result of \<open>Dequeue\<close>: \<open>None\<close> for false, otherwise the data.\<close>

definition mp_Dequeue :: "'a MPSC \<Rightarrow> ('a option option \<times> 'a MPSC) option" where
  "mp_Dequeue q =
     (case mp_nodes q (mp_tail q) of
        None \<Rightarrow> None
      | Some (_, None) \<Rightarrow> Some (None, q)
      | Some (_, Some nxt) \<Rightarrow>
          (case mp_nodes q nxt of
             None \<Rightarrow> None
           | Some (data, _) \<Rightarrow> Some (Some data, q\<lparr>mp_tail := nxt, mp_nodes := (mp_nodes q)(mp_tail q := None)\<rparr>)))"

text \<open>The destructor: the loop that empties the queue, with fuel, and the release of the last node.\<close>

primrec mp_drain :: "nat \<Rightarrow> 'a MPSC \<Rightarrow> 'a MPSC option" where
  "mp_drain 0 q = None"
| "mp_drain (Suc n) q =
     (case mp_Dequeue q of
        None \<Rightarrow> None
      | Some (None, q') \<Rightarrow> Some q'
      | Some (Some _, q') \<Rightarrow> mp_drain n q')"

definition mp_destroy :: "'a MPSC \<Rightarrow> 'a MPSC option" where
  "mp_destroy q =
     (case mp_drain (mp_fresh q + 1) q of
        None \<Rightarrow> None
      | Some q' \<Rightarrow> Some (q'\<lparr>mp_nodes := (mp_nodes q')(mp_head q' := None)\<rparr>))"

section \<open>MPSCQueueIntrusive\<close>

text \<open>The elements carry the link themselves: an element is its address, \<open>0\<close> is the address of
  \<open>_dummy\<close>. \<open>Enqueue\<close> is given whole here, as \<open>Dequeue\<close> uses it.\<close>

record MPSCI =
  mi_link :: "nat \<rightharpoonup> nat option"
  mi_head :: nat
  mi_tail :: nat

definition MPSCI_new :: MPSCI where
  "MPSCI_new = \<lparr>mi_link = [0 \<mapsto> None], mi_head = 0, mi_tail = 0\<rparr>"

definition mi_exchange :: "nat \<Rightarrow> MPSCI \<Rightarrow> nat \<times> MPSCI" where
  "mi_exchange input q = (mi_head q, q\<lparr>mi_link := (mi_link q)(input \<mapsto> None), mi_head := input\<rparr>)"

definition mi_store_link :: "nat \<Rightarrow> nat \<Rightarrow> MPSCI \<Rightarrow> MPSCI option" where
  "mi_store_link prevHead input q =
     (if mi_link q prevHead = None then None else Some (q\<lparr>mi_link := (mi_link q)(prevHead \<mapsto> Some input)\<rparr>))"

definition mi_Enqueue :: "nat \<Rightarrow> MPSCI \<Rightarrow> MPSCI option" where
  "mi_Enqueue input q = (case mi_exchange input q of (prevHead, q') \<Rightarrow> mi_store_link prevHead input q')"

text \<open>The end of \<open>Dequeue\<close>, from \<^verbatim>\<open>if (next)\<close>.\<close>

definition mi_take :: "nat \<Rightarrow> nat option \<Rightarrow> MPSCI \<Rightarrow> (nat option \<times> MPSCI) option" where
  "mi_take tail nxt q =
     (case nxt of
        Some n \<Rightarrow> Some (Some tail, q\<lparr>mi_tail := n\<rparr>)
      | None \<Rightarrow>
          (if tail \<noteq> mi_head q then Some (None, q)
           else case mi_Enqueue 0 q of
                  None \<Rightarrow> None
                | Some q' \<Rightarrow>
                    (case mi_link q' tail of
                       None \<Rightarrow> None
                     | Some (Some n) \<Rightarrow> Some (Some tail, q'\<lparr>mi_tail := n\<rparr>)
                     | Some None \<Rightarrow> Some (None, q'))))"

definition mi_Dequeue :: "MPSCI \<Rightarrow> (nat option \<times> MPSCI) option" where
  "mi_Dequeue q =
     (case mi_link q (mi_tail q) of
        None \<Rightarrow> None
      | Some nxt \<Rightarrow>
          (if mi_tail q = 0 then
             (case nxt of
                None \<Rightarrow> Some (None, q)
              | Some n \<Rightarrow>
                  (case mi_link q n of
                     None \<Rightarrow> None
                   | Some nxt' \<Rightarrow> mi_take n nxt' (q\<lparr>mi_tail := n\<rparr>)))
           else mi_take (mi_tail q) nxt q))"

text \<open>The destructor, with fuel: the elements are deleted.\<close>

primrec mi_destroy :: "nat \<Rightarrow> MPSCI \<Rightarrow> MPSCI option" where
  "mi_destroy 0 q = None"
| "mi_destroy (Suc n) q =
     (case mi_Dequeue q of
        None \<Rightarrow> None
      | Some (None, q') \<Rightarrow> Some q'
      | Some (Some x, q') \<Rightarrow> mi_destroy n (q'\<lparr>mi_link := (mi_link q')(x := None)\<rparr>))"

end
