(* ===== verification/Threading_Proofs.thy ===== *)
theory Threading_Proofs
  imports Threading
begin

text \<open>
  The queues of \<^verbatim>\<open>src/src/common/Threading\<close> implement the same abstract queue (locale \<open>fifo_queue\<close>,
  interpreted on each of the four); the lock-free queue under every interleaving of producers and
  consumer, its destructor; no lost wakeup in the producer-consumer queue.
\<close>

section \<open>What a queue promises\<close>

datatype 'a queue_op = Enq 'a | Deq

text \<open>The reference: a list.\<close>

fun list_queue :: "'a queue_op list \<Rightarrow> 'a list \<Rightarrow> 'a option list \<times> 'a list" where
  "list_queue [] xs = ([], xs)"
| "list_queue (Enq x # ops) xs = list_queue ops (xs @ [x])"
| "list_queue (Deq # ops) [] = (case list_queue ops [] of (rs, ys) \<Rightarrow> (None # rs, ys))"
| "list_queue (Deq # ops) (x # xs) = (case list_queue ops xs of (rs, ys) \<Rightarrow> (Some x # rs, ys))"

text \<open>When the elements a program adds are allowed, and a program over an implementation.\<close>

fun allowed :: "('a \<Rightarrow> 'a list \<Rightarrow> bool) \<Rightarrow> 'a queue_op list \<Rightarrow> 'a list \<Rightarrow> bool" where
  "allowed ok [] xs = True"
| "allowed ok (Enq x # ops) xs = (ok x xs \<and> allowed ok ops (xs @ [x]))"
| "allowed ok (Deq # ops) xs = allowed ok ops (tl xs)"

fun run_queue :: "('a \<Rightarrow> 's \<Rightarrow> 's option) \<Rightarrow> ('s \<Rightarrow> ('a option \<times> 's) option) \<Rightarrow> 'a queue_op list \<Rightarrow> 's
    \<Rightarrow> ('a option list \<times> 's) option" where
  "run_queue enq deq [] s = Some ([], s)"
| "run_queue enq deq (Enq x # ops) s = (case enq x s of None \<Rightarrow> None | Some s' \<Rightarrow> run_queue enq deq ops s')"
| "run_queue enq deq (Deq # ops) s =
     (case deq s of
        None \<Rightarrow> None
      | Some (r, s') \<Rightarrow> map_option (\<lambda>(rs, t). (r # rs, t)) (run_queue enq deq ops s'))"

definition results :: "('a option list \<times> 's) option \<Rightarrow> 'a option list option" where
  "results = map_option fst"

locale fifo_queue =
  fixes rep :: "'s \<Rightarrow> 'a list \<Rightarrow> bool" and ok :: "'a \<Rightarrow> 'a list \<Rightarrow> bool"
    and enq :: "'a \<Rightarrow> 's \<Rightarrow> 's option" and deq :: "'s \<Rightarrow> ('a option \<times> 's) option"
  assumes enq_law: "rep s xs \<Longrightarrow> ok x xs \<Longrightarrow> \<exists>s'. enq x s = Some s' \<and> rep s' (xs @ [x])"
    and deq_empty_law: "rep s [] \<Longrightarrow> \<exists>s'. deq s = Some (None, s') \<and> rep s' []"
    and deq_law: "rep s (x # xs) \<Longrightarrow> \<exists>s'. deq s = Some (Some x, s') \<and> rep s' xs"
begin

lemma run_list_queue:
  "rep s xs \<Longrightarrow> allowed ok ops xs \<Longrightarrow>
     \<exists>s'. run_queue enq deq ops s = Some (fst (list_queue ops xs), s') \<and> rep s' (snd (list_queue ops xs))"
proof (induction ops xs arbitrary: s rule: list_queue.induct)
  case (2 x ops xs)
  from enq_law [of s xs x] 2(2,3) obtain s' where s': "enq x s = Some s'" "rep s' (xs @ [x])" by auto
  with "2.IH" [OF s'(2)] 2(3) show ?case by auto
next
  case (3 ops)
  from deq_empty_law [OF 3(2)] obtain s' where s': "deq s = Some (None, s')" "rep s' []" by blast
  with "3.IH" [OF s'(2)] 3(3) show ?case by (auto split: prod.split)
next
  case (4 ops x xs)
  from deq_law [OF 4(2)] obtain s' where s': "deq s = Some (Some x, s')" "rep s' xs" by blast
  with "4.IH" [OF s'(2)] 4(3) show ?case by (auto split: prod.split)
qed simp

corollary results_list_queue:
  "rep s xs \<Longrightarrow> allowed ok ops xs \<Longrightarrow> results (run_queue enq deq ops s) = Some (fst (list_queue ops xs))"
  using run_list_queue by (fastforce simp: results_def)

end

section \<open>LockedQueue and ProducerConsumerQueue\<close>

fun unlocked :: "'r locked \<Rightarrow> 'r option" where
  "unlocked (Lock_done r) = Some r"
| "unlocked _ = None"

interpretation locked_queue: fifo_queue "\<lambda>q xs. \<not> lq_lock q \<and> lq_queue q = xs" "\<lambda>_ _. True"
    "\<lambda>x q. unlocked (lq_add x q)" "\<lambda>q. unlocked (lq_next q)"
  by unfold_locales (simp_all add: lq_add_def lq_next_def guarded_def)

interpretation pc_fifo: fifo_queue "\<lambda>q xs. \<not> pc_shutdown q \<and> pc_queue q = xs" "\<lambda>_ _. True"
    "\<lambda>x q. Some (pc_Push p x q)" "\<lambda>q. Some (pc_Pop q)" for p
  by unfold_locales (simp_all add: pc_Push_def notify_one_def Let_def pc_Pop_def)

section \<open>The lock-free queue of nodes\<close>

text \<open>The nodes from the tail to the head. The link of a node is in place, or on its way in a producer
  that has exchanged the head.\<close>

definition links :: "'a list \<Rightarrow> ('a \<times> 'a) list" where
  "links ns = zip ns (tl ns)"

definition chain :: "(nat \<rightharpoonup> 'a option \<times> nat option) \<Rightarrow> (nat \<times> nat) set \<Rightarrow> nat list \<Rightarrow> bool" where
  "chain nodes P ns \<longleftrightarrow> ns \<noteq> [] \<and> (\<exists>d. nodes (last ns) = Some (d, None))
     \<and> (\<forall>(a, b) \<in> set (links ns). \<exists>d. nodes a = Some (d, if (a, b) \<in> P then None else Some b))"

definition node_data :: "'a MPSC \<Rightarrow> nat \<Rightarrow> 'a option" where
  "node_data q n = Option.bind (mp_nodes q n) fst"

definition mpsc_inv :: "'a MPSC \<Rightarrow> (nat \<times> nat) set \<Rightarrow> nat list \<Rightarrow> 'a list \<Rightarrow> bool" where
  "mpsc_inv q P ns xs \<longleftrightarrow> chain (mp_nodes q) P ns \<and> hd ns = mp_tail q \<and> last ns = mp_head q \<and> distinct ns
     \<and> P \<subseteq> set (links ns) \<and> dom (mp_nodes q) = set ns \<and> (\<forall>n \<in> set ns. n < mp_fresh q)
     \<and> map (node_data q) (tl ns) = map Some xs"

lemma links_simps [simp]: "links [] = []" "links [n] = []" "links (n # m # ns) = (n, m) # links (m # ns)"
  by (simp_all add: links_def)

lemma links_snoc: "ns \<noteq> [] \<Longrightarrow> links (ns @ [m]) = links ns @ [(last ns, m)]"
  by (induction ns rule: induct_list012) simp_all

lemma links_members: "(a, b) \<in> set (links ns) \<Longrightarrow> a \<in> set ns \<and> b \<in> set (tl ns)"
  unfolding links_def by (auto dest: set_zip_leftD set_zip_rightD)

lemma links_functional: "distinct ns \<Longrightarrow> (a, b) \<in> set (links ns) \<Longrightarrow> (a, c) \<in> set (links ns) \<Longrightarrow> b = c"
  by (induction ns rule: induct_list012) (auto dest: links_members)

lemma links_not_last: "distinct ns \<Longrightarrow> (a, b) \<in> set (links ns) \<Longrightarrow> a \<noteq> last ns"
  by (induction ns rule: induct_list012) (auto dest: links_members)

lemma links_target: "distinct ns \<Longrightarrow> (a, b) \<in> set (links ns) \<Longrightarrow> b \<noteq> hd ns"
  by (cases ns) (auto dest: links_members)

lemma chain_cong:
  assumes "chain nodes P ns" and "\<And>n. n \<in> set ns \<Longrightarrow> nodes' n = nodes n"
  shows "chain nodes' P ns"
  unfolding chain_def
proof (intro conjI ballI)
  show "ns \<noteq> []" using assms(1) by (simp add: chain_def)
  then show "\<exists>d. nodes' (last ns) = Some (d, None)" using assms by (simp add: chain_def)
  fix e assume e: "e \<in> set (links ns)"
  obtain a b where ab: "e = (a, b)" by (cases e)
  have "a \<in> set ns" using e ab links_members [of a b ns] by simp
  then show "case e of (a, b) \<Rightarrow> \<exists>d. nodes' a = Some (d, if (a, b) \<in> P then None else Some b)"
    using assms e ab unfolding chain_def by auto
qed

lemma MPSC_new_inv: "mpsc_inv MPSC_new {} [0] []"
  by (simp add: mpsc_inv_def MPSC_new_def chain_def)

lemma exchange_inv:
  assumes inv: "mpsc_inv q P ns xs" and ex: "mp_exchange x q = (l, q')"
  shows "mpsc_inv q' (insert l P) (ns @ [mp_fresh q]) (xs @ [x]) \<and> l = (last ns, mp_fresh q)"
proof -
  let ?m = "mp_fresh q"
  have ns: "ns \<noteq> []" "?m \<notin> set ns" "last ns = mp_head q" "distinct ns" "dom (mp_nodes q) = set ns"
    using inv by (auto simp: mpsc_inv_def chain_def)
  have q': "q' = q\<lparr>mp_nodes := (mp_nodes q)(?m \<mapsto> (Some x, None)), mp_head := ?m, mp_fresh := ?m + 1\<rparr>" "l = (last ns, ?m)"
    using ex ns by (auto simp: mp_exchange_def Let_def)
  have "chain (mp_nodes q') (insert l P) (ns @ [?m])"
    unfolding chain_def q' links_snoc [OF ns(1)]
  proof (intro conjI ballI)
    fix e assume e: "e \<in> set (links ns @ [(last ns, ?m)])"
    obtain a b where ab: "e = (a, b)" by (cases e)
    have head: "\<exists>d. mp_nodes q (last ns) = Some (d, None)" using inv unfolding mpsc_inv_def chain_def by blast
    show "case e of (a, b) \<Rightarrow> \<exists>d. mp_nodes (q\<lparr>mp_nodes := (mp_nodes q)(?m \<mapsto> (Some x, None)), mp_head := ?m, mp_fresh := ?m + 1\<rparr>) a
        = Some (d, if (a, b) \<in> insert (last ns, ?m) P then None else Some b)"
    proof (cases "e = (last ns, ?m)")
      case True
      then show ?thesis using head ns(1,2) last_in_set by fastforce
    next
      case False
      then have l: "(a, b) \<in> set (links ns)" using e ab by auto
      have "a \<noteq> ?m" using links_members [OF l] ns(2) by blast
      moreover have "\<exists>d. mp_nodes q a = Some (d, if (a, b) \<in> P then None else Some b)"
        using l inv unfolding mpsc_inv_def chain_def by blast
      ultimately show ?thesis using False ab by auto
    qed
  qed (use ns in simp_all)
  moreover have "map (node_data q') (tl (ns @ [?m])) = map Some (xs @ [x])"
  proof -
    have "map (node_data q') (tl ns) = map (node_data q) (tl ns)"
      using ns(2) q' list.set_sel(2) [OF ns(1)] by (auto simp: node_data_def)
    moreover have "map (node_data q) (tl ns) = map Some xs" using inv by (simp add: mpsc_inv_def)
    moreover have "node_data q' ?m = Some x" using q' by (simp add: node_data_def)
    ultimately show ?thesis using ns(1) by simp
  qed
  ultimately show ?thesis using inv q' ns by (auto simp: mpsc_inv_def links_snoc)
qed

lemma link_inv:
  assumes inv: "mpsc_inv q P ns xs" and l: "l \<in> P"
  shows "\<exists>q'. mp_link l q = Some q' \<and> mpsc_inv q' (P - {l}) ns xs"
proof -
  obtain a b where ab: "l = (a, b)" by (cases l)
  have facts: "distinct ns" "(a, b) \<in> set (links ns)" "\<exists>d. mp_nodes q (last ns) = Some (d, None)"
      "\<forall>(a, b) \<in> set (links ns). \<exists>d. mp_nodes q a = Some (d, if (a, b) \<in> P then None else Some b)"
    using inv l ab unfolding mpsc_inv_def chain_def by blast+
  then obtain d where d: "mp_nodes q a = Some (d, None)" using l ab by fastforce
  let ?q = "q\<lparr>mp_nodes := (mp_nodes q)(a \<mapsto> (d, Some b))\<rparr>"
  have "mp_link l q = Some ?q" using d ab by (simp add: mp_link_def)
  moreover have "chain (mp_nodes ?q) (P - {l}) ns"
    unfolding chain_def
  proof (intro conjI ballI)
    show "ns \<noteq> []" using inv by (auto simp: mpsc_inv_def chain_def)
    show "\<exists>d. mp_nodes ?q (last ns) = Some (d, None)" using facts links_not_last [OF facts(1,2)] by auto
    fix e assume e: "e \<in> set (links ns)"
    obtain u v where uv: "e = (u, v)" by (cases e)
    have "u = a \<Longrightarrow> v = b" using links_functional [OF facts(1)] facts(2) e uv by blast
    then show "case e of (u, v) \<Rightarrow> \<exists>d. mp_nodes ?q u = Some (d, if (u, v) \<in> P - {l} then None else Some v)"
      using facts(4) e uv ab by (cases "u = a") fastforce+
  qed
  moreover have "node_data ?q = node_data q" using d by (auto simp: node_data_def fun_eq_iff)
  moreover have "dom (mp_nodes ?q) = dom (mp_nodes q)" using d by auto
  ultimately show ?thesis using inv by (auto simp: mpsc_inv_def)
qed

lemma Dequeue_inv:
  assumes inv: "mpsc_inv q P ns xs"
  shows "(\<exists>m ms x xs' q'. ns = mp_tail q # m # ms \<and> xs = x # xs' \<and> (mp_tail q, m) \<notin> P
      \<and> mp_Dequeue q = Some (Some (Some x), q') \<and> mpsc_inv q' P (m # ms) xs')
    \<or> ((xs = [] \<or> (\<exists>m. (mp_tail q, m) \<in> P)) \<and> mp_Dequeue q = Some (None, q))"
proof -
  obtain rest where ns: "ns = mp_tail q # rest" using inv by (cases ns) (auto simp: mpsc_inv_def chain_def)
  show ?thesis
  proof (cases rest)
    case Nil
    then show ?thesis using inv ns by (auto simp: mpsc_inv_def chain_def mp_Dequeue_def)
  next
    case (Cons m ms)
    obtain d where d: "mp_nodes q (mp_tail q) = Some (d, if (mp_tail q, m) \<in> P then None else Some m)"
      using inv unfolding mpsc_inv_def chain_def ns Cons by auto
    obtain x xs' where x: "xs = x # xs'" "node_data q m = Some x"
      using inv ns Cons by (cases xs) (auto simp: mpsc_inv_def)
    show ?thesis
    proof (cases "(mp_tail q, m) \<in> P")
      case True
      then show ?thesis using d by (auto simp: mp_Dequeue_def)
    next
      case False
      obtain nxt where m: "mp_nodes q m = Some (Some x, nxt)" using x(2) by (auto simp: node_data_def Option.bind_eq_Some_conv)
      let ?q = "q\<lparr>mp_tail := m, mp_nodes := (mp_nodes q)(mp_tail q := None)\<rparr>"
      have deq: "mp_Dequeue q = Some (Some (Some x), ?q)" using d False m by (simp add: mp_Dequeue_def)
      have t: "mp_tail q \<notin> set (m # ms)" using inv ns Cons by (simp add: mpsc_inv_def)
      have same: "mp_nodes ?q a = mp_nodes q a" if "a \<in> set (m # ms)" for a using that t by auto
      have "chain (mp_nodes q) P (m # ms)" using inv unfolding mpsc_inv_def chain_def ns Cons by auto
      from chain_cong [OF this] same have "chain (mp_nodes ?q) P (m # ms)" by blast
      moreover have "map (node_data ?q) ms = map Some xs'"
      proof -
        have "map (node_data ?q) ms = map (node_data q) ms" using t by (auto simp: node_data_def)
        also have "\<dots> = map Some xs'" using inv ns Cons x by (simp add: mpsc_inv_def)
        finally show ?thesis .
      qed
      moreover have "P \<subseteq> set (links (m # ms))" using inv False ns Cons by (auto simp: mpsc_inv_def)
      moreover have "dom (mp_nodes ?q) = set (m # ms)" using inv ns Cons t by (auto simp: mpsc_inv_def)
      ultimately have "mpsc_inv ?q P (m # ms) xs'" using inv ns Cons by (simp add: mpsc_inv_def)
      with deq False x(1) ns Cons show ?thesis by blast
    qed
  qed
qed

definition mp_deq :: "'a MPSC \<Rightarrow> ('a option \<times> 'a MPSC) option" where
  "mp_deq q = map_option (\<lambda>(r, q'). (Option.bind r id, q')) (mp_Dequeue q)"

interpretation mpsc_sequential: fifo_queue "\<lambda>q xs. \<exists>ns. mpsc_inv q {} ns xs" "\<lambda>_ _. True" mp_Enqueue mp_deq
proof
  fix q :: "'a MPSC" and xs x
  assume "\<exists>ns. mpsc_inv q {} ns xs"
  then obtain ns where inv: "mpsc_inv q {} ns xs" by blast
  obtain l q1 where ex: "mp_exchange x q = (l, q1)" by (cases "mp_exchange x q")
  have "mpsc_inv q1 (insert l {}) (ns @ [mp_fresh q]) (xs @ [x])" using exchange_inv [OF inv ex] by blast
  from link_inv [OF this insertI1] ex show "\<exists>q'. mp_Enqueue x q = Some q' \<and> (\<exists>ns. mpsc_inv q' {} ns (xs @ [x]))"
    by (auto simp: mp_Enqueue_def)
next
  fix q :: "'a MPSC"
  assume "\<exists>ns. mpsc_inv q {} ns []"
  then show "\<exists>q'. mp_deq q = Some (None, q') \<and> (\<exists>ns. mpsc_inv q' {} ns [])"
    using Dequeue_inv by (force simp: mp_deq_def)
next
  fix q :: "'a MPSC" and x xs
  assume "\<exists>ns. mpsc_inv q {} ns (x # xs)"
  then show "\<exists>q'. mp_deq q = Some (Some x, q') \<and> (\<exists>ns. mpsc_inv q' {} ns xs)"
    using Dequeue_inv by (force simp: mp_deq_def)
qed

section \<open>The lock-free queue of linked elements\<close>

definition mi_chain :: "MPSCI \<Rightarrow> nat list \<Rightarrow> bool" where
  "mi_chain q ns \<longleftrightarrow> ns \<noteq> [] \<and> hd ns = mi_tail q \<and> last ns = mi_head q \<and> distinct ns \<and> mi_link q (last ns) = Some None
     \<and> (\<forall>(a, b) \<in> set (links ns). mi_link q a = Some (Some b))"

definition mi_rep :: "MPSCI \<Rightarrow> nat list \<Rightarrow> bool" where
  "mi_rep q xs \<longleftrightarrow> (\<exists>ns. mi_chain q ns \<and> xs = filter (\<lambda>n. n \<noteq> 0) ns)"

lemma mi_Enqueue_chain:
  assumes c: "mi_chain q ns" and y: "y \<notin> set ns"
  shows "\<exists>q'. mi_Enqueue y q = Some q' \<and> mi_chain q' (ns @ [y]) \<and> mi_tail q' = mi_tail q"
proof -
  let ?q = "q\<lparr>mi_link := (mi_link q)(y \<mapsto> None, last ns \<mapsto> Some y), mi_head := y\<rparr>"
  have "ns \<noteq> []" "distinct ns" "last ns = mi_head q" using c by (auto simp: mi_chain_def)
  moreover from this have "last ns \<noteq> y" using y last_in_set by metis
  ultimately have ns: "ns \<noteq> []" "distinct ns" "last ns = mi_head q" "last ns \<noteq> y" .
  have "mi_Enqueue y q = Some ?q"
    using c ns by (auto simp: mi_Enqueue_def mi_exchange_def mi_store_link_def mi_chain_def)
  moreover have "mi_chain ?q (ns @ [y])"
    unfolding mi_chain_def links_snoc [OF ns(1)]
  proof (intro conjI ballI)
    fix e assume e: "e \<in> set (links ns @ [(last ns, y)])"
    obtain a b where ab: "e = (a, b)" by (cases e)
    show "case e of (a, b) \<Rightarrow> mi_link ?q a = Some (Some b)"
    proof (cases "e = (last ns, y)")
      case False
      then have l: "(a, b) \<in> set (links ns)" using e ab by auto
      then have "a \<noteq> last ns" "a \<noteq> y" using links_not_last [OF ns(2) l] links_members [OF l] y by auto
      then show ?thesis using l c ab by (auto simp: mi_chain_def)
    qed simp
  qed (use c ns y in \<open>auto simp: mi_chain_def\<close>)
  ultimately show ?thesis by (intro exI [of _ ?q]) simp
qed

lemma mi_chain_tl: "mi_chain q (n # m # ns) \<Longrightarrow> mi_chain (q\<lparr>mi_tail := m\<rparr>) (m # ns)"
  by (auto simp: mi_chain_def)

lemma mi_chain_link: "mi_chain q (n # ns) \<Longrightarrow> mi_link q n = Some (case ns of [] \<Rightarrow> None | m # _ \<Rightarrow> Some m)"
  by (auto simp: mi_chain_def split: list.split)

lemma mi_take_chain:
  assumes c: "mi_chain q (n # ns)" and n: "n \<noteq> 0" and no: "ns = [] \<Longrightarrow> 0 \<notin> set (n # ns)"
  shows "\<exists>q' ns'. mi_take n (case ns of [] \<Rightarrow> None | m # _ \<Rightarrow> Some m) q = Some (Some n, q') \<and> mi_chain q' ns'
    \<and> filter (\<lambda>n. n \<noteq> 0) ns' = filter (\<lambda>n. n \<noteq> 0) ns"
proof (cases ns)
  case Nil
  obtain q1 where q1: "mi_Enqueue 0 q = Some q1" "mi_chain q1 [n, 0]" "mi_tail q1 = mi_tail q"
    using mi_Enqueue_chain [OF c, of 0] n Nil by auto
  have "mi_head q = n" using c Nil by (simp add: mi_chain_def)
  moreover have "mi_link q1 n = Some (Some 0)" using mi_chain_link [OF q1(2)] by simp
  ultimately show ?thesis using Nil q1 mi_chain_tl [OF q1(2)] by (auto simp: mi_take_def intro!: exI [of _ "[0]"])
next
  case (Cons m ms)
  then show ?thesis using mi_chain_tl [of q n m ms] c by (auto simp: mi_take_def intro!: exI [of _ "m # ms"])
qed

lemma mi_Dequeue_rep:
  assumes "mi_chain q ns"
  shows "case filter (\<lambda>n. n \<noteq> 0) ns of
      [] \<Rightarrow> mi_Dequeue q = Some (None, q)
    | x # xs \<Rightarrow> \<exists>q'. mi_Dequeue q = Some (Some x, q') \<and> mi_rep q' xs"
proof -
  obtain t rest where ns: "ns = t # rest" "mi_tail q = t" using assms by (cases ns) (auto simp: mi_chain_def)
  have link: "mi_link q t = Some (case rest of [] \<Rightarrow> None | m # _ \<Rightarrow> Some m)" using assms ns mi_chain_link by blast
  show ?thesis
  proof (cases "t = 0")
    case True
    show ?thesis
    proof (cases rest)
      case Nil
      then show ?thesis using True ns link by (simp add: mi_Dequeue_def)
    next
      case (Cons n ms)
      have c: "mi_chain (q\<lparr>mi_tail := n\<rparr>) (n # ms)" and n: "n \<noteq> 0" "0 \<notin> set ms"
        using assms ns Cons True mi_chain_tl by (auto simp: mi_chain_def)
      have "mi_link q n = Some (case ms of [] \<Rightarrow> None | m # _ \<Rightarrow> Some m)" using mi_chain_link [OF c] by simp
      moreover obtain q' ns' where "mi_take n (case ms of [] \<Rightarrow> None | m # _ \<Rightarrow> Some m) (q\<lparr>mi_tail := n\<rparr>) = Some (Some n, q')"
          "mi_chain q' ns'" "filter (\<lambda>n. n \<noteq> 0) ns' = filter (\<lambda>n. n \<noteq> 0) ms"
        using mi_take_chain [OF c n(1)] n by auto
      ultimately show ?thesis using n True ns Cons link by (auto simp: mi_Dequeue_def mi_rep_def intro!: exI [of _ ns'])
    qed
  next
    case False
    have "rest = [] \<Longrightarrow> 0 \<notin> set (t # rest)" using False by simp
    with mi_take_chain [of q t rest] assms False ns obtain q' ns' where
        "mi_take t (case rest of [] \<Rightarrow> None | m # _ \<Rightarrow> Some m) q = Some (Some t, q')"
        "mi_chain q' ns'" "filter (\<lambda>n. n \<noteq> 0) ns' = filter (\<lambda>n. n \<noteq> 0) rest" by blast
    then show ?thesis using False ns link by (auto simp: mi_Dequeue_def mi_rep_def intro!: exI [of _ ns'])
  qed
qed

interpretation mpsc_intrusive: fifo_queue mi_rep "\<lambda>x xs. x \<noteq> 0 \<and> x \<notin> set xs" mi_Enqueue mi_Dequeue
proof
  fix q xs x
  assume rep: "mi_rep q xs" and ok: "x \<noteq> 0 \<and> x \<notin> set xs"
  then obtain ns where c: "mi_chain q ns" "xs = filter (\<lambda>n. n \<noteq> 0) ns" by (auto simp: mi_rep_def)
  have "x \<notin> set ns" using ok c(2) by auto
  from mi_Enqueue_chain [OF c(1) this] c(2) ok show "\<exists>q'. mi_Enqueue x q = Some q' \<and> mi_rep q' (xs @ [x])"
    by (force simp: mi_rep_def)
next
  fix q
  assume "mi_rep q []"
  then obtain ns where c: "mi_chain q ns" "[] = filter (\<lambda>n. n \<noteq> 0) ns" by (auto simp: mi_rep_def)
  from mi_Dequeue_rep [OF c(1)] c show "\<exists>q'. mi_Dequeue q = Some (None, q') \<and> mi_rep q' []" by (auto simp: mi_rep_def)
next
  fix q x xs
  assume "mi_rep q (x # xs)"
  then obtain ns where c: "mi_chain q ns" "x # xs = filter (\<lambda>n. n \<noteq> 0) ns" by (auto simp: mi_rep_def)
  from mi_Dequeue_rep [OF c(1)] c(2) [symmetric] show "\<exists>q'. mi_Dequeue q = Some (Some x, q') \<and> mi_rep q' xs" by simp
qed

lemma mi_chain_delete:
  "mi_chain q ns \<Longrightarrow> x \<notin> set ns \<Longrightarrow> mi_chain (q\<lparr>mi_link := (mi_link q)(x := None)\<rparr>) ns"
proof -
  assume c: "mi_chain q ns" and x: "x \<notin> set ns"
  have "last ns \<noteq> x" using c x last_in_set [of ns] by (auto simp: mi_chain_def)
  moreover have "a \<noteq> x" if "(a, b) \<in> set (links ns)" for a b using links_members [OF that] x by blast
  ultimately show ?thesis using c by (auto simp: mi_chain_def)
qed

lemma mi_rep_delete:
  assumes "mi_rep q xs" and "x \<noteq> 0" and "x \<notin> set xs"
  shows "mi_rep (q\<lparr>mi_link := (mi_link q)(x := None)\<rparr>) xs"
proof -
  obtain ns where "mi_chain q ns" "xs = filter (\<lambda>n. n \<noteq> 0) ns" using assms(1) by (auto simp: mi_rep_def)
  with assms mi_chain_delete [of q ns x] show ?thesis unfolding mi_rep_def by (intro exI [of _ ns]) auto
qed

lemma mi_rep_distinct: "mi_rep q xs \<Longrightarrow> distinct xs \<and> 0 \<notin> set xs"
  by (auto simp: mi_rep_def mi_chain_def)

lemma mi_Enqueue_dom: "mi_Enqueue x q = Some q' \<Longrightarrow> dom (mi_link q') \<subseteq> insert x (dom (mi_link q))"
  by (auto simp: mi_Enqueue_def mi_exchange_def mi_store_link_def split: if_splits)

lemma mi_take_dom: "mi_take n nxt q = Some (r, q') \<Longrightarrow> dom (mi_link q') \<subseteq> insert 0 (dom (mi_link q))"
  by (auto simp: mi_take_def split: option.splits if_splits dest!: mi_Enqueue_dom; blast dest: domI)

lemma mi_Dequeue_dom: "mi_Dequeue q = Some (r, q') \<Longrightarrow> dom (mi_link q') \<subseteq> insert 0 (dom (mi_link q))"
  by (auto simp: mi_Dequeue_def split: option.splits if_splits dest!: mi_take_dom)

lemma mi_destroy_frees:
  "mi_rep q xs \<Longrightarrow> length xs < fuel \<Longrightarrow>
     \<exists>q'. mi_destroy fuel q = Some q' \<and> dom (mi_link q') \<subseteq> insert 0 (dom (mi_link q) - set xs)"
proof (induction fuel arbitrary: q xs)
  case (Suc fuel)
  show ?case
  proof (cases xs)
    case Nil
    then obtain q' where "mi_Dequeue q = Some (None, q')" using mpsc_intrusive.deq_empty_law Suc.prems(1) by blast
    then show ?thesis using Nil mi_Dequeue_dom by auto
  next
    case (Cons x ys)
    then obtain q1 where q1: "mi_Dequeue q = Some (Some x, q1)" "mi_rep q1 ys"
      using mpsc_intrusive.deq_law Suc.prems(1) by blast
    let ?q = "q1\<lparr>mi_link := (mi_link q1)(x := None)\<rparr>"
    have x: "x \<noteq> 0" "x \<notin> set ys" using mi_rep_distinct [OF Suc.prems(1)] Cons by auto
    from Suc.IH [OF mi_rep_delete [OF q1(2) x]] Suc.prems(2) Cons obtain q' where
      "mi_destroy fuel ?q = Some q'" "dom (mi_link q') \<subseteq> insert 0 (dom (mi_link ?q) - set ys)" by (simp del: fun_upd_apply dom_fun_upd) blast
    moreover have "dom (mi_link ?q) \<subseteq> insert 0 (dom (mi_link q) - {x})" using mi_Dequeue_dom [OF q1(1)] by auto
    ultimately show ?thesis using q1(1) Cons by (auto simp: subset_iff)
  qed
qed simp

lemma MPSCI_new_rep: "mi_rep MPSCI_new []"
  by (auto simp: mi_rep_def mi_chain_def MPSCI_new_def intro!: exI [of _ "[0]"])

section \<open>The four queues agree\<close>

text \<open>C35: Any program of insertions and removals gives, on each of the four queues, the results it gives
  on a list. The intrusive queue needs elements that are not in it and not the dummy.\<close>

theorem queues_agree:
  fixes ops :: "'a queue_op list" and addresses :: "nat queue_op list"
  assumes "allowed (\<lambda>x xs. x \<noteq> 0 \<and> x \<notin> set xs) addresses []"
  shows "results (run_queue (\<lambda>x q. unlocked (lq_add x q)) (\<lambda>q. unlocked (lq_next q)) ops LockedQueue_new)
      = Some (fst (list_queue ops []))
    \<and> results (run_queue (\<lambda>x q. Some (pc_Push pick x q)) (\<lambda>q. Some (pc_Pop q)) ops PCQueue_new)
      = Some (fst (list_queue ops []))
    \<and> results (run_queue mp_Enqueue mp_deq ops MPSC_new) = Some (fst (list_queue ops []))
    \<and> results (run_queue mi_Enqueue mi_Dequeue addresses MPSCI_new) = Some (fst (list_queue addresses []))"
proof (intro conjI)
  have free: "allowed (\<lambda>_ _. True) ops xs" for xs
    by (induction "\<lambda>_ :: 'a. \<lambda>_ :: 'a list. True" ops xs rule: allowed.induct) simp_all
  show "results (run_queue (\<lambda>x q. unlocked (lq_add x q)) (\<lambda>q. unlocked (lq_next q)) ops LockedQueue_new)
      = Some (fst (list_queue ops []))"
    using free by (intro locked_queue.results_list_queue) (simp_all add: LockedQueue_new_def)
  show "results (run_queue (\<lambda>x q. Some (pc_Push pick x q)) (\<lambda>q. Some (pc_Pop q)) ops PCQueue_new)
      = Some (fst (list_queue ops []))"
    using free by (intro pc_fifo.results_list_queue) (simp_all add: PCQueue_new_def)
  show "results (run_queue mp_Enqueue mp_deq ops MPSC_new) = Some (fst (list_queue ops []))"
    using free MPSC_new_inv by (blast intro: mpsc_sequential.results_list_queue)
  show "results (run_queue mi_Enqueue mi_Dequeue addresses MPSCI_new) = Some (fst (list_queue addresses []))"
    using assms MPSCI_new_rep by (rule mpsc_intrusive.results_list_queue [rotated])
qed

lemma queues_agree_witness:
  "results (run_queue mi_Enqueue mi_Dequeue [Enq 7, Deq, Deq, Enq 7, Enq 8, Deq] MPSCI_new) = Some [Some 7, None, Some 7]"
  using queues_agree [of "[Enq 7, Deq, Deq, Enq 7, Enq 8, Deq]" "[]" 0]
  by (auto simp del: run_queue.simps)

section \<open>Interleaved producers and the consumer of the lock-free queue\<close>

text \<open>The steps of any number of producers and of the consumer: a producer exchanges the head and, at any
  later time, links; the consumer takes. \<open>ins\<close> are the inputs in the order of the exchanges, \<open>outs\<close> the
  data taken.\<close>

inductive mpsc_run :: "'a MPSC \<Rightarrow> (nat \<times> nat) set \<Rightarrow> 'a list \<Rightarrow> 'a option list \<Rightarrow> bool" where
  new: "mpsc_run MPSC_new {} [] []"
| exchange: "mpsc_run q P ins outs \<Longrightarrow> mp_exchange x q = (l, q') \<Longrightarrow> mpsc_run q' (insert l P) (ins @ [x]) outs"
| link: "mpsc_run q P ins outs \<Longrightarrow> l \<in> P \<Longrightarrow> mp_link l q = Some q' \<Longrightarrow> mpsc_run q' (P - {l}) ins outs"
| take_one: "mpsc_run q P ins outs \<Longrightarrow> mp_Dequeue q = Some (Some d, q') \<Longrightarrow> mpsc_run q' P ins (outs @ [d])"

lemma mpsc_run_inv: "mpsc_run q P ins outs \<Longrightarrow> \<exists>ns xs. mpsc_inv q P ns xs \<and> map Some ins = outs @ map Some xs"
proof (induction rule: mpsc_run.induct)
  case new
  then show ?case using MPSC_new_inv by fastforce
next
  case (exchange q P ins outs x l q')
  then obtain ns xs where inv: "mpsc_inv q P ns xs" "map Some ins = outs @ map Some xs" by blast
  have "mpsc_inv q' (insert l P) (ns @ [mp_fresh q]) (xs @ [x])" using exchange_inv [OF inv(1) exchange(2)] by blast
  then show ?case using inv(2) by (intro exI [of _ "ns @ [mp_fresh q]"] exI [of _ "xs @ [x]"]) simp
next
  case (link q P ins outs l q')
  then show ?case using link_inv by fastforce
next
  case (take_one q P ins outs d q')
  then obtain ns xs where inv: "mpsc_inv q P ns xs" "map Some ins = outs @ map Some xs" by blast
  from Dequeue_inv [OF inv(1)] take_one(2) obtain m ms x xs' where
    "xs = x # xs'" "d = Some x" "mpsc_inv q' P (m # ms) xs'" by auto
  then show ?case using inv(2) by (intro exI [of _ "m # ms"] exI [of _ xs']) simp
qed

text \<open>C31: With any number of producers whose enqueues interleave with each other and with the consumer at
  their atomic accesses, the consumer gets exactly the inputs in the order of the exchanges, each once and
  none of the first node's uninitialised data; no step accesses a freed node; \<open>Dequeue\<close> returns false only
  when the queue is empty or a producer is between its two accesses.\<close>

theorem mpsc_fifo:
  assumes "mpsc_run q P ins outs"
  shows "\<exists>xs. map Some ins = outs @ map Some xs
    \<and> (\<forall>l \<in> P. mp_link l q \<noteq> None)
    \<and> (case xs of
         [] \<Rightarrow> mp_Dequeue q = Some (None, q)
       | x # _ \<Rightarrow> (\<exists>q'. mp_Dequeue q = Some (Some (Some x), q')) \<or> P \<noteq> {} \<and> mp_Dequeue q = Some (None, q))"
proof -
  obtain ns xs where inv: "mpsc_inv q P ns xs" "map Some ins = outs @ map Some xs" using mpsc_run_inv [OF assms] by blast
  have "\<forall>l \<in> P. mp_link l q \<noteq> None" using link_inv [OF inv(1)] by blast
  with Dequeue_inv [OF inv(1)] inv(2) show ?thesis by (intro exI [of _ xs]) (auto split: list.split)
qed

lemma mpsc_fifo_witness:
  "\<exists>q P. mpsc_run q P [5, 6] [Some (5 :: nat)] \<and> P \<noteq> {}
    \<and> (\<exists>xs. map Some [5, 6] = [Some (5 :: nat)] @ map Some xs \<and> (\<forall>l \<in> P. mp_link l q \<noteq> None)
      \<and> (case xs of
         [] \<Rightarrow> mp_Dequeue q = Some (None, q)
       | x # _ \<Rightarrow> (\<exists>q'. mp_Dequeue q = Some (Some (Some x), q')) \<or> P \<noteq> {} \<and> mp_Dequeue q = Some (None, q)))"
proof -
  let ?a = "mp_exchange 5 (MPSC_new :: nat MPSC)"
  let ?b = "mp_exchange 6 (snd ?a)"
  let ?c = "the (mp_link (fst ?a) (snd ?b))"
  let ?d = "snd (the (mp_Dequeue ?c))"
  have "mpsc_run (snd ?b) {fst ?b, fst ?a} [5, 6] []"
    using mpsc_run.exchange [OF mpsc_run.exchange [OF mpsc_run.new, of 5 "fst ?a" "snd ?a"], of 6 "fst ?b" "snd ?b"] by simp
  from mpsc_run.link [OF this, of "fst ?a" ?c] have "mpsc_run ?c {fst ?b} [5, 6] []"
    by (simp add: mp_exchange_def mp_link_def MPSC_new_def insert_commute)
  from mpsc_run.take_one [OF this, of "Some 5" ?d] have run: "mpsc_run ?d {fst ?b} [5, 6] [Some 5]"
    by (simp add: mp_exchange_def mp_link_def MPSC_new_def mp_Dequeue_def)
  show ?thesis by (rule exI [of _ ?d], rule exI [of _ "{fst ?b}"], intro conjI run mpsc_fifo [OF run]) simp
qed

lemma mp_drain_inv:
  "mpsc_inv q {} ns xs \<Longrightarrow> length xs < fuel \<Longrightarrow>
     \<exists>q'. mp_drain fuel q = Some q' \<and> dom (mp_nodes q') = {mp_head q'}"
proof (induction fuel arbitrary: q ns xs)
  case (Suc fuel)
  show ?case
  proof (cases xs)
    case Nil
    have "mp_Dequeue q = Some (None, q)" using Dequeue_inv [OF Suc.prems(1)] Nil by blast
    moreover have "ns = [mp_head q]"
      using Suc.prems(1) Nil unfolding mpsc_inv_def chain_def by (cases ns) auto
    ultimately show ?thesis using Suc.prems(1) by (simp add: mpsc_inv_def)
  next
    case (Cons x xs')
    from Dequeue_inv [OF Suc.prems(1)] Cons obtain m ms q' where
      "mp_Dequeue q = Some (Some (Some x), q')" "mpsc_inv q' {} (m # ms) xs'" by auto
    with Suc.IH [of q' "m # ms" xs'] Suc.prems(2) Cons show ?thesis by simp
  qed
qed simp

lemma mpsc_inv_length:
  assumes "mpsc_inv q P ns xs"
  shows "length xs < mp_fresh q"
proof -
  have "distinct ns" "\<forall>n \<in> set ns. n < mp_fresh q" "ns \<noteq> []" "length xs = length (tl ns)"
    using assms by (auto simp: mpsc_inv_def chain_def dest: map_eq_imp_length_eq)
  moreover from this have "length ns \<le> mp_fresh q"
    using card_mono [of "{..< mp_fresh q}" "set ns"] by (auto simp: distinct_card)
  ultimately show ?thesis by (cases ns) simp_all
qed

text \<open>C36: The destructor of a queue whose producers have all finished ends, accesses no freed node and
  frees every node.\<close>

theorem mpsc_destroy:
  assumes "mpsc_run q {} ins outs"
  shows "\<exists>q'. mp_destroy q = Some q' \<and> mp_nodes q' = Map.empty"
proof -
  obtain ns xs where inv: "mpsc_inv q {} ns xs" using mpsc_run_inv [OF assms] by blast
  obtain q' where "mp_drain (mp_fresh q + 1) q = Some q'" "dom (mp_nodes q') = {mp_head q'}"
    using mp_drain_inv [OF inv, of "mp_fresh q + 1"] mpsc_inv_length [OF inv] by auto
  moreover from this have "(mp_nodes q')(mp_head q' := None) = Map.empty" by (auto simp: fun_eq_iff dom_def)
  ultimately show ?thesis by (simp add: mp_destroy_def)
qed

lemma mpsc_destroy_witness: "\<exists>q'. mp_destroy (MPSC_new :: nat MPSC) = Some q' \<and> mp_nodes q' = Map.empty"
  by (rule mpsc_destroy) (rule mpsc_run.new)

section \<open>Threads on a ProducerConsumerQueue\<close>

text \<open>\<open>ins\<close> are the pushed values, \<open>outs\<close> the values popped, \<open>gone\<close> those that \<open>Cancel\<close> destroyed. A waiting
  thread may also wake without a notification.\<close>

inductive pc_run :: "'a PCQueue \<Rightarrow> 'a list \<Rightarrow> 'a list \<Rightarrow> 'a list \<Rightarrow> bool" where
  new: "pc_run PCQueue_new [] [] []"
| push: "pc_run q ins outs gone \<Longrightarrow> pc_run (pc_Push pick v q) (ins @ [v]) outs gone"
| pop: "pc_run q ins outs gone \<Longrightarrow> pc_Pop q = (r, q') \<Longrightarrow> pc_run q' ins (outs @ (case r of None \<Rightarrow> [] | Some v \<Rightarrow> [v])) gone"
| wait: "pc_run q ins outs gone \<Longrightarrow> t \<notin> set (pc_waiting q) \<Longrightarrow> pc_WaitAndPop t q = (r, q') \<Longrightarrow>
    pc_run q' ins (outs @ (case r of Some (Some v) \<Rightarrow> [v] | _ \<Rightarrow> [])) gone"
| spurious: "pc_run q ins outs gone \<Longrightarrow> t \<in> set (pc_waiting q) \<Longrightarrow>
    pc_run (q\<lparr>pc_waiting := remove1 t (pc_waiting q), pc_woken := pc_woken q @ [t]\<rparr>) ins outs gone"
| cancel: "pc_run q ins outs gone \<Longrightarrow> pc_Cancel q = (vs, q') \<Longrightarrow> pc_run q' ins outs (gone @ vs)"

definition pc_inv :: "'a PCQueue \<Rightarrow> bool" where
  "pc_inv q \<longleftrightarrow> (pc_waiting q \<noteq> [] \<longrightarrow> length (pc_queue q) \<le> length (pc_woken q))
     \<and> (pc_shutdown q \<longrightarrow> pc_waiting q = [])"

lemma length_remove1_le: "length xs - 1 \<le> length (remove1 x xs)"
  by (simp add: length_remove1)

lemma notify_one_queue: "pc_queue (notify_one p q) = pc_queue q" "pc_shutdown (notify_one p q) = pc_shutdown q"
  by (simp_all add: notify_one_def Let_def)

lemma Push_inv: "pc_inv q \<Longrightarrow> pc_inv (pc_Push p v q)"
  by (auto simp: pc_inv_def pc_Push_def notify_one_def Let_def)

lemma WaitAndPop_inv: "pc_inv q \<Longrightarrow> pc_WaitAndPop t q = (r, q') \<Longrightarrow> pc_inv q'"
  using length_remove1_le [of "pc_woken q" t]
  by (auto simp: pc_inv_def pc_WaitAndPop_def Let_def split: if_splits)

lemma pc_run_inv:
  "pc_run q ins outs gone \<Longrightarrow> pc_inv q \<and> ins = outs @ gone @ pc_queue q \<and> (gone = [] \<or> pc_shutdown q)"
proof (induction rule: pc_run.induct)
  case (push q ins outs gone pick v)
  then show ?case using Push_inv by (auto simp: pc_Push_def notify_one_queue)
next
  case (wait q ins outs gone t r q')
  then show ?case using WaitAndPop_inv [of q t r q']
    by (auto simp: pc_WaitAndPop_def Let_def split: if_splits)
qed (auto simp: PCQueue_new_def pc_inv_def pc_Pop_def pc_Cancel_def notify_all_def split: if_splits list.splits)

text \<open>C34: Whatever the interleaving of \<open>Push\<close>, \<open>Pop\<close>, \<open>WaitAndPop\<close>, spurious wakeups and \<open>Cancel\<close>, every
  pushed value is popped once in the order of the pushes, destroyed by \<open>Cancel\<close>, or still queued. No wakeup
  is lost: while a thread waits, there is a notified thread for every queued value; after a \<open>Cancel\<close> nobody
  waits and no \<open>WaitAndPop\<close> blocks.\<close>

theorem pc_no_lost_wakeup:
  assumes "pc_run q ins outs gone"
  shows "ins = outs @ gone @ pc_queue q \<and> (\<not> pc_shutdown q \<longrightarrow> gone = [])
    \<and> (pc_waiting q \<noteq> [] \<longrightarrow> length (pc_queue q) \<le> length (pc_woken q))
    \<and> (pc_shutdown q \<longrightarrow> pc_waiting q = [] \<and> (\<forall>t. fst (pc_WaitAndPop t q) = Some None) \<and> fst (pc_Pop q) = None)"
  using pc_run_inv [OF assms] by (auto simp: pc_inv_def pc_WaitAndPop_def Let_def pc_Pop_def)

lemma pc_no_lost_wakeup_witness:
  "\<exists>q. pc_run q [7] [] [] \<and> pc_waiting q = [2] \<and> length (pc_queue q) \<le> length (pc_woken q)
     \<and> ([7 :: nat] = [] @ [] @ pc_queue q \<and> (\<not> pc_shutdown q \<longrightarrow> [] = ([] :: nat list)))"
proof -
  let ?a = "snd (pc_WaitAndPop 1 (PCQueue_new :: nat PCQueue))"
  let ?b = "snd (pc_WaitAndPop 2 ?a)"
  have "pc_run ?a [] [] []"
    using pc_run.wait [OF pc_run.new, of 1 None ?a] by (simp add: pc_WaitAndPop_def PCQueue_new_def Let_def)
  from pc_run.wait [OF this, of 2 None ?b] have "pc_run ?b [] [] []"
    by (simp add: pc_WaitAndPop_def PCQueue_new_def Let_def)
  from pc_run.push [OF this, of 0 7] have run: "pc_run (pc_Push 0 7 ?b) [7] [] []" by simp
  have w: "pc_waiting (pc_Push 0 7 ?b) = [2]"
    by (simp add: pc_WaitAndPop_def PCQueue_new_def Let_def pc_Push_def notify_one_def)
  from pc_no_lost_wakeup [OF run] w run show ?thesis by (intro exI [of _ "pc_Push 0 7 ?b"]) simp
qed

section \<open>Peeking\<close>

text \<open>After a \<open>peek\<close> that keeps the lock every operation of the queue blocks, \<open>pop_front\<close> too, until
  \<open>unlock\<close>.\<close>

lemma peek_blocks:
  assumes "lq_peek False q = Lock_done (x, q1)"
  shows "lq_add y q1 = Lock_blocked \<and> lq_next q1 = Lock_blocked \<and> lq_pop_front q1 = Lock_blocked
    \<and> lq_unlock_op q1 = Lock_done q \<and> (\<exists>xs. lq_queue q = x # xs)"
  using assms
  by (auto simp: lq_peek_def lq_add_def lq_next_def lq_pop_front_def guarded_def lq_unlock_op_def split: if_splits list.splits)

end
