(* ===== verification/Hffix_Writer.thy ===== *)
theory Hffix_Writer
  imports Hffix_Proofs
begin

text \<open>
  The representation invariant of \<open>message_writer\<close>: every \<open>push_back\<close> of
  \<^verbatim>\<open>src/deps/hffix/hffix.hpp\<close> keeps it, with any arguments and in any order, or throws.
\<close>

section \<open>The contract of an operation\<close>

definition writer_ok :: "string \<Rightarrow> message_writer \<Rightarrow> bool" where
  "writer_ok mem w \<longleftrightarrow> mw_ok w \<and> length (mw_mem w) = length mem \<and> drop (mw_next w) (mw_mem w) = drop (mw_next w) mem
     \<and> (case mw_body_length w of None \<Rightarrow> True | Some bl \<Rightarrow> bl + 7 \<le> mw_next w)"

definition sound :: "(message_writer \<Rightarrow> hffix_error + message_writer) \<Rightarrow> bool" where
  "sound f \<longleftrightarrow> (\<forall>mem w. writer_ok mem w \<longrightarrow>
     (case f w of Inl e \<Rightarrow> e = range_error \<or> e = logic_error | Inr w' \<Rightarrow> writer_ok mem w' \<and> mw_next w \<le> mw_next w'))"

named_theorems sound_ops

lemma sound_Inl [sound_ops]: "sound (\<lambda>w. Inl range_error)" "sound (\<lambda>w. Inl logic_error)"
  by (simp_all add: sound_def)

lemma sound_bind:
  assumes f: "sound f" and g: "sound g"
  shows "sound (\<lambda>w. err_bind (f w) g)"
  unfolding sound_def
proof (intro allI impI)
  fix mem w
  assume w: "writer_ok mem w"
  show "case err_bind (f w) g of Inl e \<Rightarrow> e = range_error \<or> e = logic_error | Inr w' \<Rightarrow> writer_ok mem w' \<and> mw_next w \<le> mw_next w'"
  proof (cases "f w")
    case (Inl e)
    then show ?thesis using f w by (auto simp: sound_def split: sum.splits)
  next
    case (Inr w1)
    moreover have "case f w of Inl e \<Rightarrow> e = range_error \<or> e = logic_error | Inr w' \<Rightarrow> writer_ok mem w' \<and> mw_next w \<le> mw_next w'"
      using f w unfolding sound_def by blast
    ultimately have "writer_ok mem w1" "mw_next w \<le> mw_next w1" by simp_all
    moreover from this have "case g w1 of Inl e \<Rightarrow> e = range_error \<or> e = logic_error | Inr w' \<Rightarrow> writer_ok mem w' \<and> mw_next w1 \<le> mw_next w'"
      using g by (simp add: sound_def)
    ultimately show ?thesis using Inr by (auto split: sum.splits)
  qed
qed

lemma writer_ok_write:
  assumes w: "writer_ok mem w" and s: "length s \<le> buffer_size_remaining w"
  shows "writer_ok mem (mw_write s w)"
proof -
  have ok: "mw_ok w" using w by (simp add: writer_ok_def)
  have "drop (mw_next w + length s) (mw_mem (mw_write s w)) = drop (length s) (drop (mw_next w) (mw_mem w))"
    using mw_write_frame [OF ok order_refl] by (simp add: add.commute)
  also have "\<dots> = drop (mw_next w + length s) mem" using w by (simp add: writer_ok_def add.commute)
  finally show ?thesis using w mw_write_ok [OF ok s] mw_write_length [OF ok s] by (auto simp: writer_ok_def split: option.splits)
qed

lemma sound_write [sound_ops]: "length s \<le> n \<Longrightarrow> sound (\<lambda>w. err_bind (mw_need n w) (\<lambda>w. Inr (mw_write s w)))"
  by (auto simp: sound_def mw_need_def writer_ok_write)

lemma sound_option [sound_ops]:
  assumes "\<And>room t. prt room = Some t \<Longrightarrow> length t \<le> room"
  shows "sound (\<lambda>w. mw_option (prt (buffer_size_remaining w)) w)"
  using assms by (auto simp: sound_def mw_option_def writer_ok_write split: option.split)

section \<open>Printing stays within the room it is given\<close>

lemma itoa_digits_room: "itoa_digits room n = Some (s, r) \<Longrightarrow> length s + r = room"
  by (induction room arbitrary: n s) (auto simp: Let_def split: if_splits)

lemma dtoa_digits_room: "dtoa_digits bits room m e = Some (s, r) \<Longrightarrow> length s + r = room"
proof (induction room arbitrary: m e s rule: less_induct)
  case (less room)
  have step: "dtoa_digits bits (room - Suc k) m e = Some (t, r) \<Longrightarrow> 0 < room \<Longrightarrow> length t + r = room - Suc k" for k m e t
    using less.IH [of "room - Suc k"] by simp
  have "dtoa_digits bits 0 m e = None" for m e by (simp add: dtoa_digits.simps)
  with less.prems show ?case
    by (subst (asm) (1) dtoa_digits.simps) (auto simp: Let_def split: if_splits dest!: step)
qed

lemma put_sign_room: "put_sign neg (s, r) = Some t \<Longrightarrow> length t \<le> length s + r"
  by (auto simp: put_sign_def split: if_splits)

lemma itoa_room [sound_ops]: "itoa bits k room = Some t \<Longrightarrow> length t \<le> room"
  by (auto simp: itoa_def Let_def bind_eq_Some_conv dest: itoa_digits_room put_sign_room)

lemma dtoa_room [sound_ops]: "dtoa bits m e room = Some t \<Longrightarrow> length t \<le> room"
  by (auto simp: dtoa_def Let_def bind_eq_Some_conv dest: dtoa_digits_room put_sign_room)

section \<open>Every operation keeps the contract\<close>

lemma sound_string [sound_ops]: "sound (push_back_string tag s)"
  unfolding push_back_string_def by (rule sound_bind [OF sound_option [OF itoa_room] sound_write]) simp_all

lemma sound_cstring [sound_ops]: "sound (push_back_cstring tag s)"
  using sound_string [of tag s] by (auto simp: sound_def push_back_cstring_def)

lemma sound_char [sound_ops]: "sound (push_back_char tag c)"
  unfolding push_back_char_def by (rule sound_bind [OF sound_option [OF itoa_room] sound_write]) simp_all

lemma sound_number [sound_ops]:
  assumes "\<And>room t. prt room = Some t \<Longrightarrow> length t \<le> room"
  shows "sound (push_back_number tag prt)"
proof -
  have "push_back_number tag prt = (\<lambda>w. err_bind (mw_option (itoa 32 tag (buffer_size_remaining w)) w)
      (\<lambda>w. err_bind (err_bind (mw_need 1 w) (\<lambda>w. Inr (mw_write ''='' w)))
        (\<lambda>w. err_bind (mw_option (prt (buffer_size_remaining w)) w) (\<lambda>w. err_bind (mw_need 1 w) (\<lambda>w. Inr (mw_write [SOH] w))))))"
    by (simp add: push_back_number_def Let_def fun_eq_iff err_bind_assoc)
  moreover have "sound \<dots>"
    by (rule sound_bind [OF sound_option [OF itoa_room] sound_bind [OF sound_write sound_bind [OF sound_option [OF assms] sound_write]]])
      simp_all
  ultimately show ?thesis by simp
qed

lemma sound_header [sound_ops]: "sound (push_back_header version)"
  unfolding sound_def
proof (intro allI impI)
  fix mem w
  assume w: "writer_ok mem w"
  let ?s = "''8='' @ version @ [SOH] @ ''9=''"
  show "case push_back_header version w of Inl e \<Rightarrow> e = range_error \<or> e = logic_error | Inr w' \<Rightarrow> writer_ok mem w' \<and> mw_next w \<le> mw_next w'"
  proof (cases "mw_body_length w = None \<and> length version + 12 \<le> buffer_size_remaining w")
    case True
    let ?w1 = "mw_write ?s w"
    let ?w2 = "?w1\<lparr>mw_body_length := Some (mw_next ?w1), mw_next := mw_next ?w1 + 6\<rparr>"
    have w1: "writer_ok mem ?w1" by (rule writer_ok_write [OF w]) (use True in simp)
    have room1: "buffer_size_remaining ?w1 = buffer_size_remaining w - (length version + 5)"
      using True w by (intro trans [OF mw_write_remaining]) (simp_all add: writer_ok_def)
    have "drop (mw_next ?w1 + 6) (mw_mem ?w1) = drop (mw_next ?w1 + 6) mem"
      using w1 by (simp only: writer_ok_def drop_drop [symmetric] add.commute [of _ 6])
    then have w2: "mw_next ?w2 < length (mw_mem ?w2)" "length (mw_mem ?w2) = length mem" "drop (mw_next ?w2) (mw_mem ?w2) = drop (mw_next ?w2) mem"
      using w1 room1 True by (auto simp: writer_ok_def buffer_size_remaining_def)
    then have "mw_ok ?w2" "length [SOH] \<le> buffer_size_remaining ?w2" by (simp_all add: mw_ok_def buffer_size_remaining_def)
    note frame = mw_write_ok [OF this] mw_write_length [OF this] mw_write_frame [OF this(1) order_refl, of "[SOH]"]
    have "drop (Suc (mw_next ?w2)) (mw_mem ?w2) = drop (Suc (mw_next ?w2)) mem" using w2(3) by (metis drop_Suc tl_drop)
    with frame w2(2) have "writer_ok mem (mw_write [SOH] ?w2)" by (simp add: writer_ok_def)
    then show ?thesis using True by (simp add: push_back_header_def mw_need_def Let_def)
  qed (auto simp: push_back_header_def mw_need_def)
qed

lemma sound_trailer [sound_ops]: "sound (push_back_trailer calculate)"
  unfolding sound_def
proof (intro allI impI)
  fix mem w
  assume w: "writer_ok mem w"
  show "case push_back_trailer calculate w of Inl e \<Rightarrow> e = range_error \<or> e = logic_error | Inr w' \<Rightarrow> writer_ok mem w' \<and> mw_next w \<le> mw_next w'"
  proof (cases "mw_body_length w")
    case (Some bl)
    let ?digits = "map (\<lambda>d. digit_char (((mw_next w - (bl + 7)) div d) mod 10)) [100000, 10000, 1000, 100, 10, 1]"
    let ?w1 = "w\<lparr>mw_mem := blit bl ?digits (mw_mem w)\<rparr>"
    have bl: "bl + 7 \<le> mw_next w" "mw_next w \<le> length (mw_mem w)" using w Some by (simp_all add: writer_ok_def mw_ok_def)
    then have "drop (mw_next w) (blit bl ?digits (mw_mem w)) = drop (mw_next w) (mw_mem w)" by (intro drop_blit) simp_all
    then have w1: "writer_ok mem ?w1" using w bl Some by (simp add: writer_ok_def mw_ok_def)
    have seven: "writer_ok mem (mw_write s ?w1)" if "length s = 7" "7 \<le> buffer_size_remaining ?w1" for s
      using writer_ok_write [OF w1] that by simp
    show ?thesis using seven by (auto simp: push_back_trailer_def Some Let_def mw_need_def simp del: list.map)
  qed (simp add: push_back_trailer_def)
qed

lemmas push_backs =
  push_back_int_def push_back_decimal_def push_back_date_def push_back_monthyear_def push_back_timeonly_def push_back_timeonly_ms_def
  push_back_timeonly_nano_def push_back_timestamp_def push_back_timestamp_sec_def push_back_timestamp_nano_def
  push_back_duration_def push_back_duration_nano_def

lemma sound_data [sound_ops]: "sound (push_back_data tag_length tag s)"
  unfolding push_back_data_def by (intro sound_bind sound_number sound_string itoa_room)

lemma sound_timepoint [sound_ops]: "sound (push_back_timepoint tag per_sec tp)"
  unfolding push_back_timepoint_def by (auto simp: push_backs sound_ops split: prod.split)

lemma sound_timepoint_nano [sound_ops]: "sound (push_back_timepoint_nano tag per_sec tp)"
  unfolding push_back_timepoint_nano_def by (auto simp: push_backs sound_ops split: prod.split)

section \<open>The interface of the writer\<close>

datatype writer_call =
    Push_header string | Push_trailer bool
  | Push_string int string | Push_cstring int string | Push_char int char
  | Push_int int nat int | Push_decimal int nat int int
  | Push_date int int int int | Push_monthyear int int int
  | Push_timeonly int int int int | Push_timeonly_ms int int int int int | Push_timeonly_nano int int int int int
  | Push_timestamp int int int int int int int int | Push_timestamp_sec int int int int int int int
  | Push_timestamp_nano int int int int int int int int | Push_timepoint int int int | Push_timepoint_nano int int int
  | Push_duration int int int | Push_duration_nano int int int
  | Push_data int int string

primrec push_call :: "writer_call \<Rightarrow> message_writer \<Rightarrow> hffix_error + message_writer" where
  "push_call (Push_header version) = push_back_header version"
| "push_call (Push_trailer calculate) = push_back_trailer calculate"
| "push_call (Push_string tag s) = push_back_string tag s"
| "push_call (Push_cstring tag s) = push_back_cstring tag s"
| "push_call (Push_char tag c) = push_back_char tag c"
| "push_call (Push_int tag bits k) = push_back_int tag bits k"
| "push_call (Push_decimal tag bits m e) = push_back_decimal tag bits m e"
| "push_call (Push_date tag y m d) = push_back_date tag y m d"
| "push_call (Push_monthyear tag y m) = push_back_monthyear tag y m"
| "push_call (Push_timeonly tag h m s) = push_back_timeonly tag h m s"
| "push_call (Push_timeonly_ms tag h m s ms) = push_back_timeonly_ms tag h m s ms"
| "push_call (Push_timeonly_nano tag h m s ns) = push_back_timeonly_nano tag h m s ns"
| "push_call (Push_timestamp tag y mo d h mi s ms) = push_back_timestamp tag y mo d h mi s ms"
| "push_call (Push_timestamp_sec tag y mo d h mi s) = push_back_timestamp_sec tag y mo d h mi s"
| "push_call (Push_timestamp_nano tag y mo d h mi s ns) = push_back_timestamp_nano tag y mo d h mi s ns"
| "push_call (Push_timepoint tag per_sec tp) = push_back_timepoint tag per_sec tp"
| "push_call (Push_timepoint_nano tag per_sec tp) = push_back_timepoint_nano tag per_sec tp"
| "push_call (Push_duration tag per_sec t) = push_back_duration tag per_sec t"
| "push_call (Push_duration_nano tag per_sec t) = push_back_duration_nano tag per_sec t"
| "push_call (Push_data tag_length tag s) = push_back_data tag_length tag s"

lemma sound_call: "sound (push_call c)"
  by (cases c) (simp_all add: sound_ops push_backs)

lemma sound_all: "sound (push_all (map push_call calls))"
proof (induction calls)
  case (Cons c calls)
  have "push_all (map push_call (c # calls)) = (\<lambda>w. err_bind (push_call c w) (push_all (map push_call calls)))" by (simp add: fun_eq_iff)
  then show ?case using sound_bind [OF sound_call Cons.IH] by simp
qed (simp add: sound_def)

text \<open>C17: The representation invariant of a writer, for every sequence of \<open>push_back\<close> calls with any
  arguments on any buffer: a call either throws a range or logic error, or the writer stays within its
  buffer, which keeps its size; nothing behind the written part has changed, and the place reserved for
  the body length lies within it.\<close>

theorem writer_representation:
  "case push_all (map push_call calls) (writer_new mem) of
     Inl e \<Rightarrow> e = range_error \<or> e = logic_error
   | Inr w \<Rightarrow> mw_next w \<le> length (mw_mem w) \<and> length (mw_mem w) = length mem \<and> drop (mw_next w) (mw_mem w) = drop (mw_next w) mem
       \<and> (case mw_body_length w of None \<Rightarrow> True | Some bl \<Rightarrow> bl + 7 \<le> mw_next w)"
proof -
  have "writer_ok mem (writer_new mem)" by (simp add: writer_ok_def writer_new_def mw_ok_def)
  with sound_all [of calls] have "case push_all (map push_call calls) (writer_new mem) of
      Inl e \<Rightarrow> e = range_error \<or> e = logic_error | Inr w \<Rightarrow> writer_ok mem w \<and> mw_next (writer_new mem) \<le> mw_next w"
    unfolding sound_def by blast
  then show ?thesis by (auto simp: writer_ok_def mw_ok_def split: sum.splits)
qed

end
