(* ===== verification/Hffix_Fields.thy ===== *)
theory Hffix_Fields
  imports Hffix_Proofs
begin

text \<open>
  The accessors of \<open>field_value\<close> for dates, times and unsigned integers, and the operators
  of \<open>message_reader_const_iterator\<close>, from \<^verbatim>\<open>src/deps/hffix/hffix.hpp\<close>; one contract
  (\<open>field_codec\<close>) for every calendar type, relating its \<open>push_back\<close> to its accessor; and
  the exact result of \<open>find_with_hint\<close> on a message with repeated tags.
\<close>

section \<open>Accessors\<close>

definition as_uint :: "nat \<Rightarrow> message_reader \<Rightarrow> hf_iterator \<Rightarrow> hffix_error + nat" where
  "as_uint bits r it = err_bind (value_range r it) (\<lambda>s. Inr (atou bits s))"

definition as_date :: "message_reader \<Rightarrow> hf_iterator \<Rightarrow> hffix_error + (int \<times> int \<times> int) option" where
  "as_date r it =
     (if value_length it \<noteq> 8 then Inr None else err_bind (value_range r it) (\<lambda>s. Inr (atodate s)))"

definition as_monthyear :: "message_reader \<Rightarrow> hf_iterator \<Rightarrow> hffix_error + (int \<times> int) option" where
  "as_monthyear r it =
     (if value_length it \<noteq> 6 then Inr None
      else err_bind (value_range r it) (\<lambda>s. Inr (Some (atoi 32 (chunk 0 4 s), atoi 32 (chunk 4 6 s)))))"

definition as_timeonly :: "message_reader \<Rightarrow> hf_iterator \<Rightarrow> hffix_error + (int \<times> int \<times> int \<times> int) option" where
  "as_timeonly r it =
     (if value_length it \<noteq> 8 \<and> value_length it \<noteq> 12 then Inr None
      else err_bind (value_range r it) (\<lambda>s. Inr (atotime s)))"

text \<open>The first \<open>k\<close> characters of a value. The nanosecond accessors take a value of any length
  from 8 on and read its fraction only at three of them.\<close>

definition value_prefix :: "int \<Rightarrow> message_reader \<Rightarrow> hf_iterator \<Rightarrow> hffix_error + string" where
  "value_prefix k r it = text_range (mr_buffer r) (it_vbegin it) (it_vbegin it + k)"

definition as_timeonly_nano :: "message_reader \<Rightarrow> hf_iterator \<Rightarrow> hffix_error + (int \<times> int \<times> int \<times> int) option" where
  "as_timeonly_nano r it =
     (let n = value_length it in
      if n < 8 then Inr None
      else err_bind (value_prefix (if n \<in> {12, 15, 18} then n else 8) r it) (\<lambda>s. Inr (atotime_nano s)))"

definition date_and_time :: "(string \<Rightarrow> (int \<times> int \<times> int \<times> int) option) \<Rightarrow> string \<Rightarrow> ((int \<times> int \<times> int) \<times> int \<times> int \<times> int \<times> int) option" where
  "date_and_time time s =
     (case time (drop 9 s) of
        None \<Rightarrow> None
      | Some t \<Rightarrow> (case atodate (take 8 s) of None \<Rightarrow> None | Some d \<Rightarrow> Some (d, t)))"

definition as_timestamp_parts :: "message_reader \<Rightarrow> hf_iterator \<Rightarrow> hffix_error + ((int \<times> int \<times> int) \<times> int \<times> int \<times> int \<times> int) option" where
  "as_timestamp_parts r it =
     (if value_length it \<noteq> 17 \<and> value_length it \<noteq> 21 then Inr None
      else err_bind (value_range r it) (\<lambda>s. Inr (date_and_time atotime s)))"

definition as_timestamp_nano_parts :: "message_reader \<Rightarrow> hf_iterator \<Rightarrow> hffix_error + ((int \<times> int \<times> int) \<times> int \<times> int \<times> int \<times> int) option" where
  "as_timestamp_nano_parts r it =
     (let n = value_length it in
      if n < 17 then Inr None
      else err_bind (value_prefix (if n \<in> {21, 24, 27} then n else 17) r it) (\<lambda>s. Inr (date_and_time atotime_nano s)))"

text \<open>The \<^verbatim>\<open>time_point\<close> and \<^verbatim>\<open>duration\<close> results, in nanoseconds and milliseconds.\<close>

definition as_timestamp_nano :: "message_reader \<Rightarrow> hf_iterator \<Rightarrow> hffix_error + int option" where
  "as_timestamp_nano r it =
     (let n = value_length it in
      if n < 17 then Inr None
      else err_bind (value_prefix (if n \<in> {21, 24, 27} then n else 17) r it) (\<lambda>s. Inr (atotimepoint_nano s)))"

definition as_duration :: "message_reader \<Rightarrow> hf_iterator \<Rightarrow> hffix_error + int option" where
  "as_duration r it =
     err_bind (as_timeonly r it) (\<lambda>t. Inr (case t of
         None \<Rightarrow> None
       | Some (hour, minute, second, millisecond) \<Rightarrow>
           Some (hour * 3600000 + minute * 60000 + second * 1000 + millisecond)))"

definition as_duration_nano :: "message_reader \<Rightarrow> hf_iterator \<Rightarrow> hffix_error + int option" where
  "as_duration_nano r it =
     err_bind (as_timeonly_nano r it) (\<lambda>t. Inr (case t of
         None \<Rightarrow> None
       | Some (hour, minute, second, nanosecond) \<Rightarrow>
           Some (hour * 3600000000000 + minute * 60000000000 + second * 1000000000 + nanosecond)))"

text \<open>\<^verbatim>\<open>std::equal\<close> of two random-access ranges compares their lengths first.\<close>

definition field_eq_string_view :: "message_reader \<Rightarrow> hf_iterator \<Rightarrow> string \<Rightarrow> hffix_error + bool" where
  "field_eq_string_view r it s =
     (if value_length it \<noteq> int (length s) then Inr False else err_bind (value_range r it) (\<lambda>v. Inr (v = s)))"

primrec iterator_advance :: "message_reader \<Rightarrow> nat \<Rightarrow> hf_iterator \<Rightarrow> hffix_error + hf_iterator" where
  "iterator_advance r 0 it = Inr it"
| "iterator_advance r (Suc n) it = err_bind (iterator_increment r it) (iterator_advance r n)"

definition iterator_plus :: "message_reader \<Rightarrow> hf_iterator \<Rightarrow> int \<Rightarrow> hffix_error + hf_iterator" where
  "iterator_plus r a addend = (if addend < 0 then Inl logic_error else iterator_advance r (nat addend) a)"

section \<open>The contract of a calendar field\<close>

text \<open>A type of field, with the values its text can hold, its writer and its accessor.\<close>

locale field_codec =
  fixes ok :: "'a \<Rightarrow> bool" and shown :: "'a \<Rightarrow> string"
    and push :: "int \<Rightarrow> 'a \<Rightarrow> message_writer \<Rightarrow> hffix_error + message_writer"
    and get :: "message_reader \<Rightarrow> hf_iterator \<Rightarrow> hffix_error + 'a option"
  assumes push_writes: "int_field tag \<Longrightarrow> ok x \<Longrightarrow> writes_text (push tag x) (field_text (tag, shown x))"
    and shown_plain: "ok x \<Longrightarrow> SOH \<notin> set (shown x)"
    and get_reads: "ok x \<Longrightarrow> as_string r it = Inr (shown x) \<Longrightarrow> get r it = Inr (Some x)"
begin

lemma written:
  assumes "ok x" and "0 < tag" and "tag < 2 ^ 31" and "tag \<notin> set length_fields"
  shows "writes_text (push tag x) (field_text (tag, shown x))" "good_field (tag, shown x)"
  using assms push_writes [of tag x] shown_plain [of x] by (simp_all add: int_field_def good_field_def)

lemma read_back:
  assumes "ok x" and "drop p (mr_buffer r) = field_text (tag, shown x) @ cs"
  shows "get r (field_iterator p (tag, shown x)) = Inr (Some x)"
  using get_reads [OF assms(1)] value_field [OF assms(2)] by simp

end

lemma as_string_values:
  assumes "as_string r it = Inr v"
  shows "value_length it = int (length v)" "value_range r it = Inr v" "k = value_length it \<Longrightarrow> value_prefix k r it = Inr v"
  using assms
  by (auto simp: as_string_def value_range_def value_prefix_def value_length_def text_range_def segment_def split: if_splits)

definition two_digit :: "int \<Rightarrow> bool" where
  "two_digit x \<longleftrightarrow> 0 \<le> x \<and> x \<le> 99"

definition date_ok :: "int \<times> int \<times> int \<Rightarrow> bool" where
  "date_ok d \<longleftrightarrow> (case d of (year, month, day) \<Rightarrow> 0 \<le> year \<and> year \<le> 9999 \<and> two_digit month \<and> two_digit day)"

definition monthyear_ok :: "int \<times> int \<Rightarrow> bool" where
  "monthyear_ok d \<longleftrightarrow> (case d of (year, month) \<Rightarrow> 0 \<le> year \<and> year \<le> 9999 \<and> two_digit month)"

definition time_ok :: "int \<Rightarrow> int \<times> int \<times> int \<times> int \<Rightarrow> bool" where
  "time_ok unit t \<longleftrightarrow> (case t of (hour, minute, second, frac) \<Rightarrow> two_digit hour \<and> two_digit minute \<and> two_digit second \<and> 0 \<le> frac \<and> frac < unit)"

definition stamp_ok :: "int \<Rightarrow> (int \<times> int \<times> int) \<times> int \<times> int \<times> int \<times> int \<Rightarrow> bool" where
  "stamp_ok unit x \<longleftrightarrow> date_ok (fst x) \<and> time_ok unit (snd x)"

lemma itoa_padded_plain:
  assumes "0 \<le> v"
  shows "SOH \<notin> set (itoa_padded v k)"
proof -
  have "SOH \<notin> set (itoa_padded (int n) k)" for n
  proof (induction k arbitrary: n)
    case (Suc k)
    have "SOH \<noteq> digit_char (n mod 10)" by (rule not_sym, rule digit_char_special(2)) simp
    then show ?case using Suc [of "n div 10"] by simp
  qed simp
  from this [of "nat v"] show ?thesis using assms by simp
qed

lemma time_text_read:
  assumes "time_ok 1 (h, mi, s, ms)"
  shows "atotime (time_text h mi s) = Some (h, mi, s, ms)"
  using assms by (simp add: time_ok_def two_digit_def atotime_def time_text_def chunk_def atoi_padded)

lemma date_and_time_text:
  assumes "date_ok (y, m, d)" and "time txt = Some t"
  shows "date_and_time time (date_text y m d @ ''-'' @ txt) = Some ((y, m, d), t)"
proof -
  have "length (date_text y m d) = 8" by (simp add: date_text_def)
  then show ?thesis using assms atodate_text [of y m d] by (simp add: date_and_time_def date_ok_def two_digit_def)
qed

lemmas field_texts = date_text_def monthyear_text_def time_text_def time_ms_text_def time_ns_text_def timestamp_text_def
lemmas field_pushes = push_back_date_def push_back_monthyear_def push_back_timeonly_def push_back_timeonly_ms_def
  push_back_timeonly_nano_def push_back_timestamp_def push_back_timestamp_sec_def push_back_timestamp_nano_def
lemmas field_oks = stamp_ok_def date_ok_def monthyear_ok_def time_ok_def two_digit_def

interpretation date: field_codec date_ok "\<lambda>(y, m, d). date_text y m d" "\<lambda>tag (y, m, d). push_back_date tag y m d" as_date
  by unfold_locales
    (auto simp: field_pushes push_back_string_writes field_oks itoa_padded_plain field_texts
      as_date_def as_string_values atodate_text [unfolded date_text_def])

interpretation monthyear: field_codec monthyear_ok "\<lambda>(y, m). monthyear_text y m"
  "\<lambda>tag (y, m). push_back_monthyear tag y m" as_monthyear
  by unfold_locales
    (auto simp: field_pushes push_back_string_writes field_oks itoa_padded_plain field_texts
      as_monthyear_def as_string_values chunk_def atoi_padded)

interpretation timeonly: field_codec "time_ok 1" "\<lambda>(h, mi, s, ms). time_text h mi s"
  "\<lambda>tag (h, mi, s, ms). push_back_timeonly tag h mi s" as_timeonly
proof (unfold_locales, goal_cases)
  case (3 x r it)
  then have "value_length it = 8" by (auto simp: as_string_values field_texts split: prod.splits)
  then show ?case using 3 by (cases x) (simp add: as_timeonly_def as_string_values time_text_read)
qed (auto simp: field_pushes push_back_string_writes field_oks itoa_padded_plain field_texts)

interpretation timeonly_ms: field_codec "time_ok 1000" "\<lambda>(h, mi, s, ms). time_ms_text h mi s ms"
  "\<lambda>tag (h, mi, s, ms). push_back_timeonly_ms tag h mi s ms" as_timeonly
proof (unfold_locales, goal_cases)
  case (3 x r it)
  then have "value_length it = 12" by (auto simp: as_string_values field_texts split: prod.splits)
  then show ?case using 3 by (cases x) (simp add: as_timeonly_def as_string_values field_oks atotime_text)
qed (auto simp: field_pushes push_back_string_writes field_oks itoa_padded_plain field_texts)

interpretation timeonly_nano: field_codec "time_ok 1000000000" "\<lambda>(h, mi, s, ns). time_ns_text h mi s ns"
  "\<lambda>tag (h, mi, s, ns). push_back_timeonly_nano tag h mi s ns" as_timeonly_nano
proof (unfold_locales, goal_cases)
  case (3 x r it)
  then have "value_length it = 18" by (auto simp: as_string_values field_texts split: prod.splits)
  then show ?case using 3 by (cases x) (simp add: as_timeonly_nano_def as_string_values field_oks atotime_nano_text)
qed (auto simp: field_pushes push_back_string_writes field_oks itoa_padded_plain field_texts)

interpretation timestamp_sec: field_codec "stamp_ok 1" "\<lambda>((y, m, d), h, mi, s, ms). date_text y m d @ ''-'' @ time_text h mi s"
  "\<lambda>tag ((y, m, d), h, mi, s, ms). push_back_timestamp_sec tag y m d h mi s" as_timestamp_parts
proof (unfold_locales, goal_cases)
  case (3 x r it)
  then have "value_length it = 17" by (auto simp: as_string_values field_texts split: prod.splits)
  then show ?case using 3
    by (cases x) (auto simp: stamp_ok_def as_timestamp_parts_def as_string_values intro!: date_and_time_text [simplified] time_text_read)
qed (auto simp: field_pushes push_back_string_writes field_oks itoa_padded_plain field_texts)

interpretation timestamp: field_codec "stamp_ok 1000" "\<lambda>((y, m, d), h, mi, s, ms). timestamp_text y m d h mi s ms"
  "\<lambda>tag ((y, m, d), h, mi, s, ms). push_back_timestamp tag y m d h mi s ms" as_timestamp_parts
proof (unfold_locales, goal_cases)
  case (3 x r it)
  then have "value_length it = 21" by (auto simp: as_string_values field_texts split: prod.splits)
  then show ?case using 3
    by (cases x) (auto simp: as_timestamp_parts_def as_string_values timestamp_text_def field_oks
        intro!: date_and_time_text [simplified] atotime_text)
qed (auto simp: field_pushes push_back_string_writes field_oks itoa_padded_plain field_texts)

interpretation timestamp_nano: field_codec "stamp_ok 1000000000"
  "\<lambda>((y, m, d), h, mi, s, ns). date_text y m d @ ''-'' @ time_ns_text h mi s ns"
  "\<lambda>tag ((y, m, d), h, mi, s, ns). push_back_timestamp_nano tag y m d h mi s ns" as_timestamp_nano_parts
proof (unfold_locales, goal_cases)
  case (3 x r it)
  then have "value_length it = 27" by (auto simp: as_string_values field_texts split: prod.splits)
  then show ?case using 3
    by (cases x) (auto simp: stamp_ok_def as_timestamp_nano_parts_def as_string_values field_oks
        intro!: date_and_time_text [simplified] atotime_nano_text)
qed (auto simp: field_pushes push_back_string_writes field_oks itoa_padded_plain field_texts)

section \<open>The fields of a message by position\<close>

definition field_at :: "nat \<Rightarrow> (int \<times> string) list \<Rightarrow> nat \<Rightarrow> hf_iterator" where
  "field_at b fs k = field_iterator (b + length (body_text (take k fs))) (fs ! k)"

lemma iterator_advance_Suc: "iterator_advance r (Suc n) it = err_bind (iterator_advance r n it) (iterator_increment r)"
proof (induction n arbitrary: it)
  case 0
  then show ?case by (cases "iterator_increment r it") simp_all
next
  case (Suc n)
  then show ?case by (cases "iterator_increment r it") simp_all
qed

lemma body_text_nth: "k < length fs \<Longrightarrow> body_text fs = body_text (take k fs) @ field_text (fs ! k) @ body_text (drop (Suc k) fs)"
  by (subst id_take_nth_drop [of k fs]) (simp_all add: body_text_def)

lemma body_text_take_Suc: "k < length fs \<Longrightarrow> body_text (take (Suc k) fs) = body_text (take k fs) @ field_text (fs ! k)"
  by (simp add: take_Suc_conv_app_nth body_text_def)

lemma reads_message_field:
  assumes "reads_message r b fs" and "k < length fs"
  shows "\<exists>cs. drop (b + length (body_text (take k fs))) (mr_buffer r) = field_text (fs ! k) @ cs"
proof -
  obtain t where "drop b (mr_buffer r) = body_text fs @ t" using assms(1) by (auto simp: reads_message_def)
  then have "drop (length (body_text (take k fs))) (drop b (mr_buffer r)) = field_text (fs ! k) @ (body_text (drop (Suc k) fs) @ t)"
    unfolding body_text_nth [OF assms(2)] by simp
  then show ?thesis by (auto simp: add.commute)
qed

lemma reads_message_step:
  assumes "reads_message r b fs" and "list_all good_field fs" and "Suc k < length fs"
  shows "iterator_increment r (field_at b fs k) = Inr (field_at b fs (Suc k))"
proof -
  let ?p = "b + length (body_text (take (Suc k) fs))"
  obtain cs where d: "drop ?p (mr_buffer r) = field_text (fs ! Suc k) @ cs"
    using reads_message_field [OF assms(1,3)] by blast
  have good: "good_field (fs ! Suc k)" using assms(2,3) by (simp add: list_all_length)
  have it: "it_vend (field_at b fs k) + 1 = int ?p"
    using assms(3) by (simp add: field_at_def field_iterator_next body_text_take_Suc)
  have len: "length (body_text fs) \<ge> length (body_text (take (Suc k) fs)) + length (field_text (fs ! Suc k))"
    using arg_cong [OF body_text_nth [OF assms(3)], of length] by simp
  have valid: "mr_is_valid r" and fin: "it_vend (mr_end r) = int (b + length (body_text fs)) + 6"
    using assms(1) by (simp_all add: reads_message_def)
  have "int (?p + length (field_text (fs ! Suc k))) \<le> it_vend (mr_end r) + 2" unfolding fin using len by simp
  then show ?thesis unfolding field_at_def [of b fs "Suc k"] by (rule increment_field [OF good d it valid])
qed

text \<open>The checksum field ends the message.\<close>

lemma reads_message_last:
  assumes "reads_message r b fs" and "Suc k = length fs"
  shows "\<exists>it. iterator_increment r (field_at b fs k) = Inr it \<and> it_buffer it = it_buffer (mr_end r)"
proof -
  obtain ck cs where ck: "drop b (mr_buffer r) = body_text fs @ ''10='' @ ck @ SOH # cs" "length ck = 3" "SOH \<notin> set ck"
    using assms(1) by (auto simp: reads_message_def)
  have t10: "dec_int 10 = ''10''" by (simp add: dec_int_def dec_nat_rec digit_chars)
  let ?p = "b + length (body_text fs)"
  have d: "drop ?p (mr_buffer r) = field_text (10, ck) @ cs"
    using arg_cong [OF ck(1), of "drop (length (body_text fs))"] by (simp add: add.commute field_text_def t10)
  have good: "good_field (10, ck)" using ck by (simp add: good_field_def length_fields_def)
  have "body_text fs = body_text (take k fs) @ field_text (fs ! k)" using assms(2) body_text_take_Suc [of k fs] by simp
  then have it: "it_vend (field_at b fs k) + 1 = int ?p" by (simp add: field_at_def field_iterator_next)
  have "iterator_increment r (field_at b fs k) = Inr (field_iterator ?p (10, ck))"
    using assms(1) ck(2) by (intro increment_field [OF good d it]) (auto simp: reads_message_def field_text_def t10)
  then show ?thesis using assms(1) by (auto simp: reads_message_def)
qed

lemma reads_message_plus:
  assumes "reads_message r b fs" and "list_all good_field fs" and "k < length fs"
  shows "iterator_plus r (mr_begin r) (int k) = Inr (field_at b fs k)"
proof -
  have "iterator_advance r k (mr_begin r) = Inr (field_at b fs k)"
    using assms(3)
  proof (induction k)
    case 0
    then show ?case using assms(1) by (cases fs) (simp_all add: reads_message_def field_at_def body_text_def)
  next
    case (Suc k)
    then show ?case
      using reads_message_step [OF assms(1,2) Suc.prems] by (simp only: iterator_advance_Suc) simp
  qed
  then show ?thesis by (simp add: iterator_plus_def)
qed

lemma reads_message_plus_end:
  assumes "reads_message r b fs" and "list_all good_field fs"
  shows "\<exists>it. iterator_plus r (mr_begin r) (int (length fs)) = Inr it \<and> it_buffer it = it_buffer (mr_end r)"
proof -
  obtain k where k: "length fs = Suc k" using assms(1) by (cases fs) (simp_all add: reads_message_def)
  then have "iterator_advance r k (mr_begin r) = Inr (field_at b fs k)"
    using reads_message_plus [OF assms, of k] by (simp add: iterator_plus_def)
  moreover have "iterator_plus r (mr_begin r) (int (length fs)) = iterator_advance r (Suc k) (mr_begin r)"
    unfolding iterator_plus_def k by (simp del: iterator_advance.simps of_nat_Suc)
  ultimately show ?thesis using reads_message_last [OF assms(1) k [symmetric]] by (simp only: iterator_advance_Suc) simp
qed

lemma written_message_reads:
  assumes "list_all2 writes_text ops (map field_text ((35, mt) # fs))" and "mt \<noteq> []" and "SOH \<notin> set mt"
    and "SOH \<notin> set version" and "7 \<le> length version" and "length version \<le> 10"
    and "length (body_text ((35, mt) # fs)) < 1000000"
    and "length (message_text version ((35, mt) # fs)) \<le> length mem"
    and "address + length mem + length rest < 2 ^ 64"
  obtains w r where "write_message version ops (writer_new mem) = Inr w"
    "message_reader_init address (writer_message w @ rest) = Inr r"
    "reads_message r (12 + length version) ((35, mt) # fs)"
proof -
  obtain w where w: "write_message version ops (writer_new mem) = Inr w"
      "writer_message w = message_text version ((35, mt) # fs)"
    using write_message_spec [OF assms(1,8)] by blast
  have "address + length (message_text version ((35, mt) # fs) @ rest) < 2 ^ 64" using assms(8,9) by simp
  then show ?thesis using reader_accepts [OF assms(4-6) assms(2,3,7)] w that by metis
qed

section \<open>Messages of calendar fields\<close>

datatype calendar_field =
    Calendar_Date "int \<times> int \<times> int"
  | Calendar_MonthYear "int \<times> int"
  | Calendar_Time "int \<times> int \<times> int \<times> int"
  | Calendar_Time_Ms "int \<times> int \<times> int \<times> int"
  | Calendar_Time_Nano "int \<times> int \<times> int \<times> int"
  | Calendar_Stamp "(int \<times> int \<times> int) \<times> int \<times> int \<times> int \<times> int"
  | Calendar_Stamp_Ms "(int \<times> int \<times> int) \<times> int \<times> int \<times> int \<times> int"
  | Calendar_Stamp_Nano "(int \<times> int \<times> int) \<times> int \<times> int \<times> int \<times> int"

fun calendar_ok :: "calendar_field \<Rightarrow> bool" where
  "calendar_ok (Calendar_Date x) = date_ok x"
| "calendar_ok (Calendar_MonthYear x) = monthyear_ok x"
| "calendar_ok (Calendar_Time x) = time_ok 1 x"
| "calendar_ok (Calendar_Time_Ms x) = time_ok 1000 x"
| "calendar_ok (Calendar_Time_Nano x) = time_ok 1000000000 x"
| "calendar_ok (Calendar_Stamp x) = stamp_ok 1 x"
| "calendar_ok (Calendar_Stamp_Ms x) = stamp_ok 1000 x"
| "calendar_ok (Calendar_Stamp_Nano x) = stamp_ok 1000000000 x"

fun calendar_push :: "int \<Rightarrow> calendar_field \<Rightarrow> message_writer \<Rightarrow> hffix_error + message_writer" where
  "calendar_push tag (Calendar_Date x) = (case x of (y, m, d) \<Rightarrow> push_back_date tag y m d)"
| "calendar_push tag (Calendar_MonthYear x) = (case x of (y, m) \<Rightarrow> push_back_monthyear tag y m)"
| "calendar_push tag (Calendar_Time x) = (case x of (h, mi, s, _) \<Rightarrow> push_back_timeonly tag h mi s)"
| "calendar_push tag (Calendar_Time_Ms x) = (case x of (h, mi, s, ms) \<Rightarrow> push_back_timeonly_ms tag h mi s ms)"
| "calendar_push tag (Calendar_Time_Nano x) = (case x of (h, mi, s, ns) \<Rightarrow> push_back_timeonly_nano tag h mi s ns)"
| "calendar_push tag (Calendar_Stamp x) = (\<lambda>((y, m, d), h, mi, s, _). push_back_timestamp_sec tag y m d h mi s) x"
| "calendar_push tag (Calendar_Stamp_Ms x) = (\<lambda>((y, m, d), h, mi, s, ms). push_back_timestamp tag y m d h mi s ms) x"
| "calendar_push tag (Calendar_Stamp_Nano x) = (\<lambda>((y, m, d), h, mi, s, ns). push_back_timestamp_nano tag y m d h mi s ns) x"

text \<open>The accessor of the type returns the value.\<close>

fun calendar_read :: "message_reader \<Rightarrow> hf_iterator \<Rightarrow> calendar_field \<Rightarrow> bool" where
  "calendar_read r it (Calendar_Date x) \<longleftrightarrow> as_date r it = Inr (Some x)"
| "calendar_read r it (Calendar_MonthYear x) \<longleftrightarrow> as_monthyear r it = Inr (Some x)"
| "calendar_read r it (Calendar_Time x) \<longleftrightarrow> as_timeonly r it = Inr (Some x)"
| "calendar_read r it (Calendar_Time_Ms x) \<longleftrightarrow> as_timeonly r it = Inr (Some x)"
| "calendar_read r it (Calendar_Time_Nano x) \<longleftrightarrow> as_timeonly_nano r it = Inr (Some x)"
| "calendar_read r it (Calendar_Stamp x) \<longleftrightarrow> as_timestamp_parts r it = Inr (Some x)"
| "calendar_read r it (Calendar_Stamp_Ms x) \<longleftrightarrow> as_timestamp_parts r it = Inr (Some x)"
| "calendar_read r it (Calendar_Stamp_Nano x) \<longleftrightarrow> as_timestamp_nano_parts r it = Inr (Some x)"

fun calendar_text :: "calendar_field \<Rightarrow> string" where
  "calendar_text (Calendar_Date x) = (case x of (y, m, d) \<Rightarrow> date_text y m d)"
| "calendar_text (Calendar_MonthYear x) = (case x of (y, m) \<Rightarrow> monthyear_text y m)"
| "calendar_text (Calendar_Time x) = (case x of (h, mi, s, _) \<Rightarrow> time_text h mi s)"
| "calendar_text (Calendar_Time_Ms x) = (case x of (h, mi, s, ms) \<Rightarrow> time_ms_text h mi s ms)"
| "calendar_text (Calendar_Time_Nano x) = (case x of (h, mi, s, ns) \<Rightarrow> time_ns_text h mi s ns)"
| "calendar_text (Calendar_Stamp x) = (\<lambda>((y, m, d), h, mi, s, _). date_text y m d @ ''-'' @ time_text h mi s) x"
| "calendar_text (Calendar_Stamp_Ms x) = (\<lambda>((y, m, d), h, mi, s, ms). timestamp_text y m d h mi s ms) x"
| "calendar_text (Calendar_Stamp_Nano x) = (\<lambda>((y, m, d), h, mi, s, ns). date_text y m d @ ''-'' @ time_ns_text h mi s ns) x"

definition plain_tag :: "int \<Rightarrow> bool" where
  "plain_tag tag \<longleftrightarrow> 0 < tag \<and> tag < 2 ^ 31 \<and> tag \<notin> set length_fields"

lemmas calendar_written_rules = date.written monthyear.written timeonly.written timeonly_ms.written timeonly_nano.written
  timestamp_sec.written timestamp.written timestamp_nano.written
lemmas calendar_read_rules = date.get_reads monthyear.get_reads timeonly.get_reads timeonly_ms.get_reads
  timeonly_nano.get_reads timestamp_sec.get_reads timestamp.get_reads timestamp_nano.get_reads

lemma calendar_writes:
  "calendar_ok c \<Longrightarrow> plain_tag tag \<Longrightarrow> writes_text (calendar_push tag c) (field_text (tag, calendar_text c))"
  by (cases c) (simp_all add: calendar_written_rules plain_tag_def del: append.simps)

lemma calendar_good_field: "calendar_ok c \<Longrightarrow> plain_tag tag \<Longrightarrow> good_field (tag, calendar_text c)"
  by (cases c) (simp_all add: calendar_written_rules plain_tag_def del: append.simps)

lemma calendar_read_text: "calendar_ok c \<Longrightarrow> as_string r it = Inr (calendar_text c) \<Longrightarrow> calendar_read r it c"
  by (cases c) (simp_all add: calendar_read_rules del: append.simps)

section \<open>Searching with a hint\<close>

text \<open>The field \<open>find_with_hint\<close> finds from field \<open>k\<close> on: the next one with the tag,
  and only behind the end of the message the first one.\<close>

definition hinted :: "int \<Rightarrow> nat \<Rightarrow> (int \<times> string) list \<Rightarrow> nat option" where
  "hinted tag k fs = List.find (\<lambda>j. fst (fs ! j) = tag) ([k..<length fs] @ [0..<k])"

lemma find_append: "List.find P (xs @ ys) = (case List.find P xs of None \<Rightarrow> List.find P ys | Some x \<Rightarrow> Some x)"
  by (induction xs) simp_all

lemma find_SomeD: "List.find P xs = Some x \<Longrightarrow> P x \<and> x \<in> set xs"
  by (induction xs) (auto split: if_splits)

lemma hinted_Some: "hinted tag k fs = Some j \<Longrightarrow> k < length fs \<Longrightarrow> j < length fs \<and> fst (fs ! j) = tag"
  unfolding hinted_def by (drule find_SomeD) auto

lemma seek_find:
  "seek tag p xs g = (case List.find (\<lambda>j. fst (xs ! j) = tag) [0..<length xs] of
      None \<Rightarrow> field_iterator (p + length (body_text xs)) g
    | Some j \<Rightarrow> field_iterator (p + length (body_text (take j xs))) (xs ! j))"
proof (induction xs arbitrary: p)
  case Nil
  then show ?case by (simp add: body_text_def)
next
  case (Cons x xs)
  have up: "[0..<length (x # xs)] = 0 # map Suc [0..<length xs]" by (simp add: upt_conv_Cons map_Suc_upt del: upt_Suc)
  have f: "List.find (\<lambda>j. fst ((x # xs) ! j) = tag) (map Suc ys) = map_option Suc (List.find (\<lambda>j. fst (xs ! j) = tag) ys)" for ys
    by (induction ys) simp_all
  have e: "List.find (\<lambda>j. fst ((x # xs) ! j) = tag) [0..<length (x # xs)]
      = (if fst x = tag then Some 0 else map_option Suc (List.find (\<lambda>j. fst (xs ! j) = tag) [0..<length xs]))"
    unfolding up find.simps nth_Cons_0 f ..
  show ?case
    unfolding e seek.simps Cons.IH
    by (cases "List.find (\<lambda>j. fst (xs ! j) = tag) [0..<length xs]") (simp_all add: body_text_def add.assoc)
qed

lemma find_window:
  assumes "k \<le> m" and "m < length gs"
  shows "List.find (\<lambda>j. fst (gs ! j) = tag) [k..<m]
    = map_option ((+) k) (List.find (\<lambda>j. fst (drop k (take m gs) ! j) = tag) [0..<length (drop k (take m gs))])"
proof -
  have up: "[k..<m] = map ((+) k) [0..<m - k]" using assms(1) by (intro nth_equalityI) simp_all
  have "List.find P (map f ys) = map_option f (List.find (\<lambda>j. P (f j)) ys)" for P :: "nat \<Rightarrow> bool" and f ys
    by (induction ys) simp_all
  from this [of "\<lambda>j. fst (gs ! j) = tag" "(+) k" "[0..<m - k]"]
  have "List.find (\<lambda>j. fst (gs ! j) = tag) (map ((+) k) [0..<m - k])
      = map_option ((+) k) (List.find (\<lambda>j. fst (gs ! (k + j)) = tag) [0..<m - k])" .
  moreover have "List.find (\<lambda>j. fst (gs ! (k + j)) = tag) [0..<m - k]
      = List.find (\<lambda>j. fst (drop k (take m gs) ! j) = tag) [0..<length (drop k (take m gs))]"
    by (rule find_cong) (use assms in simp_all)
  ultimately show ?thesis unfolding up by simp
qed

lemma find_if_window:
  assumes good: "list_all good_field gs" and d: "drop b (mr_buffer r) = body_text gs @ cs" and valid: "mr_is_valid r"
    and fin: "int (b + length (body_text gs)) \<le> it_vend (mr_end r) + 2"
    and km: "k \<le> m" "m < length gs" "m - k \<le> n" and e: "it_buffer e = it_buffer (field_at b gs m)"
  shows "find_if n r tag (field_at b gs k) e
    = Inr (field_at b gs (case List.find (\<lambda>j. fst (gs ! j) = tag) [k..<m] of None \<Rightarrow> m | Some j \<Rightarrow> j))"
proof -
  let ?xs = "drop k (take m gs)" and ?p = "b + length (body_text (take k gs))"
  have xs: "?xs @ [gs ! m] = drop k (take (Suc m) gs)" using km by (simp add: take_Suc_conv_app_nth)
  have split: "gs = take k gs @ (?xs @ [gs ! m]) @ drop (Suc m) gs"
  proof -
    have a: "take k gs @ drop k (take (Suc m) gs) = take (Suc m) gs"
      using append_take_drop_id [of k "take (Suc m) gs"] km by (simp add: min_def)
    have "take k gs @ drop k (take (Suc m) gs) @ drop (Suc m) gs = gs"
      unfolding append_assoc [symmetric] a by (rule append_take_drop_id)
    then show ?thesis unfolding xs by (rule sym)
  qed
  have body: "body_text gs = body_text (take k gs) @ body_text (?xs @ [gs ! m]) @ body_text (drop (Suc m) gs)"
    using arg_cong [OF split, of body_text] unfolding body_text_def by (simp only: map_append concat_append)
  have pos: "?p + length (body_text (take j ?xs)) = b + length (body_text (take (k + j) gs))" if "j \<le> m - k" for j
    using that km by (simp add: take_add body_text_def drop_take min_absorb1)
  have hd: "hd (?xs @ [gs ! m]) = gs ! k" unfolding xs using km by (simp add: hd_drop_conv_nth)
  have "find_if n r tag (field_iterator ?p (hd (?xs @ [gs ! m]))) e = Inr (seek tag ?p ?xs (gs ! m))"
  proof (rule find_if_seek [OF _ _ valid])
    show "list_all good_field (?xs @ [gs ! m])" using good unfolding xs by (auto simp: list_all_iff dest!: in_set_dropD in_set_takeD)
    show "drop ?p (mr_buffer r) = body_text (?xs @ [gs ! m]) @ (body_text (drop (Suc m) gs) @ cs)"
      using arg_cong [OF d, of "drop (length (body_text (take k gs)))"] unfolding body by (simp add: add.commute)
    show "int (?p + length (body_text (?xs @ [gs ! m]))) \<le> it_vend (mr_end r) + 2" using fin unfolding body by simp
    show "it_buffer e = int (?p + length (body_text ?xs))"
      using pos [of "m - k"] km by (simp add: e field_at_def)
    show "length ?xs \<le> n" using km by simp
  qed
  moreover have "seek tag ?p ?xs (gs ! m)
      = field_at b gs (case List.find (\<lambda>j. fst (gs ! j) = tag) [k..<m] of None \<Rightarrow> m | Some j \<Rightarrow> j)"
  proof (cases "List.find (\<lambda>j. fst (?xs ! j) = tag) [0..<length ?xs]")
    case None
    then show ?thesis unfolding seek_find find_window [OF km(1,2)] using pos [of "m - k"] km by (simp add: field_at_def add.assoc)
  next
    case (Some j)
    then have "j < m - k" using km by (auto simp: find_Some_iff)
    then show ?thesis unfolding seek_find find_window [OF km(1,2)] using Some pos [of j] km by (simp add: field_at_def add.assoc)
  qed
  ultimately show ?thesis unfolding hd field_at_def [of b gs k] by simp
qed

lemma length_body_text: "length fs \<le> length (body_text fs)"
  by (induction fs) (simp_all add: body_text_def field_text_def)

lemma body_text_take_less:
  assumes "i < j" and "j \<le> length fs"
  shows "length (body_text (take i fs)) < length (body_text (take j fs))"
proof -
  obtain d where d: "j = Suc i + d" using assms(1) less_iff_Suc_add by auto
  show ?thesis unfolding d take_add using assms d by (simp add: take_Suc_conv_app_nth body_text_def)
qed

lemma find_append_list: "m \<le> length fs \<Longrightarrow>
    List.find (\<lambda>j. fst ((fs @ gs) ! j) = tag) [i..<m] = List.find (\<lambda>j. fst (fs ! j) = tag) [i..<m]"
  by (rule find_cong) (auto simp: nth_append)

lemma reads_message_hint:
  assumes reads: "reads_message r b fs" and good: "list_all good_field fs" and k: "k < length fs"
  shows "find_with_hint r tag (field_at b fs k)
    = Inr (case hinted tag k fs of None \<Rightarrow> (False, field_at b fs k) | Some j \<Rightarrow> (True, field_at b fs j))"
proof -
  obtain ck cs where ck: "drop b (mr_buffer r) = body_text fs @ ''10='' @ ck @ SOH # cs" "length ck = 3" "SOH \<notin> set ck"
    using reads by (auto simp: reads_message_def)
  have t10: "dec_int 10 = ''10''" by (simp add: dec_int_def dec_nat_rec digit_chars)
  let ?gs = "fs @ [(10, ck)]"
  define n where "n = length (mr_buffer r) + 2"
  have gs: "list_all good_field ?gs" using good ck by (simp add: good_field_def length_fields_def)
  have d: "drop b (mr_buffer r) = body_text ?gs @ cs" using ck(1) by (simp add: body_text_def field_text_def t10)
  have valid: "mr_is_valid r" and bgn: "mr_begin r = field_at b fs 0" and fe: "it_buffer (mr_end r) = int (b + length (body_text fs))"
    using reads by (cases fs; simp add: reads_message_def field_at_def body_text_def)+
  have fin: "int (b + length (body_text ?gs)) \<le> it_vend (mr_end r) + 2"
    using reads ck(2) by (simp add: reads_message_def body_text_def field_text_def t10)
  have at: "field_at b ?gs j = field_at b fs j" if "j < length fs" for j using that by (simp add: field_at_def nth_append)
  have last: "it_buffer (field_at b ?gs (length fs)) = it_buffer (mr_end r)" by (simp add: field_at_def fe)
  have "length (body_text fs) \<le> length (mr_buffer r)" using arg_cong [OF ck(1), of length] by simp
  then have fuel: "length fs - k \<le> n" "k - 0 \<le> n" unfolding n_def using length_body_text [of fs] k by simp_all
  have one: "find_if n r tag (field_at b fs k) (mr_end r) = Inr (field_at b ?gs
      (case List.find (\<lambda>j. fst (fs ! j) = tag) [k..<length fs] of None \<Rightarrow> length fs | Some j \<Rightarrow> j))"
    using find_if_window [OF gs d valid fin _ _ fuel(1) last [symmetric], of tag] k at [of k] by (simp add: find_append_list)
  have two: "find_if n r tag (mr_begin r) (field_at b fs k) = Inr (field_at b ?gs
      (case List.find (\<lambda>j. fst (fs ! j) = tag) [0..<k] of None \<Rightarrow> k | Some j \<Rightarrow> j))"
    using find_if_window [OF gs d valid fin _ _ fuel(2), of "field_at b fs k" tag] k at [of k] at [OF le_less_trans [OF le0 k]] by (simp add: find_append_list bgn)
  have pos: "it_buffer (field_at b fs i) \<noteq> it_buffer (field_at b fs j)" if "i < j" "j < length fs" for i j
    using body_text_take_less [of i j fs] that by (simp add: field_at_def)
  have pos_end: "it_buffer (field_at b fs i) \<noteq> it_buffer (mr_end r)" if "i < length fs" for i
    using body_text_take_less [of i "length fs" fs] that fe by (simp add: field_at_def)
  have "find_with_hint r tag i = err_bind (find_if n r tag i (mr_end r)) (\<lambda>j.
      if it_buffer j \<noteq> it_buffer (mr_end r) then Inr (True, j)
      else err_bind (find_if n r tag (mr_begin r) i) (\<lambda>k.
        if it_buffer k \<noteq> it_buffer i then Inr (True, k) else Inr (False, i)))" for i
    using valid by (simp only: find_with_hint_def reader_begin_def reader_end_def Let_def n_def if_True err_bind.simps)
  note hint = this hinted_def find_append
  show ?thesis
  proof (cases "List.find (\<lambda>j. fst (fs ! j) = tag) [k..<length fs]")
    case (Some j)
    then have "j < length fs" by (auto simp: find_Some_iff)
    then show ?thesis using one Some at [of j] pos_end [of j] by (simp add: hint)
  next
    case None
    show ?thesis
    proof (cases "List.find (\<lambda>j. fst (fs ! j) = tag) [0..<k]")
      case (Some j)
      then have "j < k" by (auto simp: find_Some_iff)
      then show ?thesis using one two None Some at [of j] pos [of j k] k last by (simp add: hint)
    next
      case none: None
      then show ?thesis using one two None at [of k] k last by (simp add: hint)
    qed
  qed
qed

section \<open>Properties\<close>

lemma good_mt: "SOH \<notin> set mt \<Longrightarrow> good_field (35, mt)"
  by (simp add: good_field_def length_fields_def)

text \<open>C18: Dates, month-years, times and timestamps of every precision, written in any number and
  order behind the message type, are read back by the accessors of their types with the values
  written; \<open>reader.begin() + n\<close> reaches them by position and, behind the last, the end of the
  message.\<close>

theorem calendar_fields_roundtrip:
  assumes fields: "list_all (\<lambda>(tag, c). plain_tag tag \<and> calendar_ok c) cs"
    and fs: "fs = (35, mt) # map (\<lambda>(tag, c). (tag, calendar_text c)) cs" and mt: "mt \<noteq> []" "SOH \<notin> set mt"
    and version: "SOH \<notin> set version" "7 \<le> length version" "length version \<le> 10"
    and room: "length (body_text fs) < 1000000" "length (message_text version fs) \<le> length mem"
    and addr: "address + length mem + length rest < 2 ^ 64"
  shows "\<exists>w r. write_message version (push_back_string 35 mt # map (\<lambda>(tag, c). calendar_push tag c) cs) (writer_new mem) = Inr w
    \<and> message_reader_init address (writer_message w @ rest) = Inr r
    \<and> (\<forall>k < length cs. \<exists>it. iterator_plus r (mr_begin r) (int (k + 1)) = Inr it
         \<and> it_tag it = fst (cs ! k) \<and> calendar_read r it (snd (cs ! k)))
    \<and> (\<exists>it. iterator_plus r (mr_begin r) (int (length cs + 1)) = Inr it \<and> it_buffer it = it_buffer (mr_end r))"
proof -
  have ops: "list_all2 writes_text (push_back_string 35 mt # map (\<lambda>(tag, c). calendar_push tag c) cs) (map field_text fs)"
    using fields unfolding fs by (induction cs) (auto simp: push_back_string_writes int_field_def calendar_writes)
  have good: "list_all good_field fs"
    using fields good_mt [OF mt(2)] by (auto simp: fs list_all_iff calendar_good_field)
  obtain w r where wr: "write_message version (push_back_string 35 mt # map (\<lambda>(tag, c). calendar_push tag c) cs) (writer_new mem) = Inr w"
      "message_reader_init address (writer_message w @ rest) = Inr r" and reads: "reads_message r (12 + length version) fs"
    by (rule written_message_reads [OF ops [unfolded fs] mt version room [unfolded fs] addr, folded fs])
  have "\<exists>it. iterator_plus r (mr_begin r) (int (k + 1)) = Inr it \<and> it_tag it = fst (cs ! k) \<and> calendar_read r it (snd (cs ! k))"
    if k: "k < length cs" for k
  proof -
    obtain tag c where c: "cs ! k = (tag, c)" by (cases "cs ! k")
    have f: "Suc k < length fs" "fs ! Suc k = (tag, calendar_text c)" and ok: "calendar_ok c"
      using k c fields by (auto simp: fs list_all_length)
    have "as_string r (field_at (12 + length version) fs (Suc k)) = Inr (calendar_text c)"
      using reads_message_field [OF reads f(1)] value_field unfolding field_at_def f(2) by fastforce
    then show ?thesis
      using reads_message_plus [OF reads good f(1)] calendar_read_text [OF ok] c by (simp add: field_at_def f(2))
  qed
  moreover have "length fs = length cs + 1" by (simp add: fs)
  ultimately show ?thesis using wr reads_message_plus_end [OF reads good] by metis
qed

theorem calendar_fields_roundtrip_witness:
  "\<exists>w r. write_message ''FIX.5.0'' [push_back_string 35 ''D'', push_back_date 75 2024 2 29,
        push_back_timestamp_nano 60 2024 2 29 23 59 58 123456789] (writer_new (replicate 90 (CHR ''x''))) = Inr w
    \<and> message_reader_init 4096 (writer_message w @ ''8='') = Inr r
    \<and> (\<exists>it. iterator_plus r (mr_begin r) 1 = Inr it \<and> as_date r it = Inr (Some (2024, 2, 29)))
    \<and> (\<exists>it. iterator_plus r (mr_begin r) 2 = Inr it
         \<and> as_timestamp_nano_parts r it = Inr (Some ((2024, 2, 29), 23, 59, 58, 123456789)))"
proof -
  let ?cs = "[(75, Calendar_Date (2024, 2, 29)), (60, Calendar_Stamp_Nano ((2024, 2, 29), 23, 59, 58, 123456789))] :: (int \<times> calendar_field) list"
  let ?fs = "(35, ''D'') # map (\<lambda>(tag, c). (tag, calendar_text c)) ?cs"
  have d: "dec_int 35 = ''35''" "dec_int 75 = ''75''" "dec_int 60 = ''60''" by (simp_all add: dec_int_def dec_nat_rec digit_chars)
  have len: "length (body_text ?fs) = 48" by (simp add: body_text_def field_text_def d field_texts)
  have "length (message_text ''FIX.5.0'' ?fs) \<le> length (replicate 90 (CHR ''x''))"
    using len by (simp add: message_text_def Let_def head_text_def trailer_text_def)
  then have room: "length (body_text ?fs) < 1000000" "length (message_text ''FIX.5.0'' ?fs) \<le> length (replicate 90 (CHR ''x''))"
    using len by simp_all
  have cs: "list_all (\<lambda>(tag, c). plain_tag tag \<and> calendar_ok c) ?cs"
    by (simp add: plain_tag_def length_fields_def field_oks)
  have rest: "''D'' \<noteq> []" "SOH \<notin> set ''D''" "SOH \<notin> set ''FIX.5.0''" "7 \<le> length ''FIX.5.0''" "length ''FIX.5.0'' \<le> 10"
    "4096 + length (replicate 90 (CHR ''x'')) + length ''8='' < 2 ^ 64" by simp_all
  obtain w r where wr: "write_message ''FIX.5.0'' (push_back_string 35 ''D'' # map (\<lambda>(tag, c). calendar_push tag c) ?cs)
        (writer_new (replicate 90 (CHR ''x''))) = Inr w"
      "message_reader_init 4096 (writer_message w @ ''8='') = Inr r"
    and all: "\<forall>k < length ?cs. \<exists>it. iterator_plus r (mr_begin r) (int (k + 1)) = Inr it
         \<and> it_tag it = fst (?cs ! k) \<and> calendar_read r it (snd (?cs ! k))"
    using calendar_fields_roundtrip [OF cs refl rest(1-5) room rest(6)] by (elim exE conjE) (rule that)
  have "\<exists>it. iterator_plus r (mr_begin r) 1 = Inr it \<and> as_date r it = Inr (Some (2024, 2, 29))"
    using spec [OF all, of 0] by auto
  moreover have "\<exists>it. iterator_plus r (mr_begin r) 2 = Inr it
         \<and> as_timestamp_nano_parts r it = Inr (Some ((2024, 2, 29), 23, 59, 58, 123456789))"
    using spec [OF all, of 1] by auto
  ultimately show ?thesis using wr by auto
qed

text \<open>C19: \<open>find_with_hint\<close> from any field of a written message finds the next field with the tag
  and, when there is none behind it, the first of the message; with no such field the hint is
  unchanged. When a tag occurs more than once this is not what a search from the beginning
  finds.\<close>

theorem find_with_hint_nearest:
  assumes "list_all2 writes_text ops (map field_text fs)" and "list_all good_field fs"
    and "fs = (35, mt) # fs'" and "mt \<noteq> []" and "SOH \<notin> set mt"
    and "SOH \<notin> set version" and "7 \<le> length version" and "length version \<le> 10"
    and "length (body_text fs) < 1000000" and "length (message_text version fs) \<le> length mem"
    and "address + length mem + length rest < 2 ^ 64" and "k < length fs"
  shows "\<exists>w r it. write_message version ops (writer_new mem) = Inr w
    \<and> message_reader_init address (writer_message w @ rest) = Inr r
    \<and> iterator_plus r (mr_begin r) (int k) = Inr it
    \<and> (case hinted tag k fs of
         None \<Rightarrow> find_with_hint r tag it = Inr (False, it)
       | Some j \<Rightarrow> \<exists>i. find_with_hint r tag it = Inr (True, i) \<and> iterator_plus r (mr_begin r) (int j) = Inr i
           \<and> it_tag i = tag \<and> as_string r i = Inr (snd (fs ! j)))"
proof -
  obtain w r where wr: "write_message version ops (writer_new mem) = Inr w"
      "message_reader_init address (writer_message w @ rest) = Inr r" and reads: "reads_message r (12 + length version) fs"
    by (rule written_message_reads [OF assms(1) [unfolded assms(3)] assms(4-8) assms(9,10) [unfolded assms(3)] assms(11), folded assms(3)])
  note plus = reads_message_plus [OF reads assms(2)]
  note hint = reads_message_hint [OF reads assms(2,12), of tag]
  show ?thesis
  proof (cases "hinted tag k fs")
    case None
    then show ?thesis using wr plus [OF assms(12)] hint by auto
  next
    case (Some j)
    then have j: "j < length fs" "fst (fs ! j) = tag"
      using assms(12) hinted_Some by auto
    have "as_string r (field_at (12 + length version) fs j) = Inr (snd (fs ! j))"
      using reads_message_field [OF reads j(1)] value_field unfolding field_at_def by fastforce
    moreover have "it_tag (field_at (12 + length version) fs j) = tag" using j(2) by (simp add: field_at_def)
    ultimately show ?thesis
      using wr plus [OF assms(12)] plus [OF j(1)] hint unfolding Some option.case by (intro exI conjI)
  qed
qed

theorem find_with_hint_nearest_witness:
  "\<exists>w r it j. write_message ''FIX.5.0'' (map (\<lambda>(t, s). push_back_string t s) [(35, ''D''), (79, ''a''), (44, ''7''), (79, ''b'')])
        (writer_new (replicate 60 (CHR ''x''))) = Inr w
    \<and> message_reader_init 4096 (writer_message w @ ''8='') = Inr r
    \<and> iterator_plus r (mr_begin r) 2 = Inr it \<and> iterator_plus r (mr_begin r) 3 = Inr j
    \<and> find_with_hint r 79 it = Inr (True, j)"
proof -
  let ?fs = "[(35, ''D''), (79, ''a''), (44, ''7''), (79, ''b'')] :: (int \<times> string) list"
  have d: "dec_int 35 = ''35''" "dec_int 79 = ''79''" "dec_int 44 = ''44''" by (simp_all add: dec_int_def dec_nat_rec digit_chars)
  have len: "length (body_text ?fs) = 20" by (simp add: body_text_def field_text_def d)
  have ops: "list_all2 writes_text (map (\<lambda>(t, s). push_back_string t s) ?fs) (map field_text ?fs)"
    by (simp add: push_back_string_writes int_field_def)
  have good: "list_all good_field ?fs" by (simp add: good_field_def length_fields_def)
  have room: "length (message_text ''FIX.5.0'' ?fs) \<le> length (replicate 60 (CHR ''x''))"
    using len by (simp add: message_text_def Let_def head_text_def trailer_text_def)
  have rest: "''D'' \<noteq> []" "SOH \<notin> set ''D''" "SOH \<notin> set ''FIX.5.0''" "7 \<le> length ''FIX.5.0''" "length ''FIX.5.0'' \<le> 10"
    "length (body_text ?fs) < 1000000" "4096 + length (replicate 60 (CHR ''x'')) + length ''8='' < 2 ^ 64" "2 < length ?fs"
    using len by simp_all
  have h: "hinted 79 2 ?fs = Some 3" by code_simp
  obtain w r it where wr: "write_message ''FIX.5.0'' (map (\<lambda>(t, s). push_back_string t s) ?fs) (writer_new (replicate 60 (CHR ''x''))) = Inr w"
      "message_reader_init 4096 (writer_message w @ ''8='') = Inr r" "iterator_plus r (mr_begin r) (int 2) = Inr it"
    and found: "case hinted 79 2 ?fs of None \<Rightarrow> find_with_hint r 79 it = Inr (False, it)
       | Some j \<Rightarrow> \<exists>i. find_with_hint r 79 it = Inr (True, i) \<and> iterator_plus r (mr_begin r) (int j) = Inr i
           \<and> it_tag i = 79 \<and> as_string r i = Inr (snd (?fs ! j))"
    using find_with_hint_nearest [OF ops good refl rest(1-6) room rest(7,8), of 79] by (elim exE conjE) (rule that)
  obtain i where i: "find_with_hint r 79 it = Inr (True, i)" "iterator_plus r (mr_begin r) (int 3) = Inr i"
    using found unfolding h option.case by (elim exE conjE) (rule that)
  have num: "int 2 = 2" "int 3 = 3" by simp_all
  show ?thesis
    using wr i unfolding num by (intro exI conjI)
qed

end
