(* ===== verification/Log_Files.thy ===== *)
theory Log_Files
  imports Logging
begin

text \<open>
  The log files: \<open>rotating_file_sink\<close> and its \<open>file_helper\<close>, from
  \<^verbatim>\<open>src/deps/spdlog/include/spdlog\<close>, which \<^verbatim>\<open>Log.cpp\<close> makes for every file sink. The disk is a
  map from names to contents; what a call to the system answers is the argument \<open>os\<close>. An operation
  returns the exception it throws, if any, and the state it leaves. Log lines arrive formatted.
\<close>

section \<open>The system\<close>

type_synonym disk = "string \<rightharpoonup> string"

datatype os_call =
    Fopen string bool nat
  | Rename_file string string bool
  | Flush_file string

record os =
  os_ok :: "os_call \<Rightarrow> bool"
  os_written :: "string \<Rightarrow> nat"

datatype spdlog_ex =
    Zero_max_size
  | Too_many_files
  | Failed_opening string
  | Failed_flush string
  | Failed_writing string
  | Not_opened
  | Closed_file string
  | Failed_renaming string string
  | Null_stream

section \<open>file_helper\<close>

record file_helper =
  fh_open :: bool
  fh_filename :: string

definition file_helper_new :: file_helper where
  "file_helper_new = \<lparr>fh_open = False, fh_filename = []\<rparr>"

definition open_tries :: nat where
  "open_tries = 5"

definition fh_close :: "file_helper \<Rightarrow> file_helper" where
  "fh_close h = h\<lparr>fh_open := False\<rparr>"

text \<open>The loop of \<open>open\<close>, from try number \<open>t\<close> on, with \<open>n\<close> tries left. The flag of \<open>Fopen\<close> is the
  truncating mode \<^verbatim>\<open>wb\<close>; the other one creates the file when it does not exist.\<close>

primrec fh_open_loop :: "os \<Rightarrow> bool \<Rightarrow> nat \<Rightarrow> nat \<Rightarrow> file_helper \<Rightarrow> disk \<Rightarrow> spdlog_ex option \<times> file_helper \<times> disk" where
  "fh_open_loop os trunc t 0 h disk = (Some (Failed_opening (fh_filename h)), h, disk)"
| "fh_open_loop os trunc t (Suc n) h disk =
     (let fname = fh_filename h in
      if trunc \<and> \<not> os_ok os (Fopen fname True t) then fh_open_loop os trunc (t + 1) n h disk
      else
        (let disk = (if trunc then disk(fname \<mapsto> []) else disk) in
         if os_ok os (Fopen fname False t)
         then (None, h\<lparr>fh_open := True\<rparr>, disk(fname \<mapsto> (case disk fname of None \<Rightarrow> [] | Some c \<Rightarrow> c)))
         else fh_open_loop os trunc (t + 1) n h disk))"

definition fh_open_file :: "os \<Rightarrow> string \<Rightarrow> bool \<Rightarrow> file_helper \<Rightarrow> disk \<Rightarrow> spdlog_ex option \<times> file_helper \<times> disk" where
  "fh_open_file os fname trunc h disk = fh_open_loop os trunc 0 open_tries ((fh_close h)\<lparr>fh_filename := fname\<rparr>) disk"

definition fh_reopen :: "os \<Rightarrow> bool \<Rightarrow> file_helper \<Rightarrow> disk \<Rightarrow> spdlog_ex option \<times> file_helper \<times> disk" where
  "fh_reopen os trunc h disk =
     (if fh_filename h = [] then (Some Not_opened, h, disk) else fh_open_file os (fh_filename h) trunc h disk)"

definition fh_flush :: "os \<Rightarrow> file_helper \<Rightarrow> spdlog_ex option" where
  "fh_flush os h = (if os_ok os (Flush_file (fh_filename h)) then None else Some (Failed_flush (fh_filename h)))"

text \<open>A short write leaves what it has written in the file; a write to a file that is not open is
  undefined (\<open>Null_stream\<close>).\<close>

definition fh_write :: "os \<Rightarrow> string \<Rightarrow> file_helper \<Rightarrow> disk \<Rightarrow> spdlog_ex option \<times> disk" where
  "fh_write os buf h disk0 =
     (let fname = fh_filename h;
          n = min (os_written os buf) (length buf);
          disk = disk0(fname \<mapsto> the (disk0 fname) @ take n buf)
      in if \<not> fh_open h then (Some Null_stream, disk0)
         else (if n \<noteq> length buf then Some (Failed_writing fname) else None, disk))"

definition fh_size :: "file_helper \<Rightarrow> disk \<Rightarrow> spdlog_ex + nat" where
  "fh_size h disk = (if \<not> fh_open h then Inl (Closed_file (fh_filename h)) else Inr (length (the (disk (fh_filename h)))))"

text \<open>The folder separator of the Unix build.\<close>

definition split_by_extension :: "string \<Rightarrow> string \<times> string" where
  "split_by_extension fname =
     (case find_last_of (CHR ''.'') fname of
        None \<Rightarrow> (fname, [])
      | Some ext_index \<Rightarrow>
          (if ext_index = 0 \<or> ext_index = length fname - 1 then (fname, [])
           else
             (case find_last_of (CHR ''/'') fname of
                Some folder_index \<Rightarrow>
                  (if folder_index \<ge> ext_index - 1 then (fname, []) else (take ext_index fname, drop ext_index fname))
              | None \<Rightarrow> (take ext_index fname, drop ext_index fname))))"

section \<open>rotating_file_sink\<close>

record file_sink =
  fs_base_filename :: string
  fs_max_size :: nat
  fs_max_files :: nat
  fs_current_size :: nat
  fs_file_helper :: file_helper

definition calc_filename :: "string \<Rightarrow> nat \<Rightarrow> string" where
  "calc_filename fname index =
     (if index = 0 then fname
      else case split_by_extension fname of (base, ext) \<Rightarrow> base @ ''.'' @ dec_nat index @ ext)"

text \<open>\<open>rename_file_\<close> removes the target and renames; the flag is set in the second attempt.\<close>

definition rename_file :: "os \<Rightarrow> bool \<Rightarrow> string \<Rightarrow> string \<Rightarrow> disk \<Rightarrow> bool \<times> disk" where
  "rename_file os again src target disk =
     (let disk = disk(target := None) in
      if os_ok os (Rename_file src target again) then (True, disk(target := disk src, src := None)) else (False, disk))"

text \<open>The loop of \<open>rotate_\<close>, down from \<open>i\<close>; the result is the pair of names that could not be renamed.\<close>

primrec rotate_loop :: "os \<Rightarrow> string \<Rightarrow> nat \<Rightarrow> disk \<Rightarrow> (string \<times> string) option \<times> disk" where
  "rotate_loop os base 0 disk = (None, disk)"
| "rotate_loop os base (Suc i) disk =
     (let src = calc_filename base i; target = calc_filename base (Suc i) in
      if disk src = None then rotate_loop os base i disk
      else
        (case rename_file os False src target disk of
           (True, disk) \<Rightarrow> rotate_loop os base i disk
         | (False, disk) \<Rightarrow>
             (case rename_file os True src target disk of
                (True, disk) \<Rightarrow> rotate_loop os base i disk
              | (False, disk) \<Rightarrow> (Some (src, target), disk))))"

definition rotate_files :: "os \<Rightarrow> file_sink \<Rightarrow> disk \<Rightarrow> spdlog_ex option \<times> file_sink \<times> disk" where
  "rotate_files os s disk =
     (let h = fh_close (fs_file_helper s) in
      case rotate_loop os (fs_base_filename s) (fs_max_files s) disk of
        (None, disk) \<Rightarrow>
          (case fh_reopen os True h disk of (ex, h, disk) \<Rightarrow> (ex, s\<lparr>fs_file_helper := h\<rparr>, disk))
      | (Some (src, target), disk) \<Rightarrow>
          (case fh_reopen os True h disk of
             (Some ex, h, disk) \<Rightarrow> (Some ex, s\<lparr>fs_file_helper := h\<rparr>, disk)
           | (None, h, disk) \<Rightarrow>
               (Some (Failed_renaming src target), s\<lparr>fs_file_helper := h, fs_current_size := 0\<rparr>, disk)))"

definition file_sink_new ::
  "os \<Rightarrow> string \<Rightarrow> nat \<Rightarrow> nat \<Rightarrow> bool \<Rightarrow> disk \<Rightarrow> spdlog_ex option \<times> file_sink \<times> disk" where
  "file_sink_new os base max_size max_files rotate_on_open disk =
     (let s = \<lparr>fs_base_filename = base, fs_max_size = max_size, fs_max_files = max_files, fs_current_size = 0,
               fs_file_helper = file_helper_new\<rparr> in
      if max_size = 0 then (Some Zero_max_size, s, disk)
      else if max_files > 200000 then (Some Too_many_files, s, disk)
      else
        (case fh_open_file os (calc_filename base 0) False file_helper_new disk of
           (Some ex, h, disk) \<Rightarrow> (Some ex, s\<lparr>fs_file_helper := h\<rparr>, disk)
         | (None, h, disk) \<Rightarrow>
             (case fh_size h disk of
                Inl ex \<Rightarrow> (Some ex, s\<lparr>fs_file_helper := h\<rparr>, disk)
              | Inr n \<Rightarrow>
                  (let s = s\<lparr>fs_file_helper := h, fs_current_size := n\<rparr> in
                   if rotate_on_open \<and> n > 0 then
                     (case rotate_files os s disk of
                        (Some ex, s, disk) \<Rightarrow> (Some ex, s, disk)
                      | (None, s, disk) \<Rightarrow> (None, s\<lparr>fs_current_size := 0\<rparr>, disk))
                   else (None, s, disk)))))"

text \<open>The end of \<open>sink_it_\<close>: the write and the new size.\<close>

definition sink_write :: "os \<Rightarrow> string \<Rightarrow> nat \<Rightarrow> file_sink \<Rightarrow> disk \<Rightarrow> spdlog_ex option \<times> file_sink \<times> disk" where
  "sink_write os formatted new_size s disk =
     (case fh_write os formatted (fs_file_helper s) disk of
        (Some ex, disk) \<Rightarrow> (Some ex, s, disk)
      | (None, disk) \<Rightarrow> (None, s\<lparr>fs_current_size := new_size\<rparr>, disk))"

definition sink_it :: "os \<Rightarrow> string \<Rightarrow> file_sink \<Rightarrow> disk \<Rightarrow> spdlog_ex option \<times> file_sink \<times> disk" where
  "sink_it os formatted s disk =
     (let new_size = sz_add (fs_current_size s) (length formatted) in
      if new_size > fs_max_size s then
        (case fh_flush os (fs_file_helper s) of
           Some ex \<Rightarrow> (Some ex, s, disk)
         | None \<Rightarrow>
             (case fh_size (fs_file_helper s) disk of
                Inl ex \<Rightarrow> (Some ex, s, disk)
              | Inr n \<Rightarrow>
                  (if n > 0 then
                     (case rotate_files os s disk of
                        (Some ex, s, disk) \<Rightarrow> (Some ex, s, disk)
                      | (None, s, disk) \<Rightarrow> sink_write os formatted (length formatted) s disk)
                   else sink_write os formatted new_size s disk)))
      else sink_write os formatted new_size s disk)"

definition sink_flush :: "os \<Rightarrow> file_sink \<Rightarrow> spdlog_ex option" where
  "sink_flush os s = fh_flush os (fs_file_helper s)"

end
