(* ===== verification/Fmt_Write.thy ===== *)
theory Fmt_Write
  imports String_Util
begin

text \<open>
  The integer printing of fmt, \<^verbatim>\<open>src/deps/fmt/include/fmt/format.h\<close>: the routines that count
  decimal digits without a division loop, \<open>format_decimal\<close>, which writes two digits at a time
  from the end of a buffer, the class \<open>format_int\<close> the log lines use, and the padding of
  \<open>write_padded\<close>. A \<^verbatim>\<open>char\<close> buffer is a string, a pointer into it an index.
\<close>

unbundle bit_operations_syntax

section \<open>Counting digits\<close>

function count_digits_fallback_loop :: "nat \<Rightarrow> nat \<Rightarrow> nat" where
  "count_digits_fallback_loop count n =
     (if n < 10 then count
      else if n < 100 then count + 1
      else if n < 1000 then count + 2
      else if n < 10000 then count + 3
      else count_digits_fallback_loop (count + 4) (n div 10000))"
  by pat_completeness auto
termination by (relation "measure snd") auto

declare count_digits_fallback_loop.simps [simp del]

definition count_digits_fallback :: "nat \<Rightarrow> nat" where
  "count_digits_fallback n = count_digits_fallback_loop 1 n"

text \<open>The number of bits of a number; \<^verbatim>\<open>__builtin_clz\<close> counts the zeros above them and is
  undefined for zero, which is why the callers set the lowest bit.\<close>

fun bit_length :: "nat \<Rightarrow> nat" where
  "bit_length n = (if n = 0 then 0 else Suc (bit_length (n div 2)))"

declare bit_length.simps [simp del]

definition builtin_clz :: "nat \<Rightarrow> nat \<Rightarrow> nat" where
  "builtin_clz width n = width - bit_length n"

definition bsr2log10 :: "nat list" where
  "bsr2log10 =
     [1,  1,  1,  2,  2,  2,  3,  3,  3,  4,  4,  4,  4,  5,  5,  5,
      6,  6,  6,  7,  7,  7,  7,  8,  8,  8,  9,  9,  9,  10, 10, 10,
      10, 11, 11, 11, 12, 12, 12, 13, 13, 13, 13, 14, 14, 14, 15, 15,
      15, 16, 16, 16, 16, 17, 17, 17, 18, 18, 18, 19, 19, 19, 19, 20]"

definition FMT_POWERS_OF_10 :: "u64 \<Rightarrow> u64 list" where
  "FMT_POWERS_OF_10 factor =
     [factor * 10, factor * 100, factor * 1000, factor * 10000, factor * 100000,
      factor * 1000000, factor * 10000000, factor * 100000000, factor * 1000000000]"

definition zero_or_powers_of_10 :: "u64 list" where
  "zero_or_powers_of_10 = [0, 0] @ FMT_POWERS_OF_10 1 @ FMT_POWERS_OF_10 1000000000 @ [10000000000000000000]"

definition do_count_digits_64 :: "u64 \<Rightarrow> int" where
  "do_count_digits_64 n =
     (let t = bsr2log10 ! (builtin_clz 64 (unat (n OR 1)) XOR 63)
      in int t - of_bool (n < zero_or_powers_of_10 ! t))"

text \<open>\<^verbatim>\<open>FMT_INC(T)\<close>, with the length of the literal \<^verbatim>\<open>T\<close>.\<close>

definition FMT_INC :: "nat \<Rightarrow> u64 \<Rightarrow> u64" where
  "FMT_INC literal T = push_bit 32 (of_nat literal) - T"

definition inc_table :: "u64 list" where
  "inc_table =
     [FMT_INC 1 0, FMT_INC 1 0, FMT_INC 1 0,
      FMT_INC 2 10, FMT_INC 2 10, FMT_INC 2 10,
      FMT_INC 3 100, FMT_INC 3 100, FMT_INC 3 100,
      FMT_INC 4 1000, FMT_INC 4 1000, FMT_INC 4 1000,
      FMT_INC 5 10000, FMT_INC 5 10000, FMT_INC 5 10000,
      FMT_INC 6 100000, FMT_INC 6 100000, FMT_INC 6 100000,
      FMT_INC 7 1000000, FMT_INC 7 1000000, FMT_INC 7 1000000,
      FMT_INC 8 10000000, FMT_INC 8 10000000, FMT_INC 8 10000000,
      FMT_INC 9 100000000, FMT_INC 9 100000000, FMT_INC 9 100000000,
      FMT_INC 10 1000000000, FMT_INC 10 1000000000, FMT_INC 10 1000000000,
      FMT_INC 10 1000000000, FMT_INC 10 1000000000]"

definition do_count_digits_32 :: "u32 \<Rightarrow> int" where
  "do_count_digits_32 n =
     (let inc = inc_table ! (builtin_clz 32 (unat (n OR 1)) XOR 31)
      in sint (ucast (drop_bit 32 (ucast n + inc)) :: u32))"

section \<open>Decimal text\<close>

definition digits2_table :: string where
  "digits2_table =
     ''0001020304050607080910111213141516171819'' @
     ''2021222324252627282930313233343536373839'' @
     ''4041424344454647484950515253545556575859'' @
     ''6061626364656667686970717273747576777879'' @
     ''8081828384858687888990919293949596979899''"

definition digits2 :: "nat \<Rightarrow> string" where
  "digits2 v = drop (v * 2) digits2_table"

definition copy2 :: "nat \<Rightarrow> string \<Rightarrow> string \<Rightarrow> string" where
  "copy2 dst src buf = blit dst (take 2 src) buf"

text \<open>The loop of \<open>format_decimal\<close>, with the position \<open>out\<close>, and what follows it.\<close>

function format_decimal_loop :: "nat \<Rightarrow> nat \<Rightarrow> string \<Rightarrow> nat \<times> string" where
  "format_decimal_loop out v buf =
     (if v \<ge> 100 then format_decimal_loop (out - 2) (v div 100) (copy2 (out - 2) (digits2 (v mod 100)) buf)
      else if v < 10 then (out - 1, buf[out - 1 := char_of (48 + v)])
      else (out - 2, copy2 (out - 2) (digits2 v) buf))"
  by pat_completeness auto
termination by (relation "measure (\<lambda>(out, v, buf). v)") auto

declare format_decimal_loop.simps [simp del]

definition count_digits :: "bool \<Rightarrow> nat \<Rightarrow> int" where
  "count_digits wide n = (if wide then do_count_digits_64 (of_nat n) else do_count_digits_32 (of_nat n))"

text \<open>\<open>wide\<close> tells whether the unsigned type has 64 bits or 32. The result is the beginning and
  the end of the text and the buffer; \<open>None\<close> is the failed assertion.\<close>

definition format_decimal :: "bool \<Rightarrow> string \<Rightarrow> nat \<Rightarrow> nat \<Rightarrow> (nat \<times> nat \<times> string) option" where
  "format_decimal wide buf v room =
     (if int room < count_digits wide v then None
      else (case format_decimal_loop room v buf of (begin', buf) \<Rightarrow> Some (begin', room, buf)))"

section \<open>format_int\<close>

definition format_int_buffer_size :: nat where
  "format_int_buffer_size = 19 + 3"

definition format_unsigned :: "bool \<Rightarrow> nat \<Rightarrow> string \<Rightarrow> (nat \<times> string) option" where
  "format_unsigned wide v buf =
     map_option (\<lambda>(begin', _, buf). (begin', buf))
       (format_decimal wide buf (v mod 2 ^ (if wide then 64 else 32)) (format_int_buffer_size - 1))"

definition format_signed :: "bool \<Rightarrow> int \<Rightarrow> string \<Rightarrow> (nat \<times> string) option" where
  "format_signed wide v buf =
     (let w = (if wide then 64 else 32);
          abs_value = nat (v mod 2 ^ w);
          negative = v < 0;
          abs_value = (if negative then nat ((0 - int abs_value) mod 2 ^ w) else abs_value)
      in case format_unsigned wide abs_value buf of
           None \<Rightarrow> None
         | Some (begin', buf) \<Rightarrow>
             (if negative then Some (begin' - 1, buf[begin' - 1 := CHR ''-'']) else Some (begin', buf)))"

text \<open>\<open>data\<close> and \<open>size\<close>, over the uninitialised \<open>buffer_\<close>.\<close>

definition format_int :: "bool \<Rightarrow> int \<Rightarrow> string \<Rightarrow> string option" where
  "format_int wide v buffer =
     (case format_signed wide v buffer of
        None \<Rightarrow> None
      | Some (str, buffer) \<Rightarrow> Some (segment str (format_int_buffer_size - 1 - str) buffer))"

section \<open>Padding\<close>

datatype align = Align_none | Align_left | Align_right | Align_center | Align_numeric

datatype sign_t = Sign_none | Sign_minus | Sign_plus | Sign_space

datatype presentation_type =
    Type_none | Type_dec | Type_oct | Type_hex_lower | Type_hex_upper | Type_bin_lower | Type_bin_upper
  | Type_hexfloat_lower | Type_hexfloat_upper | Type_exp_lower | Type_exp_upper | Type_fixed_lower | Type_fixed_upper
  | Type_general_lower | Type_general_upper | Type_chr | Type_string | Type_pointer

text \<open>The fill is a \<open>fill_t\<close> of one to four characters.\<close>

record format_specs =
  sp_width :: nat
  sp_precision :: int
  sp_type :: presentation_type
  sp_align :: align
  sp_sign :: sign_t
  sp_alt :: bool
  sp_localized :: bool
  sp_fill :: string

definition format_specs_new :: format_specs where
  "format_specs_new =
     \<lparr>sp_width = 0, sp_precision = -1, sp_type = Type_none, sp_align = Align_none, sp_sign = Sign_none, sp_alt = False,
      sp_localized = False, sp_fill = '' ''\<rparr>"

text \<open>The shifts of \<open>write_padded\<close>, from the string literals, for the default alignment to the
  right or to the left. The fifth entry is the terminating NUL.\<close>

definition shifts :: "bool \<Rightarrow> align \<Rightarrow> nat" where
  "shifts right a =
     (case a of
        Align_none \<Rightarrow> if right then 0 else 31
      | Align_left \<Rightarrow> 31
      | Align_right \<Rightarrow> 0
      | Align_center \<Rightarrow> 1
      | Align_numeric \<Rightarrow> 0)"

definition fill :: "nat \<Rightarrow> string \<Rightarrow> string" where
  "fill n f = concat (replicate n f)"

text \<open>\<open>width\<close> is the display width of the text \<open>s\<close>. The padding is a \<^verbatim>\<open>size_t\<close> shifted right.\<close>

definition write_padded :: "bool \<Rightarrow> format_specs \<Rightarrow> nat \<Rightarrow> string \<Rightarrow> string" where
  "write_padded right specs width s =
     (let padding = (if sp_width specs > width then sp_width specs - width else 0);
          left_padding = padding div 2 ^ shifts right (sp_align specs);
          right_padding = padding - left_padding
      in fill left_padding (sp_fill specs) @ s @ fill right_padding (sp_fill specs))"

text \<open>\<open>write_int_data\<close>: the size and the number of zeros.\<close>

definition write_int_data :: "nat \<Rightarrow> string \<Rightarrow> format_specs \<Rightarrow> nat \<times> nat" where
  "write_int_data num_digits prefix specs =
     (let size = length prefix + num_digits in
      if sp_align specs = Align_numeric then
        (if sp_width specs > size then (sp_width specs, sp_width specs - size) else (size, 0))
      else if sp_precision specs > int num_digits then
        (length prefix + nat (sp_precision specs), nat (sp_precision specs) - num_digits)
      else (size, 0))"

text \<open>\<open>write_int\<close> with the digits already formatted. The prefix is the text of its characters.\<close>

definition write_int :: "nat \<Rightarrow> string \<Rightarrow> format_specs \<Rightarrow> string \<Rightarrow> string" where
  "write_int num_digits prefix specs digits =
     (if sp_width specs = 0 \<and> sp_precision specs = -1 then prefix @ digits
      else
        (case write_int_data num_digits prefix specs of
           (sz, padding) \<Rightarrow> write_padded True specs sz (prefix @ replicate padding (CHR ''0'') @ digits)))"

definition make_write_int_arg :: "bool \<Rightarrow> int \<Rightarrow> sign_t \<Rightarrow> nat \<times> string" where
  "make_write_int_arg wide v s =
     (let w = (if wide then 64 else 32) in
      if v < 0 then (nat ((0 - v) mod 2 ^ w), ''-'')
      else (nat (v mod 2 ^ w), (case s of Sign_plus \<Rightarrow> ''+'' | Sign_space \<Rightarrow> '' '' | _ \<Rightarrow> [])))"

text \<open>The decimal presentation.\<close>

definition write_dec :: "bool \<Rightarrow> nat \<times> string \<Rightarrow> format_specs \<Rightarrow> string option" where
  "write_dec wide arg specs =
     (case arg of (abs_value, prefix) \<Rightarrow>
        (let num_digits = nat (count_digits wide abs_value) in
         case format_decimal wide (replicate num_digits (CHR 0x00)) abs_value num_digits of
           None \<Rightarrow> None
         | Some (begin', end', digits) \<Rightarrow> Some (write_int num_digits prefix specs digits)))"

section \<open>The optimised routines are exact\<close>

lemma length_dec_nat_exact: "10 ^ d \<le> n \<Longrightarrow> n < 10 ^ Suc d \<Longrightarrow> length (dec_nat n) = Suc d"
proof (induction d arbitrary: n)
  case 0
  then show ?case by (simp add: dec_nat.simps)
next
  case (Suc d)
  have "length (dec_nat (n div 10)) = Suc d"
    using Suc.prems by (intro Suc.IH) (simp_all add: less_eq_div_iff_mult_less_eq div_less_iff_less_mult)
  moreover have "10 \<le> n" using Suc.prems(1) by (simp add: le_trans [OF _ Suc.prems(1)])
  ultimately show ?case by (simp add: dec_nat_rec)
qed

lemma length_dec_nat_small: "n < 10 \<Longrightarrow> length (dec_nat n) = 1"
  by (simp add: dec_nat_rec)

lemma length_dec_nat_four:
  assumes "10000 \<le> n"
  shows "length (dec_nat n) = 4 + length (dec_nat (n div 10000))"
proof -
  have step: "10 \<le> m \<Longrightarrow> length (dec_nat m) = Suc (length (dec_nat (m div 10)))" for m by (simp add: dec_nat_rec)
  have "n div 10 div 10 div 10 div 10 = n div 10000" by (simp add: div_mult2_eq [symmetric])
  moreover have "10 \<le> n" "10 \<le> n div 10" "10 \<le> n div 10 div 10" "10 \<le> n div 10 div 10 div 10" using assms by linarith+
  ultimately show ?thesis using step [of n] step [of "n div 10"] step [of "n div 10 div 10"] step [of "n div 10 div 10 div 10"]
    by simp
qed

lemma count_digits_fallback_exact: "count_digits_fallback n = length (dec_nat n)"
proof -
  have "count_digits_fallback_loop count n = count + length (dec_nat n) - 1" for count
  proof (induction count n rule: count_digits_fallback_loop.induct)
    case (1 count n)
    consider "n < 10" | "10 \<le> n" "n < 100" | "100 \<le> n" "n < 1000" | "1000 \<le> n" "n < 10000" | "10000 \<le> n" by linarith
    then show ?case
    proof cases
      case 5
      then show ?thesis using 1 length_dec_nat_four [OF 5] by (simp add: count_digits_fallback_loop.simps [of count n])
    qed (use length_dec_nat_exact [of 1 n] length_dec_nat_exact [of 2 n] length_dec_nat_exact [of 3 n] in
        \<open>simp_all add: count_digits_fallback_loop.simps [of count n] length_dec_nat_small\<close>)
  qed
  then show ?thesis by (simp add: count_digits_fallback_def)
qed

lemma bit_length_bounds: "0 < n \<Longrightarrow> 0 < bit_length n \<and> 2 ^ (bit_length n - 1) \<le> n \<and> n < 2 ^ bit_length n"
proof (induction n rule: bit_length.induct)
  case (1 n)
  show ?case
  proof (cases "n = 1")
    case True
    then show ?thesis by (simp add: bit_length.simps)
  next
    case False
    then have "0 < n div 2" using 1(2) by simp
    with 1 have IH: "0 < bit_length (n div 2)" "2 ^ (bit_length (n div 2) - 1) \<le> n div 2" "n div 2 < 2 ^ bit_length (n div 2)"
      by auto
    have "bit_length n = Suc (bit_length (n div 2))" using 1(2) by (simp add: bit_length.simps [of n])
    moreover have "2 ^ bit_length (n div 2) \<le> n"
      using IH(1,2) by (cases "bit_length (n div 2)") (auto simp: less_eq_div_iff_mult_less_eq mult.commute)
    ultimately show ?thesis using IH(3) by (simp add: div_less_iff_less_mult)
  qed
qed

text \<open>Setting the lowest bit keeps the position of the highest one.\<close>

lemma bsr_bounds:
  fixes n :: "'a :: len word"
  assumes "n \<noteq> 0"
  obtains k where "bit_length (unat (n OR 1)) = Suc k" "2 ^ k \<le> unat n" "unat n < 2 ^ Suc k" "k < LENGTH('a)"
proof -
  have or: "unat (n OR 1) = unat n OR 1" by (simp add: unsigned_or_eq)
  have pos: "0 < unat n" using assms by (simp add: unat_gt_0)
  have bl: "bit_length (unat n OR 1) = bit_length (unat n)" using pos
    by (subst (1 2) bit_length.simps) (auto simp: or_Suc_0_eq elim!: evenE oddE)
  obtain k where k: "bit_length (unat n) = Suc k" using bit_length_bounds [OF pos] by (cases "bit_length (unat n)") auto
  have b: "2 ^ k \<le> unat n" "unat n < 2 ^ Suc k" using bit_length_bounds [OF pos] k by simp_all
  have "(2::nat) ^ k < 2 ^ LENGTH('a)" using b(1) unsigned_less [of n] by (rule le_less_trans)
  then have "k < LENGTH('a)" by simp
  then show ?thesis using that k b bl or by simp
qed

lemma bsr_table:
  "list_all (\<lambda>(k, t). 1 \<le> t \<and> t \<le> 20 \<and> (2::nat) ^ Suc k \<le> 10 ^ t \<and> (2 \<le> t \<longrightarrow> (10::nat) ^ (t - 2) \<le> 2 ^ k)) (zip [0..<64] bsr2log10)"
  by (simp add: bsr2log10_def upt_conv_Cons)

lemma length_bsr2log10: "length bsr2log10 = 64"
  by (simp add: bsr2log10_def)

lemma powers_nth:
  assumes "t \<le> 20"
  shows "unat (zero_or_powers_of_10 ! t) = (if t < 2 then 0 else 10 ^ (t - 1))"
proof -
  have "list_all (\<lambda>t. unat (zero_or_powers_of_10 ! t) = (if t < 2 then 0 else 10 ^ (t - 1))) [0..<21]"
    by (simp add: zero_or_powers_of_10_def FMT_POWERS_OF_10_def upt_conv_Cons)
  then show ?thesis using assms by (simp add: list_all_iff)
qed

definition inc_digits :: "nat list" where
  "inc_digits = [1, 1, 1, 2, 2, 2, 3, 3, 3, 4, 4, 4, 5, 5, 5, 6, 6, 6, 7, 7, 7, 8, 8, 8, 9, 9, 9, 10, 10, 10, 10, 10]"

lemma inc_table_digits: "inc_table = map (\<lambda>D. FMT_INC D (if D = 1 then 0 else 10 ^ (D - 1))) inc_digits"
  by (simp add: inc_table_def inc_digits_def)

lemma inc_digits_table:
  "list_all (\<lambda>(k, D). 1 \<le> D \<and> D \<le> 10 \<and> (2::nat) ^ Suc k \<le> 10 ^ D \<and> (2 \<le> D \<longrightarrow> (10::nat) ^ (D - 2) \<le> 2 ^ k)) (zip [0..<32] inc_digits)"
  by (simp add: inc_digits_def upt_conv_Cons)

lemma xor_ones: "k < 64 \<Longrightarrow> (63 - k) XOR 63 = (k::nat)" "k < 32 \<Longrightarrow> (31 - k) XOR 31 = (k::nat)"
proof -
  have "list_all (\<lambda>k. (63 - k) XOR 63 = (k::nat)) [0..<64]" "list_all (\<lambda>k. (31 - k) XOR 31 = (k::nat)) [0..<32]"
    by (simp_all add: upt_conv_Cons)
  then show "k < 64 \<Longrightarrow> (63 - k) XOR 63 = k" "k < 32 \<Longrightarrow> (31 - k) XOR 31 = k" by (simp_all add: list_all_iff)
qed

text \<open>What both tables rest on: a number between two powers of two has one of two lengths, and one
  comparison with a power of ten tells which.\<close>

lemma length_by_comparison:
  assumes "1 \<le> t" "2 ^ k \<le> n" "n < 2 ^ Suc k" "(2::nat) ^ Suc k \<le> 10 ^ t" "2 \<le> t \<longrightarrow> (10::nat) ^ (t - 2) \<le> 2 ^ k"
  shows "length (dec_nat n) = t - (if n < (if t < 2 then 0 else 10 ^ (t - 1)) then 1 else 0)"
proof (cases "t < 2")
  case True
  then have "t = 1" using assms(1) by simp
  then show ?thesis using assms(3,4) by (simp add: length_dec_nat_small)
next
  case False
  then obtain d where d: "t = Suc (Suc d)" by (metis One_nat_def less_2_cases_iff not0_implies_Suc)
  have "n < 10 ^ Suc (Suc d)" "10 ^ d \<le> n" using assms d by simp_all
  then show ?thesis using d length_dec_nat_exact [of d n] length_dec_nat_exact [of "Suc d" n] by auto
qed

lemma do_count_digits_64_exact: "do_count_digits_64 n = int (length (dec_nat (unat n)))"
proof (cases "n = 0")
  case True
  have "bit_length (Suc 0) = Suc 0" by (simp add: bit_length.simps)
  with True show ?thesis
    by (simp add: do_count_digits_64_def builtin_clz_def bsr2log10_def zero_or_powers_of_10_def length_dec_nat_small)
next
  case False
  then obtain k where k: "bit_length (unat (n OR 1)) = Suc k" "2 ^ k \<le> unat n" "unat n < 2 ^ Suc k" "k < 64"
    using bsr_bounds [of n] by auto
  let ?t = "bsr2log10 ! k"
  have "(k, ?t) \<in> set (zip [0..<64] bsr2log10)" using k(4) nth_mem [of k "zip [0..<64] bsr2log10"] by (simp add: length_bsr2log10)
  then have t: "1 \<le> ?t" "?t \<le> 20" "(2::nat) ^ Suc k \<le> 10 ^ ?t" "2 \<le> ?t \<longrightarrow> (10::nat) ^ (?t - 2) \<le> 2 ^ k"
    using bsr_table unfolding list_all_iff by blast+
  have "do_count_digits_64 n = int ?t - of_bool (unat n < unat (zero_or_powers_of_10 ! ?t))"
    using xor_ones(1) [OF k(4)] by (simp add: do_count_digits_64_def builtin_clz_def k(1) word_less_nat_alt)
  then show ?thesis using length_by_comparison [OF t(1) k(2,3) t(3,4)] t(1) by (simp add: powers_nth [OF t(2)] of_nat_diff)
qed

lemma length_inc_digits: "length inc_digits = 32"
  by (simp add: inc_digits_def)

lemma unat_FMT_INC:
  assumes "D \<le> 10" "T < 2 ^ 32" "1 \<le> D"
  shows "unat (FMT_INC D (of_nat T)) = D * 2 ^ 32 - T"
proof -
  have le: "T \<le> D * 2 ^ 32" using assms(2,3) by (simp add: less_imp_le le_trans [of T "2 ^ 32"])
  have "FMT_INC D (of_nat T) = of_nat (D * 2 ^ 32 - T)"
    using le by (simp add: FMT_INC_def push_bit_eq_mult of_nat_diff)
  moreover have "D * 2 ^ 32 - T < 2 ^ 64" using assms(1) by (simp add: less_le_trans [OF _ order_refl])
  ultimately show ?thesis by (simp add: unat_of_nat)
qed

lemma carry_digit:
  assumes "N < 2 ^ 32" "T < 2 ^ 32" "1 \<le> D"
  shows "(N + (D * 2 ^ 32 - T)) div (2 ^ 32) = D - (if N < T then 1 else (0::nat))"
proof -
  obtain e where D: "D = Suc e" using assms(3) by (cases D) auto
  show ?thesis
  proof (cases "N < T")
    case True
    have "N + (D * 2 ^ 32 - T) = (N + 2 ^ 32 - T) + e * 2 ^ 32" using assms D True by simp
    moreover have "N + 2 ^ 32 - T < 2 ^ 32" using True by simp
    ultimately show ?thesis using True D by (simp only: div_mult_self3) simp
  next
    case False
    have "N + (D * 2 ^ 32 - T) = (N - T) + D * 2 ^ 32" using assms D False by simp
    moreover have "N - T < 2 ^ 32" using assms(1) by simp
    ultimately show ?thesis using False by (simp only: div_mult_self3) simp
  qed
qed

lemma small_digit:
  assumes "unat (w :: u64) = c" "c \<le> 10"
  shows "sint (ucast w :: u32) = int c"
proof -
  have "w = of_nat c" using assms by (simp add: word_unat_eq_iff unsigned_of_nat take_bit_nat_eq_self)
  moreover have "sint (ucast (of_nat c :: u64) :: u32) = int c"
    using assms(2) by (simp add: unsigned_of_nat signed_of_nat take_bit_nat_eq_self signed_take_bit_int_eq_self)
  ultimately show ?thesis by simp
qed
lemma do_count_digits_32_exact: "do_count_digits_32 n = int (length (dec_nat (unat n)))"
proof (cases "n = 0")
  case True
  have "bit_length (Suc 0) = Suc 0" by (simp add: bit_length.simps)
  with True show ?thesis
    by (simp add: do_count_digits_32_def builtin_clz_def inc_table_def FMT_INC_def length_dec_nat_small)
next
  case False
  then obtain k where k: "bit_length (unat (n OR 1)) = Suc k" "2 ^ k \<le> unat n" "unat n < 2 ^ Suc k" "k < 32"
    using bsr_bounds [of n] by auto
  let ?D = "inc_digits ! k"
  let ?T = "if ?D < 2 then 0 else 10 ^ (?D - 1) :: nat"
  have "(k, ?D) \<in> set (zip [0..<32] inc_digits)" using k(4) nth_mem [of k "zip [0..<32] inc_digits"] by (simp add: length_inc_digits)
  then have D: "1 \<le> ?D" "?D \<le> 10" "(2::nat) ^ Suc k \<le> 10 ^ ?D" "2 \<le> ?D \<longrightarrow> (10::nat) ^ (?D - 2) \<le> 2 ^ k"
    using inc_digits_table unfolding list_all_iff by blast+
  have "(10::nat) ^ (?D - 1) \<le> 10 ^ 9" using D(2) by (intro power_increasing) simp_all
  then have T: "?T < 2 ^ 32" by simp
  let ?c = "?D - (if unat n < ?T then 1 else 0)"
  have "inc_table ! k = FMT_INC ?D (of_nat ?T)"
    using k(4) D(1) by (simp add: inc_table_digits length_inc_digits)
  then have inc: "unat (inc_table ! k) = ?D * 2 ^ 32 - ?T" by (simp only: unat_FMT_INC [OF D(2) T D(1)])
  have N: "unat n < 2 ^ 32" using unsigned_less [of n] by simp
  have "unat (ucast n + inc_table ! k :: u64) = unat n + (?D * 2 ^ 32 - ?T)"
    using N D(2) by (simp add: unat_word_ariths inc unsigned_ucast_eq take_bit_nat_eq_self)
  moreover have "unat (drop_bit 32 x) = unat x div 2 ^ 32" for x :: u64 by (simp add: drop_bit_eq_div unat_div)
  ultimately have "unat (drop_bit 32 (ucast n + inc_table ! k :: u64)) = ?c" by (simp only: carry_digit [OF N T D(1)])
  then have "do_count_digits_32 n = int ?c"
    using D(2) small_digit [of "drop_bit 32 (ucast n + inc_table ! k)" ?c]
    by (simp add: do_count_digits_32_def builtin_clz_def k(1) xor_ones(2) [OF k(4)] del: of_nat_diff)
  then show ?thesis using length_by_comparison [OF D(1) k(2,3) D(3,4)] by simp
qed

definition two_digits :: "nat \<Rightarrow> string" where
  "two_digits v = [digit_char (v div 10), digit_char (v mod 10)]"

lemma digits2_table_eq: "digits2_table = concat (map two_digits [0..<100])"
  by (simp add: digits2_table_def two_digits_def upt_conv_Cons digit_chars digit_chars [unfolded numeral_2_eq_2])

lemma drop_concat_pairs: "\<forall>x \<in> set xs. length x = 2 \<Longrightarrow> drop (v * 2) (concat xs) = concat (drop v xs)"
proof (induction xs arbitrary: v)
  case (Cons x xs)
  then show ?case by (cases v) (simp_all add: drop_append)
qed simp

lemma digits2_digits:
  assumes "v < 100"
  shows "take 2 (digits2 v) = two_digits v"
proof -
  have "drop v (map two_digits [0..<100]) = two_digits v # drop (Suc v) (map two_digits [0..<100])"
    using assms Cons_nth_drop_Suc [of v "map two_digits [0..<100]"] by simp
  moreover have "drop (v * 2) (concat (map two_digits [0..<100])) = concat (drop v (map two_digits [0..<100]))"
    by (rule drop_concat_pairs) (auto simp: two_digits_def)
  ultimately show ?thesis by (simp add: digits2_def digits2_table_eq del: drop_map) (simp add: two_digits_def)
qed

lemma char_of_digit: "v < 10 \<Longrightarrow> char_of (48 + v) = digit_char v"
  by (simp add: digit_char_def)

lemma blit_prepend:
  "q = p + length a \<Longrightarrow> q + length b \<le> length dst \<Longrightarrow> blit p a (blit q b dst) = blit p (a @ b) dst"
  by (simp add: blit_def min_def add.assoc)

lemma dec_nat_pair:
  assumes "10 \<le> n"
  shows "dec_nat n = (if n < 100 then [] else dec_nat (n div 100)) @ two_digits (n mod 100)"
proof -
  have "n mod 100 div 10 = n div 10 mod 10" "n mod 100 mod 10 = n mod 10" by (simp_all add: mod_mult2_eq [of n 10 10, simplified] )
  then show ?thesis using assms
    by (auto simp: dec_nat_rec two_digits_def div_mult2_eq [of n 10 10, simplified, symmetric])
qed

lemma format_decimal_loop_text:
  "length (dec_nat v) \<le> out \<Longrightarrow> out \<le> length buf \<Longrightarrow>
   format_decimal_loop out v buf = (out - length (dec_nat v), blit (out - length (dec_nat v)) (dec_nat v) buf)"
proof (induction out v buf rule: format_decimal_loop.induct)
  case (1 out v buf)
  have two: "length (two_digits w) = 2" for w by (simp add: two_digits_def)
  consider "100 \<le> v" | "v < 10" | "10 \<le> v" "v < 100" by linarith
  then show ?case
  proof cases
    case v: 1
    have text': "dec_nat v = dec_nat (v div 100) @ two_digits (v mod 100)" using dec_nat_pair [of v] v by simp
    let ?buf = "blit (out - 2) (two_digits (v mod 100)) buf"
    have "format_decimal_loop (out - 2) (v div 100) ?buf =
        (out - 2 - length (dec_nat (v div 100)), blit (out - 2 - length (dec_nat (v div 100))) (dec_nat (v div 100)) ?buf)"
      using 1(1) [OF v] 1(2,3) v by (simp add: copy2_def digits2_digits text' two)
    moreover have "blit (out - 2 - length (dec_nat (v div 100))) (dec_nat (v div 100)) ?buf
        = blit (out - 2 - length (dec_nat (v div 100))) (dec_nat v) buf"
      unfolding text' using 1(2,3) by (intro blit_prepend) (simp_all add: text' two)
    ultimately show ?thesis using v by (simp add: format_decimal_loop.simps [of out v buf] copy2_def digits2_digits text' two)
  next
    case v: 2
    then show ?thesis using 1(2,3)
      by (simp add: format_decimal_loop.simps [of out v buf] dec_nat_rec char_of_digit blit_def upd_conv_take_nth_drop)
  next
    case v: 3
    then show ?thesis using 1(2,3) dec_nat_pair [of v]
      by (simp add: format_decimal_loop.simps [of out v buf] copy2_def digits2_digits two)
  qed
qed

lemma count_digits_exact:
  assumes "n < 2 ^ (if wide then 64 else 32)"
  shows "count_digits wide n = int (length (dec_nat n))"
  using assms by (cases wide) (simp_all add: count_digits_def do_count_digits_64_exact do_count_digits_32_exact unsigned_of_nat take_bit_nat_eq_self)

lemma length_dec_nat_wide: "n < 2 ^ (if wide then 64 else 32) \<Longrightarrow> length (dec_nat n) \<le> 20"
  using length_dec_nat [of n 19] by (cases wide) simp_all

lemma blit_push:
  assumes "0 < p" "p + length a \<le> length buf"
  shows "(blit p a buf)[p - 1 := x] = blit (p - 1) (x # a) buf"
proof -
  obtain q where q: "p = Suc q" using assms(1) by (cases p) auto
  then have "take p buf = take q buf @ [buf ! q]" using assms(2) by (simp add: take_Suc_conv_app_nth)
  then show ?thesis using q assms(2) by (simp add: blit_def list_update_append)
qed

lemma format_decimal_text:
  assumes "n < 2 ^ (if wide then 64 else 32)" "length (dec_nat n) \<le> room" "room \<le> length buf"
  shows "format_decimal wide buf n room = Some (room - length (dec_nat n), room, blit (room - length (dec_nat n)) (dec_nat n) buf)"
  using assms by (simp add: format_decimal_def count_digits_exact format_decimal_loop_text)

lemma format_unsigned_text:
  assumes "n < 2 ^ (if wide then 64 else 32)" "length buf = format_int_buffer_size"
  shows "format_unsigned wide n buf = Some (21 - length (dec_nat n), blit (21 - length (dec_nat n)) (dec_nat n) buf)"
proof -
  have "format_decimal wide buf n 21 = Some (21 - length (dec_nat n), 21, blit (21 - length (dec_nat n)) (dec_nat n) buf)"
    using length_dec_nat_wide [OF assms(1)] assms by (intro format_decimal_text) (simp_all add: format_int_buffer_size_def)
  then show ?thesis using assms(1) by (simp add: format_unsigned_def format_int_buffer_size_def)
qed

text \<open>The buffer of \<open>format_int\<close> holds every value of its types with its sign.\<close>

lemma format_int_exact:
  assumes "- (2 ^ (if wide then 63 else 31)) \<le> v" "v < 2 ^ (if wide then 64 else 32)" "length buf = format_int_buffer_size"
  shows "format_int wide v buf = Some (dec_int v)"
proof (cases "v < 0")
  case True
  define n where "n = nat (- v)"
  have n: "n < 2 ^ (if wide then 64 else 32)" using assms(1) True by (cases wide) (simp_all add: n_def)
  let ?w = "if wide then 64 else 32 :: nat"
  have abs: "nat ((0 - int (nat (v mod 2 ^ ?w))) mod 2 ^ ?w) = n"
  proof -
    have "(0 - v mod 2 ^ ?w) mod 2 ^ ?w = - v mod 2 ^ ?w" by (simp add: mod_minus_eq)
    also have "\<dots> = - v" using True assms(1) by (cases wide) (simp_all add: mod_pos_pos_trivial)
    finally show ?thesis by (simp add: n_def)
  qed
  let ?p = "21 - length (dec_nat n)"
  have p: "length (dec_nat n) \<le> 20" by (rule length_dec_nat_wide [OF n])
  have "format_signed wide v buf = Some (?p - 1, (blit ?p (dec_nat n) buf)[?p - 1 := CHR ''-''])"
    using True n assms(3) by (simp add: format_signed_def Let_def abs [simplified] format_unsigned_text)
  moreover have "(blit ?p (dec_nat n) buf)[?p - 1 := CHR ''-''] = blit (?p - 1) (CHR ''-'' # dec_nat n) buf"
    using p assms(3) by (intro blit_push) (simp_all add: format_int_buffer_size_def)
  moreover have "segment (?p - 1) (21 - (?p - 1)) (blit (?p - 1) (CHR ''-'' # dec_nat n) buf) = CHR ''-'' # dec_nat n"
    using segment_blit_same [of "?p - 1" "CHR ''-'' # dec_nat n" buf] p assms(3) by (simp add: format_int_buffer_size_def)
  ultimately show ?thesis using True by (simp add: format_int_def format_int_buffer_size_def dec_int_def n_def)
next
  case False
  define n where "n = nat v"
  have n: "n < 2 ^ (if wide then 64 else 32)" using assms(2) False by (cases wide) (simp_all add: n_def nat_less_iff)
  let ?p = "21 - length (dec_nat n)"
  have p: "length (dec_nat n) \<le> 20" by (rule length_dec_nat_wide [OF n])
  have "nat (v mod 2 ^ (if wide then 64 else 32)) = n" using False assms(2) by (simp add: n_def)
  then have "format_signed wide v buf = Some (?p, blit ?p (dec_nat n) buf)"
    using False n assms(3) by (simp add: format_signed_def Let_def format_unsigned_text)
  moreover have "segment ?p (21 - ?p) (blit ?p (dec_nat n) buf) = dec_nat n"
    using segment_blit_same [of ?p "dec_nat n" buf] p assms(3) by (simp add: format_int_buffer_size_def)
  ultimately show ?thesis using False by (simp add: format_int_def format_int_buffer_size_def dec_int_def n_def)
qed

lemma write_dec_nat:
  assumes "n < 2 ^ (if wide then 64 else 32)"
  shows "write_dec wide (n, prefix) specs = Some (write_int (length (dec_nat n)) prefix specs (dec_nat n))"
proof -
  have "format_decimal wide (replicate (length (dec_nat n)) (CHR 0x00)) n (length (dec_nat n))
      = Some (0, length (dec_nat n), dec_nat n)"
    using format_decimal_text [OF assms, of "length (dec_nat n)" "replicate (length (dec_nat n)) (CHR 0x00)"] by (simp add: blit_def)
  then show ?thesis unfolding write_dec_def Let_def by (simp add: count_digits_exact [OF assms])
qed

lemma make_write_int_arg_abs:
  assumes "- (2 ^ (if wide then 63 else 31)) \<le> v" "v < 2 ^ (if wide then 64 else 32)"
  shows "make_write_int_arg wide v s =
    (nat \<bar>v\<bar>, if v < 0 then ''-'' else case s of Sign_plus \<Rightarrow> ''+'' | Sign_space \<Rightarrow> '' '' | _ \<Rightarrow> [])"
  using assms by (cases wide) (auto simp: make_write_int_arg_def)

lemma write_dec_text:
  assumes "- (2 ^ (if wide then 63 else 31)) \<le> v" "v < 2 ^ (if wide then 64 else 32)"
  shows "write_dec wide (make_write_int_arg wide v s) specs =
    Some (write_int (length (dec_nat (nat \<bar>v\<bar>))) (snd (make_write_int_arg wide v s)) specs (dec_nat (nat \<bar>v\<bar>)))"
proof -
  have "nat \<bar>v\<bar> < 2 ^ (if wide then 64 else 32)" using assms by (cases wide) (simp_all add: nat_less_iff)
  then show ?thesis unfolding make_write_int_arg_abs [OF assms] by (simp add: write_dec_nat)
qed

text \<open>The format \<^verbatim>\<open>{:02}\<close> of an \<^verbatim>\<open>int\<close>.\<close>

definition fmt_02 :: "int \<Rightarrow> string option" where
  "fmt_02 v = write_dec False (make_write_int_arg False v Sign_none) (format_specs_new\<lparr>sp_width := 2, sp_align := Align_numeric, sp_fill := ''0''\<rparr>)"

lemma fmt_02_exact:
  assumes "- (2 ^ 31) \<le> v" "v < 2 ^ 31"
  shows "fmt_02 v = Some (if 0 \<le> v \<and> v < 10 then CHR ''0'' # dec_int v else dec_int v)"
proof -
  have two: "2 \<le> length (dec_nat m)" if "10 \<le> m" for m
    using that dec_nat_head(2) [of "m div 10"] by (cases "dec_nat (m div 10)") (simp_all add: dec_nat_rec)
  have one: "1 \<le> length (dec_nat m)" for m using dec_nat_head(2) [of m] by (cases "dec_nat m") simp_all
  consider "v < 0" | "0 \<le> v" "v < 10" | "10 \<le> v" by linarith
  then show ?thesis
  proof cases
    case 1
    then show ?thesis using assms one [of "nat (- v)"] dec_nat_head(2) [of "nat (- v)"]
      by (simp add: fmt_02_def write_dec_nat nat_less_iff make_write_int_arg_abs write_int_def format_specs_new_def write_int_data_def write_padded_def fill_def dec_int_def Let_def shifts_def)
  next
    case 2
    then have "length (dec_nat (nat v)) = 1" by (simp add: length_dec_nat_small)
    with 2 show ?thesis using assms
      by (simp add: fmt_02_def write_dec_nat nat_less_iff make_write_int_arg_abs write_int_def format_specs_new_def write_int_data_def write_padded_def fill_def dec_int_def Let_def shifts_def)
  next
    case 3
    then have "2 \<le> length (dec_nat (nat v))" by (intro two) simp
    with 3 show ?thesis using assms
      by (simp add: fmt_02_def write_dec_nat nat_less_iff make_write_int_arg_abs write_int_def format_specs_new_def write_int_data_def write_padded_def fill_def dec_int_def Let_def shifts_def)
  qed
qed

text \<open>C38: The three digit counters of fmt -- by the position of the highest bit and a table for each of
  the two widths, and by a loop -- count the digits of the decimal text, and \<open>format_int\<close>, which writes
  pairs of digits from the end of a buffer of 22 characters, gives that text for every value of its
  signed and unsigned argument types, whatever the buffer held.\<close>

theorem decimal_text_exact:
  assumes "- (2 ^ (if wide then 63 else 31)) \<le> v" and "v < 2 ^ (if wide then 64 else 32)"
    and "length buffer = format_int_buffer_size"
  shows "format_int wide v buffer = Some (dec_int v)
    \<and> (0 \<le> v \<longrightarrow> count_digits wide (nat v) = int (length (dec_int v)) \<and> count_digits_fallback (nat v) = length (dec_int v))"
proof -
  have "nat v < 2 ^ (if wide then 64 else 32)" if "0 \<le> v"
    using assms(2) that by (cases wide) (simp_all add: nat_less_iff)
  then show ?thesis
    using format_int_exact [OF assms] by (simp add: dec_int_def count_digits_exact count_digits_fallback_exact)
qed

theorem decimal_text_exact_witness:
  "format_int False (- 2147483648) (replicate 22 (CHR ''?'')) = Some (dec_int (- 2147483648))
   \<and> count_digits True 18446744073709551615 = int (length (dec_int 18446744073709551615))"
  using decimal_text_exact [of False "- 2147483648" "replicate 22 (CHR ''?'')"]
    decimal_text_exact [of True 18446744073709551615 "replicate 22 (CHR ''?'')"]
  by (simp add: format_int_buffer_size_def)

end
