(* ===== verification/Log_Pattern.thy ===== *)
theory Log_Pattern
  imports Log_Files Byte_Buffer Fmt_Write
begin

text \<open>
  The layout of a log line: \<open>pattern_formatter\<close> and its flags, from
  \<^verbatim>\<open>src/deps/spdlog/include/spdlog/pattern_formatter-inl.h\<close>, and the helpers of
  \<^verbatim>\<open>details/fmt_helper.h\<close>. A pattern such as \<^verbatim>\<open>[%Y-%m-%d %H:%M:%S.%e] [%l] %v\<close> is compiled to
  a list of formatters, one for each class of the source; some of them keep state from one message
  to the next. The line under construction is a string with the colour range of the message. \<open>None\<close>
  is \<^verbatim>\<open>std::terminate\<close>, when a destructor resizes the buffer to a negative size.
  Time points are nanoseconds since the epoch. Custom flags are not modelled, as \<^verbatim>\<open>Log.cpp\<close> adds none.
\<close>

section \<open>Messages and the system\<close>

record source_loc =
  src_filename :: string
  src_line :: int
  src_funcname :: string

definition src_empty :: "source_loc \<Rightarrow> bool" where
  "src_empty s \<longleftrightarrow> src_line s = 0"

text \<open>\<open>log_msg\<close>, without the colour range, which is kept with the line.\<close>

record log_msg =
  msg_logger_name :: string
  msg_level :: nat
  msg_time :: int
  msg_thread_id :: nat
  msg_source :: source_loc
  msg_payload :: string

definition level_string_views :: "string list" where
  "level_string_views = [''trace'', ''debug'', ''info'', ''warning'', ''error'', ''critical'', ''off'']"

definition short_level_names :: "string list" where
  "short_level_names = [''T'', ''D'', ''I'', ''W'', ''E'', ''C'', ''O'']"

definition to_string_view :: "nat \<Rightarrow> string" where
  "to_string_view l = level_string_views ! l"

definition to_short_c_str :: "nat \<Rightarrow> string" where
  "to_short_c_str l = short_level_names ! l"

text \<open>The broken-down time of the C library, with the offset from UTC in seconds.\<close>

record local_tm = tm +
  tm_gmtoff :: int

definition local_tm_zero :: local_tm where
  "local_tm_zero =
     \<lparr>tm_sec = 0, tm_min = 0, tm_hour = 0, tm_mday = 0, tm_mon = 0, tm_year = 0, tm_wday = 0, tm_yday = 0,
      tm_isdst = 0, tm_gmtoff = 0\<rparr>"

text \<open>What the log asks the system: the conversions of a \<^verbatim>\<open>time_t\<close> and the process id.\<close>

record log_env =
  le_localtime :: "int \<Rightarrow> local_tm"
  le_gmtime :: "int \<Rightarrow> local_tm"
  le_pid :: int

definition utc_minutes_offset :: "local_tm \<Rightarrow> int" where
  "utc_minutes_offset t = int_wrap 32 (cdiv (tm_gmtoff t) 60)"

text \<open>\<^verbatim>\<open>duration_cast\<close> of nanoseconds to a coarser unit, \<open>unit\<close> nanoseconds long.\<close>

definition duration_cast :: "int \<Rightarrow> int \<Rightarrow> int" where
  "duration_cast unit t = cdiv t unit"

abbreviation one_second :: int where "one_second \<equiv> 1000000000"
abbreviation one_milli :: int where "one_milli \<equiv> 1000000"
abbreviation one_micro :: int where "one_micro \<equiv> 1000"

text \<open>\<open>time_fraction\<close>: \<open>duration_cast\<close> of the seconds back to the unit multiplies.\<close>

definition time_fraction :: "int \<Rightarrow> int \<Rightarrow> int" where
  "time_fraction unit t = duration_cast unit t - duration_cast one_second t * (one_second div unit)"

section \<open>fmt_helper\<close>

text \<open>An appender maps the buffer to the extended buffer; \<open>in_order\<close> performs several.\<close>

type_synonym appender = "string \<Rightarrow> string"

primrec in_order :: "appender list \<Rightarrow> appender" where
  "in_order [] dest = dest"
| "in_order (f # fs) dest = in_order fs (f dest)"

definition push_back :: "char \<Rightarrow> appender" where
  "push_back c dest = dest @ [c]"

definition append_string_view :: "string \<Rightarrow> appender" where
  "append_string_view view dest = dest @ view"

text \<open>The text of a formatting that does not throw.\<close>

definition formatted :: "string option \<Rightarrow> string" where
  "formatted r = (case r of None \<Rightarrow> [] | Some s \<Rightarrow> s)"

text \<open>\<open>wide\<close> tells whether the argument has 64 bits or 32.\<close>

definition append_int :: "bool \<Rightarrow> int \<Rightarrow> appender" where
  "append_int wide n dest =
     append_string_view (formatted (format_int wide n (replicate format_int_buffer_size (CHR 0x00)))) dest"

definition fmt_count_digits :: "bool \<Rightarrow> int \<Rightarrow> nat" where
  "fmt_count_digits wide n = nat (count_digits wide (nat (n mod 2 ^ (if wide then 64 else 32))))"

definition pad2 :: "int \<Rightarrow> appender" where
  "pad2 n dest =
     (if n \<ge> 0 \<and> n < 100
      then in_order [push_back (char_of (nat (48 + n div 10))), push_back (char_of (nat (48 + n mod 10)))] dest
      else append_string_view (formatted (fmt_02 n)) dest)"

definition pad_uint :: "int \<Rightarrow> nat \<Rightarrow> appender" where
  "pad_uint n width dest =
     append_int True n (append_string_view (replicate (width - fmt_count_digits True n) (CHR ''0'')) dest)"

definition pad3 :: "int \<Rightarrow> appender" where
  "pad3 n dest =
     (if n < 1000
      then in_order [push_back (char_of (nat (n div 100 + 48))), push_back (char_of (nat (n mod 100 div 10 + 48))),
             push_back (char_of (nat (n mod 100 mod 10 + 48)))] dest
      else append_int False n dest)"

definition pad6 :: "int \<Rightarrow> appender" where
  "pad6 n = pad_uint n 6"

definition pad9 :: "int \<Rightarrow> appender" where
  "pad9 n = pad_uint n 9"

section \<open>Padding\<close>

datatype pad_side = Side_left | Side_right | Side_center

record padding_info =
  pad_width :: nat
  pad_side :: pad_side
  pad_truncate :: bool
  pad_enabled :: bool

definition padding_info_new :: padding_info where
  "padding_info_new = \<lparr>pad_width = 0, pad_side = Side_left, pad_truncate = False, pad_enabled = False\<rparr>"

definition pad_it :: "int \<Rightarrow> appender" where
  "pad_it n dest = append_string_view (replicate (nat n) (CHR '' '')) dest"

text \<open>The constructor and the destructor of \<open>scoped_padder\<close>, with \<open>remaining_pad_\<close>.\<close>

definition scoped_padder_begin :: "padding_info \<Rightarrow> nat \<Rightarrow> string \<Rightarrow> int \<times> string" where
  "scoped_padder_begin p wrapped_size dest =
     (let remaining_pad = int (pad_width p) - int wrapped_size in
      if remaining_pad \<le> 0 then (remaining_pad, dest)
      else
        (case pad_side p of
           Side_left \<Rightarrow> (0, pad_it remaining_pad dest)
         | Side_center \<Rightarrow>
             (let half_pad = remaining_pad div 2; reminder = remaining_pad mod 2
              in (half_pad + reminder, pad_it half_pad dest))
         | Side_right \<Rightarrow> (remaining_pad, dest)))"

definition scoped_padder_end :: "padding_info \<Rightarrow> int \<Rightarrow> string \<Rightarrow> string option" where
  "scoped_padder_end p remaining_pad dest =
     (if remaining_pad \<ge> 0 then Some (pad_it remaining_pad dest)
      else if pad_truncate p then
        (let new_size = int (length dest) + remaining_pad in
         if new_size < 0 then None else Some (take (nat new_size) dest))
      else Some dest)"

text \<open>The body of a formatter between a padder's constructor and destructor. The template argument is
  \<open>scoped_padder\<close> when the padding is enabled and \<open>null_scoped_padder\<close> when it is not.\<close>

definition padded :: "padding_info \<Rightarrow> nat \<Rightarrow> appender \<Rightarrow> string \<Rightarrow> string option" where
  "padded p wrapped_size body dest =
     (if pad_enabled p
      then (case scoped_padder_begin p wrapped_size dest of (remaining_pad, dest) \<Rightarrow> scoped_padder_end p remaining_pad (body dest))
      else Some (body dest))"

text \<open>The static \<open>count_digits\<close> of the padder.\<close>

definition padder_count_digits :: "padding_info \<Rightarrow> bool \<Rightarrow> int \<Rightarrow> nat" where
  "padder_count_digits p wide n = (if pad_enabled p then fmt_count_digits wide n else 0)"

section \<open>The formatters\<close>

text \<open>The formatters without state: one operation for each class, from the padding, the message and
  the time, with the environment where it asks the system.\<close>

type_synonym flag_format = "padding_info \<Rightarrow> log_msg \<Rightarrow> local_tm \<Rightarrow> string \<Rightarrow> string option"

definition name_format :: flag_format where
  "name_format p msg t = padded p (length (msg_logger_name msg)) (append_string_view (msg_logger_name msg))"

definition level_format :: flag_format where
  "level_format p msg t =
     (let level_name = to_string_view (msg_level msg) in padded p (length level_name) (append_string_view level_name))"

definition short_level_format :: flag_format where
  "short_level_format p msg t =
     (let level_name = to_short_c_str (msg_level msg) in padded p (length level_name) (append_string_view level_name))"

definition ampm :: "local_tm \<Rightarrow> string" where
  "ampm t = (if tm_hour t \<ge> 12 then ''PM'' else ''AM'')"

definition to12h :: "local_tm \<Rightarrow> int" where
  "to12h t = (if tm_hour t > 12 then tm_hour t - 12 else tm_hour t)"

definition days :: "string list" where
  "days = [''Sun'', ''Mon'', ''Tue'', ''Wed'', ''Thu'', ''Fri'', ''Sat'']"

definition a_format :: flag_format where
  "a_format p msg t = (let v = days ! nat (tm_wday t) in padded p (length v) (append_string_view v))"

definition full_days :: "string list" where
  "full_days = [''Sunday'', ''Monday'', ''Tuesday'', ''Wednesday'', ''Thursday'', ''Friday'', ''Saturday'']"

definition A_format :: flag_format where
  "A_format p msg t = (let v = full_days ! nat (tm_wday t) in padded p (length v) (append_string_view v))"

definition months :: "string list" where
  "months = [''Jan'', ''Feb'', ''Mar'', ''Apr'', ''May'', ''Jun'', ''Jul'', ''Aug'', ''Sept'', ''Oct'', ''Nov'', ''Dec'']"

definition b_format :: flag_format where
  "b_format p msg t = (let v = months ! nat (tm_mon t) in padded p (length v) (append_string_view v))"

definition full_months :: "string list" where
  "full_months =
     [''January'', ''February'', ''March'', ''April'', ''May'', ''June'', ''July'', ''August'', ''September'',
      ''October'', ''November'', ''December'']"

definition B_format :: flag_format where
  "B_format p msg t = (let v = full_months ! nat (tm_mon t) in padded p (length v) (append_string_view v))"

definition c_format :: flag_format where
  "c_format p msg t = padded p 24 (in_order
     [append_string_view (days ! nat (tm_wday t)), push_back (CHR '' ''),
      append_string_view (months ! nat (tm_mon t)), push_back (CHR '' ''),
      append_int False (tm_mday t), push_back (CHR '' ''),
      pad2 (tm_hour t), push_back (CHR '':''), pad2 (tm_min t), push_back (CHR '':''), pad2 (tm_sec t), push_back (CHR '' ''),
      append_int False (tm_year t + 1900)])"

definition C_format :: flag_format where
  "C_format p msg t = padded p 2 (pad2 (crem (tm_year t) 100))"

definition D_format :: flag_format where
  "D_format p msg t = padded p 10 (in_order
     [pad2 (tm_mon t + 1), push_back (CHR ''/''), pad2 (tm_mday t), push_back (CHR ''/''), pad2 (crem (tm_year t) 100)])"

definition Y_format :: flag_format where
  "Y_format p msg t = padded p 4 (append_int False (tm_year t + 1900))"

definition m_format :: flag_format where
  "m_format p msg t = padded p 2 (pad2 (tm_mon t + 1))"

definition d_format :: flag_format where
  "d_format p msg t = padded p 2 (pad2 (tm_mday t))"

definition H_format :: flag_format where
  "H_format p msg t = padded p 2 (pad2 (tm_hour t))"

definition I_format :: flag_format where
  "I_format p msg t = padded p 2 (pad2 (to12h t))"

definition M_format :: flag_format where
  "M_format p msg t = padded p 2 (pad2 (tm_min t))"

definition S_format :: flag_format where
  "S_format p msg t = padded p 2 (pad2 (tm_sec t))"

text \<open>The fractions are cast to unsigned types.\<close>

definition e_format :: flag_format where
  "e_format p msg t = padded p 3 (pad3 (time_fraction one_milli (msg_time msg) mod 2 ^ 32))"

definition f_format :: flag_format where
  "f_format p msg t = padded p 6 (pad6 (time_fraction one_micro (msg_time msg) mod 2 ^ 64))"

definition F_format :: flag_format where
  "F_format p msg t = padded p 9 (pad9 (time_fraction 1 (msg_time msg) mod 2 ^ 64))"

definition E_format :: flag_format where
  "E_format p msg t = padded p 10 (append_int True (duration_cast one_second (msg_time msg)))"

definition p_format :: flag_format where
  "p_format p msg t = padded p 2 (append_string_view (ampm t))"

definition r_format :: flag_format where
  "r_format p msg t = padded p 11 (in_order
     [pad2 (to12h t), push_back (CHR '':''), pad2 (tm_min t), push_back (CHR '':''), pad2 (tm_sec t), push_back (CHR '' ''),
      append_string_view (ampm t)])"

definition R_format :: flag_format where
  "R_format p msg t = padded p 5 (in_order [pad2 (tm_hour t), push_back (CHR '':''), pad2 (tm_min t)])"

definition T_format :: flag_format where
  "T_format p msg t = padded p 8 (in_order
     [pad2 (tm_hour t), push_back (CHR '':''), pad2 (tm_min t), push_back (CHR '':''), pad2 (tm_sec t)])"

definition t_format :: flag_format where
  "t_format p msg t =
     padded p (padder_count_digits p True (int (msg_thread_id msg))) (append_int True (int (msg_thread_id msg)))"

definition pid_format :: "log_env \<Rightarrow> flag_format" where
  "pid_format env p msg t =
     (let pid = le_pid env mod 2 ^ 32 in padded p (padder_count_digits p False pid) (append_int False pid))"

definition v_format :: flag_format where
  "v_format p msg t = padded p (length (msg_payload msg)) (append_string_view (msg_payload msg))"

text \<open>The source location. The path separator is the one of the Unix build.\<close>

definition source_location_format :: flag_format where
  "source_location_format p msg t =
     (let src = msg_source msg in
      if src_empty src then padded p 0 (\<lambda>dest. dest)
      else
        (let text_size = (if pad_enabled p then length (src_filename src) + padder_count_digits p False (src_line src) + 1 else 0)
         in padded p text_size (in_order [append_string_view (src_filename src), push_back (CHR '':''), append_int False (src_line src)])))"

definition source_filename_format :: flag_format where
  "source_filename_format p msg t =
     (let src = msg_source msg in
      if src_empty src then padded p 0 (\<lambda>dest. dest)
      else
        (let text_size = (if pad_enabled p then length (src_filename src) else 0)
         in padded p text_size (append_string_view (src_filename src))))"

definition basename :: "string \<Rightarrow> string" where
  "basename filename = (case find_last_of (CHR ''/'') filename of Some rv \<Rightarrow> drop (rv + 1) filename | None \<Rightarrow> filename)"

definition short_filename_format :: flag_format where
  "short_filename_format p msg t =
     (let src = msg_source msg in
      if src_empty src then padded p 0 (\<lambda>dest. dest)
      else
        (let filename = basename (src_filename src);
             text_size = (if pad_enabled p then length filename else 0)
         in padded p text_size (append_string_view filename)))"

definition source_linenum_format :: flag_format where
  "source_linenum_format p msg t =
     (let src = msg_source msg in
      if src_empty src then padded p 0 (\<lambda>dest. dest)
      else padded p (padder_count_digits p False (src_line src)) (append_int False (src_line src)))"

definition source_funcname_format :: flag_format where
  "source_funcname_format p msg t =
     (let src = msg_source msg in
      if src_empty src then padded p 0 (\<lambda>dest. dest)
      else
        (let text_size = (if pad_enabled p then length (src_funcname src) else 0)
         in padded p text_size (append_string_view (src_funcname src))))"

text \<open>The formatters with state. \<open>z_formatter\<close> keeps the offset for ten seconds.\<close>

definition get_cached_offset :: "log_msg \<Rightarrow> local_tm \<Rightarrow> int \<times> int \<Rightarrow> int \<times> int" where
  "get_cached_offset msg t cache =
     (case cache of (last_update, offset_minutes) \<Rightarrow>
        if msg_time msg - last_update \<ge> 10 * one_second then (msg_time msg, utc_minutes_offset t)
        else (last_update, offset_minutes))"

definition z_output :: "int \<Rightarrow> appender" where
  "z_output total_minutes =
     (let is_negative = total_minutes < 0;
          minutes = (if is_negative then - total_minutes else total_minutes)
      in in_order [push_back (if is_negative then CHR ''-'' else CHR ''+''),
                   pad2 (cdiv minutes 60), push_back (CHR '':''), pad2 (crem minutes 60)])"

definition z_format :: "padding_info \<Rightarrow> log_msg \<Rightarrow> local_tm \<Rightarrow> int \<times> int \<Rightarrow> string \<Rightarrow> (int \<times> int) \<times> string option" where
  "z_format p msg t cache dest =
     (let cache = get_cached_offset msg t cache in (cache, padded p 6 (z_output (snd cache)) dest))"

text \<open>\<open>elapsed_formatter\<close> with its unit; the state is the time of the last message.\<close>

definition elapsed_format :: "int \<Rightarrow> padding_info \<Rightarrow> log_msg \<Rightarrow> int \<Rightarrow> string \<Rightarrow> int \<times> string option" where
  "elapsed_format unit p msg last_message_time dest =
     (let delta = max (msg_time msg - last_message_time) 0;
          delta_count = duration_cast unit delta mod 2 ^ 64;
          n_digits = padder_count_digits p True delta_count
      in (msg_time msg, padded p n_digits (append_int True delta_count) dest))"

text \<open>\<open>full_formatter\<close>: the cached date and time, and the rest of the line, which sets the colour range.\<close>

definition full_datetime :: "local_tm \<Rightarrow> string" where
  "full_datetime t = in_order
     [push_back (CHR ''[''), append_int False (tm_year t + 1900), push_back (CHR ''-''),
      pad2 (tm_mon t + 1), push_back (CHR ''-''), pad2 (tm_mday t), push_back (CHR '' ''),
      pad2 (tm_hour t), push_back (CHR '':''), pad2 (tm_min t), push_back (CHR '':''), pad2 (tm_sec t), push_back (CHR ''.'')] []"

definition full_cache :: "log_msg \<Rightarrow> local_tm \<Rightarrow> int \<times> string \<Rightarrow> int \<times> string" where
  "full_cache msg t cache =
     (case cache of (cache_timestamp, cached_datetime) \<Rightarrow>
        (let secs = duration_cast one_second (msg_time msg) in
         if cache_timestamp \<noteq> secs \<or> length cached_datetime = 0 then (secs, full_datetime t)
         else (cache_timestamp, cached_datetime)))"

record log_line =
  ln_dest :: string
  ln_color_start :: nat
  ln_color_end :: nat

definition full_output :: "string \<Rightarrow> log_msg \<Rightarrow> log_line \<Rightarrow> log_line" where
  "full_output cached_datetime msg ln =
     (let dest = in_order
            [append_string_view cached_datetime, pad3 (time_fraction one_milli (msg_time msg) mod 2 ^ 32),
             push_back (CHR '']''), push_back (CHR '' '')] (ln_dest ln);
          dest = (if length (msg_logger_name msg) > 0
                  then in_order [push_back (CHR ''[''), append_string_view (msg_logger_name msg), push_back (CHR '']''), push_back (CHR '' '')] dest
                  else dest);
          dest = push_back (CHR ''['') dest;
          color_start = length dest;
          dest = append_string_view (to_string_view (msg_level msg)) dest;
          color_end = length dest;
          dest = in_order [push_back (CHR '']''), push_back (CHR '' '')] dest;
          dest = (if \<not> src_empty (msg_source msg)
                  then in_order [push_back (CHR ''[''), append_string_view (basename (src_filename (msg_source msg))), push_back (CHR '':''),
                         append_int False (src_line (msg_source msg)), push_back (CHR '']''), push_back (CHR '' '')] dest
                  else dest)
      in \<lparr>ln_dest = append_string_view (msg_payload msg) dest, ln_color_start = color_start, ln_color_end = color_end\<rparr>)"

text \<open>The classes without state, and the formatters of a pattern.\<close>

datatype flag_class =
    name_formatter | level_formatter | short_level_formatter
  | a_formatter | A_formatter | b_formatter | B_formatter | c_formatter | C_formatter | D_formatter
  | Y_formatter | m_formatter | d_formatter | H_formatter | I_formatter | M_formatter | S_formatter
  | e_formatter | f_formatter | F_formatter | E_formatter | p_formatter | r_formatter | R_formatter | T_formatter
  | t_formatter | pid_formatter | v_formatter
  | source_location_formatter | short_filename_formatter | source_filename_formatter
  | source_linenum_formatter | source_funcname_formatter

fun flag_output :: "log_env \<Rightarrow> flag_class \<Rightarrow> flag_format" where
  "flag_output env name_formatter = name_format"
| "flag_output env level_formatter = level_format"
| "flag_output env short_level_formatter = short_level_format"
| "flag_output env a_formatter = a_format"
| "flag_output env A_formatter = A_format"
| "flag_output env b_formatter = b_format"
| "flag_output env B_formatter = B_format"
| "flag_output env c_formatter = c_format"
| "flag_output env C_formatter = C_format"
| "flag_output env D_formatter = D_format"
| "flag_output env Y_formatter = Y_format"
| "flag_output env m_formatter = m_format"
| "flag_output env d_formatter = d_format"
| "flag_output env H_formatter = H_format"
| "flag_output env I_formatter = I_format"
| "flag_output env M_formatter = M_format"
| "flag_output env S_formatter = S_format"
| "flag_output env e_formatter = e_format"
| "flag_output env f_formatter = f_format"
| "flag_output env F_formatter = F_format"
| "flag_output env E_formatter = E_format"
| "flag_output env p_formatter = p_format"
| "flag_output env r_formatter = r_format"
| "flag_output env R_formatter = R_format"
| "flag_output env T_formatter = T_format"
| "flag_output env t_formatter = t_format"
| "flag_output env pid_formatter = pid_format env"
| "flag_output env v_formatter = v_format"
| "flag_output env source_location_formatter = source_location_format"
| "flag_output env short_filename_formatter = short_filename_format"
| "flag_output env source_filename_formatter = source_filename_format"
| "flag_output env source_linenum_formatter = source_linenum_format"
| "flag_output env source_funcname_formatter = source_funcname_format"

datatype flag_formatter =
    Flag flag_class padding_info
  | Z_formatter padding_info "int \<times> int"
  | Elapsed_formatter int padding_info int
  | Ch_formatter char
  | Aggregate_formatter string
  | Color_start_formatter
  | Color_stop_formatter
  | Full_formatter "int \<times> string"

definition with_dest :: "log_line \<Rightarrow> string option \<Rightarrow> log_line option" where
  "with_dest ln r = map_option (\<lambda>dest. ln\<lparr>ln_dest := dest\<rparr>) r"

fun formatter_format :: "log_env \<Rightarrow> log_msg \<Rightarrow> local_tm \<Rightarrow> flag_formatter \<Rightarrow> log_line \<Rightarrow> flag_formatter \<times> log_line option" where
  "formatter_format env msg t (Flag c p) ln = (Flag c p, with_dest ln (flag_output env c p msg t (ln_dest ln)))"
| "formatter_format env msg t (Z_formatter p cache) ln =
     (case z_format p msg t cache (ln_dest ln) of (cache, r) \<Rightarrow> (Z_formatter p cache, with_dest ln r))"
| "formatter_format env msg t (Elapsed_formatter unit p last_message_time) ln =
     (case elapsed_format unit p msg last_message_time (ln_dest ln) of
        (last_message_time, r) \<Rightarrow> (Elapsed_formatter unit p last_message_time, with_dest ln r))"
| "formatter_format env msg t (Ch_formatter ch) ln = (Ch_formatter ch, with_dest ln (Some (push_back ch (ln_dest ln))))"
| "formatter_format env msg t (Aggregate_formatter str) ln =
     (Aggregate_formatter str, with_dest ln (Some (append_string_view str (ln_dest ln))))"
| "formatter_format env msg t Color_start_formatter ln = (Color_start_formatter, Some (ln\<lparr>ln_color_start := length (ln_dest ln)\<rparr>))"
| "formatter_format env msg t Color_stop_formatter ln = (Color_stop_formatter, Some (ln\<lparr>ln_color_end := length (ln_dest ln)\<rparr>))"
| "formatter_format env msg t (Full_formatter cache) ln =
     (let cache = full_cache msg t cache in (Full_formatter cache, Some (full_output (snd cache) msg ln)))"

section \<open>Compiling a pattern\<close>

definition isdigit :: "char \<Rightarrow> bool" where
  "isdigit c \<longleftrightarrow> 48 \<le> (of_char c :: nat) \<and> (of_char c :: nat) \<le> 57"

text \<open>The loop of \<open>handle_padspec_\<close> that reads the width, a \<^verbatim>\<open>size_t\<close>.\<close>

fun padspec_width :: "nat \<Rightarrow> string \<Rightarrow> nat \<times> string" where
  "padspec_width width [] = (width, [])"
| "padspec_width width (c # cs) =
     (if isdigit c then padspec_width (sz_add (sz_mul width 10) (of_char c - 48)) cs else (width, c # cs))"

text \<open>The iterator is the rest of the pattern.\<close>

definition handle_padspec :: "string \<Rightarrow> padding_info \<times> string" where
  "handle_padspec it =
     (if it = [] then (padding_info_new, it)
      else
        (let (side, it) =
               (if hd it = CHR ''-'' then (Side_right, tl it)
                else if hd it = CHR ''='' then (Side_center, tl it)
                else (Side_left, it))
         in if it = [] \<or> \<not> isdigit (hd it) then (padding_info_new, it)
            else
              (let (width, it) = padspec_width (of_char (hd it) - 48) (tl it);
                   (truncate', it) = (if it \<noteq> [] \<and> hd it = CHR ''!'' then (True, tl it) else (False, it))
               in (\<lparr>pad_width = min width 64, pad_side = side, pad_truncate = truncate', pad_enabled = True\<rparr>, it))))"

text \<open>\<open>handle_flag_\<close>: the formatters it appends and whether it sets \<open>need_localtime_\<close>. \<open>now\<close> is
  the time, which the elapsed formatters record.\<close>

definition handle_flag :: "int \<Rightarrow> char \<Rightarrow> padding_info \<Rightarrow> flag_formatter list \<times> bool" where
  "handle_flag now flag p =
     (if flag = CHR ''+'' then ([Full_formatter (0, [])], True)
      else if flag = CHR ''n'' then ([Flag name_formatter p], False)
      else if flag = CHR ''l'' then ([Flag level_formatter p], False)
      else if flag = CHR ''L'' then ([Flag short_level_formatter p], False)
      else if flag = CHR ''t'' then ([Flag t_formatter p], False)
      else if flag = CHR ''v'' then ([Flag v_formatter p], False)
      else if flag = CHR ''a'' then ([Flag a_formatter p], True)
      else if flag = CHR ''A'' then ([Flag A_formatter p], True)
      else if flag = CHR ''b'' \<or> flag = CHR ''h'' then ([Flag b_formatter p], True)
      else if flag = CHR ''B'' then ([Flag B_formatter p], True)
      else if flag = CHR ''c'' then ([Flag c_formatter p], True)
      else if flag = CHR ''C'' then ([Flag C_formatter p], True)
      else if flag = CHR ''Y'' then ([Flag Y_formatter p], True)
      else if flag = CHR ''D'' \<or> flag = CHR ''x'' then ([Flag D_formatter p], True)
      else if flag = CHR ''m'' then ([Flag m_formatter p], True)
      else if flag = CHR ''d'' then ([Flag d_formatter p], True)
      else if flag = CHR ''H'' then ([Flag H_formatter p], True)
      else if flag = CHR ''I'' then ([Flag I_formatter p], True)
      else if flag = CHR ''M'' then ([Flag M_formatter p], True)
      else if flag = CHR ''S'' then ([Flag S_formatter p], True)
      else if flag = CHR ''e'' then ([Flag e_formatter p], False)
      else if flag = CHR ''f'' then ([Flag f_formatter p], False)
      else if flag = CHR ''F'' then ([Flag F_formatter p], False)
      else if flag = CHR ''E'' then ([Flag E_formatter p], False)
      else if flag = CHR ''p'' then ([Flag p_formatter p], True)
      else if flag = CHR ''r'' then ([Flag r_formatter p], True)
      else if flag = CHR ''R'' then ([Flag R_formatter p], True)
      else if flag = CHR ''T'' \<or> flag = CHR ''X'' then ([Flag T_formatter p], True)
      else if flag = CHR ''z'' then ([Z_formatter p (0, 0)], True)
      else if flag = CHR ''P'' then ([Flag pid_formatter p], False)
      else if flag = CHR ''^'' then ([Color_start_formatter], False)
      else if flag = CHR ''$'' then ([Color_stop_formatter], False)
      else if flag = CHR ''@'' then ([Flag source_location_formatter p], False)
      else if flag = CHR ''s'' then ([Flag short_filename_formatter p], False)
      else if flag = CHR ''g'' then ([Flag source_filename_formatter p], False)
      else if flag = CHR ''#'' then ([Flag source_linenum_formatter p], False)
      else if flag = CHR ''!'' then ([Flag source_funcname_formatter p], False)
      else if flag = CHR ''%'' then ([Ch_formatter (CHR ''%'')], False)
      else if flag = CHR ''u'' then ([Elapsed_formatter 1 p now], False)
      else if flag = CHR ''i'' then ([Elapsed_formatter one_micro p now], False)
      else if flag = CHR ''o'' then ([Elapsed_formatter one_milli p now], False)
      else if flag = CHR ''O'' then ([Elapsed_formatter one_second p now], False)
      else if \<not> pad_truncate p then ([Aggregate_formatter [CHR ''%'', flag]], False)
      else ([Flag source_funcname_formatter (p\<lparr>pad_truncate := False\<rparr>), Aggregate_formatter [flag]], False))"

text \<open>The loop of \<open>compile_pattern_\<close>, with the characters collected so far, if any.\<close>

definition user_formatters :: "string option \<Rightarrow> flag_formatter list" where
  "user_formatters user_chars = (case user_chars of None \<Rightarrow> [] | Some str \<Rightarrow> [Aggregate_formatter str])"

lemma length_padspec_width: "length (snd (padspec_width w s)) \<le> length s"
  by (induction w s rule: padspec_width.induct) auto

lemma length_handle_padspec: "length (snd (handle_padspec it)) \<le> length it"
  using length_padspec_width [of "of_char (hd it) - 48" "tl it"] length_padspec_width [of "of_char (hd (tl it)) - 48" "tl (tl it)"]
  by (auto simp: handle_padspec_def Let_def split: prod.splits)

lemma handle_padspec_shorter: "(padding, flag # it) = handle_padspec cs \<Longrightarrow> length it < Suc (length cs)"
  using length_handle_padspec [of cs] by (cases "handle_padspec cs") auto

function compile_loop :: "int \<Rightarrow> string \<Rightarrow> string option \<Rightarrow> flag_formatter list \<times> bool" where
  "compile_loop now [] user_chars = (user_formatters user_chars, False)"
| "compile_loop now (c # cs) user_chars =
     (if c = CHR ''%'' then
        (case handle_padspec cs of
           (padding, []) \<Rightarrow> (user_formatters user_chars, False)
         | (padding, flag # it) \<Rightarrow>
             (case (handle_flag now flag padding, compile_loop now it None) of
                ((fs, need), (fs', need')) \<Rightarrow> (user_formatters user_chars @ fs @ fs', need \<or> need')))
      else compile_loop now cs (Some ((case user_chars of None \<Rightarrow> [] | Some str \<Rightarrow> str) @ [c])))"
  by pat_completeness auto
termination
  by (relation "measure (\<lambda>(now, s, u). length s)") (auto dest: handle_padspec_shorter)

definition compile_pattern :: "int \<Rightarrow> string \<Rightarrow> flag_formatter list \<times> bool" where
  "compile_pattern now pattern = compile_loop now pattern None"

section \<open>pattern_formatter\<close>

datatype pattern_time_type = Time_local | Time_utc

record pattern_formatter =
  pf_pattern :: string
  pf_eol :: string
  pf_time_type :: pattern_time_type
  pf_need_localtime :: bool
  pf_cached_tm :: local_tm
  pf_last_log_secs :: int
  pf_formatters :: "flag_formatter list"

definition default_eol :: string where
  "default_eol = [CHR 0x0A]"

definition pattern_formatter_new :: "int \<Rightarrow> string \<Rightarrow> pattern_time_type \<Rightarrow> string \<Rightarrow> pattern_formatter" where
  "pattern_formatter_new now pattern time_type eol =
     (case compile_pattern now pattern of
        (fs, need) \<Rightarrow>
          \<lparr>pf_pattern = pattern, pf_eol = eol, pf_time_type = time_type, pf_need_localtime = need,
           pf_cached_tm = local_tm_zero, pf_last_log_secs = 0, pf_formatters = fs\<rparr>)"

definition pattern_formatter_default :: "pattern_time_type \<Rightarrow> string \<Rightarrow> pattern_formatter" where
  "pattern_formatter_default time_type eol =
     \<lparr>pf_pattern = ''%+'', pf_eol = eol, pf_time_type = time_type, pf_need_localtime = True,
      pf_cached_tm = local_tm_zero, pf_last_log_secs = 0, pf_formatters = [Full_formatter (0, [])]\<rparr>"

definition pattern_formatter_clone :: "int \<Rightarrow> pattern_formatter \<Rightarrow> pattern_formatter" where
  "pattern_formatter_clone now pf = pattern_formatter_new now (pf_pattern pf) (pf_time_type pf) (pf_eol pf)"

definition pf_set_pattern :: "int \<Rightarrow> string \<Rightarrow> pattern_formatter \<Rightarrow> pattern_formatter" where
  "pf_set_pattern now pattern pf =
     (case compile_pattern now pattern of
        (fs, need) \<Rightarrow> pf\<lparr>pf_pattern := pattern, pf_need_localtime := need, pf_formatters := fs\<rparr>)"

text \<open>\<open>to_time_t\<close> truncates like \<open>duration_cast\<close>.\<close>

definition get_time :: "log_env \<Rightarrow> pattern_time_type \<Rightarrow> log_msg \<Rightarrow> local_tm" where
  "get_time env time_type msg =
     (if time_type = Time_local then le_localtime env (duration_cast one_second (msg_time msg))
      else le_gmtime env (duration_cast one_second (msg_time msg)))"

primrec format_all :: "log_env \<Rightarrow> log_msg \<Rightarrow> local_tm \<Rightarrow> flag_formatter list \<Rightarrow> log_line \<Rightarrow> flag_formatter list \<times> log_line option" where
  "format_all env msg t [] ln = ([], Some ln)"
| "format_all env msg t (f # fs) ln =
     (case formatter_format env msg t f ln of
        (f, None) \<Rightarrow> (f # fs, None)
      | (f, Some ln) \<Rightarrow> (case format_all env msg t fs ln of (fs, r) \<Rightarrow> (f # fs, r)))"

definition update_cached_tm :: "log_env \<Rightarrow> log_msg \<Rightarrow> pattern_formatter \<Rightarrow> pattern_formatter" where
  "update_cached_tm env msg pf =
     (if pf_need_localtime pf then
        (let secs = duration_cast one_second (msg_time msg) in
         if secs \<noteq> pf_last_log_secs pf
         then pf\<lparr>pf_cached_tm := get_time env (pf_time_type pf) msg, pf_last_log_secs := secs\<rparr>
         else pf)
      else pf)"

definition pf_format :: "log_env \<Rightarrow> log_msg \<Rightarrow> pattern_formatter \<Rightarrow> log_line \<Rightarrow> pattern_formatter \<times> log_line option" where
  "pf_format env msg pf ln =
     (let pf = update_cached_tm env msg pf in
      case format_all env msg (pf_cached_tm pf) (pf_formatters pf) ln of
        (fs, r) \<Rightarrow>
          (pf\<lparr>pf_formatters := fs\<rparr>, map_option (\<lambda>ln. ln\<lparr>ln_dest := append_string_view (pf_eol pf) (ln_dest ln)\<rparr>) r))"

end
