(* ===== verification/Log_Pattern_Proofs.thy ===== *)
theory Log_Pattern_Proofs
  imports Log_Pattern
begin

text \<open>
  What the formatters of theory \<open>Log_Pattern\<close> write: the texts of numbers and times, that the caches never show,
  that padding gives a field of the width asked for, and that patterns are compiled to what they say. The examples
  use a clock that stands at 2014-08-23 15:35:46.
\<close>

section \<open>Appending\<close>

text \<open>An appender adds the same text to every buffer.\<close>

definition appends :: "appender \<Rightarrow> bool" where
  "appends f \<longleftrightarrow> (\<exists>t. \<forall>dest. f dest = dest @ t)"

named_theorems appender \<open>the operations that append\<close>

lemma appendsI: "(\<And>dest. f dest = dest @ t) \<Longrightarrow> appends f"
  by (auto simp: appends_def)

lemma appendsD: "appends f \<Longrightarrow> f dest = dest @ f []"
  unfolding appends_def by (metis append_Nil)

lemma appends_push_back [appender]: "appends (push_back c)"
  by (rule appendsI) (rule push_back_def)

lemma appends_string_view [appender]: "appends (append_string_view s)"
  by (rule appendsI) (rule append_string_view_def)

lemma appends_in_order [appender]: "\<forall>f \<in> set fs. appends f \<Longrightarrow> appends (in_order fs)"
proof (induction fs)
  case Nil
  show ?case by (rule appendsI [of _ "[]"]) simp
next
  case (Cons f fs)
  then obtain t u where "\<forall>d. f d = d @ t" "\<forall>d. in_order fs d = d @ u" by (auto simp: appends_def)
  then show ?case by (intro appendsI [of _ "t @ u"]) simp
qed

lemma appends_append_int [appender]: "appends (append_int wide n)"
  by (rule appendsI) (simp add: append_int_def append_string_view_def)

lemma appends_if [appender]: "appends f \<Longrightarrow> appends g \<Longrightarrow> appends (if c then f else g)"
  by simp

lemma appends_pad2 [appender]: "appends (pad2 n)"
proof -
  have "pad2 n = (if n \<ge> 0 \<and> n < 100 then in_order [push_back (char_of (nat (48 + n div 10))), push_back (char_of (nat (48 + n mod 10)))]
      else append_string_view (formatted (fmt_02 n)))" by (rule ext) (auto simp: pad2_def)
  then show ?thesis by (simp add: appender)
qed

lemma appends_pad3 [appender]: "appends (pad3 n)"
proof -
  have "pad3 n = (if n < 1000 then in_order [push_back (char_of (nat (n div 100 + 48))), push_back (char_of (nat (n mod 100 div 10 + 48))),
      push_back (char_of (nat (n mod 100 mod 10 + 48)))] else append_int False n)" by (rule ext) (cases "n < 1000"; simp add: pad3_def)
  then show ?thesis by (simp add: appender)
qed

lemma appends_pad_uint [appender]: "appends (pad_uint n w)"
proof -
  have "pad_uint n w = in_order [append_string_view (replicate (w - fmt_count_digits True n) (CHR ''0'')), append_int True n]"
    by (simp add: fun_eq_iff pad_uint_def)
  then show ?thesis by (simp add: appender)
qed

lemma appends_id [appender]: "appends (\<lambda>dest. dest)"
  by (rule appendsI [of _ "[]"]) simp

section \<open>Texts\<close>

lemma append_int_text:
  assumes "- (2 ^ (if wide then 63 else 31)) \<le> n" "n < 2 ^ (if wide then 64 else 32)"
  shows "append_int wide n dest = dest @ dec_int n"
  using format_int_exact [OF assms, of "replicate format_int_buffer_size (CHR 0x00)"] by (simp add: append_int_def formatted_def append_string_view_def)

text \<open>Two and three digits.\<close>

definition two :: "int \<Rightarrow> string" where
  "two n = two_digits (nat n)"

definition three :: "int \<Rightarrow> string" where
  "three n = digit_char (nat (n div 100)) # two (n mod 100)"

lemma char_of_nat_digit: "0 \<le> n \<Longrightarrow> n < 10 \<Longrightarrow> char_of (nat (48 + n)) = digit_char (nat n)"
  by (simp add: digit_char_def nat_add_distrib)

lemma pad2_text: "0 \<le> n \<Longrightarrow> n < 100 \<Longrightarrow> pad2 n dest = dest @ two n"
  using char_of_nat_digit [of "n div 10"] char_of_nat_digit [of "n mod 10"]
  by (simp add: pad2_def push_back_def two_def two_digits_def nat_div_distrib nat_mod_distrib)

lemma pad3_text: "0 \<le> n \<Longrightarrow> n < 1000 \<Longrightarrow> pad3 n dest = dest @ three n"
  using char_of_nat_digit [of "n div 100"] char_of_nat_digit [of "n mod 100 div 10"] char_of_nat_digit [of "n mod 100 mod 10"]
  by (simp add: pad3_def push_back_def three_def two_def two_digits_def nat_div_distrib nat_mod_distrib add.commute)

lemma plain_padded: "padded padding_info_new n body dest = Some (body dest)"
  by (simp add: padded_def padding_info_new_def)

lemma plain_count: "padder_count_digits padding_info_new wide n = 0"
  by (simp add: padder_count_digits_def padding_info_new_def)

text \<open>The ranges of \<^verbatim>\<open>struct tm\<close>; the year is one whose number is an \<^verbatim>\<open>int\<close>.\<close>

definition tm_valid :: "local_tm \<Rightarrow> bool" where
  "tm_valid t \<longleftrightarrow> 0 \<le> tm_sec t \<and> tm_sec t \<le> 60 \<and> 0 \<le> tm_min t \<and> tm_min t < 60 \<and> 0 \<le> tm_hour t \<and> tm_hour t < 24
     \<and> 1 \<le> tm_mday t \<and> tm_mday t \<le> 31 \<and> 0 \<le> tm_mon t \<and> tm_mon t < 12 \<and> - (2 ^ 31) \<le> tm_year t + 1900 \<and> tm_year t + 1900 < 2 ^ 31"

lemma millis_range: "0 \<le> t \<Longrightarrow> time_fraction one_milli t = t div 1000000 mod 1000"
  by (simp add: time_fraction_def duration_cast_def cdiv_nonneg minus_div_mult_eq_mod [symmetric] zdiv_zmult2_eq [of 1000 t 1000000, simplified])

lemmas formatting = plain_padded plain_count with_dest_def append_string_view_def push_back_def

definition august :: local_tm where
  "august = \<lparr>tm_sec = 46, tm_min = 35, tm_hour = 15, tm_mday = 23, tm_mon = 7, tm_year = 114, tm_wday = 6, tm_yday = 234,
     tm_isdst = 0, tm_gmtoff = 0\<rparr>"

definition august_env :: log_env where
  "august_env = \<lparr>le_localtime = (\<lambda>_. august), le_gmtime = (\<lambda>_. august), le_pid = 1\<rparr>"

definition example_msg :: "int \<Rightarrow> log_msg" where
  "example_msg time =
     \<lparr>msg_logger_name = ''root'', msg_level = 2, msg_time = time, msg_thread_id = 7,
      msg_source = \<lparr>src_filename = ''src/Main.cpp'', src_line = 3, src_funcname = ''main''\<rparr>, msg_payload = ''started''\<rparr>"

section \<open>Caches\<close>

definition uses_time :: "flag_formatter \<Rightarrow> bool" where
  "uses_time f = (case f of
       Flag c _ \<Rightarrow> c \<in> {a_formatter, A_formatter, b_formatter, B_formatter, c_formatter, C_formatter, Y_formatter, D_formatter,
         m_formatter, d_formatter, H_formatter, I_formatter, M_formatter, S_formatter, p_formatter, r_formatter, R_formatter, T_formatter}
     | Z_formatter _ _ \<Rightarrow> True
     | Full_formatter _ \<Rightarrow> True
     | _ \<Rightarrow> False)"

text \<open>What \<open>handle_flag_\<close> and the constructor give a new formatter: the time is fetched when it is
  needed, the caches are empty.\<close>

definition new_formatters :: "int \<Rightarrow> flag_formatter list \<times> bool \<Rightarrow> bool" where
  "new_formatters now r \<longleftrightarrow>
     (snd r \<longleftrightarrow> (\<exists>f \<in> set (fst r). uses_time f))
     \<and> (\<forall>f \<in> set (fst r). case f of Z_formatter _ c \<Rightarrow> c = (0, 0) | Elapsed_formatter _ _ l \<Rightarrow> l = now | Full_formatter c \<Rightarrow> c = (0, []) | _ \<Rightarrow> True)"

lemma new_formatters_if: "new_formatters now x \<Longrightarrow> new_formatters now y \<Longrightarrow> new_formatters now (if c then x else y)"
  by simp

lemma new_formatters_handle_flag: "new_formatters now (handle_flag now flag p)"
  unfolding handle_flag_def by (intro new_formatters_if) (simp_all add: new_formatters_def uses_time_def)

lemma new_formatters_append:
  "new_formatters now (fs, a) \<Longrightarrow> new_formatters now (fs', b) \<Longrightarrow> new_formatters now (fs @ fs', a \<or> b)"
  by (auto simp: new_formatters_def)

lemma new_formatters_user: "new_formatters now (user_formatters u, False)"
  by (cases u) (simp_all add: new_formatters_def user_formatters_def uses_time_def)

lemma new_formatters_compile: "new_formatters now (compile_loop now s u)"
proof (induction now s u rule: compile_loop.induct)
  case (2 now c cs u)
  show ?case
  proof (cases "c = CHR ''%''")
    case True
    obtain p it where h: "handle_padspec cs = (p, it)" by (cases "handle_padspec cs")
    show ?thesis
    proof (cases it)
      case Nil
      then show ?thesis using True h by (simp add: new_formatters_user)
    next
      case (Cons flag it')
      obtain fs need fs' need' where r: "handle_flag now flag p = (fs, need)" "compile_loop now it' None = (fs', need')"
        by (metis surj_pair)
      have "new_formatters now (fs', need')" using 2(1) [OF True] h Cons r(2) by simp
      moreover have "new_formatters now (fs, need)" using new_formatters_handle_flag [of now flag p] r(1) by simp
      ultimately show ?thesis
        using True h Cons r new_formatters_append [OF new_formatters_user new_formatters_append, of now fs need fs' need' u]
        by simp
    qed
  qed (use 2 in simp)
qed (simp add: new_formatters_user)

text \<open>The line without any cache: \<open>prev\<close> is the time of the previous message.\<close>

fun direct_output :: "log_env \<Rightarrow> int \<Rightarrow> log_msg \<Rightarrow> local_tm \<Rightarrow> flag_formatter \<Rightarrow> log_line \<Rightarrow> log_line option" where
  "direct_output env prev msg t (Flag c p) ln = with_dest ln (flag_output env c p msg t (ln_dest ln))"
| "direct_output env prev msg t (Z_formatter p _) ln = with_dest ln (padded p 6 (z_output (utc_minutes_offset t)) (ln_dest ln))"
| "direct_output env prev msg t (Elapsed_formatter unit p _) ln = with_dest ln (snd (elapsed_format unit p msg prev (ln_dest ln)))"
| "direct_output env prev msg t (Ch_formatter ch) ln = Some (ln\<lparr>ln_dest := ln_dest ln @ [ch]\<rparr>)"
| "direct_output env prev msg t (Aggregate_formatter str) ln = Some (ln\<lparr>ln_dest := ln_dest ln @ str\<rparr>)"
| "direct_output env prev msg t Color_start_formatter ln = Some (ln\<lparr>ln_color_start := length (ln_dest ln)\<rparr>)"
| "direct_output env prev msg t Color_stop_formatter ln = Some (ln\<lparr>ln_color_end := length (ln_dest ln)\<rparr>)"
| "direct_output env prev msg t (Full_formatter _) ln = Some (full_output (full_datetime t) msg ln)"

primrec direct_all :: "log_env \<Rightarrow> int \<Rightarrow> log_msg \<Rightarrow> local_tm \<Rightarrow> flag_formatter list \<Rightarrow> log_line \<Rightarrow> log_line option" where
  "direct_all env prev msg t [] ln = Some ln"
| "direct_all env prev msg t (f # fs) ln = Option.bind (direct_output env prev msg t f ln) (direct_all env prev msg t fs)"

definition direct_line :: "log_env \<Rightarrow> int \<Rightarrow> pattern_time_type \<Rightarrow> string \<Rightarrow> flag_formatter list \<Rightarrow> log_msg \<Rightarrow> log_line \<Rightarrow> log_line option" where
  "direct_line env prev tt eol fs msg ln =
     map_option (\<lambda>ln. ln\<lparr>ln_dest := ln_dest ln @ eol\<rparr>) (direct_all env prev msg (get_time env tt msg) fs ln)"

text \<open>A run of the formatter over messages, each with an empty buffer; it ends with a termination.\<close>

definition empty_line :: log_line where
  "empty_line = \<lparr>ln_dest = [], ln_color_start = 0, ln_color_end = 0\<rparr>"

primrec pf_run :: "log_env \<Rightarrow> pattern_formatter \<Rightarrow> log_msg list \<Rightarrow> log_line option list" where
  "pf_run env pf [] = []"
| "pf_run env pf (m # ms) =
     (case pf_format env m pf empty_line of
        (_, None) \<Rightarrow> [None]
      | (pf, Some ln) \<Rightarrow> Some ln # pf_run env pf ms)"

primrec direct_run :: "log_env \<Rightarrow> int \<Rightarrow> pattern_time_type \<Rightarrow> string \<Rightarrow> flag_formatter list \<Rightarrow> log_msg list \<Rightarrow> log_line option list" where
  "direct_run env prev tt eol fs [] = []"
| "direct_run env prev tt eol fs (m # ms) =
     (case direct_line env prev tt eol fs m empty_line of
        None \<Rightarrow> [None]
      | Some ln \<Rightarrow> Some ln # direct_run env (msg_time m) tt eol fs ms)"

text \<open>The caches are right: the state of a formatter after messages, the last one at \<open>prev\<close>. The offset
  from UTC is \<open>off\<close>; \<open>same_formatter\<close> relates a formatter to the one that was compiled.\<close>

definition time_at :: "log_env \<Rightarrow> pattern_time_type \<Rightarrow> int \<Rightarrow> local_tm" where
  "time_at env tt secs = (if tt = Time_local then le_localtime env secs else le_gmtime env secs)"

fun cache_ok :: "log_env \<Rightarrow> pattern_time_type \<Rightarrow> int \<Rightarrow> int \<Rightarrow> flag_formatter \<Rightarrow> bool" where
  "cache_ok env tt off prev (Z_formatter p c) \<longleftrightarrow> c = (0, 0) \<or> snd c = off"
| "cache_ok env tt off prev (Elapsed_formatter u p l) \<longleftrightarrow> l = prev"
| "cache_ok env tt off prev (Full_formatter c) \<longleftrightarrow> snd c = [] \<or> snd c = full_datetime (time_at env tt (fst c))"
| "cache_ok env tt off prev _ \<longleftrightarrow> True"

fun same_formatter :: "flag_formatter \<Rightarrow> flag_formatter \<Rightarrow> bool" where
  "same_formatter (Z_formatter p _) (Z_formatter q _) \<longleftrightarrow> p = q"
| "same_formatter (Elapsed_formatter u p _) (Elapsed_formatter v q _) \<longleftrightarrow> u = v \<and> p = q"
| "same_formatter (Full_formatter _) (Full_formatter _) \<longleftrightarrow> True"
| "same_formatter f g \<longleftrightarrow> f = g"

definition offset_known :: "log_env \<Rightarrow> pattern_time_type \<Rightarrow> int \<Rightarrow> flag_formatter list \<Rightarrow> log_msg \<Rightarrow> bool" where
  "offset_known env tt off fs m \<longleftrightarrow>
     (\<forall>p c. Z_formatter p c \<in> set fs \<longrightarrow> 10 * one_second \<le> msg_time m \<and> utc_minutes_offset (get_time env tt m) = off)"

lemma get_time_at: "get_time env tt m = time_at env tt (duration_cast one_second (msg_time m))"
  by (simp add: get_time_def time_at_def)

lemma flag_output_time:
  "\<not> uses_time (Flag c p) \<Longrightarrow> flag_output env c p msg t = flag_output env c p msg t'"
  by (cases c) (simp_all add: uses_time_def fun_eq_iff name_format_def level_format_def short_level_format_def e_format_def f_format_def
      F_format_def E_format_def t_format_def pid_format_def v_format_def source_location_format_def short_filename_format_def
      source_filename_format_def source_linenum_format_def source_funcname_format_def)

lemma formatter_format_direct:
  assumes "cache_ok env tt off prev f" "uses_time f \<longrightarrow> t = get_time env tt msg" "same_formatter f g"
    and "offset_known env tt off [g] msg"
  shows "snd (formatter_format env msg t f ln) = direct_output env prev msg (get_time env tt msg) g ln
    \<and> cache_ok env tt off (msg_time msg) (fst (formatter_format env msg t f ln)) \<and> same_formatter (fst (formatter_format env msg t f ln)) g"
proof (cases f)
  case (Flag c p)
  then show ?thesis using assms flag_output_time [of c p env msg t "get_time env tt msg"]
    by (cases g) (auto simp: uses_time_def)
next
  case (Z_formatter p c)
  then obtain d where g: "g = Z_formatter p d" using assms(3) by (cases g) auto
  then have "utc_minutes_offset t = off" "10 * one_second \<le> msg_time msg" "t = get_time env tt msg"
    using assms(2,4) Z_formatter by (auto simp: offset_known_def uses_time_def)
  then show ?thesis using assms(1) Z_formatter g
    by (cases c) (auto simp: z_format_def get_cached_offset_def Let_def)
next
  case (Elapsed_formatter u p l)
  then show ?thesis using assms by (cases g) (auto simp: elapsed_format_def Let_def)
next
  case (Full_formatter c)
  then have t: "t = get_time env tt msg" using assms(2) by (simp add: uses_time_def)
  have "full_cache msg t c = (duration_cast one_second (msg_time msg), full_datetime (get_time env tt msg))"
    using assms(1) Full_formatter t by (cases c) (auto simp: full_cache_def Let_def get_time_at)
  then show ?thesis using assms(3) Full_formatter by (cases g) (auto simp: Let_def get_time_at)
qed (use assms in \<open>cases g; auto simp: with_dest_def push_back_def append_string_view_def\<close>)+

lemma format_all_direct:
  assumes "list_all2 same_formatter fs gs" "\<forall>f \<in> set fs. cache_ok env tt off prev f"
    and "(\<exists>f \<in> set fs. uses_time f) \<longrightarrow> t = get_time env tt msg" "offset_known env tt off gs msg"
  shows "snd (format_all env msg t fs ln) = direct_all env prev msg (get_time env tt msg) gs ln
    \<and> (snd (format_all env msg t fs ln) \<noteq> None \<longrightarrow>
        (\<forall>f \<in> set (fst (format_all env msg t fs ln)). cache_ok env tt off (msg_time msg) f)
        \<and> list_all2 same_formatter (fst (format_all env msg t fs ln)) gs)"
  using assms
proof (induction fs gs arbitrary: ln rule: list_all2_induct)
  case (Cons f fs g gs)
  have known: "offset_known env tt off [g] msg" "offset_known env tt off gs msg"
    using Cons.prems(3) by (auto simp: offset_known_def)
  obtain f' r where one: "formatter_format env msg t f ln = (f', r)" by (metis surj_pair)
  have f: "r = direct_output env prev msg (get_time env tt msg) g ln" "cache_ok env tt off (msg_time msg) f'" "same_formatter f' g"
    using formatter_format_direct [of env tt off prev f t msg g ln] Cons.hyps(1) Cons.prems(1,2) known(1) one by auto
  show ?case
  proof (cases r)
    case None
    then show ?thesis using one f(1) by simp
  next
    case (Some ln')
    obtain fs' r' where all: "format_all env msg t fs ln' = (fs', r')" by (metis surj_pair)
    have direct: "direct_output env prev msg (get_time env tt msg) g ln = Some ln'" using f(1) Some by simp
    have "snd (format_all env msg t fs ln') = direct_all env prev msg (get_time env tt msg) gs ln'
        \<and> (snd (format_all env msg t fs ln') \<noteq> None \<longrightarrow>
           (\<forall>f \<in> set (fst (format_all env msg t fs ln')). cache_ok env tt off (msg_time msg) f)
           \<and> list_all2 same_formatter (fst (format_all env msg t fs ln')) gs)"
      using Cons.prems(1,2) known(2) by (intro Cons.IH) simp_all
    then show ?thesis using f(2,3) by (simp add: one Some all direct)
  qed
qed simp

text \<open>The state of the whole formatter: \<open>gs\<close> is what the pattern was compiled to.\<close>

definition pf_ok :: "log_env \<Rightarrow> pattern_time_type \<Rightarrow> string \<Rightarrow> flag_formatter list \<Rightarrow> int \<Rightarrow> int \<Rightarrow> pattern_formatter \<Rightarrow> bool" where
  "pf_ok env tt eol gs off prev pf \<longleftrightarrow>
     pf_time_type pf = tt \<and> pf_eol pf = eol \<and> list_all2 same_formatter (pf_formatters pf) gs
     \<and> (\<forall>f \<in> set (pf_formatters pf). cache_ok env tt off prev f)
     \<and> (pf_need_localtime pf \<longleftrightarrow> (\<exists>g \<in> set gs. uses_time g))
     \<and> (pf_last_log_secs pf = 0 \<or> pf_cached_tm pf = time_at env tt (pf_last_log_secs pf))"

lemma same_formatter_uses: "same_formatter f g \<Longrightarrow> uses_time f \<longleftrightarrow> uses_time g"
  by (cases f; cases g) (auto simp: uses_time_def)

lemma uses_time_list: "list_all2 same_formatter fs gs \<Longrightarrow> (\<exists>f \<in> set fs. uses_time f) \<longleftrightarrow> (\<exists>g \<in> set gs. uses_time g)"
  by (induction rule: list_all2_induct) (auto simp: same_formatter_uses)

lemma pf_format_direct:
  assumes "pf_ok env tt eol gs off prev pf" "duration_cast one_second (msg_time m) \<noteq> 0" "offset_known env tt off gs m"
  shows "snd (pf_format env m pf ln) = direct_line env prev tt eol gs m ln"
    and "snd (pf_format env m pf ln) \<noteq> None \<Longrightarrow> pf_ok env tt eol gs off (msg_time m) (fst (pf_format env m pf ln))"
proof -
  let ?pf = "update_cached_tm env m pf"
  obtain fs r where all: "format_all env m (pf_cached_tm ?pf) (pf_formatters ?pf) ln = (fs, r)" by (metis surj_pair)
  have same: "pf_formatters ?pf = pf_formatters pf" "pf_time_type ?pf = pf_time_type pf" "pf_eol ?pf = pf_eol pf"
    "pf_need_localtime ?pf = pf_need_localtime pf" by (simp_all add: update_cached_tm_def Let_def)
  have tm: "pf_need_localtime pf \<longrightarrow> pf_cached_tm ?pf = get_time env tt m"
    using assms(1,2) by (auto simp: pf_ok_def update_cached_tm_def Let_def get_time_at)
  have last: "pf_last_log_secs ?pf = 0 \<or> pf_cached_tm ?pf = time_at env tt (pf_last_log_secs ?pf)"
    using assms(1) by (auto simp: pf_ok_def update_cached_tm_def Let_def get_time_at)
  have ok: "list_all2 same_formatter (pf_formatters pf) gs" "\<forall>f \<in> set (pf_formatters pf). cache_ok env tt off prev f"
    using assms(1) by (simp_all add: pf_ok_def)
  have need: "pf_need_localtime pf \<longleftrightarrow> (\<exists>f \<in> set (pf_formatters pf). uses_time f)"
    using assms(1) uses_time_list [OF ok(1)] by (simp add: pf_ok_def)
  have res: "r = direct_all env prev m (get_time env tt m) gs ln"
      "r \<noteq> None \<Longrightarrow> (\<forall>f \<in> set fs. cache_ok env tt off (msg_time m) f) \<and> list_all2 same_formatter fs gs"
    using format_all_direct [OF ok(1,2) _ assms(3), of "pf_cached_tm ?pf" ln] tm need all same(1) by auto
  have eol: "pf_eol pf = eol" using assms(1) by (simp add: pf_ok_def)
  then show "snd (pf_format env m pf ln) = direct_line env prev tt eol gs m ln"
    using all res(1) same(3) by (simp add: pf_format_def direct_line_def append_string_view_def)
  show "pf_ok env tt eol gs off (msg_time m) (fst (pf_format env m pf ln))" if "snd (pf_format env m pf ln) \<noteq> None"
    using that res(2) last assms(1) all same by (auto simp: pf_format_def pf_ok_def)
qed

lemma pf_run_direct:
  assumes "\<forall>m \<in> set ms. duration_cast one_second (msg_time m) \<noteq> 0 \<and> offset_known env tt off gs m"
  shows "pf_ok env tt eol gs off prev pf \<Longrightarrow> pf_run env pf ms = direct_run env prev tt eol gs ms"
  using assms
proof (induction ms arbitrary: pf prev)
  case (Cons m ms)
  obtain pf' r where one: "pf_format env m pf empty_line = (pf', r)" by (metis surj_pair)
  have r: "direct_line env prev tt eol gs m empty_line = r" "r \<noteq> None \<Longrightarrow> pf_ok env tt eol gs off (msg_time m) pf'"
    using pf_format_direct [of env tt eol gs off prev pf m empty_line] Cons.prems one by auto
  show ?case
  proof (cases r)
    case (Some ln)
    then show ?thesis using Cons.IH [OF r(2)] Cons.prems(2) by (simp add: one r(1))
  qed (simp add: one r(1))
qed simp

lemma same_formatter_refl: "same_formatter f f"
  by (cases f) auto

lemma pf_ok_new: "pf_ok env tt eol (fst (compile_pattern now pattern)) off now (pattern_formatter_new now pattern tt eol)"
proof -
  obtain fs need where c: "compile_pattern now pattern = (fs, need)" by (metis surj_pair)
  have new: "new_formatters now (fs, need)" using new_formatters_compile [of now pattern None] c by (simp add: compile_pattern_def)
  have "cache_ok env tt off now f" if "f \<in> set fs" for f
    using new that by (cases f) (auto simp: new_formatters_def)
  then show ?thesis using new
    by (auto simp: pf_ok_def pattern_formatter_new_def c new_formatters_def same_formatter_refl intro: list_all2_refl)
qed

text \<open>C26: The caches of the formatters are invisible: whatever the pattern, the lines of any messages are those
  of a renderer that converts the time of each message afresh, asks for the offset from UTC each time, and
  measures the elapsed time from the message before. It holds when no message falls in second 0 of the epoch,
  whose conversion is never made, and, for patterns with \<^verbatim>\<open>%z\<close>, when the offset does not change.\<close>

theorem caches_invisible:
  assumes "\<forall>m \<in> set ms. duration_cast one_second (msg_time m) \<noteq> 0"
    and "\<forall>m \<in> set ms. offset_known env tt off (fst (compile_pattern now pattern)) m"
  shows "pf_run env (pattern_formatter_new now pattern tt eol) ms = direct_run env now tt eol (fst (compile_pattern now pattern)) ms"
  using assms by (intro pf_run_direct [OF _ pf_ok_new]) blast

theorem caches_invisible_witness:
  "pf_run august_env (pattern_formatter_new 0 ''%z %u %+'' Time_local default_eol) [example_msg 20000000000, example_msg 20500000000]
   = direct_run august_env 0 Time_local default_eol (fst (compile_pattern 0 ''%z %u %+'')) [example_msg 20000000000, example_msg 20500000000]"
  by (intro caches_invisible [where off = 0]) (simp_all add: example_msg_def duration_cast_def cdiv_def offset_known_def get_time_def august_env_def august_def utc_minutes_offset_def int_wrap_32)

text \<open>The zeroed time of a new formatter passes for the conversion of second 0.\<close>

lemma second_zero_not_converted:
  "duration_cast one_second (msg_time m) = 0 \<Longrightarrow>
    pf_cached_tm (update_cached_tm env m (pattern_formatter_new now pattern tt eol)) = local_tm_zero"
  by (simp add: update_cached_tm_def pattern_formatter_new_def Let_def split: prod.split)

text \<open>A clock that was set back keeps the offset of \<^verbatim>\<open>%z\<close> for good, and the refresh comes late by up to ten seconds.\<close>

lemma offset_not_refreshed:
  "msg_time m < last_update + 10 * one_second \<Longrightarrow> get_cached_offset m t (last_update, off) = (last_update, off)"
  by (simp add: get_cached_offset_def)

section \<open>Widths\<close>

text \<open>A text in a field of given width.\<close>

definition spaces :: "nat \<Rightarrow> string" where
  "spaces n = replicate n (CHR '' '')"

definition justify :: "padding_info \<Rightarrow> string \<Rightarrow> string" where
  "justify p s =
     (let k = pad_width p - length s in
      if length s > pad_width p then (if pad_truncate p then take (pad_width p) s else s)
      else case pad_side p of
        Side_left \<Rightarrow> spaces k @ s
      | Side_right \<Rightarrow> s @ spaces k
      | Side_center \<Rightarrow> spaces (k div 2) @ s @ spaces (k - k div 2))"

lemma length_justify: "length (justify p s) = (if pad_truncate p \<or> length s \<le> pad_width p then pad_width p else length s)"
  by (auto simp: justify_def spaces_def Let_def split: pad_side.split)

lemma pad_it_spaces: "pad_it (int n) dest = dest @ spaces n" "pad_it 0 dest = dest"
  by (simp_all add: pad_it_def append_string_view_def spaces_def)

lemma padded_exact:
  assumes "appends body" "length (body []) = n" "pad_enabled p"
  shows "padded p n body dest = Some (dest @ justify p (body []))"
proof -
  define s where "s = body []"
  have body: "body d = d @ s" for d using appendsD [OF assms(1), of d] by (simp add: s_def)
  have n: "n = length s" using assms(2) by (simp add: s_def)
  show ?thesis
  proof (cases "pad_width p \<le> length s")
    case True
    then have "int (pad_width p) - int (length s) = - int (length s - pad_width p)" by simp
    then show ?thesis using True assms(3)
      by (auto simp: padded_def scoped_padder_begin_def scoped_padder_end_def n s_def [symmetric] body justify_def spaces_def Let_def
          pad_it_spaces nat_int_add split: pad_side.split)
  next
    case False
    then obtain k where k: "pad_width p = length s + k" "0 < k" by (metis add_diff_inverse_nat less_imp_le_nat not_le zero_less_diff)
    have half: "int k div 2 = int (k div 2)" "int (k div 2) + int k mod 2 = int (k - k div 2)" by presburger+
    have rest: "pad_it (int k - int (k div 2)) d = d @ spaces (k - k div 2)" for d
      using pad_it_spaces(1) [of "k - k div 2" d] by (simp add: of_nat_diff)
    show ?thesis using k assms(3)
      by (auto simp: rest padded_def scoped_padder_begin_def scoped_padder_end_def n s_def [symmetric] body justify_def Let_def
          pad_it_spaces half split: pad_side.split)
  qed
qed

lemma length_two: "length (two n) = 2"
  by (simp add: two_def two_digits_def)

lemma length_pad: "0 \<le> n \<Longrightarrow> n < 100 \<Longrightarrow> length (pad2 n []) = 2" "0 \<le> n \<Longrightarrow> n < 1000 \<Longrightarrow> length (pad3 n []) = 3"
  by (simp_all add: pad2_text pad3_text length_two three_def)

lemma fmt_count_digits_text:
  assumes "0 \<le> n" "n < 2 ^ (if wide then 64 else 32)"
  shows "fmt_count_digits wide n = length (dec_int n)"
proof -
  have "nat n < 2 ^ (if wide then 64 else 32)" using assms by (cases wide) (simp_all add: nat_less_iff)
  then show ?thesis using assms by (simp add: fmt_count_digits_def count_digits_exact dec_int_def)
qed

lemma length_append_int:
  "0 \<le> n \<Longrightarrow> n < 2 ^ (if wide then 64 else 32) \<Longrightarrow> length (append_int wide n []) = fmt_count_digits wide n"
  by (subst append_int_text) (simp_all add: fmt_count_digits_text le_trans [of _ 0])

lemma length_pad_uint:
  assumes "0 \<le> n" "n < 10 ^ Suc k" "Suc k \<le> 19"
  shows "length (pad_uint n (Suc k) []) = Suc k"
proof -
  have "n < 10 ^ 19" using assms(2,3) power_increasing [OF assms(3), of "10 :: int"] by simp
  then have n: "n < 2 ^ 64" by simp
  then have "fmt_count_digits True n = length (dec_int n)" "append_int True n d = d @ dec_int n" for d
    using assms(1) fmt_count_digits_text [of n True] append_int_text [of True n] by simp_all
  moreover have "length (dec_int n) \<le> Suc k"
    using assms(1,2) length_dec_nat [of "nat n" k] by (simp add: dec_int_def nat_less_iff)
  ultimately show ?thesis by (simp add: pad_uint_def append_string_view_def)
qed

definition exact_classes :: "flag_class list" where
  "exact_classes =
     [name_formatter, level_formatter, short_level_formatter, a_formatter, A_formatter, b_formatter, B_formatter, C_formatter,
      m_formatter, d_formatter, H_formatter, I_formatter, M_formatter, S_formatter, e_formatter, f_formatter, F_formatter,
      p_formatter, r_formatter, R_formatter, T_formatter, t_formatter, pid_formatter, v_formatter, source_location_formatter,
      short_filename_formatter, source_filename_formatter, source_linenum_formatter, source_funcname_formatter]"

text \<open>What a formatter writes is its text, justified by its padding.\<close>

definition justified :: "(padding_info \<Rightarrow> string \<Rightarrow> string option) \<Rightarrow> padding_info \<Rightarrow> bool" where
  "justified f p \<longleftrightarrow> (\<exists>s. \<forall>dest. f padding_info_new dest = Some (dest @ s) \<and> f p dest = Some (dest @ justify p s))"

lemma justified_padded:
  assumes "pad_enabled p" "appends body" "length (body []) = n p"
  shows "justified (\<lambda>p. padded p (n p) body) p"
  unfolding justified_def using assms appendsD [OF assms(2)]
  by (intro exI [of _ "body []"]) (metis padded_exact plain_padded)

definition msg_valid :: "log_msg \<Rightarrow> bool" where
  "msg_valid m \<longleftrightarrow> 0 \<le> msg_time m \<and> msg_thread_id m < 2 ^ 64 \<and> 0 \<le> src_line (msg_source m) \<and> src_line (msg_source m) < 2 ^ 31"

lemma fractions:
  assumes "0 \<le> t"
  shows "time_fraction one_milli t mod 2 ^ 32 = t div 1000000 mod 1000" "time_fraction one_micro t mod 2 ^ 64 = t div 1000 mod 1000000"
    "time_fraction 1 t mod 2 ^ 64 = t mod 1000000000"
proof -
  have "time_fraction one_micro t = t div 1000 mod 1000000"
    using assms by (simp add: time_fraction_def duration_cast_def cdiv_nonneg minus_div_mult_eq_mod [symmetric] zdiv_zmult2_eq [of 1000000 t 1000, simplified])
  then show "time_fraction one_micro t mod 2 ^ 64 = t div 1000 mod 1000000"
    by (simp add: mod_pos_pos_trivial order.strict_trans [OF pos_mod_bound])
  show "time_fraction one_milli t mod 2 ^ 32 = t div 1000000 mod 1000"
    unfolding millis_range [OF assms] by (simp add: mod_pos_pos_trivial order.strict_trans [OF pos_mod_bound])
  have "time_fraction 1 t = t mod 1000000000"
    using assms by (simp add: time_fraction_def duration_cast_def cdiv_nonneg minus_div_mult_eq_mod [symmetric])
  then show "time_fraction 1 t mod 2 ^ 64 = t mod 1000000000"
    by (simp add: mod_pos_pos_trivial order.strict_trans [OF pos_mod_bound])
qed

lemma appends_pad6: "appends (pad6 n)" "appends (pad9 n)"
  by (simp_all add: pad6_def pad9_def appender)

lemma justified_empty: "pad_enabled p \<Longrightarrow> justified (\<lambda>p. padded p 0 (\<lambda>dest. dest)) p"
  by (intro justified_padded) (simp_all add: appender)

lemma justified_if:
  assumes "c \<Longrightarrow> justified f p" "\<not> c \<Longrightarrow> justified g p"
  shows "justified (\<lambda>p. if c then f p else g p) p"
  using assms by (cases c) simp_all

lemmas format_defs = name_format_def level_format_def short_level_format_def a_format_def A_format_def b_format_def B_format_def
  C_format_def m_format_def d_format_def H_format_def I_format_def M_format_def S_format_def e_format_def f_format_def F_format_def
  p_format_def r_format_def R_format_def T_format_def t_format_def pid_format_def v_format_def source_location_format_def
  short_filename_format_def source_filename_format_def source_linenum_format_def source_funcname_format_def

lemma length_append_string_view [simp]: "length (append_string_view s d) = length d + length s"
  by (simp add: append_string_view_def)

lemma length_push_back [simp]: "length (push_back c d) = Suc (length d)"
  by (simp add: push_back_def)

lemma length_appends: "appends f \<Longrightarrow> length (f d) = length d + length (f [])"
  using appendsD [of f d] by simp

text \<open>C28: Padding does what it says: with padding a flag of these classes writes its text in a field of the given
  width, on the given side, cut to the width only if so asked; it adds nothing else to the line and never
  touches what is before it. The classes left out declare a size which is not always that of their text.\<close>

theorem padding_exact:
  assumes "c \<in> set exact_classes" and "pad_enabled p" and "tm_valid t" and "0 \<le> tm_year t" and "msg_valid m"
  shows "\<exists>s. \<forall>dest. flag_output env c padding_info_new m t dest = Some (dest @ s)
    \<and> flag_output env c p m t dest = Some (dest @ justify p s)
    \<and> length (justify p s) = (if pad_truncate p \<or> length s \<le> pad_width p then pad_width p else length s)"
proof -
  have m: "0 \<le> msg_time m" "0 \<le> int (msg_thread_id m)" "int (msg_thread_id m) < 2 ^ 64" "0 \<le> src_line (msg_source m)" "src_line (msg_source m) < 2 ^ 32"
    using assms(5) by (simp_all add: msg_valid_def)
  have t: "0 \<le> tm_sec t" "tm_sec t < 100" "0 \<le> tm_min t" "tm_min t < 100" "0 \<le> tm_hour t" "tm_hour t < 100" "0 \<le> tm_mday t" "tm_mday t < 100"
      "0 \<le> tm_mon t + 1" "tm_mon t + 1 < 100" "0 \<le> to12h t" "to12h t < 100" "0 \<le> crem (tm_year t) 100" "crem (tm_year t) 100 < 100"
    using assms(3,4) by (auto simp: tm_valid_def to12h_def crem_def cdiv_def minus_div_mult_eq_mod mult.commute)
  have text_length: "length (pad2 n d) = length d + 2" if "0 \<le> n" "n < 100" for n d
    using that length_appends [OF appends_pad2, of n d] length_pad(1) [of n] by simp
  have int_length: "length (append_int w n d) = length d + fmt_count_digits w n" if "0 \<le> n" "n < 2 ^ (if w then 64 else 32)" for w n d
    using that length_appends [OF appends_append_int, of w n d] length_append_int [of n w] by simp
  have ints: "length (append_int True (int (msg_thread_id m)) d) = length d + fmt_count_digits True (int (msg_thread_id m))"
    "length (append_int False (src_line (msg_source m)) d) = length d + fmt_count_digits False (src_line (msg_source m))" for d
    using m by (simp_all add: int_length)
  have fracs: "length (pad3 (x mod 1000) []) = 3" "length (pad6 (x mod 1000000) []) = 6" "length (pad9 (x mod 1000000000) []) = 9" for x
    using length_pad(2) [of "x mod 1000"] length_pad_uint [of "x mod 1000000" 5] length_pad_uint [of "x mod 1000000000" 8]
    by (simp_all add: pad6_def pad9_def)
  note j = justified_padded [OF assms(2)]
  have "justified (\<lambda>p. flag_output env c p m t) p"
    using assms(1) unfolding exact_classes_def
    by (simp only: list.set insert_iff empty_iff) (elim disjE; simp only: flag_output.simps format_defs Let_def fractions [OF m(1)]; (rule justified_if)?; (rule justified_empty [OF assms(2)] | rule j)?;
      simp add: appender text_length int_length ints fracs appends_pad6 padder_count_digits_def assms(2) t ampm_def)
  then show ?thesis unfolding justified_def by (metis length_justify)
qed

theorem padding_exact_witness:
  "\<exists>s. \<forall>dest. flag_output august_env T_formatter padding_info_new (example_msg 0) august dest = Some (dest @ s)
    \<and> flag_output august_env T_formatter \<lparr>pad_width = 5, pad_side = Side_left, pad_truncate = True, pad_enabled = True\<rparr> (example_msg 0) august dest
      = Some (dest @ justify \<lparr>pad_width = 5, pad_side = Side_left, pad_truncate = True, pad_enabled = True\<rparr> s)"
  using padding_exact [of T_formatter "\<lparr>pad_width = 5, pad_side = Side_left, pad_truncate = True, pad_enabled = True\<rparr>" august "example_msg 0" august_env]
  by (auto simp: exact_classes_def tm_valid_def august_def msg_valid_def example_msg_def)

text \<open>\<open>D_formatter\<close> declares ten characters for its eight: cut to one, the date removes itself and a character
  before it, and at the beginning of a line the program ends.\<close>

lemma short_date_truncation:
  fixes p :: padding_info
  defines "p \<equiv> \<lparr>pad_width = 1, pad_side = Side_left, pad_truncate = True, pad_enabled = True\<rparr>"
  shows "D_format p m august ''ab'' = Some ''a''" "D_format p m august [] = None"
  by (simp_all add: p_def D_format_def padded_def scoped_padder_begin_def scoped_padder_end_def push_back_def pad2_text two_def
      two_digits_def august_def crem_def cdiv_def)

text \<open>The twelve-hour clock has no hour 12 at midnight.\<close>

lemma midnight_hour: "tm_hour t = 0 \<Longrightarrow> I_format padding_info_new m t dest = Some (dest @ ''00'')"
  by (simp add: I_format_def plain_padded to12h_def pad2_text two_def two_digits_def digit_chars)

section \<open>Patterns are read back\<close>

text \<open>A pattern in its parts: literal text, or a flag with an optional width, side and truncation.\<close>

datatype piece = Literal string | Conversion "(nat \<times> pad_side \<times> bool) option" char

fun side_text :: "pad_side \<Rightarrow> string" where
  "side_text Side_left = []"
| "side_text Side_right = ''-''"
| "side_text Side_center = ''=''"

fun print_piece :: "piece \<Rightarrow> string" where
  "print_piece (Literal s) = s"
| "print_piece (Conversion None c) = [CHR ''%'', c]"
| "print_piece (Conversion (Some (w, side, trunc)) c) =
     CHR ''%'' # side_text side @ dec_nat w @ (if trunc then ''!'' else []) @ [c]"

fun piece_formatters :: "int \<Rightarrow> piece \<Rightarrow> flag_formatter list \<times> bool" where
  "piece_formatters now (Literal s) = ([Aggregate_formatter s], False)"
| "piece_formatters now (Conversion None c) = handle_flag now c padding_info_new"
| "piece_formatters now (Conversion (Some (w, side, trunc)) c) =
     handle_flag now c \<lparr>pad_width = min w 64, pad_side = side, pad_truncate = trunc, pad_enabled = True\<rparr>"

text \<open>What can be printed: no literal next to another one, and no flag that would be read as part of its padding.\<close>

fun piece_ok :: "piece \<Rightarrow> bool" where
  "piece_ok (Literal s) \<longleftrightarrow> s \<noteq> [] \<and> CHR ''%'' \<notin> set s"
| "piece_ok (Conversion None c) \<longleftrightarrow> \<not> isdigit c \<and> c \<noteq> CHR ''-'' \<and> c \<noteq> CHR ''=''"
| "piece_ok (Conversion (Some (w, side, trunc)) c) \<longleftrightarrow> \<not> isdigit c \<and> (c = CHR ''!'' \<longrightarrow> trunc) \<and> w < size_t_mod"

fun is_literal :: "piece \<Rightarrow> bool" where
  "is_literal (Literal s) \<longleftrightarrow> True"
| "is_literal _ \<longleftrightarrow> False"

fun pieces_ok :: "piece list \<Rightarrow> bool" where
  "pieces_ok [] \<longleftrightarrow> True"
| "pieces_ok [p] \<longleftrightarrow> piece_ok p"
| "pieces_ok (p # q # ps) \<longleftrightarrow> piece_ok p \<and> \<not> (is_literal p \<and> is_literal q) \<and> pieces_ok (q # ps)"

lemma isdigit_digit_char: "d < 10 \<Longrightarrow> isdigit (digit_char d)" "d < 10 \<Longrightarrow> of_char (digit_char d) = 48 + d"
  by (simp_all add: isdigit_def digit_char_def)

lemma padspec_width_digits:
  assumes "tail = [] \<or> \<not> isdigit (hd tail)"
  shows "\<forall>d \<in> set ds. d < 10 \<Longrightarrow> foldl (\<lambda>a d. a * 10 + d) w ds < size_t_mod \<Longrightarrow>
    padspec_width w (map digit_char ds @ tail) = (foldl (\<lambda>a d. a * 10 + d) w ds, tail)"
proof (induction ds arbitrary: w)
  case Nil
  then show ?case using assms by (cases tail) simp_all
next
  case (Cons d ds)
  have mono: "a \<le> foldl (\<lambda>a d. a * 10 + d) a ds" for a :: nat
  proof (induction ds arbitrary: a)
    case (Cons e es)
    have "a \<le> a * 10 + e" by simp
    also have "\<dots> \<le> foldl (\<lambda>a d. a * 10 + d) (a * 10 + e) es" by (rule Cons.IH)
    finally show ?case by simp
  qed simp
  have "w * 10 + d < size_t_mod" using mono [of "w * 10 + d"] Cons.prems(2) by simp
  then have "sz_add (sz_mul w 10) d = w * 10 + d" by (simp add: sz_mul_exact sz_add_exact)
  then show ?case using Cons isdigit_digit_char [of d] by simp
qed

lemma padspec_width_dec_nat:
  assumes "w < size_t_mod" "tail = [] \<or> \<not> isdigit (hd tail)"
  shows "\<exists>d ds. dec_nat w @ tail = digit_char d # ds \<and> d < 10 \<and> padspec_width d ds = (w, tail)"
proof -
  obtain ds where ds: "ds \<noteq> []" "dec_nat w = map digit_char ds" "\<forall>d \<in> set ds. d < 10" "digits_val 10 ds = w"
    using dec_nat_digits [of w] by blast
  then obtain d es where "ds = d # es" by (cases ds) auto
  then show ?thesis using ds padspec_width_digits [OF assms(2), of es d] assms(1)
    by (intro exI [of _ d] exI [of _ "map digit_char es @ tail"]) (simp add: digits_val_def)
qed

lemma handle_padspec_width:
  assumes "w < size_t_mod" "\<not> isdigit c" "c = CHR ''!'' \<longrightarrow> trunc"
  shows "handle_padspec (side_text side @ dec_nat w @ (if trunc then ''!'' else []) @ c # it)
    = (\<lparr>pad_width = min w 64, pad_side = side, pad_truncate = trunc, pad_enabled = True\<rparr>, c # it)"
proof -
  let ?tail = "(if trunc then ''!'' else []) @ c # it"
  have "\<not> isdigit (hd ?tail)" using assms(2) by (simp add: isdigit_def)
  then obtain d ds where d: "dec_nat w @ ?tail = digit_char d # ds" "d < 10" "padspec_width d ds = (w, ?tail)"
    using padspec_width_dec_nat [OF assms(1), of ?tail] by auto
  have "digit_char d \<noteq> CHR ''-''" "digit_char d \<noteq> CHR ''=''"
    using d(2) isdigit_digit_char(1) [of d] by (auto simp: isdigit_def)
  then show ?thesis using d assms(3) isdigit_digit_char [OF d(2)]
    by (cases side) (auto simp: handle_padspec_def)
qed

lemma compile_literal:
  "s \<noteq> [] \<Longrightarrow> CHR ''%'' \<notin> set s \<Longrightarrow>
   compile_loop now (s @ rest) u = compile_loop now rest (Some ((case u of None \<Rightarrow> [] | Some t \<Rightarrow> t) @ s))"
proof (induction s arbitrary: u)
  case (Cons c s)
  then show ?case by (cases s) auto
qed simp

lemma compile_conversion:
  assumes "piece_ok (Conversion spec c)"
  shows "compile_loop now (print_piece (Conversion spec c) @ rest) u =
    (user_formatters u @ fst (piece_formatters now (Conversion spec c)) @ fst (compile_loop now rest None),
     snd (piece_formatters now (Conversion spec c)) \<or> snd (compile_loop now rest None))"
proof -
  obtain p where p: "\<And>it. handle_padspec (tl (print_piece (Conversion spec c)) @ it) = (p, c # it)"
    "piece_formatters now (Conversion spec c) = handle_flag now c p"
  proof (cases spec)
    case None
    then show thesis using assms that [of padding_info_new] by (simp add: handle_padspec_def)
  next
    case (Some x)
    then obtain w side trunc where "spec = Some (w, side, trunc)" by (cases x) auto
    then show thesis using assms handle_padspec_width [of w c trunc side] that by simp
  qed
  have "print_piece (Conversion spec c) @ rest = CHR ''%'' # (tl (print_piece (Conversion spec c)) @ rest)"
    by (cases spec) auto
  then show ?thesis using p(1) [of rest] by (simp only: p(2) compile_loop.simps) (simp add: split_beta)
qed

lemma compile_pieces:
  "pieces_ok ps \<Longrightarrow> u = None \<or> ps = [] \<or> \<not> is_literal (hd ps) \<Longrightarrow>
   compile_loop now (concat (map print_piece ps)) u =
     (user_formatters u @ concat (map (\<lambda>p. fst (piece_formatters now p)) ps), \<exists>p \<in> set ps. snd (piece_formatters now p))"
proof (induction ps arbitrary: u)
  case (Cons p ps)
  have ok: "piece_ok p" "pieces_ok ps" "is_literal p \<Longrightarrow> ps = [] \<or> \<not> is_literal (hd ps)"
    using Cons.prems(1) by (cases ps; simp)+
  show ?case
  proof (cases p)
    case (Literal s)
    then have "u = None" using Cons.prems(2) by simp
    then show ?thesis using ok Literal Cons.IH [of "Some s"] by (simp add: compile_literal user_formatters_def)
  next
    case (Conversion spec c)
    then show ?thesis using ok Cons.IH [of None] compile_conversion [of spec c now "concat (map print_piece ps)" u]
      by (simp add: user_formatters_def)
  qed
qed simp

text \<open>C27: A pattern is read back as it was put together: the text of any literals and flags, with widths, sides
  and truncation, compiles to exactly the formatters of the parts in their order, with widths cut to 64, and the
  local time is fetched iff one of the parts needs it.\<close>

theorem pattern_roundtrip:
  assumes "pieces_ok ps"
  shows "compile_pattern now (concat (map print_piece ps)) =
    (concat (map (\<lambda>p. fst (piece_formatters now p)) ps), \<exists>p \<in> set ps. snd (piece_formatters now p))"
  using compile_pieces [OF assms, of None] by (simp add: compile_pattern_def user_formatters_def)

theorem pattern_roundtrip_witness:
  "compile_pattern 0 ''[%=100!l]%v'' =
    ([Aggregate_formatter ''['', Flag level_formatter \<lparr>pad_width = 64, pad_side = Side_center, pad_truncate = True, pad_enabled = True\<rparr>,
      Aggregate_formatter '']'', Flag v_formatter padding_info_new], False)"
  using pattern_roundtrip [of "[Literal ''['', Conversion (Some (100, Side_center, True)) (CHR ''l''), Literal '']'', Conversion None (CHR ''v'')]" 0]
  by (simp add: isdigit_def size_t_mod_def handle_flag_def dec_nat.simps digit_chars)

end
