(* ===== verification/Log_Output.thy ===== *)
theory Log_Output
  imports Log_Pattern
begin

text \<open>
  From a message to the console and the log files: the console sink \<open>ansicolor_sink\<close>, the rotating file sink
  with its formatter (\<open>base_sink\<close> and \<open>sink_it_\<close>), and \<open>spdlog::logger\<close>, which hands a message to its
  sinks, catches what they throw and flushes them after an error. Every sink owns its formatter; the console
  is the text written to it. \<open>None\<close> is \<^verbatim>\<open>std::terminate\<close>, as in \<open>Log_Pattern\<close>. The loggers of the
  program have no backtrace and their sinks are used by one logger each.
\<close>

section \<open>The terminal\<close>

datatype color_mode = Mode_always | Mode_automatic | Mode_never

text \<open>What is known of the terminal: \<^verbatim>\<open>isatty\<close> and the two variables of the environment.\<close>

record terminal =
  term_isatty :: bool
  term_COLORTERM :: "string option"
  term_TERM :: "string option"

definition color_terms :: "string list" where
  "color_terms =
     [''ansi'', ''color'', ''console'', ''cygwin'', ''gnome'', ''konsole'', ''kterm'', ''linux'',
      ''msys'', ''putty'', ''rxvt'', ''screen'', ''vt100'', ''xterm'', ''alacritty'', ''vt102'']"

definition strstr :: "string \<Rightarrow> string \<Rightarrow> bool" where
  "strstr s t \<longleftrightarrow> list_ex (\<lambda>i. take (length t) (drop i s) = t) [0..<length s + 1]"

definition is_color_terminal :: "terminal \<Rightarrow> bool" where
  "is_color_terminal tm =
     (if term_COLORTERM tm \<noteq> None then True
      else case term_TERM tm of None \<Rightarrow> False | Some env_term \<Rightarrow> list_ex (strstr env_term) color_terms)"

definition in_terminal :: "terminal \<Rightarrow> bool" where
  "in_terminal tm = term_isatty tm"

section \<open>ansicolor_sink\<close>

definition ESC :: char where
  "ESC = CHR 0x1B"

definition code_reset :: string where "code_reset = ESC # ''[m''"
definition code_white :: string where "code_white = ESC # ''[37m''"
definition code_cyan :: string where "code_cyan = ESC # ''[36m''"
definition code_green :: string where "code_green = ESC # ''[32m''"
definition code_yellow_bold :: string where "code_yellow_bold = ESC # ''[33m'' @ ESC # ''[1m''"
definition code_red_bold :: string where "code_red_bold = ESC # ''[31m'' @ ESC # ''[1m''"
definition code_bold_on_red :: string where "code_bold_on_red = ESC # ''[1m'' @ ESC # ''[41m''"

record console_sink =
  cs_target :: string
  cs_should_do_colors :: bool
  cs_formatter :: pattern_formatter
  cs_colors :: "string list"

definition cs_set_color_mode :: "terminal \<Rightarrow> color_mode \<Rightarrow> console_sink \<Rightarrow> console_sink" where
  "cs_set_color_mode tm mode s =
     (case mode of
        Mode_always \<Rightarrow> s\<lparr>cs_should_do_colors := True\<rparr>
      | Mode_automatic \<Rightarrow> s\<lparr>cs_should_do_colors := in_terminal tm \<and> is_color_terminal tm\<rparr>
      | Mode_never \<Rightarrow> s\<lparr>cs_should_do_colors := False\<rparr>)"

definition cs_set_color :: "nat \<Rightarrow> string \<Rightarrow> console_sink \<Rightarrow> console_sink" where
  "cs_set_color level color s = s\<lparr>cs_colors := (cs_colors s)[level := color]\<rparr>"

text \<open>The constructor, for a file that holds \<open>target\<close>. The levels are those of \<open>level_enum\<close>.\<close>

definition console_sink_new :: "terminal \<Rightarrow> color_mode \<Rightarrow> string \<Rightarrow> console_sink" where
  "console_sink_new tm mode target =
     (let s = cs_set_color_mode tm mode
            \<lparr>cs_target = target, cs_should_do_colors = False,
             cs_formatter = pattern_formatter_default Time_local default_eol, cs_colors = replicate 7 []\<rparr>
      in s\<lparr>cs_colors := (cs_colors s)
            [0 := code_white, 1 := code_cyan, 2 := code_green, 3 := code_yellow_bold, 4 := code_red_bold,
             5 := code_bold_on_red, 6 := code_reset]\<rparr>)"

definition cs_set_pattern :: "int \<Rightarrow> string \<Rightarrow> console_sink \<Rightarrow> console_sink" where
  "cs_set_pattern now pattern s = s\<lparr>cs_formatter := pattern_formatter_new now pattern Time_local default_eol\<rparr>"

definition cs_print :: "string \<Rightarrow> console_sink \<Rightarrow> console_sink" where
  "cs_print data s = s\<lparr>cs_target := cs_target s @ data\<rparr>"

definition print_range :: "string \<Rightarrow> nat \<Rightarrow> nat \<Rightarrow> console_sink \<Rightarrow> console_sink" where
  "print_range buf start stop s = cs_print (segment start (stop - start) buf) s"

definition console_log :: "log_env \<Rightarrow> log_msg \<Rightarrow> console_sink \<Rightarrow> console_sink option" where
  "console_log env msg s =
     (case pf_format env msg (cs_formatter s) \<lparr>ln_dest = [], ln_color_start = 0, ln_color_end = 0\<rparr> of
        (_, None) \<Rightarrow> None
      | (pf, Some ln) \<Rightarrow>
          (let s = s\<lparr>cs_formatter := pf\<rparr>; buf = ln_dest ln in
           if cs_should_do_colors s \<and> ln_color_end ln > ln_color_start ln then
             (let s = print_range buf 0 (ln_color_start ln) s;
                  s = cs_print (cs_colors s ! msg_level msg) s;
                  s = print_range buf (ln_color_start ln) (ln_color_end ln) s;
                  s = cs_print code_reset s
              in Some (print_range buf (ln_color_end ln) (length buf) s))
           else Some (print_range buf 0 (length buf) s)))"

section \<open>The rotating file sink and its formatter\<close>

record rotating_sink =
  rs_formatter :: pattern_formatter
  rs_file :: file_sink

definition rs_set_pattern :: "int \<Rightarrow> string \<Rightarrow> rotating_sink \<Rightarrow> rotating_sink" where
  "rs_set_pattern now pattern s = s\<lparr>rs_formatter := pattern_formatter_new now pattern Time_local default_eol\<rparr>"

definition rotating_log ::
  "log_env \<Rightarrow> os \<Rightarrow> log_msg \<Rightarrow> rotating_sink \<Rightarrow> disk \<Rightarrow> (spdlog_ex option \<times> rotating_sink \<times> disk) option" where
  "rotating_log env os msg s disk =
     (case pf_format env msg (rs_formatter s) \<lparr>ln_dest = [], ln_color_start = 0, ln_color_end = 0\<rparr> of
        (_, None) \<Rightarrow> None
      | (pf, Some ln) \<Rightarrow>
          (case sink_it os (ln_dest ln) (rs_file s) disk of
             (ex, file, disk) \<Rightarrow> Some (ex, s\<lparr>rs_formatter := pf, rs_file := file\<rparr>, disk)))"

section \<open>spdlog::logger\<close>

datatype sink = Console nat console_sink | Rotating nat rotating_sink

fun sink_lvl :: "sink \<Rightarrow> nat" where
  "sink_lvl (Console l _) = l"
| "sink_lvl (Rotating l _) = l"

definition sink_should_log :: "nat \<Rightarrow> sink \<Rightarrow> bool" where
  "sink_should_log lvl s \<longleftrightarrow> lvl \<ge> sink_lvl s"

fun sink_log :: "log_env \<Rightarrow> os \<Rightarrow> log_msg \<Rightarrow> sink \<Rightarrow> disk \<Rightarrow> (spdlog_ex option \<times> sink \<times> disk) option" where
  "sink_log env os msg (Console l s) disk = map_option (\<lambda>s. (None, Console l s, disk)) (console_log env msg s)"
| "sink_log env os msg (Rotating l s) disk =
     map_option (\<lambda>(ex, s, disk). (ex, Rotating l s, disk)) (rotating_log env os msg s disk)"

text \<open>Flushing the console has no failure that is looked at.\<close>

fun flush_sink :: "os \<Rightarrow> sink \<Rightarrow> spdlog_ex option" where
  "flush_sink os (Console l s) = None"
| "flush_sink os (Rotating l s) = sink_flush os (rs_file s)"

record logger =
  lgr_name :: string
  lgr_level :: nat
  lgr_flush_level :: nat
  lgr_sinks :: "sink list"

text \<open>The loop of \<open>sink_it_\<close>: what the sinks throw is caught and handed to the error handler, in order.\<close>

primrec sinks_log :: "log_env \<Rightarrow> os \<Rightarrow> log_msg \<Rightarrow> sink list \<Rightarrow> disk \<Rightarrow> (spdlog_ex list \<times> sink list \<times> disk) option" where
  "sinks_log env os msg [] disk = Some ([], [], disk)"
| "sinks_log env os msg (s # ss) disk =
     (case (if sink_should_log (msg_level msg) s then sink_log env os msg s disk else Some (None, s, disk)) of
        None \<Rightarrow> None
      | Some (ex, s, disk) \<Rightarrow>
          map_option (\<lambda>(exs, ss, disk). ((case ex of None \<Rightarrow> exs | Some e \<Rightarrow> e # exs), s # ss, disk))
            (sinks_log env os msg ss disk))"

definition logger_flush :: "os \<Rightarrow> logger \<Rightarrow> spdlog_ex list" where
  "logger_flush os lgr = concat (map (\<lambda>s. case flush_sink os s of None \<Rightarrow> [] | Some e \<Rightarrow> [e]) (lgr_sinks lgr))"

definition should_flush :: "log_msg \<Rightarrow> logger \<Rightarrow> bool" where
  "should_flush msg lgr \<longleftrightarrow> msg_level msg \<ge> lgr_flush_level lgr \<and> msg_level msg \<noteq> 6"

definition logger_sink_it :: "log_env \<Rightarrow> os \<Rightarrow> log_msg \<Rightarrow> logger \<Rightarrow> disk \<Rightarrow> (spdlog_ex list \<times> logger \<times> disk) option" where
  "logger_sink_it env os msg lgr disk =
     (case sinks_log env os msg (lgr_sinks lgr) disk of
        None \<Rightarrow> None
      | Some (exs, ss, disk) \<Rightarrow>
          (let lgr = lgr\<lparr>lgr_sinks := ss\<rparr>;
               exs = (if should_flush msg lgr then exs @ logger_flush os lgr else exs)
           in Some (exs, lgr, disk)))"

text \<open>\<open>log\<close> with a source location and a text: the time, the thread and the text are arguments.\<close>

definition logger_log ::
  "log_env \<Rightarrow> os \<Rightarrow> int \<Rightarrow> nat \<Rightarrow> source_loc \<Rightarrow> nat \<Rightarrow> string \<Rightarrow> logger \<Rightarrow> disk \<Rightarrow> (spdlog_ex list \<times> logger \<times> disk) option" where
  "logger_log env os now thread_id loc lvl msg lgr disk =
     (if lvl \<ge> lgr_level lgr
      then logger_sink_it env os
             \<lparr>msg_logger_name = lgr_name lgr, msg_level = lvl, msg_time = now, msg_thread_id = thread_id,
              msg_source = loc, msg_payload = msg\<rparr> lgr disk
      else Some ([], lgr, disk))"

section \<open>The sinks and loggers of Log.cpp\<close>

text \<open>What \<open>CreateSinksFromConfig\<close> makes of the options of a sink, with what the constructor of the
  rotating sink throws.\<close>

fun make_sink :: "int \<Rightarrow> terminal \<Rightarrow> os \<Rightarrow> Log_sink \<Rightarrow> disk \<Rightarrow> spdlog_ex option \<times> sink \<times> disk" where
  "make_sink now tm os (ConsoleSink level pattern) disk =
     (None, Console level (cs_set_pattern now pattern (console_sink_new tm Mode_automatic [])), disk)"
| "make_sink now tm os (FileSink path max_size max_files rotate_on_open level pattern) disk =
     (case file_sink_new os path max_size max_files rotate_on_open disk of
        (ex, file, disk) \<Rightarrow>
          (ex, Rotating level (rs_set_pattern now pattern
                 \<lparr>rs_formatter = pattern_formatter_default Time_local default_eol, rs_file = file\<rparr>), disk))"

text \<open>A sink whose constructor throws is not added.\<close>

primrec make_sinks :: "int \<Rightarrow> terminal \<Rightarrow> os \<Rightarrow> Log_sink list \<Rightarrow> disk \<Rightarrow> sink list \<times> disk" where
  "make_sinks now tm os [] disk = ([], disk)"
| "make_sinks now tm os (k # ks) disk =
     (case make_sink now tm os k disk of
        (ex, s, disk) \<Rightarrow>
          (case make_sinks now tm os ks disk of (ss, disk) \<Rightarrow> (if ex = None then s # ss else ss, disk)))"

definition make_logger :: "string \<Rightarrow> nat \<Rightarrow> sink list \<Rightarrow> logger" where
  "make_logger name level sinks = \<lparr>lgr_name = name, lgr_level = level, lgr_flush_level = Level_Error, lgr_sinks = sinks\<rparr>"

section \<open>The error handler\<close>

text \<open>The default handler prints at most one line a second, with the number of errors so far. The counter and
  the time of the last line are static; the date is printed by \<^verbatim>\<open>strftime\<close>.\<close>

record error_state =
  es_last_report_time :: int
  es_counter :: nat

definition error_state_new :: error_state where
  "error_state_new = \<lparr>es_last_report_time = 0, es_counter = 0\<rparr>"

definition strftime_two :: "int \<Rightarrow> string" where
  "strftime_two n = (if n < 10 then CHR ''0'' # dec_int n else dec_int n)"

definition strftime_date :: "local_tm \<Rightarrow> string" where
  "strftime_date t =
     dec_int (tm_year t + 1900) @ ''-'' @ strftime_two (tm_mon t + 1) @ ''-'' @ strftime_two (tm_mday t) @ '' '' @
     strftime_two (tm_hour t) @ '':'' @ strftime_two (tm_min t) @ '':'' @ strftime_two (tm_sec t)"

definition err_handler :: "log_env \<Rightarrow> int \<Rightarrow> string \<Rightarrow> string \<Rightarrow> error_state \<Rightarrow> string \<times> error_state" where
  "err_handler env now name msg st =
     (let err_counter = sz_add (es_counter st) 1; st = st\<lparr>es_counter := err_counter\<rparr> in
      if now - es_last_report_time st < one_second then ([], st)
      else
        (''[*** LOG ERROR #'' @ replicate (4 - length (dec_nat err_counter)) (CHR ''0'') @ dec_nat err_counter @
         '' ***] ['' @ strftime_date (le_localtime env (duration_cast one_second now)) @ ''] ['' @ name @ ''] {'' @ msg @ ''}'' @
         [CHR 0x0A], st\<lparr>es_last_report_time := now\<rparr>))"

end
