(* ===== verification/Log_Files_Proofs.thy ===== *)
theory Log_Files_Proofs
  imports Log_Files
begin

text \<open>
  What the log files contain: the sink refines a list of chunks of lines (\<open>sink_rel\<close>, \<open>write_chunk\<close>),
  rotation shifts the files by one, and the chunks are the newest lines (\<open>keeps\<close>).
\<close>

section \<open>File names\<close>

lemma split_by_extension_append: "split_by_extension f = (b, e) \<Longrightarrow> b @ e = f"
  by (auto simp: split_by_extension_def split: option.splits if_splits)

lemma dec_nat_inj: "dec_nat a = dec_nat b \<Longrightarrow> a = b"
proof -
  assume eq: "dec_nat a = dec_nat b"
  have "k < 2 ^ max a b" if "k \<le> max a b" for k using le_less_trans [OF that less_exp] .
  from this [of a] this [of b] have "int a < 2 ^ max a b" "int b < 2 ^ max a b"
    by (simp_all add: of_nat_less_numeral_power_cancel_iff)
  then have "in_int_range False (max a b) (int a)" "in_int_range False (max a b) (int b)" by (simp_all add: in_int_range_def)
  from from_chars_dec_int [OF this(1)] from_chars_dec_int [OF this(2)] eq show "a = b" by (simp add: dec_int_def)
qed

lemma calc_filename_inj [simp]: "calc_filename f i = calc_filename f j \<longleftrightarrow> i = j"
proof -
  obtain b e where be: "split_by_extension f = (b, e)" by (cases "split_by_extension f")
  have "b @ ''.'' @ dec_nat k @ e \<noteq> f" for k
  proof
    assume "b @ ''.'' @ dec_nat k @ e = f"
    then have "length (b @ ''.'' @ dec_nat k @ e) = length (b @ e)" using split_by_extension_append [OF be] by simp
    then show False by simp
  qed
  then have "f \<noteq> b @ ''.'' @ dec_nat k @ e" for k by metis
  with be show ?thesis by (auto simp: calc_filename_def dest: dec_nat_inj)
qed

lemma calc_filename_0 [simp]: "calc_filename f 0 = f"
  by (simp add: calc_filename_def)

section \<open>Rotation on a system that works\<close>

definition reliable :: "os \<Rightarrow> bool" where
  "reliable os \<longleftrightarrow> (\<forall>c. os_ok os c) \<and> (\<forall>b. length b \<le> os_written os b)"

text \<open>No gaps: from the first index without a file on there is none.\<close>

definition no_gaps :: "string \<Rightarrow> nat \<Rightarrow> disk \<Rightarrow> bool" where
  "no_gaps base n disk \<longleftrightarrow>
     (\<forall>i j. i \<le> j \<and> j \<le> n \<and> disk (calc_filename base i) = None \<longrightarrow> disk (calc_filename base j) = None)"

lemma rotate_loop_shifts:
  assumes "reliable os" and "no_gaps base n disk"
  shows "\<exists>disk'. rotate_loop os base n disk = (None, disk')
    \<and> (0 < n \<longrightarrow> disk' base = None)
    \<and> (\<forall>k < n. disk' (calc_filename base (Suc k)) = disk (calc_filename base k))
    \<and> (\<forall>x. (\<forall>k \<le> n. x \<noteq> calc_filename base k) \<longrightarrow> disk' x = disk x)
    \<and> (n = 0 \<longrightarrow> disk' = disk)"
  using assms(2)
proof (induction n arbitrary: disk)
  case (Suc i)
  let ?F = "calc_filename base"
  show ?case
  proof (cases "disk (?F i)")
    case None
    have "no_gaps base i disk" using Suc.prems by (auto simp: no_gaps_def)
    from Suc.IH [OF this] obtain disk' where d: "rotate_loop os base i disk = (None, disk')" "0 < i \<longrightarrow> disk' base = None"
        "\<forall>k < i. disk' (?F (Suc k)) = disk (?F k)" "\<forall>x. (\<forall>k \<le> i. x \<noteq> ?F k) \<longrightarrow> disk' x = disk x" "i = 0 \<longrightarrow> disk' = disk" by blast
    have "disk (?F (Suc i)) = None" using Suc.prems None unfolding no_gaps_def by (metis lessI less_imp_le order_refl)
    moreover have "disk' (?F (Suc i)) = disk (?F (Suc i))" using d(4) by auto
    ultimately have "disk' (?F (Suc i)) = disk (?F i)" using None by simp
    moreover have "disk' base = None" using d(2,5) None by (cases "i = 0") auto
    ultimately show ?thesis using d None by (auto simp: less_Suc_eq)
  next
    case (Some c)
    let ?d1 = "disk(?F (Suc i) := Some c, ?F i := None)"
    have move: "rename_file os False (?F i) (?F (Suc i)) disk = (True, ?d1)"
      using assms(1) Some by (auto simp: rename_file_def reliable_def Let_def)
    have "no_gaps base i ?d1" using Suc.prems unfolding no_gaps_def by auto
    from Suc.IH [OF this] obtain disk' where d: "rotate_loop os base i ?d1 = (None, disk')" "0 < i \<longrightarrow> disk' base = None"
        "\<forall>k < i. disk' (?F (Suc k)) = ?d1 (?F k)" "\<forall>x. (\<forall>k \<le> i. x \<noteq> ?F k) \<longrightarrow> disk' x = ?d1 x" "i = 0 \<longrightarrow> disk' = ?d1" by blast
    have "disk' (?F (Suc i)) = disk (?F i)" using d(4) Some by auto
    moreover have "disk' base = None" using d(2,5) calc_filename_0 [of base] by (cases "i = 0") auto
    ultimately show ?thesis using d(1,3,4) Some move by (auto simp: less_Suc_eq Let_def)
  qed
qed simp

lemma fh_open_file_reliable:
  assumes "reliable os"
  shows "fh_open_file os f trunc h disk =
    (None, \<lparr>fh_open = True, fh_filename = f\<rparr>, disk(f \<mapsto> (if trunc then [] else case disk f of None \<Rightarrow> [] | Some c \<Rightarrow> c)))"
proof -
  have loop: "fh_open_loop os trunc 0 (Suc n) h disk = (None, h\<lparr>fh_open := True\<rparr>,
      disk(fh_filename h \<mapsto> (if trunc then [] else case disk (fh_filename h) of None \<Rightarrow> [] | Some c \<Rightarrow> c)))" for n h
    using assms by (simp add: reliable_def Let_def)
  have tries: "open_tries = Suc 4" by (simp add: open_tries_def)
  show ?thesis unfolding fh_open_file_def tries loop by (cases h) (simp add: fh_close_def)
qed

section \<open>The sink as a list of chunks\<close>

text \<open>What the sink promises: its files are the last chunks of the lines it was given, newest first.\<close>

fun write_chunk :: "nat \<Rightarrow> nat \<Rightarrow> string \<Rightarrow> string list list \<Rightarrow> string list list" where
  "write_chunk max_size max_files m [] = [[m]]"
| "write_chunk max_size max_files m (c # cs) =
     (if length (concat c) + length m > max_size \<and> concat c \<noteq> [] then take (Suc max_files) ([m] # c # cs) else (c @ [m]) # cs)"

definition sink_rel :: "disk \<Rightarrow> file_sink \<Rightarrow> disk \<Rightarrow> string list list \<Rightarrow> bool" where
  "sink_rel others s disk cs \<longleftrightarrow> fs_file_helper s = \<lparr>fh_open = True, fh_filename = fs_base_filename s\<rparr> \<and> fs_base_filename s \<noteq> []
     \<and> cs \<noteq> [] \<and> length cs \<le> Suc (fs_max_files s) \<and> fs_current_size s = length (concat (hd cs))
     \<and> (\<forall>k \<le> fs_max_files s. disk (calc_filename (fs_base_filename s) k) = (if k < length cs then Some (concat (cs ! k)) else None))
     \<and> (\<forall>x. (\<forall>k \<le> fs_max_files s. x \<noteq> calc_filename (fs_base_filename s) k) \<longrightarrow> disk x = others x)"

lemma sink_rel_newest: "sink_rel others s disk cs \<Longrightarrow> disk (fs_base_filename s) = Some (concat (hd cs))"
  unfolding sink_rel_def by (elim conjE, drule spec [of _ 0]) (simp add: hd_conv_nth)

lemma rotate_files_rel:
  assumes os: "reliable os" and rel: "sink_rel others s disk cs"
  shows "\<exists>disk'. rotate_files os s disk = (None, s, disk') \<and> sink_rel others (s\<lparr>fs_current_size := 0\<rparr>) disk' (take (Suc (fs_max_files s)) ([] # cs))"
proof -
  let ?base = "fs_base_filename s" and ?n = "fs_max_files s"
  have gaps: "no_gaps ?base ?n disk" using rel by (auto simp: no_gaps_def sink_rel_def split: if_splits)
  obtain disk1 where d: "rotate_loop os ?base ?n disk = (None, disk1)"
      "\<forall>k < ?n. disk1 (calc_filename ?base (Suc k)) = disk (calc_filename ?base k)"
      "\<forall>x. (\<forall>k \<le> ?n. x \<noteq> calc_filename ?base k) \<longrightarrow> disk1 x = disk x"
    using rotate_loop_shifts [OF os gaps] by (elim exE conjE)
  let ?disk = "disk1(?base \<mapsto> [])"
  have h: "fs_file_helper s = \<lparr>fh_open = True, fh_filename = ?base\<rparr>" "?base \<noteq> []" using rel by (simp_all add: sink_rel_def)
  then have "fh_reopen os True (fh_close (fs_file_helper s)) disk1 = (None, fs_file_helper s, ?disk)"
    by (simp add: fh_reopen_def fh_close_def fh_open_file_reliable [OF os])
  then have "rotate_files os s disk = (None, s, ?disk)" using d(1) by (simp add: rotate_files_def)
  moreover have "sink_rel others (s\<lparr>fs_current_size := 0\<rparr>) ?disk (take (Suc ?n) ([] # cs))"
    unfolding sink_rel_def
  proof (intro conjI allI impI)
    fix k assume k: "k \<le> fs_max_files (s\<lparr>fs_current_size := 0\<rparr>)"
    show "?disk (calc_filename (fs_base_filename (s\<lparr>fs_current_size := 0\<rparr>)) k)
        = (if k < length (take (Suc ?n) ([] # cs)) then Some (concat (take (Suc ?n) ([] # cs) ! k)) else None)"
    proof (cases k)
      case 0
      then show ?thesis by simp
    next
      case (Suc j)
      have "calc_filename ?base (Suc j) \<noteq> ?base" using calc_filename_inj [of ?base "Suc j" 0] by simp
      then show ?thesis using Suc k d(2) rel by (auto simp: sink_rel_def)
    qed
  next
    fix x assume x: "\<forall>k \<le> fs_max_files (s\<lparr>fs_current_size := 0\<rparr>). x \<noteq> calc_filename (fs_base_filename (s\<lparr>fs_current_size := 0\<rparr>)) k"
    then have "x \<noteq> ?base" using x [rule_format, OF le0] by simp
    then show "?disk x = others x" using x d(3) rel by (simp add: sink_rel_def)
  qed (use h rel in \<open>simp_all add: sink_rel_def\<close>)
  ultimately show ?thesis by blast
qed

lemma sink_write_rel:
  assumes os: "reliable os" and rel: "sink_rel others s0 disk (c # cs)" and s: "s = s0\<lparr>fs_current_size := k\<rparr>"
    and n: "n = length (concat c) + length m"
  shows "\<exists>s' disk'. sink_write os m n s disk = (None, s', disk') \<and> sink_rel others s' disk' ((c @ [m]) # cs)
    \<and> fs_max_size s' = fs_max_size s0 \<and> fs_max_files s' = fs_max_files s0 \<and> fs_base_filename s' = fs_base_filename s0"
proof -
  let ?base = "fs_base_filename s0"
  let ?s = "s0\<lparr>fs_current_size := n\<rparr>" and ?disk = "disk(?base \<mapsto> concat c @ m)"
  have h: "fs_file_helper s0 = \<lparr>fh_open = True, fh_filename = ?base\<rparr>" using rel by (simp add: sink_rel_def)
  have "disk ?base = Some (concat c)" using sink_rel_newest [OF rel] by simp
  then have "sink_write os m n s disk = (None, ?s, ?disk)"
    using os h s by (simp add: sink_write_def fh_write_def reliable_def min_absorb2 Let_def)
  moreover have "sink_rel others ?s ?disk ((c @ [m]) # cs)"
    unfolding sink_rel_def
  proof (intro conjI allI impI)
    fix k assume k: "k \<le> fs_max_files ?s"
    show "?disk (calc_filename (fs_base_filename ?s) k) = (if k < length ((c @ [m]) # cs) then Some (concat (((c @ [m]) # cs) ! k)) else None)"
    proof (cases k)
      case (Suc j)
      have "calc_filename ?base (Suc j) \<noteq> ?base" using calc_filename_inj [of ?base "Suc j" 0] by simp
      then show ?thesis using Suc k rel by (simp add: sink_rel_def)
    qed simp
  next
    fix x assume x: "\<forall>k \<le> fs_max_files ?s. x \<noteq> calc_filename (fs_base_filename ?s) k"
    then have "x \<noteq> ?base" using x [rule_format, OF le0] by simp
    then show "?disk x = others x" using x rel by (simp add: sink_rel_def)
  qed (use rel n in \<open>simp_all add: sink_rel_def\<close>)
  ultimately show ?thesis by (intro exI [of _ ?s] exI [of _ ?disk]) simp
qed

lemma sink_it_rel:
  assumes os: "reliable os" and rel: "sink_rel others s disk cs" and room: "length (concat (hd cs)) + length m < size_t_mod"
  shows "\<exists>s' disk'. sink_it os m s disk = (None, s', disk')
    \<and> sink_rel others s' disk' (write_chunk (fs_max_size s) (fs_max_files s) m cs)
    \<and> fs_max_size s' = fs_max_size s \<and> fs_max_files s' = fs_max_files s \<and> fs_base_filename s' = fs_base_filename s"
proof -
  obtain c cs' where cs: "cs = c # cs'" using rel by (cases cs) (auto simp: sink_rel_def)
  have size: "sz_add (fs_current_size s) (length m) = length (concat c) + length m"
    using rel room cs by (simp add: sink_rel_def sz_add_exact)
  have h: "fh_open (fs_file_helper s)" "fh_filename (fs_file_helper s) = fs_base_filename s" using rel by (simp_all add: sink_rel_def)
  have "disk (fs_base_filename s) = Some (concat c)" using sink_rel_newest [OF rel] cs by simp
  then have fsize: "fh_size (fs_file_helper s) disk = Inr (length (concat c))" using h by (simp add: fh_size_def)
  have flush: "fh_flush os (fs_file_helper s) = None" using os by (simp add: fh_flush_def reliable_def)
  have keep: "s = s\<lparr>fs_current_size := fs_current_size s\<rparr>" by simp
  note append = sink_write_rel [OF os rel [unfolded cs] keep refl]
  show ?thesis
  proof (cases "length (concat c) + length m > fs_max_size s \<and> concat c \<noteq> []")
    case True
    obtain disk1 where r: "rotate_files os s disk = (None, s, disk1)"
        "sink_rel others (s\<lparr>fs_current_size := 0\<rparr>) disk1 (take (Suc (fs_max_files s)) ([] # cs))"
      using rotate_files_rel [OF os rel] by blast
    have "s = s\<lparr>fs_current_size := 0\<rparr>\<lparr>fs_current_size := fs_current_size s\<rparr>" by simp
    from sink_write_rel [OF os r(2) [unfolded take_Suc_Cons] this, of "length m" m] obtain s' disk' where
      "sink_write os m (length m) s disk1 = (None, s', disk')" "sink_rel others s' disk' (([] @ [m]) # take (fs_max_files s) cs)"
      "fs_max_size s' = fs_max_size s" "fs_max_files s' = fs_max_files s" "fs_base_filename s' = fs_base_filename s" by auto
    then show ?thesis using True r(1) by (simp add: sink_it_def size flush fsize cs Let_def)
  next
    case False
    then have "sink_it os m s disk = sink_write os m (length (concat c) + length m) s disk"
      by (auto simp: sink_it_def size flush fsize Let_def)
    then show ?thesis using append False by (auto simp: cs)
  qed
qed

section \<open>What is kept\<close>

definition keeps :: "nat \<Rightarrow> nat \<Rightarrow> string list \<Rightarrow> string list list \<Rightarrow> bool" where
  "keeps max_size max_files ms cs \<longleftrightarrow>
     (\<exists>lost. ms = lost @ concat (rev cs) \<and> (lost \<noteq> [] \<longrightarrow> length cs = Suc max_files))
     \<and> (\<forall>c \<in> set cs. length (concat c) \<le> max_size \<or> concat c \<in> set c)"

lemma concat_rev_split: "concat (rev cs) = concat (rev (drop n cs)) @ concat (rev (take n cs))"
  by (metis append_take_drop_id concat_append rev_append)

lemma keeps_rotate:
  assumes "keeps max_size n ms cs" and "length (concat c) \<le> max_size \<or> concat c \<in> set c"
  shows "keeps max_size n (ms @ c) (take (Suc n) (c # cs))"
proof -
  obtain lost where l: "ms = lost @ concat (rev cs)" "lost \<noteq> [] \<longrightarrow> length cs = Suc n"
    using assms(1) by (auto simp: keeps_def)
  have "ms @ c = (lost @ concat (rev (drop n cs))) @ concat (rev (take (Suc n) (c # cs)))"
    using l(1) concat_rev_split [of cs n] by simp
  moreover have "lost @ concat (rev (drop n cs)) \<noteq> [] \<longrightarrow> length (take (Suc n) (c # cs)) = Suc n"
    using l(2) by (cases "drop n cs = []") auto
  moreover have "\<forall>b \<in> set (take (Suc n) (c # cs)). length (concat b) \<le> max_size \<or> concat b \<in> set b"
    using assms by (auto simp: keeps_def dest: in_set_takeD)
  ultimately show ?thesis unfolding keeps_def by blast
qed

lemma keeps_write:
  assumes "keeps max_size n ms cs" and "cs \<noteq> []"
  shows "keeps max_size n (ms @ [m]) (write_chunk max_size n m cs)"
proof -
  obtain c cs' where cs: "cs = c # cs'" using assms(2) by (cases cs) auto
  show ?thesis
  proof (cases "length (concat c) + length m > max_size \<and> concat c \<noteq> []")
    case True
    then show ?thesis using keeps_rotate [OF assms(1), of "[m]"] by (simp add: cs)
  next
    case False
    then have "length (concat (c @ [m])) \<le> max_size \<or> concat (c @ [m]) \<in> set (c @ [m])" by auto
    moreover obtain lost where "ms = lost @ concat (rev cs)" "lost \<noteq> [] \<longrightarrow> length cs = Suc n"
      using assms(1) by (auto simp: keeps_def)
    ultimately show ?thesis using assms(1) False unfolding keeps_def
      by (auto simp: cs intro!: exI [of _ lost])
  qed
qed

lemma write_chunk_not_Nil [simp]: "write_chunk a b m cs \<noteq> []"
  by (cases cs) simp_all

lemma keeps_newest_length: "keeps a b ms cs \<Longrightarrow> length (concat (hd cs)) \<le> length (concat ms)" if "cs \<noteq> []"
  using that by (cases cs) (auto simp: keeps_def)

section \<open>Logging\<close>

text \<open>One line after the other; the logger catches what a sink throws and goes on.\<close>

primrec sink_all :: "os \<Rightarrow> string list \<Rightarrow> file_sink \<Rightarrow> disk \<Rightarrow> spdlog_ex list \<times> file_sink \<times> disk" where
  "sink_all os [] s disk = ([], s, disk)"
| "sink_all os (m # ms) s disk =
     (case sink_it os m s disk of
        (ex, s, disk) \<Rightarrow> (case sink_all os ms s disk of (exs, r) \<Rightarrow> ((case ex of None \<Rightarrow> exs | Some e \<Rightarrow> e # exs), r)))"

lemma sink_all_rel:
  assumes "reliable os"
  shows "sink_rel others s disk cs \<Longrightarrow> keeps (fs_max_size s) (fs_max_files s) old cs \<Longrightarrow>
    length (concat old) + length (concat ms) < size_t_mod \<Longrightarrow>
    \<exists>s' disk' cs'. sink_all os ms s disk = ([], s', disk') \<and> sink_rel others s' disk' cs'
      \<and> cs' = fold (write_chunk (fs_max_size s) (fs_max_files s)) ms cs
      \<and> keeps (fs_max_size s) (fs_max_files s) (old @ ms) cs' \<and> fs_max_files s' = fs_max_files s \<and> fs_base_filename s' = fs_base_filename s"
proof (induction ms arbitrary: s disk cs old)
  case Nil
  then show ?case by auto
next
  case (Cons m ms)
  have ne: "cs \<noteq> []" using Cons.prems(1) by (simp add: sink_rel_def)
  have "length (concat (hd cs)) + length m < size_t_mod"
    using keeps_newest_length [OF ne Cons.prems(2)] Cons.prems(3) by simp
  from sink_it_rel [OF assms Cons.prems(1) this] obtain s1 disk1 where one:
    "sink_it os m s disk = (None, s1, disk1)" "sink_rel others s1 disk1 (write_chunk (fs_max_size s) (fs_max_files s) m cs)"
    "fs_max_size s1 = fs_max_size s" "fs_max_files s1 = fs_max_files s" "fs_base_filename s1 = fs_base_filename s" by blast
  have "keeps (fs_max_size s1) (fs_max_files s1) (old @ [m]) (write_chunk (fs_max_size s) (fs_max_files s) m cs)"
    unfolding one(3,4) by (rule keeps_write [OF Cons.prems(2) ne])
  from Cons.IH [OF one(2) this] Cons.prems(3) one(1,3-5) show ?case by fastforce
qed

text \<open>The last line is the last one of the current file.\<close>

lemma write_chunk_newest: "\<exists>c cs'. write_chunk a b m cs = (c @ [m]) # cs'"
proof (cases cs)
  case (Cons c cs')
  show ?thesis
  proof (cases "length (concat c) + length m > a \<and> concat c \<noteq> []")
    case True
    with Cons show ?thesis by (intro exI [of _ "[]"] exI [of _ "take b (c # cs')"]) simp
  qed (use Cons in auto)
qed simp

lemma fold_write_chunk_newest: "ms \<noteq> [] \<Longrightarrow> \<exists>c cs'. fold (write_chunk a b) ms cs = (c @ [last ms]) # cs'"
  by (cases ms rule: rev_cases) (auto simp: write_chunk_newest)

lemma file_sink_new_rel:
  assumes os: "reliable os" and base: "base \<noteq> []" and size: "0 < max_size" "max_files \<le> 200000"
    and olds: "length olds \<le> Suc max_files"
    and disk: "\<forall>k \<le> max_files. disk (calc_filename base k) = (if k < length olds then Some (olds ! k) else None)"
  shows "\<exists>s d cs. file_sink_new os base max_size max_files rotate_on_open disk = (None, s, d) \<and> sink_rel disk s d cs
    \<and> keeps max_size max_files (rev olds) cs \<and> fs_max_size s = max_size \<and> fs_max_files s = max_files \<and> fs_base_filename s = base"
proof -
  let ?cs = "if olds = [] then [[]] else map (\<lambda>d. [d]) olds"
  let ?c = "concat (hd ?cs)"
  let ?s = "\<lparr>fs_base_filename = base, fs_max_size = max_size, fs_max_files = max_files, fs_current_size = length ?c,
     fs_file_helper = \<lparr>fh_open = True, fh_filename = base\<rparr>\<rparr>"
  let ?d = "disk(base \<mapsto> ?c)"
  have first: "disk base = (if olds = [] then None else Some (hd olds))" using disk [rule_format, of 0] by (simp add: hd_conv_nth)
  then have opened: "fh_open_file os base False file_helper_new disk = (None, \<lparr>fh_open = True, fh_filename = base\<rparr>, ?d)"
    by (simp add: fh_open_file_reliable [OF os] hd_map)
  have rel: "sink_rel disk ?s ?d ?cs"
    unfolding sink_rel_def
  proof (intro conjI allI impI)
    fix k assume k: "k \<le> fs_max_files ?s"
    show "?d (calc_filename (fs_base_filename ?s) k) = (if k < length ?cs then Some (concat (?cs ! k)) else None)"
    proof (cases k)
      case 0
      then show ?thesis by (simp add: hd_conv_nth)
    next
      case (Suc j)
      have "calc_filename base (Suc j) \<noteq> base" using calc_filename_inj [of base "Suc j" 0] by simp
      then show ?thesis using Suc k disk by simp
    qed
  next
    fix x assume x: "\<forall>k \<le> fs_max_files ?s. x \<noteq> calc_filename (fs_base_filename ?s) k"
    then have "x \<noteq> base" using x [rule_format, OF le0] by simp
    then show "?d x = disk x" by simp
  qed (use base olds in auto)
  have "concat (rev (map (\<lambda>d. [d]) olds)) = rev olds" by (induction olds) simp_all
  then have keep: "keeps max_size max_files (rev olds) ?cs" by (auto simp: keeps_def)
  have new: "file_sink_new os base max_size max_files rotate_on_open disk =
      (if rotate_on_open \<and> length ?c > 0
       then (case rotate_files os ?s ?d of (Some ex, s, disk) \<Rightarrow> (Some ex, s, disk) | (None, s, disk) \<Rightarrow> (None, s\<lparr>fs_current_size := 0\<rparr>, disk))
       else (None, ?s, ?d))"
    using size by (auto simp add: file_sink_new_def opened fh_size_def Let_def)
  show ?thesis
  proof (cases "rotate_on_open \<and> length ?c > 0")
    case True
    obtain disk' where r: "rotate_files os ?s ?d = (None, ?s, disk')"
        "sink_rel disk (?s\<lparr>fs_current_size := 0\<rparr>) disk' (take (Suc (fs_max_files ?s)) ([] # ?cs))"
      using rotate_files_rel [OF os rel] by blast
    have "keeps max_size max_files (rev olds @ []) (take (Suc max_files) ([] # ?cs))" by (rule keeps_rotate [OF keep]) simp
    then show ?thesis using r True unfolding new if_P [OF True] r(1)
      by (intro exI [of _ "?s\<lparr>fs_current_size := 0\<rparr>"] exI [of _ disk'] exI [of _ "take (Suc max_files) ([] # ?cs)"]) simp
  next
    case False
    then show ?thesis using rel keep unfolding new if_not_P [OF False] by (intro exI [of _ ?s] exI [of _ ?d] exI [of _ ?cs]) simp
  qed
qed

text \<open>C24: The log files on a system that works: whatever is logged, without any exception, the files hold
  the newest lines in their order, newest file first and cut at line ends, after what earlier runs left;
  lines are dropped, oldest first, only once all the files are there, and the last line ends the current file; no file exceeds the maximal size
  unless it is one single line; there are never more files than configured and no other file is touched.\<close>

theorem log_files_keep_newest:
  assumes "reliable os" and "base \<noteq> []" and "0 < max_size" and "max_files \<le> 200000"
    and "length olds \<le> Suc max_files"
    and "\<forall>k \<le> max_files. disk (calc_filename base k) = (if k < length olds then Some (olds ! k) else None)"
    and "length (concat olds) + length (concat ms) < size_t_mod"
  shows "\<exists>s0 d0 s disk' cs lost. file_sink_new os base max_size max_files rotate_on_open disk = (None, s0, d0)
    \<and> sink_all os ms s0 d0 = ([], s, disk')
    \<and> rev olds @ ms = lost @ concat (rev cs) \<and> (lost \<noteq> [] \<longrightarrow> length cs = Suc max_files) \<and> length cs \<le> Suc max_files
    \<and> (ms \<noteq> [] \<longrightarrow> (\<exists>c cs'. cs = (c @ [last ms]) # cs'))
    \<and> (\<forall>c \<in> set cs. length (concat c) \<le> max_size \<or> concat c \<in> set c)
    \<and> (\<forall>k \<le> max_files. disk' (calc_filename base k) = (if k < length cs then Some (concat (cs ! k)) else None))
    \<and> (\<forall>x. (\<forall>k \<le> max_files. x \<noteq> calc_filename base k) \<longrightarrow> disk' x = disk x)"
proof -
  obtain s0 d0 cs0 where new: "file_sink_new os base max_size max_files rotate_on_open disk = (None, s0, d0)" "sink_rel disk s0 d0 cs0"
      "keeps max_size max_files (rev olds) cs0" "fs_max_size s0 = max_size" "fs_max_files s0 = max_files" "fs_base_filename s0 = base"
    using file_sink_new_rel [OF assms(1-6)] by blast
  have "length (concat (rev olds)) = length (concat olds)" by (induction olds) simp_all
  with sink_all_rel [OF assms(1) new(2), of "rev olds" ms] new assms(7) obtain s disk' cs where
    run: "sink_all os ms s0 d0 = ([], s, disk')" "sink_rel disk s disk' cs" "keeps max_size max_files (rev olds @ ms) cs"
    "fs_max_files s = max_files" "fs_base_filename s = base" and cs: "cs = fold (write_chunk max_size max_files) ms cs0" by auto
  have "ms \<noteq> [] \<longrightarrow> (\<exists>c cs'. cs = (c @ [last ms]) # cs')"
    using fold_write_chunk_newest [of ms max_size max_files cs0] unfolding cs by auto
  moreover obtain lost where "rev olds @ ms = lost @ concat (rev cs)" "lost \<noteq> [] \<longrightarrow> length cs = Suc max_files"
      "\<forall>c \<in> set cs. length (concat c) \<le> max_size \<or> concat c \<in> set c" using run(3) by (auto simp: keeps_def)
  ultimately show ?thesis using new(1) run(1,2,4,5) unfolding sink_rel_def
    by (intro exI [of _ s0] exI [of _ d0] exI [of _ s] exI [of _ disk'] exI [of _ cs] exI [of _ lost]) simp
qed

theorem log_files_keep_newest_witness:
  "\<exists>s0 d0 s disk'. file_sink_new \<lparr>os_ok = (\<lambda>_. True), os_written = length\<rparr> ''a.log'' 10 1 False Map.empty = (None, s0, d0)
    \<and> sink_all \<lparr>os_ok = (\<lambda>_. True), os_written = length\<rparr> [''1234567'', ''abcd'', ''xyz'', ''123456789012'', ''end''] s0 d0 = ([], s, disk')
    \<and> (\<forall>x. (\<forall>k \<le> 1. x \<noteq> calc_filename ''a.log'' k) \<longrightarrow> disk' x = None)"
proof -
  let ?os = "\<lparr>os_ok = (\<lambda>_. True), os_written = length\<rparr>"
  have "reliable ?os" by (simp add: reliable_def)
  from log_files_keep_newest [OF this, of "''a.log''" 10 1 "[]" Map.empty "[''1234567'', ''abcd'', ''xyz'', ''123456789012'', ''end'']" False]
  show ?thesis by (auto simp: size_t_mod_def)
qed

text \<open>A file that cannot be opened again after a rotation leaves the sink without a stream; a later line
  that still fits is then written to a null stream.\<close>

definition full_disk :: os where
  "full_disk = \<lparr>os_ok = (\<lambda>c. case c of Fopen _ trunc _ \<Rightarrow> \<not> trunc | _ \<Rightarrow> True), os_written = length\<rparr>"

lemma failed_rotation_null_stream:
  "fst (case file_sink_new full_disk ''a.log'' 10 1 False Map.empty of
     (_, s, d) \<Rightarrow> sink_all full_disk [''1234567'', ''abcd'', ''xyz''] s d) = [Failed_opening ''a.log'', Null_stream]"
  by code_simp

end
