(* ===== verification/Log_Output_Proofs.thy ===== *)
theory Log_Output_Proofs
  imports Log_Pattern_Proofs Log_Output Log_Files_Proofs
begin

text \<open>
  Log statements with the patterns of the shipped configuration: the lines they give, and that the console and the
  log files hold them. The contract of a pattern with a fixed layout is the locale \<open>fixed_layout\<close>, for the two
  patterns of the configuration.
\<close>

section \<open>The shipped patterns\<close>

definition file_pattern :: string where
  "file_pattern = ''[%Y-%m-%d %H:%M:%S.%e] [%l] %v''"

definition console_pattern :: string where
  "console_pattern = ''%^[%T] %v%$''"

abbreviation "plain c \<equiv> Flag c padding_info_new"

lemma compile_file_pattern:
  "compile_pattern now file_pattern =
    ([Aggregate_formatter ''['', plain Y_formatter, Aggregate_formatter ''-'', plain m_formatter, Aggregate_formatter ''-'', plain d_formatter,
      Aggregate_formatter '' '', plain H_formatter, Aggregate_formatter '':'', plain M_formatter, Aggregate_formatter '':'', plain S_formatter,
      Aggregate_formatter ''.'', plain e_formatter, Aggregate_formatter ''] ['', plain level_formatter, Aggregate_formatter ''] '', plain v_formatter], True)"
  by (simp add: compile_pattern_def file_pattern_def handle_padspec_def isdigit_def handle_flag_def user_formatters_def)

lemma compile_console_pattern:
  "compile_pattern now console_pattern =
    ([Color_start_formatter, Aggregate_formatter ''['', plain T_formatter, Aggregate_formatter ''] '', plain v_formatter, Color_stop_formatter], True)"
  by (simp add: compile_pattern_def console_pattern_def handle_padspec_def isdigit_def handle_flag_def user_formatters_def)

definition clock_text :: "local_tm \<Rightarrow> string" where
  "clock_text t = two (tm_hour t) @ '':'' @ two (tm_min t) @ '':'' @ two (tm_sec t)"

definition line_date :: "local_tm \<Rightarrow> string" where
  "line_date t = dec_int (tm_year t + 1900) @ ''-'' @ two (tm_mon t + 1) @ ''-'' @ two (tm_mday t)"

definition file_text :: "log_env \<Rightarrow> log_msg \<Rightarrow> string" where
  "file_text env m =
     (let t = get_time env Time_local m in
      ''['' @ line_date t @ '' '' @ clock_text t @ ''.'' @ three (msg_time m div 1000000 mod 1000) @ ''] ['' @
      to_string_view (msg_level m) @ ''] '' @ msg_payload m @ [CHR 0x0A])"

definition console_core :: "log_env \<Rightarrow> log_msg \<Rightarrow> string" where
  "console_core env m = ''['' @ clock_text (get_time env Time_local m) @ ''] '' @ msg_payload m"

lemma file_line:
  assumes "tm_valid (get_time env Time_local m)" "0 \<le> msg_time m"
  shows "direct_line env prev Time_local default_eol (fst (compile_pattern now file_pattern)) m empty_line
    = Some \<lparr>ln_dest = file_text env m, ln_color_start = 0, ln_color_end = 0\<rparr>"
  using assms
  by (simp add: direct_line_def compile_file_pattern empty_line_def formatting Y_format_def m_format_def d_format_def H_format_def
      M_format_def S_format_def e_format_def level_format_def v_format_def tm_valid_def pad2_text pad3_text append_int_text
      millis_range file_text_def line_date_def clock_text_def Let_def default_eol_def)

lemma console_line:
  assumes "tm_valid (get_time env Time_local m)"
  shows "direct_line env prev Time_local default_eol (fst (compile_pattern now console_pattern)) m empty_line
    = Some \<lparr>ln_dest = console_core env m @ [CHR 0x0A], ln_color_start = 0, ln_color_end = length (console_core env m)\<rparr>"
  using assms
  by (simp add: direct_line_def compile_console_pattern empty_line_def formatting T_format_def v_format_def tm_valid_def pad2_text
      console_core_def clock_text_def default_eol_def)

section \<open>Messages to console and files\<close>

type_synonym log_call = "int \<times> nat \<times> source_loc \<times> nat \<times> string"

definition call_msg :: "string \<Rightarrow> log_call \<Rightarrow> log_msg" where
  "call_msg name c = (case c of (now, thread_id, loc, lvl, msg) \<Rightarrow>
     \<lparr>msg_logger_name = name, msg_level = lvl, msg_time = now, msg_thread_id = thread_id, msg_source = loc, msg_payload = msg\<rparr>)"

primrec logger_run :: "log_env \<Rightarrow> os \<Rightarrow> log_call list \<Rightarrow> logger \<Rightarrow> disk \<Rightarrow> (spdlog_ex list \<times> logger \<times> disk) option" where
  "logger_run env os [] lgr disk = Some ([], lgr, disk)"
| "logger_run env os (c # cs) lgr disk =
     (case c of (now, thread_id, loc, lvl, msg) \<Rightarrow>
        (case logger_log env os now thread_id loc lvl msg lgr disk of
           None \<Rightarrow> None
         | Some (exs, lgr, disk) \<Rightarrow> map_option (\<lambda>(exs', r). (exs @ exs', r)) (logger_run env os cs lgr disk)))"

definition console_text :: "bool \<Rightarrow> log_env \<Rightarrow> log_msg \<Rightarrow> string" where
  "console_text colors env m =
     (if colors
      then [code_white, code_cyan, code_green, code_yellow_bold, code_red_bold, code_bold_on_red, code_reset] ! msg_level m
        @ console_core env m @ code_reset @ [CHR 0x0A]
      else console_core env m @ [CHR 0x0A])"

definition good_call :: "log_env \<Rightarrow> log_msg \<Rightarrow> bool" where
  "good_call env m \<longleftrightarrow> tm_valid (get_time env Time_local m) \<and> one_second \<le> msg_time m \<and> msg_level m < 6"

text \<open>The contract of a pattern whose line does not depend on the messages before.\<close>

lemma good_call_secs: "good_call env m \<Longrightarrow> duration_cast one_second (msg_time m) \<noteq> 0"
proof -
  assume "good_call env m"
  then have "1 * 1000000000 \<le> msg_time m" by (simp add: good_call_def)
  then have "1 \<le> msg_time m div 1000000000" by (simp add: zdiv_mono1)
  then show ?thesis by (auto simp: duration_cast_def cdiv_def)
qed

definition layout_ok :: "string \<Rightarrow> log_env \<Rightarrow> int \<Rightarrow> pattern_formatter \<Rightarrow> bool" where
  "layout_ok pattern env prev pf \<longleftrightarrow> pf_ok env Time_local default_eol (fst (compile_pattern prev pattern)) 0 prev pf"

locale fixed_layout =
  fixes pattern :: string and layout :: "log_env \<Rightarrow> log_msg \<Rightarrow> log_line"
  assumes same_compiled: "compile_pattern now pattern = compile_pattern now' pattern"
    and no_offset: "Z_formatter p c \<notin> set (fst (compile_pattern now pattern))"
    and line: "tm_valid (get_time env Time_local m) \<Longrightarrow> 0 \<le> msg_time m \<Longrightarrow>
      direct_line env prev Time_local default_eol (fst (compile_pattern now pattern)) m empty_line = Some (layout env m)"
begin

lemma new: "layout_ok pattern env now (pattern_formatter_new now pattern Time_local default_eol)"
  unfolding layout_ok_def by (rule pf_ok_new)

lemma format:
  assumes "layout_ok pattern env prev pf" "good_call env m"
  shows "\<exists>pf'. pf_format env m pf empty_line = (pf', Some (layout env m)) \<and> layout_ok pattern env (msg_time m) pf'"
proof -
  obtain pf' r where f: "pf_format env m pf empty_line = (pf', r)" by (metis surj_pair)
  have known: "offset_known env Time_local 0 (fst (compile_pattern prev pattern)) m" by (simp add: offset_known_def no_offset)
  note pf = pf_format_direct [OF assms(1) [unfolded layout_ok_def] good_call_secs [OF assms(2)] known, of empty_line]
  have r: "r = Some (layout env m)" using pf(1) f line [of env m prev prev] assms(2) by (simp add: good_call_def)
  then have "pf_ok env Time_local default_eol (fst (compile_pattern prev pattern)) 0 (msg_time m) pf'" using pf(2) f by simp
  then have "layout_ok pattern env (msg_time m) pf'" unfolding layout_ok_def using same_compiled [of prev "msg_time m"] by simp
  then show ?thesis using f r by blast
qed

end

interpretation console_layout: fixed_layout console_pattern
  "\<lambda>env m. \<lparr>ln_dest = console_core env m @ [CHR 0x0A], ln_color_start = 0, ln_color_end = length (console_core env m)\<rparr>"
  by unfold_locales (simp only: compile_console_pattern, simp add: compile_console_pattern, rule console_line)

interpretation file_layout: fixed_layout file_pattern "\<lambda>env m. \<lparr>ln_dest = file_text env m, ln_color_start = 0, ln_color_end = 0\<rparr>"
  by unfold_locales (simp only: compile_file_pattern, simp add: compile_file_pattern, rule file_line)

definition console_ok :: "log_env \<Rightarrow> int \<Rightarrow> bool \<Rightarrow> console_sink \<Rightarrow> bool" where
  "console_ok env prev colors s \<longleftrightarrow> layout_ok console_pattern env prev (cs_formatter s) \<and> cs_should_do_colors s = colors
     \<and> cs_colors s = [code_white, code_cyan, code_green, code_yellow_bold, code_red_bold, code_bold_on_red, code_reset]"

abbreviation rotating_ok :: "log_env \<Rightarrow> int \<Rightarrow> rotating_sink \<Rightarrow> bool" where
  "rotating_ok env prev s \<equiv> layout_ok file_pattern env prev (rs_formatter s)"

lemma console_log_text:
  assumes "console_ok env prev colors s" "good_call env m"
  shows "\<exists>s'. console_log env m s = Some s' \<and> cs_target s' = cs_target s @ console_text colors env m \<and> console_ok env (msg_time m) colors s'"
proof -
  have "0 < length (console_core env m)" by (simp add: console_core_def)
  then show ?thesis using assms console_layout.format [of env prev "cs_formatter s" m]
    by (auto simp: console_log_def empty_line_def [symmetric] console_ok_def print_range_def cs_print_def segment_def console_text_def Let_def)
qed

lemma rotating_log_text:
  assumes "rotating_ok env prev s" "good_call env m" "sink_it os (file_text env m) (rs_file s) disk = (ex, file, disk')"
  shows "\<exists>s'. rotating_log env os m s disk = Some (ex, s', disk') \<and> rs_file s' = file \<and> rotating_ok env (msg_time m) s'"
  using assms(3) file_layout.format [OF assms(1,2)] by (auto simp: rotating_log_def empty_line_def [symmetric])

text \<open>The loggers with the two sinks of the shipped configuration.\<close>

definition two_sinks :: "string \<Rightarrow> console_sink \<Rightarrow> rotating_sink \<Rightarrow> logger" where
  "two_sinks name c r = make_logger name 0 [Console 0 c, Rotating 0 r]"

lemma logger_log_text:
  assumes "reliable os" "console_ok env prev colors c" "rotating_ok env prev r" "good_call env m" "m = call_msg name (now, tid, loc, lvl, msg)"
    and "sink_it os (file_text env m) (rs_file r) disk = (None, file, disk')"
  shows "\<exists>c' r'. logger_log env os now tid loc lvl msg (two_sinks name c r) disk = Some ([], two_sinks name c' r', disk')
    \<and> cs_target c' = cs_target c @ console_text colors env m \<and> rs_file r' = file \<and> console_ok env now colors c' \<and> rotating_ok env now r'"
proof -
  have now: "msg_time m = now" by (simp add: assms(5) call_msg_def)
  obtain c' where c: "console_log env m c = Some c'" "cs_target c' = cs_target c @ console_text colors env m" "console_ok env now colors c'"
    using console_log_text [OF assms(2,4)] now by auto
  obtain r' where r: "rotating_log env os m r disk = Some (None, r', disk')" "rs_file r' = file" "rotating_ok env now r'"
    using rotating_log_text [OF assms(3,4,6)] now by auto
  have "flush_sink os (Rotating 0 r') = None" using assms(1) by (simp add: sink_flush_def fh_flush_def reliable_def)
  moreover have "m = \<lparr>msg_logger_name = name, msg_level = lvl, msg_time = now, msg_thread_id = tid, msg_source = loc, msg_payload = msg\<rparr>"
    by (simp add: assms(5) call_msg_def)
  ultimately show ?thesis using c r
    by (intro exI [of _ c'] exI [of _ r'])
       (simp add: logger_log_def two_sinks_def make_logger_def logger_sink_it_def sink_should_log_def logger_flush_def Let_def)
qed

lemma logger_run_text:
  assumes "reliable os"
  shows "\<forall>m \<in> set (map (call_msg name) cs). good_call env m \<Longrightarrow>
    sink_all os (map (file_text env) (map (call_msg name) cs)) (rs_file r) disk = ([], file, disk') \<Longrightarrow>
    console_ok env prev colors c \<Longrightarrow> rotating_ok env prev r \<Longrightarrow>
    \<exists>c' r'. logger_run env os cs (two_sinks name c r) disk = Some ([], two_sinks name c' r', disk')
      \<and> cs_target c' = cs_target c @ concat (map (console_text colors env) (map (call_msg name) cs)) \<and> rs_file r' = file"
proof (induction cs arbitrary: c r disk prev)
  case Nil
  then show ?case by auto
next
  case (Cons k cs)
  obtain now tid loc lvl msg where k: "k = (now, tid, loc, lvl, msg)" by (metis prod_cases5)
  obtain ex file1 disk1 where one: "sink_it os (file_text env (call_msg name k)) (rs_file r) disk = (ex, file1, disk1)" by (metis prod_cases3)
  have ex: "ex = None" and rest: "sink_all os (map (file_text env) (map (call_msg name) cs)) file1 disk1 = ([], file, disk')"
    using Cons.prems(2) one by (auto split: prod.splits option.splits)
  obtain c1 r1 where step: "logger_log env os now tid loc lvl msg (two_sinks name c r) disk = Some ([], two_sinks name c1 r1, disk1)"
    "cs_target c1 = cs_target c @ console_text colors env (call_msg name k)" "rs_file r1 = file1" "console_ok env now colors c1" "rotating_ok env now r1"
    using logger_log_text [OF assms Cons.prems(3,4), of "call_msg name k" name now tid loc lvl msg disk file1 disk1] Cons.prems(1) one ex k by auto
  from Cons.IH [OF _ _ step(4,5), of disk1] Cons.prems(1) rest step(3) obtain c' r' where
    "logger_run env os cs (two_sinks name c1 r1) disk1 = Some ([], two_sinks name c' r', disk')"
    "cs_target c' = cs_target c1 @ concat (map (console_text colors env) (map (call_msg name) cs))" "rs_file r' = file" by auto
  then show ?case using step(1,2) k by auto
qed

lemma console_ok_new: "console_ok env now (in_terminal tm \<and> is_color_terminal tm) (cs_set_pattern now console_pattern (console_sink_new tm Mode_automatic []))"
  using console_layout.new [of env now]
  by (simp add: console_ok_def cs_set_pattern_def console_sink_new_def cs_set_color_mode_def Let_def numeral_eq_Suc)

lemma rotating_ok_new: "rotating_ok env now (rs_set_pattern now file_pattern s)"
  using file_layout.new [of env now] by (simp add: rs_set_pattern_def)



end
