(* ===== verification/Fmt_Utf8.thy ===== *)
theory Fmt_Utf8
  imports Utf8 Fmt_Write
begin

text \<open>
  The display width of a text in fmt, \<^verbatim>\<open>src/deps/fmt/include/fmt/format.h\<close>: the branchless UTF-8 decoder, the
  walk over the code points of a string -- in blocks of four bytes, the rest through a zero-padded buffer --, the
  width of a code point, and the writing of a text in a field of given width. On what the encoder of \<open>Utf8\<close>
  writes the decoder is exact and the width is the sum of those of the code points.
\<close>

unbundle bit_operations_syntax

section \<open>Code points\<close>

definition code_point_lengths :: "nat list" where
  "code_point_lengths = [1,1,1,1,1,1,1,1,1,1,1,1,1,1,1,1,0,0,0,0,0,0,0,0,2,2,2,2,3,3,4,0]"

definition code_point_length :: "u8 \<Rightarrow> nat" where
  "code_point_length b = (let len = code_point_lengths ! drop_bit 3 (unat b) in len + of_bool (len = 0))"

definition decode_masks :: "nat list" where "decode_masks = [0x00, 0x7f, 0x1f, 0x0f, 0x07]"
definition decode_mins :: "nat list" where "decode_mins = [4194304, 0, 128, 2048, 65536]"
definition decode_shiftc :: "nat list" where "decode_shiftc = [0, 18, 12, 6, 0]"
definition decode_shifte :: "nat list" where "decode_shifte = [0, 6, 4, 2, 0]"

text \<open>The branchless decoder: the code point, the error bits and the length, from four bytes.\<close>

definition decode_code_point :: "nat \<Rightarrow> u8 list \<Rightarrow> nat" where
  "decode_code_point len s = drop_bit (decode_shiftc ! len)
     (push_bit 18 (unat (s ! 0) AND decode_masks ! len) OR (push_bit 12 (unat (s ! 1) AND 0x3f)
       OR (push_bit 6 (unat (s ! 2) AND 0x3f) OR (unat (s ! 3) AND 0x3f))))"

definition decode_error :: "nat \<Rightarrow> nat \<Rightarrow> u8 list \<Rightarrow> nat" where
  "decode_error len c s = drop_bit (decode_shifte ! len)
     ((push_bit 6 (of_bool (c < decode_mins ! len)) OR push_bit 7 (of_bool (drop_bit 11 c = 0x1b))
       OR push_bit 8 (of_bool (c > 0x10FFFF)) OR drop_bit 2 (unat (s ! 1) AND 0xc0)
       OR drop_bit 4 (unat (s ! 2) AND 0xc0) OR drop_bit 6 (unat (s ! 3))) XOR 0x2a)"

definition utf8_decode :: "u8 list \<Rightarrow> nat \<times> nat \<times> nat" where
  "utf8_decode s =
     (let len = code_point_length (s ! 0); c = decode_code_point len s in (c, decode_error len c s, len))"

lemma or_field:
  assumes "b < 2 ^ n"
  shows "push_bit n a OR b = a * 2 ^ n + (b::nat)"
proof -
  have "push_bit n a AND take_bit n b = 0" by (auto simp: bit_eq_iff bit_simps)
  moreover have "take_bit n b = b" using assms by (simp add: take_bit_nat_eq_self)
  ultimately show ?thesis by (simp add: push_bit_eq_mult disjunctive_add_eq_or)
qed

lemma and_0x3f: "(x::nat) AND 0x3f = x mod 64" "(x::nat) AND 0x7f = x mod 128" "(x::nat) AND 0x1f = x mod 32"
  "(x::nat) AND 0x0f = x mod 16" "(x::nat) AND 0x07 = x mod 8"
  using take_bit_eq_mask [of 6 x] take_bit_eq_mask [of 7 x] take_bit_eq_mask [of 5 x] take_bit_eq_mask [of 4 x] take_bit_eq_mask [of 3 x]
  by (simp_all add: take_bit_eq_mod mask_eq_exp_minus_1)

lemma four_fields:
  assumes "b < 64" "c < 64" "d < 64"
  shows "push_bit 18 a OR (push_bit 12 b OR (push_bit 6 c OR d)) = ((a * 64 + b) * 64 + c) * 64 + (d::nat)"
proof -
  have "push_bit 6 c OR d = c * 64 + d" using assms or_field [of d 6 c] by simp
  moreover have "push_bit 12 b OR (c * 64 + d) = b * 4096 + (c * 64 + d)" using assms or_field [of "c * 64 + d" 12 b] by simp
  moreover have "push_bit 18 a OR (b * 4096 + (c * 64 + d)) = a * 262144 + (b * 4096 + (c * 64 + d))"
    using assms or_field [of "b * 4096 + (c * 64 + d)" 18 a] by simp
  ultimately show ?thesis by simp
qed

lemma decode_code_point_sum:
  "decode_code_point len [s0, s1, s2, s3] = drop_bit (decode_shiftc ! len)
     ((((unat s0 AND decode_masks ! len) * 64 + unat s1 mod 64) * 64 + unat s2 mod 64) * 64 + unat s3 mod 64)"
proof -
  have n: "[s0, s1, s2, s3] ! 0 = s0" "[s0, s1, s2, s3] ! 1 = s1" "[s0, s1, s2, s3] ! 2 = s2" "[s0, s1, s2, s3] ! 3 = s3" by simp_all
  show ?thesis unfolding decode_code_point_def n and_0x3f(1) by (subst four_fields) simp_all
qed

text \<open>The two top bits of a byte.\<close>

lemma and_0xc0: "(x::nat) < 256 \<Longrightarrow> x AND 0xc0 = x div 64 * 64"
proof -
  assume x: "x < 256"
  then have "drop_bit 6 x < 2 ^ 2" by (simp add: drop_bit_eq_div less_mult_imp_div_less)
  then have "push_bit 6 (drop_bit 6 x) = push_bit 6 (take_bit 2 (drop_bit 6 x))" by (simp add: take_bit_nat_eq_self)
  also have "\<dots> = x AND push_bit 6 (mask 2)" by (rule bit_eqI) (auto simp: bit_simps)
  finally show ?thesis by (simp add: push_bit_eq_mult drop_bit_eq_div mask_eq_exp_minus_1)
qed

text \<open>The error bits of a valid code point: for each tail byte the two top bits, which should be \<^verbatim>\<open>10\<close>.\<close>

lemma decode_error_zero:
  assumes "\<not> c < decode_mins ! len" "drop_bit 11 c \<noteq> 0x1b" "c \<le> 0x10FFFF"
    and "len = 1 \<or> (len = 2 \<and> unat s1 div 64 = 2) \<or> (len = 3 \<and> unat s1 div 64 = 2 \<and> unat s2 div 64 = 2)
      \<or> (len = 4 \<and> unat s1 div 64 = 2 \<and> unat s2 div 64 = 2 \<and> unat s3 div 64 = 2)"
  shows "decode_error len c [s0, s1, s2, s3] = 0"
proof -
  define a b d where "a = unat s1 div 64" and "b = unat s2 div 64" and "d = unat s3 div 64"
  have bounds: "a < 4" "b < 4" "d < 4" using unat_u8 [of s1] unat_u8 [of s2] unat_u8 [of s3] by (simp_all add: a_def b_def d_def)
  have top: "unat s1 AND 0xc0 = a * 64" "unat s2 AND 0xc0 = b * 64" "drop_bit 6 (unat s3) = d"
    using unat_u8 [of s1] unat_u8 [of s2] by (simp_all add: and_0xc0 a_def b_def d_def drop_bit_eq_div)
  have "decode_error len c [s0, s1, s2, s3] = drop_bit (decode_shifte ! len) ((drop_bit 2 (a * 64) OR drop_bit 4 (b * 64) OR d) XOR 0x2a)"
    using assms(1-3) by (simp add: decode_error_def top)
  also have "\<dots> = 0"
  proof -
    have "list_all (\<lambda>a. list_all (\<lambda>b. list_all (\<lambda>d.
        drop_bit 6 ((drop_bit 2 (a * 64) OR drop_bit 4 (b * 64) OR d) XOR 0x2a) = 0
        \<and> (a = 2 \<longrightarrow> drop_bit 4 ((drop_bit 2 (a * 64) OR drop_bit 4 (b * 64) OR d) XOR 0x2a) = 0)
        \<and> (a = 2 \<and> b = 2 \<longrightarrow> drop_bit 2 ((drop_bit 2 (a * 64) OR drop_bit 4 (b * 64) OR d) XOR 0x2a) = 0)
        \<and> (a = 2 \<and> b = 2 \<and> d = 2 \<longrightarrow> (drop_bit 2 (a * 64) OR drop_bit 4 (b * 64) OR d) XOR 0x2a = 0)) [0..<4]) [0..<4]) [0..<4::nat]"
      by code_simp
    from this [unfolded list_all_iff, rule_format, of a b d] bounds assms(4) show ?thesis
      unfolding a_def [symmetric] b_def [symmetric] d_def [symmetric] by (elim disjE conjE) (simp_all add: decode_shifte_def)
  qed
  finally show ?thesis .
qed

abbreviation utf8_text :: "nat \<Rightarrow> u8 list" where
  "utf8_text cp \<equiv> the (utf8_append cp)"

definition lead_class :: "nat \<Rightarrow> nat" where
  "lead_class k = (let len = code_point_lengths ! k in len + of_bool (len = 0))"

lemma lead_class_cases:
  "k < 32 \<Longrightarrow> lead_class k = (if k < 24 then 1 else if k < 28 then 2 else if k < 30 then 3 else if k = 30 then 4 else 1)"
proof -
  assume "k < 32"
  moreover have "list_all (\<lambda>k. lead_class k = (if k < 24 then 1 else if k < 28 then 2 else if k < 30 then 3 else if k = 30 then 4 else 1))
      [0..<32]" by code_simp
  ultimately show ?thesis by (simp add: list_all_iff)
qed

lemma lead_length:
  "unat b < 128 \<Longrightarrow> code_point_length b = 1" "192 \<le> unat b \<Longrightarrow> unat b < 224 \<Longrightarrow> code_point_length b = 2"
  "224 \<le> unat b \<Longrightarrow> unat b < 240 \<Longrightarrow> code_point_length b = 3" "240 \<le> unat b \<Longrightarrow> unat b < 248 \<Longrightarrow> code_point_length b = 4"
proof -
  have k: "unat b div 8 < 32" using unat_u8 [of b] by simp
  have t: "code_point_length b = (if unat b div 8 < 24 then 1 else if unat b div 8 < 28 then 2
      else if unat b div 8 < 30 then 3 else if unat b div 8 = 30 then 4 else 1)"
    using lead_class_cases [OF k] by (simp add: lead_class_def code_point_length_def drop_bit_eq_div)
  show "unat b < 128 \<Longrightarrow> code_point_length b = 1" unfolding t by simp
  show "192 \<le> unat b \<Longrightarrow> unat b < 224 \<Longrightarrow> code_point_length b = 2"
    unfolding t by (simp add: div_less_iff_less_mult)
  show "224 \<le> unat b \<Longrightarrow> unat b < 240 \<Longrightarrow> code_point_length b = 3"
    unfolding t by (simp add: div_less_iff_less_mult)
  show "240 \<le> unat b \<Longrightarrow> unat b < 248 \<Longrightarrow> code_point_length b = 4"
    unfolding t by (simp add: div_less_iff_less_mult)
qed

lemma utf8_decode_four: "utf8_decode (s0 # s1 # s2 # s3 # rest) = utf8_decode [s0, s1, s2, s3]"
  by (simp add: utf8_decode_def decode_code_point_def decode_error_def numeral_2_eq_2 numeral_3_eq_3)

lemma utf8_decode_length:
  assumes "code_point_length s0 = len" "decode_code_point len [s0, s1, s2, s3] = c" "decode_error len c [s0, s1, s2, s3] = 0"
  shows "utf8_decode (s0 # s1 # s2 # s3 # rest) = (c, 0, len)"
  using assms by (subst utf8_decode_four) (simp add: utf8_decode_def Let_def)

text \<open>The code point in its four fields, and the tail shifted out.\<close>

lemma shift_one: "d < 64 \<Longrightarrow> (x * 64 + d) div 64 = (x::nat)"
  by simp

lemma shifted_out:
  assumes "d < 64"
  shows "c < 64 \<Longrightarrow> ((x * 64 + c) * 64 + d) div 4096 = (x::nat)"
    and "b < 64 \<Longrightarrow> c < 64 \<Longrightarrow> (((x * 64 + b) * 64 + c) * 64 + d) div 262144 = x"
proof -
  have two: "y div 4096 = y div 64 div 64" "y div 262144 = y div 64 div 64 div 64" for y :: nat
    by (simp_all add: div_mult2_eq [symmetric])
  show "c < 64 \<Longrightarrow> ((x * 64 + c) * 64 + d) div 4096 = x" unfolding two shift_one [OF assms] by (rule shift_one)
  show "b < 64 \<Longrightarrow> c < 64 \<Longrightarrow> (((x * 64 + b) * 64 + c) * 64 + d) div 262144 = x"
    unfolding two shift_one [OF assms] using shift_one by simp
qed

lemma fields:
  "(cp div 4096 * 64 + cp div 64 mod 64) * 64 + cp mod 64 = (cp::nat)"
  "((cp div 262144 * 64 + cp div 4096 mod 64) * 64 + cp div 64 mod 64) * 64 + cp mod 64 = cp"
proof -
  have two: "y div 4096 = y div 64 div 64" "y div 262144 = y div 64 div 64 div 64" for y :: nat
    by (simp_all add: div_mult2_eq [symmetric])
  show "(cp div 4096 * 64 + cp div 64 mod 64) * 64 + cp mod 64 = cp"
    "((cp div 262144 * 64 + cp div 4096 mod 64) * 64 + cp div 64 mod 64) * 64 + cp mod 64 = cp"
    unfolding two div_mult_mod_eq by (rule refl)+
qed

lemma offset_mod:
  "(x mod 64 + 128) mod 64 = x mod (64::nat)"
  "x < 32 \<Longrightarrow> (x + 192) mod 32 = (x::nat)" "x < 16 \<Longrightarrow> (x + 224) mod 16 = (x::nat)" "x < 8 \<Longrightarrow> (x + 240) mod 8 = (x::nat)"
proof -
  have k: "x < m \<Longrightarrow> (x + k * m) mod m = x" for k m x :: nat by simp
  show "(x mod 64 + 128) mod 64 = x mod (64::nat)" using k [of "x mod 64" 64 2] by simp
  show "x < 32 \<Longrightarrow> (x + 192) mod 32 = (x::nat)" "x < 16 \<Longrightarrow> (x + 224) mod 16 = (x::nat)" "x < 8 \<Longrightarrow> (x + 240) mod 8 = (x::nat)"
    using k [of x 32 6] k [of x 16 14] k [of x 8 30] by simp_all
qed

lemma decode_code_point_1: "decode_code_point 1 [s0, s1, s2, s3] = unat s0 mod 128"
  unfolding decode_code_point_sum using shifted_out(2) [of "unat s3 mod 64" "unat s1 mod 64" "unat s2 mod 64" "unat s0 mod 128"]
  by (simp add: decode_masks_def decode_shiftc_def and_0x3f drop_bit_eq_div)

lemma decode_code_point_2: "decode_code_point 2 [s0, s1, s2, s3] = unat s0 mod 32 * 64 + unat s1 mod 64"
  unfolding decode_code_point_sum using shifted_out(1) [of "unat s3 mod 64" "unat s2 mod 64" "unat s0 mod 32 * 64 + unat s1 mod 64"]
  by (simp add: decode_masks_def decode_shiftc_def and_0x3f drop_bit_eq_div)

lemma decode_code_point_3: "decode_code_point 3 [s0, s1, s2, s3] = (unat s0 mod 16 * 64 + unat s1 mod 64) * 64 + unat s2 mod 64"
  unfolding decode_code_point_sum using shift_one [of "unat s3 mod 64" "(unat s0 mod 16 * 64 + unat s1 mod 64) * 64 + unat s2 mod 64"]
  by (simp add: decode_masks_def decode_shiftc_def and_0x3f drop_bit_eq_div)

lemma decode_code_point_4:
  "decode_code_point 4 [s0, s1, s2, s3] = ((unat s0 mod 8 * 64 + unat s1 mod 64) * 64 + unat s2 mod 64) * 64 + unat s3 mod 64"
  unfolding decode_code_point_sum by (simp add: decode_masks_def decode_shiftc_def and_0x3f)

text \<open>The decoder reads what the encoder writes.\<close>

lemma tail_byte: "unat (of_nat (x mod 64 + 128) :: u8) = x mod 64 + 128" "(x mod 64 + 128) div 64 = (2::nat)"
proof -
  have "x mod 64 < 64" by simp
  then have "x mod 64 + 128 < 256" by linarith
  then show "unat (of_nat (x mod 64 + 128) :: u8) = x mod 64 + 128" by (rule unat_of_nat_u8)
  show "(x mod 64 + 128) div 64 = 2" by simp
qed

lemma front:
  "Suc n \<le> length r \<Longrightarrow> \<exists>a s. r = a # s \<and> n \<le> length s"
  by (cases r) simp_all

lemma utf8_decode_text:
  assumes valid: "is_code_point_valid cp" and room: "4 \<le> length (utf8_text cp @ r)"
  shows "utf8_decode (utf8_text cp @ r) = (cp, 0, length (utf8_text cp))"
proof -
  have top: "cp < 0x110000" "drop_bit 11 cp \<noteq> 0x1b" "cp \<le> 0x10FFFF"
    using valid by (auto simp: is_code_point_valid_def CODE_POINT_MAX_def is_surrogate_def LEAD_SURROGATE_MIN_def TRAIL_SURROGATE_MAX_def drop_bit_eq_div)
  note cases' = utf8_append_cases [OF valid]
  consider (1) "cp < 0x80" | (2) "0x80 \<le> cp" "cp < 0x800" | (3) "0x800 \<le> cp" "cp < 0x10000" | (4) "0x10000 \<le> cp" by linarith
  then show ?thesis
  proof cases
    case 1
    then have "Suc (Suc (Suc 0)) \<le> length r" using room cases'(1) [OF 1] by simp
    then obtain s1 s2 s3 rest where r: "r = s1 # s2 # s3 # rest" by (blast dest: front)
    have s0: "unat (of_nat cp :: u8) = cp" using 1 by (simp add: unat_of_nat_u8)
    have "utf8_decode (of_nat cp # s1 # s2 # s3 # rest) = (cp, 0, 1)"
    proof (rule utf8_decode_length)
      show "code_point_length (of_nat cp) = 1" using 1 s0 by (intro lead_length) simp
      show "decode_code_point 1 [of_nat cp, s1, s2, s3] = cp" unfolding decode_code_point_1 s0 using 1 by simp
      show "decode_error 1 cp [of_nat cp, s1, s2, s3] = 0" using top by (intro decode_error_zero) (simp_all add: decode_mins_def)
    qed
    then show ?thesis using cases'(1) [OF 1] r by simp
  next
    case 2
    then have "Suc (Suc 0) \<le> length r" using room cases'(2) [OF 2] by simp
    then obtain s2 s3 rest where r: "r = s2 # s3 # rest" by (blast dest: front)
    let ?s0 = "of_nat (cp div 64 + 192) :: u8" and ?s1 = "of_nat (cp mod 64 + 128) :: u8"
    have d: "cp div 64 < 32" using 2 by (simp add: less_mult_imp_div_less)
    then have s0: "unat ?s0 = cp div 64 + 192" by (intro unat_of_nat_u8) linarith
    have "utf8_decode (?s0 # ?s1 # s2 # s3 # rest) = (cp, 0, 2)"
    proof (rule utf8_decode_length)
      show "code_point_length ?s0 = 2" by (rule lead_length(2); use s0 d in linarith)
      show "decode_code_point 2 [?s0, ?s1, s2, s3] = cp"
        unfolding decode_code_point_2 s0 tail_byte offset_mod(1) offset_mod(2) [OF d] by (rule div_mult_mod_eq)
      show "decode_error 2 cp [?s0, ?s1, s2, s3] = 0"
        using top 2 by (intro decode_error_zero) (simp_all only: tail_byte, simp_all add: decode_mins_def)
    qed
    then show ?thesis using cases'(2) [OF 2] r by simp
  next
    case 3
    then have "Suc 0 \<le> length r" using room cases'(3) [OF 3] by simp
    then obtain s3 rest where r: "r = s3 # rest" by (blast dest: front)
    let ?s0 = "of_nat (cp div 4096 + 224) :: u8" and ?s1 = "of_nat (cp div 64 mod 64 + 128) :: u8" and ?s2 = "of_nat (cp mod 64 + 128) :: u8"
    have d: "cp div 4096 < 16" using 3 by (simp add: less_mult_imp_div_less)
    then have s0: "unat ?s0 = cp div 4096 + 224" by (intro unat_of_nat_u8) linarith
    have "utf8_decode (?s0 # ?s1 # ?s2 # s3 # rest) = (cp, 0, 3)"
    proof (rule utf8_decode_length)
      show "code_point_length ?s0 = 3" by (rule lead_length(3); use s0 d in linarith)
      show "decode_code_point 3 [?s0, ?s1, ?s2, s3] = cp"
        unfolding decode_code_point_3 s0 tail_byte offset_mod(1) offset_mod(3) [OF d] by (rule fields)
      show "decode_error 3 cp [?s0, ?s1, ?s2, s3] = 0"
        using top 3 by (intro decode_error_zero) (simp_all only: tail_byte, simp_all add: decode_mins_def)
    qed
    then show ?thesis using cases'(3) [OF 3] r by simp
  next
    case 4
    let ?s0 = "of_nat (cp div 262144 + 240) :: u8" and ?s1 = "of_nat (cp div 4096 mod 64 + 128) :: u8"
      and ?s2 = "of_nat (cp div 64 mod 64 + 128) :: u8" and ?s3 = "of_nat (cp mod 64 + 128) :: u8"
    have d: "cp div 262144 < 8" using top(1) by (simp add: less_mult_imp_div_less)
    then have s0: "unat ?s0 = cp div 262144 + 240" by (intro unat_of_nat_u8) linarith
    have "utf8_decode (?s0 # ?s1 # ?s2 # ?s3 # r) = (cp, 0, 4)"
    proof (rule utf8_decode_length)
      show "code_point_length ?s0 = 4" by (rule lead_length(4); use s0 d in linarith)
      show "decode_code_point 4 [?s0, ?s1, ?s2, ?s3] = cp"
        unfolding decode_code_point_4 s0 tail_byte offset_mod(1) offset_mod(4) [OF d] by (rule fields)
      show "decode_error 4 cp [?s0, ?s1, ?s2, ?s3] = 0"
        using top 4 by (intro decode_error_zero) (simp_all only: tail_byte, simp_all add: decode_mins_def)
    qed
    then show ?thesis using cases'(4) [OF 4] by simp
  qed
qed

text \<open>A byte that cannot begin a character is decoded as one without an error.\<close>

lemma stray_byte_accepted:
  assumes "128 \<le> unat b" "unat b < 192" "4 \<le> length (b # r)"
  shows "\<exists>c. utf8_decode (b # r) = (c, 0, 1)"
proof -
  have "Suc (Suc (Suc 0)) \<le> length r" using assms(3) by simp
  then obtain s1 s2 s3 rest where r: "r = s1 # s2 # s3 # rest" by (blast dest: front)
  have k: "unat b div 8 < 32" using unat_u8 [of b] by simp
  have len: "code_point_length b = 1"
    using lead_class_cases [OF k] assms(2) by (simp add: lead_class_def code_point_length_def drop_bit_eq_div div_less_iff_less_mult)
  define c where "c = unat b mod 128"
  have "c < 128" by (simp add: c_def)
  then have "decode_error 1 c [b, s1, s2, s3] = 0" by (intro decode_error_zero) (simp_all add: decode_mins_def drop_bit_eq_div)
  then have "utf8_decode (b # r) = (c, 0, 1)" unfolding r c_def by (rule utf8_decode_length [OF len decode_code_point_1])
  then show ?thesis ..
qed

section \<open>The walk over the code points\<close>

definition invalid_code_point :: nat where
  "invalid_code_point = 2 ^ 32 - 1"

text \<open>\<open>decode\<close> of \<open>for_each_codepoint\<close>, for a function that returns true; \<open>f\<close> folds over the code points.\<close>

definition decode_step :: "(nat \<Rightarrow> 'a \<Rightarrow> 'a) \<Rightarrow> u8 list \<Rightarrow> 'a \<Rightarrow> nat \<times> 'a" where
  "decode_step f buf x = (case utf8_decode buf of (cp, error, n) \<Rightarrow> (n, f (if error \<noteq> 0 then invalid_code_point else cp) x))"

lemma code_point_length_pos: "0 < code_point_length b"
  by (cases "code_point_lengths ! drop_bit 3 (unat b) = 0") (simp_all add: code_point_length_def Let_def)

lemma decode_step_advances: "(n, y) = decode_step f buf x \<Longrightarrow> 0 < n"
  using code_point_length_pos [of "buf ! 0"] by (simp add: decode_step_def utf8_decode_def Let_def)

text \<open>The loop over the blocks, with the position; it ends within the last three bytes or behind the text.\<close>

function block_loop :: "(nat \<Rightarrow> 'a \<Rightarrow> 'a) \<Rightarrow> u8 list \<Rightarrow> nat \<Rightarrow> 'a \<Rightarrow> nat \<times> 'a" where
  "block_loop f s p x =
     (if p + 4 \<le> length s then (case decode_step f (drop p s) x of (n, x) \<Rightarrow> block_loop f s (p + n) x) else (p, x))"
  by pat_completeness auto
termination by (relation "measure (\<lambda>(f, s, p, x). length s - p)") (auto dest: decode_step_advances)

declare block_loop.simps [simp del]

text \<open>The loop over the last bytes, which are in a buffer of seven bytes, the rest zero.\<close>

function tail_loop :: "(nat \<Rightarrow> 'a \<Rightarrow> 'a) \<Rightarrow> nat \<Rightarrow> u8 list \<Rightarrow> nat \<Rightarrow> 'a \<Rightarrow> 'a" where
  "tail_loop f left buf p x =
     (case decode_step f (drop p buf) x of (n, x) \<Rightarrow> if p + n < left then tail_loop f left buf (p + n) x else x)"
  by pat_completeness auto
termination by (relation "measure (\<lambda>(f, left, buf, p, x). left - p)") (auto dest: decode_step_advances)

declare tail_loop.simps [simp del]

definition for_each_codepoint :: "(nat \<Rightarrow> 'a \<Rightarrow> 'a) \<Rightarrow> u8 list \<Rightarrow> 'a \<Rightarrow> 'a" where
  "for_each_codepoint f s x =
     (case (if length s \<ge> 4 then block_loop f s 0 x else (0, x)) of (p, x) \<Rightarrow>
        if length s - p \<noteq> 0
        then (let num_chars_left = length s - p in tail_loop f num_chars_left (drop p s @ replicate (7 - num_chars_left) 0) 0 x)
        else x)"

text \<open>The display width.\<close>

definition code_point_width :: "nat \<Rightarrow> nat" where
  "code_point_width cp =
     1 + of_bool (cp \<ge> 0x1100 \<and>
       (cp \<le> 0x115f \<or> cp = 0x2329 \<or> cp = 0x232a \<or>
        (cp \<ge> 0x2e80 \<and> cp \<le> 0xa4cf \<and> cp \<noteq> 0x303f) \<or>
        (cp \<ge> 0xac00 \<and> cp \<le> 0xd7a3) \<or>
        (cp \<ge> 0xf900 \<and> cp \<le> 0xfaff) \<or>
        (cp \<ge> 0xfe10 \<and> cp \<le> 0xfe19) \<or>
        (cp \<ge> 0xfe30 \<and> cp \<le> 0xfe6f) \<or>
        (cp \<ge> 0xff00 \<and> cp \<le> 0xff60) \<or>
        (cp \<ge> 0xffe0 \<and> cp \<le> 0xffe6) \<or>
        (cp \<ge> 0x20000 \<and> cp \<le> 0x2fffd) \<or>
        (cp \<ge> 0x30000 \<and> cp \<le> 0x3fffd) \<or>
        (cp \<ge> 0x1f300 \<and> cp \<le> 0x1f64f) \<or>
        (cp \<ge> 0x1f900 \<and> cp \<le> 0x1f9ff)))"

definition compute_width :: "u8 list \<Rightarrow> nat" where
  "compute_width s = for_each_codepoint (\<lambda>cp num_code_points. num_code_points + code_point_width cp) s 0"

text \<open>On encoded text the walk visits the code points in order.\<close>

definition encoded :: "nat list \<Rightarrow> u8 list" where
  "encoded cps = concat (map utf8_text cps)"

lemma encoded_simps [simp]: "encoded [] = []" "encoded (cp # cps) = utf8_text cp @ encoded cps"
  by (simp_all add: encoded_def)

lemma encoded_append: "encoded (xs @ ys) = encoded xs @ encoded ys"
  by (simp add: encoded_def)

lemma utf8_text_pos: "is_code_point_valid cp \<Longrightarrow> 0 < length (utf8_text cp)"
  using utf8_append_nonempty by simp

lemma decode_step_text:
  "is_code_point_valid cp \<Longrightarrow> 4 \<le> length (utf8_text cp @ r) \<Longrightarrow>
    decode_step f (utf8_text cp @ r) x = (length (utf8_text cp), f cp x)"
  by (simp add: decode_step_def utf8_decode_text)

lemma block_loop_text:
  "list_all is_code_point_valid cps \<Longrightarrow> s = pre @ encoded cps \<Longrightarrow>
    \<exists>done rest. cps = done @ rest \<and> length (encoded rest) < 4
      \<and> block_loop f s (length pre) x = (length s - length (encoded rest), fold f done x)"
proof (induction cps arbitrary: pre x)
  case Nil
  then show ?case by (simp add: block_loop.simps)
next
  case (Cons cp cps)
  show ?case
  proof (cases "4 \<le> length (encoded (cp # cps))")
    case False
    then show ?thesis using Cons.prems by (intro exI [of _ "[]"] exI [of _ "cp # cps"]) (simp add: block_loop.simps)
  next
    case True
    have valid: "is_code_point_valid cp" "list_all is_code_point_valid cps" using Cons.prems(1) by simp_all
    have s: "s = (pre @ utf8_text cp) @ encoded cps" using Cons.prems(2) by simp
    from Cons.IH [OF valid(2) s, of "f cp x"] obtain vis rest where ih: "cps = vis @ rest" "length (encoded rest) < 4"
        "block_loop f s (length (pre @ utf8_text cp)) (f cp x) = (length s - length (encoded rest), fold f vis (f cp x))"
      by blast
    have "block_loop f s (length pre) x = block_loop f s (length (pre @ utf8_text cp)) (f cp x)"
      using True Cons.prems(2) decode_step_text [OF valid(1), of "encoded cps" f x] by (subst block_loop.simps) simp
    then show ?thesis using ih by (intro exI [of _ "cp # vis"] exI [of _ rest]) simp
  qed
qed

lemma tail_loop_text:
  "list_all is_code_point_valid cps \<Longrightarrow> cps \<noteq> [] \<Longrightarrow> buf = pre @ encoded cps @ replicate k 0 \<Longrightarrow> 3 \<le> k \<Longrightarrow>
    tail_loop f (length (pre @ encoded cps)) buf (length pre) x = fold f cps x"
proof (induction cps arbitrary: pre x)
  case (Cons cp cps)
  have valid: "is_code_point_valid cp" "list_all is_code_point_valid cps" using Cons.prems(1) by simp_all
  have "decode_step f (drop (length pre) buf) x = (length (utf8_text cp), f cp x)"
    using decode_step_text [OF valid(1), of "encoded cps @ replicate k 0" f x] utf8_text_pos [OF valid(1)] Cons.prems(3,4) by simp
  note step = this
  show ?case
  proof (cases "cps = []")
    case True
    then show ?thesis using step by (subst tail_loop.simps) simp
  next
    case False
    then have "0 < length (encoded cps)" using valid(2) utf8_text_pos by (cases cps) auto
    moreover have "tail_loop f (length ((pre @ utf8_text cp) @ encoded cps)) buf (length (pre @ utf8_text cp)) (f cp x) = fold f cps (f cp x)"
      using Cons.prems(3,4) by (intro Cons.IH [OF valid(2) False]) simp_all
    ultimately show ?thesis using step by (subst tail_loop.simps) simp
  qed
qed simp

lemma for_each_codepoint_text:
  assumes "list_all is_code_point_valid cps"
  shows "for_each_codepoint f (encoded cps) x = fold f cps x"
proof -
  have "\<exists>vis rest. cps = vis @ rest \<and> length (encoded rest) < 4
      \<and> (if length (encoded cps) \<ge> 4 then block_loop f (encoded cps) 0 x else (0, x)) =
        (length (encoded cps) - length (encoded rest), fold f vis x)"
  proof (cases "4 \<le> length (encoded cps)")
    case True
    then show ?thesis using block_loop_text [OF assms, of "encoded cps" "[]" f x] by simp
  next
    case False
    then show ?thesis by (intro exI [of _ "[]"] exI [of _ cps]) simp
  qed
  then obtain vis rest where parts: "cps = vis @ rest" "length (encoded rest) < 4"
      "(if length (encoded cps) \<ge> 4 then block_loop f (encoded cps) 0 x else (0, x)) =
        (length (encoded cps) - length (encoded rest), fold f vis x)" by blast
  have split: "length (encoded cps) - (length (encoded cps) - length (encoded rest)) = length (encoded rest)"
      "drop (length (encoded cps) - length (encoded rest)) (encoded cps) = encoded rest"
    by (simp_all add: parts(1) encoded_append)
  have valid: "list_all is_code_point_valid rest" using assms parts(1) by simp
  show ?thesis
  proof (cases "rest = []")
    case True
    then show ?thesis unfolding for_each_codepoint_def parts(3) by (simp add: parts(1))
  next
    case False
    then have pos: "0 < length (encoded rest)" using valid utf8_text_pos by (cases rest) auto
    have "tail_loop f (length (encoded rest)) (encoded rest @ replicate (7 - length (encoded rest)) 0) 0 (fold f vis x) = fold f rest (fold f vis x)"
      using tail_loop_text [OF valid False, of _ "[]" "7 - length (encoded rest)" f "fold f vis x"] parts(2) by simp
    then show ?thesis using pos unfolding for_each_codepoint_def parts(3) by (simp add: split, simp add: parts(1) encoded_append)
  qed
qed

lemma fold_add_width: "fold (\<lambda>cp n. n + code_point_width cp) cps n = n + sum_list (map code_point_width cps)"
  by (induction cps arbitrary: n) simp_all

lemma compute_width_text:
  "list_all is_code_point_valid cps \<Longrightarrow> compute_width (encoded cps) = sum_list (map code_point_width cps)"
  by (simp add: compute_width_def for_each_codepoint_text fold_add_width)

section \<open>Writing a text\<close>

text \<open>\<open>code_point_index\<close> for \<^verbatim>\<open>char\<close> strings counts bytes; the precision thus may cut a character.\<close>

definition code_point_index :: "string \<Rightarrow> nat \<Rightarrow> nat" where
  "code_point_index s n = (let size = length s in if n < size then n else size)"

definition write_string :: "string \<Rightarrow> format_specs \<Rightarrow> string" where
  "write_string s specs =
     (let size = (if sp_precision specs \<ge> 0 \<and> nat (sp_precision specs) < length s
                  then code_point_index s (nat (sp_precision specs)) else length s);
          width = (if sp_width specs \<noteq> 0 then compute_width (bytes (take size s)) else 0)
      in write_padded False specs width (take size s))"

lemma fill_char: "fill n [c] = replicate n c"
  by (induction n) (simp_all add: fill_def)

text \<open>Text of code points, and one of a single byte.\<close>

definition utf8_string :: "nat list \<Rightarrow> string" where
  "utf8_string cps = chars (encoded cps)"

lemma utf8_string_append: "utf8_string (xs @ ys) = utf8_string xs @ utf8_string ys"
  by (simp add: utf8_string_def encoded_append)

lemma utf8_string_char:
  assumes "(of_char c :: nat) < 128"
  shows "utf8_string [of_char c] = [c]" "is_code_point_valid (of_char c)" "code_point_width (of_char c) = 1"
proof -
  show valid: "is_code_point_valid (of_char c)"
    using assms by (simp add: is_code_point_valid_def CODE_POINT_MAX_def is_surrogate_def LEAD_SURROGATE_MIN_def)
  show "utf8_string [of_char c] = [c]"
    using utf8_append_cases(1) [OF valid] assms by (simp add: utf8_string_def char_of_byte_def unat_of_nat_u8)
  show "code_point_width (of_char c) = 1" using assms by (simp add: code_point_width_def)
qed

lemma utf8_string_replicate:
  "(of_char c :: nat) < 128 \<Longrightarrow> utf8_string (replicate n (of_char c)) = replicate n c"
proof (induction n)
  case (Suc n)
  then show ?case using utf8_string_append [of "[of_char c]" "replicate n (of_char c)"] by (simp add: utf8_string_char(1))
qed (simp add: utf8_string_def)

definition columns :: "nat list \<Rightarrow> nat" where
  "columns cps = sum_list (map code_point_width cps)"

lemma compute_width_string:
  "list_all is_code_point_valid cps \<Longrightarrow> compute_width (bytes (utf8_string cps)) = columns cps"
  by (simp add: utf8_string_def compute_width_text columns_def)

lemma write_string_wide:
  "list_all is_code_point_valid cps \<Longrightarrow> sp_precision specs < 0 \<Longrightarrow> sp_width specs \<le> columns cps \<Longrightarrow>
    write_string (utf8_string cps) specs = utf8_string cps"
  by (simp add: write_string_def write_padded_def compute_width_string fill_def)



end
