(* ===== verification/Fmt_Format.thy ===== *)
theory Fmt_Format
  imports Fmt_Utf8
begin

text \<open>
  \<open>fmt::format\<close>: the parser of format strings, \<^verbatim>\<open>src/deps/fmt/include/fmt/core.h\<close>, and the handlers that
  write the arguments, \<^verbatim>\<open>format.h\<close>. A position in the format string is the rest of the string. What the
  handlers report through \<open>on_error\<close> is thrown as a \<open>format_error\<close>, here \<open>Inl\<close> with its message. The
  arguments are integers, booleans, characters and strings; floating-point numbers, pointers, custom types
  and named arguments, which the program does not format, are not modelled, and the locale is the classic
  one, which groups no digits.
\<close>

unbundle bit_operations_syntax

section \<open>Arguments\<close>

text \<open>An integer with its width and signedness.\<close>

datatype fmt_arg = Arg_int bool bool int | Arg_bool bool | Arg_char char | Arg_string string

datatype arg_type = Int_type | Uint_type | Long_long_type | Ulong_long_type | Bool_type | Char_type | String_type

fun arg_type_of :: "fmt_arg \<Rightarrow> arg_type" where
  "arg_type_of (Arg_int wide sg v) =
     (if wide then (if sg then Long_long_type else Ulong_long_type) else (if sg then Int_type else Uint_type))"
| "arg_type_of (Arg_bool b) = Bool_type"
| "arg_type_of (Arg_char c) = Char_type"
| "arg_type_of (Arg_string s) = String_type"

definition is_integral_type :: "arg_type \<Rightarrow> bool" where
  "is_integral_type t \<longleftrightarrow> t \<in> {Int_type, Uint_type, Long_long_type, Ulong_long_type, Bool_type, Char_type}"

definition is_arithmetic_type :: "arg_type \<Rightarrow> bool" where
  "is_arithmetic_type t \<longleftrightarrow> t \<in> {Int_type, Uint_type, Long_long_type, Ulong_long_type, Bool_type, Char_type}"

section \<open>Writing an argument\<close>

text \<open>The number of digits in a base \<open>2\<^sup>b\<close> and the digits, from the end of a buffer; the bases are
  two, eight and sixteen.\<close>

datatype radix = Bin | Oct | Hex

definition base_bits :: "radix \<Rightarrow> nat" where
  "base_bits r = (case r of Bin \<Rightarrow> 1 | Oct \<Rightarrow> 3 | Hex \<Rightarrow> 4)"

lemma base_bits_pos: "0 < base_bits r"
  by (simp add: base_bits_def split: radix.split)

lemma drop_base_bits: "0 < drop_bit (base_bits r) m \<Longrightarrow> drop_bit (base_bits r) m < (m::nat)"
  using base_bits_pos [of r] by (cases "m = 0") (auto simp: drop_bit_eq_div intro!: div_less_dividend one_less_power)

function count_base_digits_loop :: "radix \<Rightarrow> nat \<Rightarrow> nat \<Rightarrow> nat" where
  "count_base_digits_loop r num_digits m =
     (let num_digits = num_digits + 1; m = drop_bit (base_bits r) m in
      if m \<noteq> 0 then count_base_digits_loop r num_digits m else num_digits)"
  by pat_completeness auto
termination by (relation "measure (\<lambda>(r, n, m). m)") (auto dest: drop_base_bits)

declare count_base_digits_loop.simps [simp del]

definition count_base_digits :: "bool \<Rightarrow> radix \<Rightarrow> nat \<Rightarrow> nat" where
  "count_base_digits wide r n =
     (if \<not> wide then (builtin_clz 32 (n OR 1) XOR 31) div base_bits r + 1
      else count_base_digits_loop r 0 n)"

function format_uint_loop :: "radix \<Rightarrow> bool \<Rightarrow> nat \<Rightarrow> nat \<Rightarrow> string \<Rightarrow> string" where
  "format_uint_loop r upper p v buf =
     (let digits = (if upper then ''0123456789ABCDEF'' else ''0123456789abcdef'');
          digit = v AND (push_bit (base_bits r) 1 - 1);
          buf = buf[p - 1 := (if base_bits r < 4 then char_of (48 + digit) else digits ! digit)];
          v = drop_bit (base_bits r) v
      in if v \<noteq> 0 then format_uint_loop r upper (p - 1) v buf else buf)"
  by pat_completeness auto
termination by (relation "measure (\<lambda>(r, upper, p, v, buf). v)") (auto dest: drop_base_bits)

declare format_uint_loop.simps [simp del]

definition format_uint :: "radix \<Rightarrow> nat \<Rightarrow> nat \<Rightarrow> bool \<Rightarrow> string" where
  "format_uint r v num_digits upper = format_uint_loop r upper num_digits v (replicate num_digits (CHR 0x00))"

definition write_radix :: "bool \<Rightarrow> radix \<Rightarrow> bool \<Rightarrow> nat \<Rightarrow> string \<Rightarrow> format_specs \<Rightarrow> string" where
  "write_radix wide r upper abs_value prefix specs =
     (let num_digits = count_base_digits wide r abs_value
      in write_int num_digits prefix specs (format_uint r abs_value num_digits upper))"

definition write_char :: "char \<Rightarrow> format_specs \<Rightarrow> string" where
  "write_char c specs = write_padded False specs 1 [c]"

text \<open>\<open>write_int_localized\<close> with the empty grouping of the classic locale.\<close>

definition write_int_localized :: "bool \<Rightarrow> nat \<times> string \<Rightarrow> format_specs \<Rightarrow> string option" where
  "write_int_localized wide arg specs =
     (case arg of (abs_value, prefix) \<Rightarrow>
        (let num_digits = nat (count_digits True abs_value) in
         case format_decimal True (replicate 40 (CHR 0x00)) abs_value num_digits of
           None \<Rightarrow> None
         | Some (begin', end', digits) \<Rightarrow>
             (let sz = (if prefix \<noteq> [] then 1 else 0) + num_digits
              in Some (write_padded True specs sz (prefix @ take num_digits digits)))))"

definition from_option :: "string \<Rightarrow> 'a option \<Rightarrow> string + 'a" where
  "from_option msg r = (case r of None \<Rightarrow> Inl msg | Some x \<Rightarrow> Inr x)"

definition write_integer :: "bool \<Rightarrow> nat \<times> string \<Rightarrow> format_specs \<Rightarrow> string + string" where
  "write_integer wide arg specs =
     (case arg of (abs_value, prefix) \<Rightarrow>
        (case sp_type specs of
           Type_none \<Rightarrow>
             from_option ''invalid digit count''
               (if sp_localized specs then write_int_localized wide arg specs else write_dec wide arg specs)
         | Type_dec \<Rightarrow>
             from_option ''invalid digit count''
               (if sp_localized specs then write_int_localized wide arg specs else write_dec wide arg specs)
         | Type_hex_lower \<Rightarrow> Inr (write_radix wide Hex False abs_value (if sp_alt specs then prefix @ ''0x'' else prefix) specs)
         | Type_hex_upper \<Rightarrow> Inr (write_radix wide Hex True abs_value (if sp_alt specs then prefix @ ''0X'' else prefix) specs)
         | Type_bin_lower \<Rightarrow> Inr (write_radix wide Bin False abs_value (if sp_alt specs then prefix @ ''0b'' else prefix) specs)
         | Type_bin_upper \<Rightarrow> Inr (write_radix wide Bin False abs_value (if sp_alt specs then prefix @ ''0B'' else prefix) specs)
         | Type_oct \<Rightarrow>
             (let num_digits = count_base_digits wide Oct abs_value;
                  prefix = (if sp_alt specs \<and> sp_precision specs \<le> int num_digits \<and> abs_value \<noteq> 0 then prefix @ ''0'' else prefix)
              in Inr (write_radix wide Oct False abs_value prefix specs))
         | Type_chr \<Rightarrow> Inr (write_char (char_of (abs_value mod 256)) specs)
         | _ \<Rightarrow> Inl ''invalid type specifier''))"

text \<open>The writers of the argument types: \<^verbatim>\<open>char\<close> is signed.\<close>

definition check_int_type_spec :: "presentation_type \<Rightarrow> string + unit" where
  "check_int_type_spec t =
     (if t \<in> {Type_none, Type_dec, Type_oct, Type_hex_lower, Type_hex_upper, Type_bin_lower, Type_bin_upper, Type_chr}
      then Inr () else Inl ''invalid type specifier'')"

definition check_char_specs :: "format_specs \<Rightarrow> string + bool" where
  "check_char_specs specs =
     (if sp_type specs \<noteq> Type_none \<and> sp_type specs \<noteq> Type_chr
      then err_bind (check_int_type_spec (sp_type specs)) (\<lambda>_. Inr False)
      else if sp_align specs = Align_numeric \<or> sp_sign specs \<noteq> Sign_none \<or> sp_alt specs
      then Inl ''invalid format specifier for char'' else Inr True)"

definition check_string_type_spec :: "presentation_type \<Rightarrow> string + unit" where
  "check_string_type_spec t = (if t \<noteq> Type_none \<and> t \<noteq> Type_string then Inl ''invalid type specifier'' else Inr ())"

fun write_arg :: "format_specs \<Rightarrow> fmt_arg \<Rightarrow> string + string" where
  "write_arg specs (Arg_int wide sg v) = write_integer wide (make_write_int_arg wide v (sp_sign specs)) specs"
| "write_arg specs (Arg_bool b) =
     (if sp_type specs \<noteq> Type_none \<and> sp_type specs \<noteq> Type_string
      then write_integer False (make_write_int_arg False (if b then 1 else 0) (sp_sign specs)) specs
      else (let s = (if b then ''true'' else ''false'') in Inr (write_padded False specs (length s) s)))"
| "write_arg specs (Arg_char c) =
     err_bind (check_char_specs specs) (\<lambda>as_char.
       if as_char then Inr (write_char c specs)
       else write_integer False (make_write_int_arg False (int_wrap 8 (of_char c)) (sp_sign specs)) specs)"
| "write_arg specs (Arg_string s) = err_bind (check_string_type_spec (sp_type specs)) (\<lambda>_. Inr (write_string s specs))"

text \<open>The default formatter; \<open>write\<close> of an integer without specifications.\<close>

definition write_plain_int :: "bool \<Rightarrow> int \<Rightarrow> string option" where
  "write_plain_int wide v =
     (let w = (if wide then 64 else 32);
          abs_value = nat (v mod 2 ^ w);
          negative = v < 0;
          abs_value = (if negative then (2 ^ w - 1 - abs_value + 1) mod 2 ^ w else abs_value);
          num_digits = nat (count_digits wide abs_value)
      in map_option (\<lambda>(begin', end', digits). (if negative then ''-'' else []) @ digits)
           (format_decimal wide (replicate num_digits (CHR 0x00)) abs_value num_digits))"

fun default_format :: "fmt_arg \<Rightarrow> string + string" where
  "default_format (Arg_int wide sg v) = from_option ''invalid digit count'' (write_plain_int wide v)"
| "default_format (Arg_bool b) = Inr (if b then ''true'' else ''false'')"
| "default_format (Arg_char c) = Inr [c]"
| "default_format (Arg_string s) = Inr s"

section \<open>Parsing numbers and argument ids\<close>

definition is_digit :: "char \<Rightarrow> bool" where
  "is_digit c \<longleftrightarrow> 48 \<le> (of_char c :: nat) \<and> (of_char c :: nat) \<le> 57"

definition is_ascii_letter :: "char \<Rightarrow> bool" where
  "is_ascii_letter c \<longleftrightarrow>
     (97 \<le> (of_char c :: nat) \<and> (of_char c :: nat) \<le> 122) \<or> (65 \<le> (of_char c :: nat) \<and> (of_char c :: nat) \<le> 90)"

text \<open>The loop of \<open>parse_nonnegative_int\<close>: \<open>value\<close>, \<open>prev\<close> and the position.\<close>

fun nonnegative_loop :: "nat \<Rightarrow> nat \<Rightarrow> string \<Rightarrow> nat \<times> nat \<times> string" where
  "nonnegative_loop v prev [] = (v, prev, [])"
| "nonnegative_loop v prev (c # p) =
     (if is_digit c then nonnegative_loop ((v * 10 + (of_char c - 48)) mod 2 ^ 32) v p else (v, prev, c # p))"

definition int_max :: nat where "int_max = 2 ^ 31 - 1"

text \<open>\<open>None\<close> is the error value.\<close>

definition parse_nonnegative_int :: "string \<Rightarrow> nat option \<times> string" where
  "parse_nonnegative_int begin' =
     (case nonnegative_loop 0 0 begin' of
        (v, prev, p) \<Rightarrow>
          (let num_digits = length begin' - length p in
           if num_digits \<le> 9 then (Some v, p)
           else if num_digits = 10 \<and> prev * 10 + (of_char (begin' ! (num_digits - 1)) - 48) \<le> int_max then (Some v, p)
           else (None, p)))"

definition is_name_start :: "char \<Rightarrow> bool" where
  "is_name_start c \<longleftrightarrow> is_ascii_letter c \<or> c = CHR ''_''"

datatype arg_id = Auto_id | Index_id nat | Name_id string

definition invalid_format :: string where
  "invalid_format = ''invalid format string''"

definition do_parse_arg_id :: "string \<Rightarrow> string + arg_id \<times> string" where
  "do_parse_arg_id begin' =
     (let c = hd begin' in
      if is_digit c then
        (let (index, p) =
               (if c \<noteq> CHR ''0'' then (case parse_nonnegative_int begin' of (v, p) \<Rightarrow> (case v of None \<Rightarrow> int_max | Some v \<Rightarrow> v, p))
                else (0, tl begin'))
         in if p = [] \<or> (hd p \<noteq> CHR ''}'' \<and> hd p \<noteq> CHR '':'') then Inl invalid_format else Inr (Index_id index, p))
      else if \<not> is_name_start c then Inl invalid_format
      else
        (let name = hd begin' # takeWhile (\<lambda>c. is_name_start c \<or> is_digit c) (tl begin')
         in Inr (Name_id name, drop (length name) begin')))"

definition parse_arg_id :: "string \<Rightarrow> string + arg_id \<times> string" where
  "parse_arg_id begin' =
     (let c = hd begin' in
      if c \<noteq> CHR ''}'' \<and> c \<noteq> CHR '':'' then do_parse_arg_id begin' else Inr (Auto_id, begin'))"

text \<open>The indexing of the arguments, automatic or manual: \<open>next_arg_id_\<close> is -1 when it is manual.\<close>

definition next_arg_id :: "int \<Rightarrow> string + nat \<times> int" where
  "next_arg_id n = (if n \<ge> 0 then Inr (nat n, n + 1) else Inl ''cannot switch from manual to automatic argument indexing'')"

definition check_arg_id :: "int \<Rightarrow> string + int" where
  "check_arg_id n = (if n > 0 then Inl ''cannot switch from automatic to manual argument indexing'' else Inr (-1))"

definition get_arg :: "fmt_arg list \<Rightarrow> nat \<Rightarrow> string + fmt_arg" where
  "get_arg args id' = (if id' < length args then Inr (args ! id') else Inl ''argument not found'')"

text \<open>\<open>specs_handler::get_arg\<close> for the three kinds of id.\<close>

definition get_id_arg :: "fmt_arg list \<Rightarrow> arg_id \<Rightarrow> int \<Rightarrow> string + fmt_arg \<times> int" where
  "get_id_arg args id' n =
     (case id' of
        Auto_id \<Rightarrow> err_bind (next_arg_id n) (\<lambda>(i, n). err_bind (get_arg args i) (\<lambda>a. Inr (a, n)))
      | Index_id i \<Rightarrow> err_bind (check_arg_id n) (\<lambda>n. err_bind (get_arg args i) (\<lambda>a. Inr (a, n)))
      | Name_id _ \<Rightarrow> Inl ''argument not found'')"

text \<open>\<open>get_dynamic_spec\<close> with the checker of the width or the precision.\<close>

definition get_dynamic_spec :: "string \<Rightarrow> fmt_arg \<Rightarrow> string + nat" where
  "get_dynamic_spec what a =
     (case a of
        Arg_int wide sg v \<Rightarrow>
          (if v < 0 then Inl (''negative '' @ what)
           else if nat v > int_max then Inl ''number is too big'' else Inr (nat v))
      | _ \<Rightarrow> Inl (what @ '' is not integer''))"

section \<open>Parsing format specifications\<close>

text \<open>The state of the handler: the specifications and the indexing; the arguments are the context.\<close>

type_synonym specs_state = "format_specs \<times> int"

definition align_of :: "char \<Rightarrow> align" where
  "align_of c =
     (if c = CHR ''<'' then Align_left else if c = CHR ''>'' then Align_right else if c = CHR ''^'' then Align_center else Align_none)"

definition parse_align :: "string \<Rightarrow> format_specs \<Rightarrow> string + string \<times> format_specs" where
  "parse_align begin' specs =
     (let n = code_point_length (byte_of_char (hd begin'));
          p = (if n \<ge> length begin' then 0 else n)
      in if align_of (begin' ! p) \<noteq> Align_none \<and> p \<noteq> 0 then
           (if hd begin' = CHR ''{'' then Inl (''invalid fill character '' @ [CHR 0x27] @ [CHR 0x7B, CHR 0x27])
            else if p > 4 then Inl ''invalid fill''
            else Inr (drop (p + 1) begin', specs\<lparr>sp_fill := take p begin', sp_align := align_of (begin' ! p)\<rparr>))
         else if align_of (hd begin') \<noteq> Align_none then Inr (tl begin', specs\<lparr>sp_align := align_of (hd begin')\<rparr>)
         else Inr (begin', specs))"

text \<open>The width.\<close>

definition on_dynamic_width :: "fmt_arg list \<Rightarrow> arg_id \<Rightarrow> specs_state \<Rightarrow> string + specs_state" where
  "on_dynamic_width args id' st =
     (case st of (specs, n) \<Rightarrow>
        err_bind (get_id_arg args id' n) (\<lambda>(a, n).
        err_bind (get_dynamic_spec ''width'' a) (\<lambda>w. Inr (specs\<lparr>sp_width := w\<rparr>, n))))"

definition on_dynamic_precision :: "fmt_arg list \<Rightarrow> arg_id \<Rightarrow> specs_state \<Rightarrow> string + specs_state" where
  "on_dynamic_precision args id' st =
     (case st of (specs, n) \<Rightarrow>
        err_bind (get_id_arg args id' n) (\<lambda>(a, n).
        err_bind (get_dynamic_spec ''precision'' a) (\<lambda>w. Inr (specs\<lparr>sp_precision := int w\<rparr>, n))))"

definition closing_brace :: "string \<Rightarrow> string + string" where
  "closing_brace begin' = (if begin' = [] \<or> hd begin' \<noteq> CHR ''}'' then Inl invalid_format else Inr (tl begin'))"

definition parse_width :: "fmt_arg list \<Rightarrow> string \<Rightarrow> specs_state \<Rightarrow> string + string \<times> specs_state" where
  "parse_width args begin' st =
     (if is_digit (hd begin') then
        (case parse_nonnegative_int begin' of
           (Some width, p) \<Rightarrow> Inr (p, (fst st)\<lparr>sp_width := width\<rparr>, snd st)
         | (None, p) \<Rightarrow> Inl ''number is too big'')
      else if hd begin' = CHR ''{'' then
        (let p = tl begin' in
         err_bind (if p \<noteq> []
                   then err_bind (parse_arg_id p) (\<lambda>(id', p). err_bind (on_dynamic_width args id' st) (\<lambda>st. Inr (p, st)))
                   else Inr (p, st))
           (\<lambda>(p, st). err_bind (closing_brace p) (\<lambda>p. Inr (p, st))))
      else Inr (begin', st))"

text \<open>The precision; \<open>end_precision\<close> is checked against the type of the argument. The position is at the point.\<close>

definition parse_precision :: "fmt_arg list \<Rightarrow> arg_type \<Rightarrow> string \<Rightarrow> specs_state \<Rightarrow> string + string \<times> specs_state" where
  "parse_precision args t begin' st =
     (let p = tl begin' in
      err_bind
        (if p \<noteq> [] \<and> is_digit (hd p) then
           (case parse_nonnegative_int p of
              (Some precision, p) \<Rightarrow> Inr (p, (fst st)\<lparr>sp_precision := int precision\<rparr>, snd st)
            | (None, p) \<Rightarrow> Inl ''number is too big'')
         else if p \<noteq> [] \<and> hd p = CHR ''{'' then
           (let p = tl p in
            err_bind (if p \<noteq> []
                      then err_bind (parse_arg_id p) (\<lambda>(id', p). err_bind (on_dynamic_precision args id' st) (\<lambda>st. Inr (p, st)))
                      else Inr (p, st))
              (\<lambda>(p, st). err_bind (closing_brace p) (\<lambda>p. Inr (p, st))))
         else Inl ''missing precision specifier'')
        (\<lambda>(p, st). if is_integral_type t then Inl ''precision not allowed for this argument type'' else Inr (p, st)))"

definition parse_presentation_type :: "char \<Rightarrow> presentation_type" where
  "parse_presentation_type c =
     (if c = CHR ''d'' then Type_dec else if c = CHR ''o'' then Type_oct
      else if c = CHR ''x'' then Type_hex_lower else if c = CHR ''X'' then Type_hex_upper
      else if c = CHR ''b'' then Type_bin_lower else if c = CHR ''B'' then Type_bin_upper
      else if c = CHR ''a'' then Type_hexfloat_lower else if c = CHR ''A'' then Type_hexfloat_upper
      else if c = CHR ''e'' then Type_exp_lower else if c = CHR ''E'' then Type_exp_upper
      else if c = CHR ''f'' then Type_fixed_lower else if c = CHR ''F'' then Type_fixed_upper
      else if c = CHR ''g'' then Type_general_lower else if c = CHR ''G'' then Type_general_upper
      else if c = CHR ''c'' then Type_chr else if c = CHR ''s'' then Type_string
      else if c = CHR ''p'' then Type_pointer else Type_none)"

definition parse_type :: "string \<Rightarrow> specs_state \<Rightarrow> string + string \<times> specs_state" where
  "parse_type begin' st =
     (let type = parse_presentation_type (hd begin') in
      if type = Type_none then Inl ''invalid type specifier'' else Inr (tl begin', (fst st)\<lparr>sp_type := type\<rparr>, snd st))"

text \<open>The checks of \<open>specs_checker\<close>.\<close>

definition require_numeric_argument :: "arg_type \<Rightarrow> string + unit" where
  "require_numeric_argument t = err_check (is_arithmetic_type t) ''format specifier requires numeric argument''"

definition on_sign :: "arg_type \<Rightarrow> sign_t \<Rightarrow> format_specs \<Rightarrow> string + format_specs" where
  "on_sign t sg specs =
     err_bind (require_numeric_argument t) (\<lambda>_.
       if is_integral_type t \<and> t \<noteq> Int_type \<and> t \<noteq> Long_long_type \<and> t \<noteq> Char_type
       then Inl ''format specifier requires signed argument'' else Inr (specs\<lparr>sp_sign := sg\<rparr>))"

definition on_hash :: "arg_type \<Rightarrow> format_specs \<Rightarrow> string + format_specs" where
  "on_hash t specs = err_bind (require_numeric_argument t) (\<lambda>_. Inr (specs\<lparr>sp_alt := True\<rparr>))"

definition on_zero :: "arg_type \<Rightarrow> format_specs \<Rightarrow> string + format_specs" where
  "on_zero t specs = err_bind (require_numeric_argument t) (\<lambda>_.
     Inr (specs\<lparr>sp_align := (if sp_align specs = Align_none then Align_numeric else sp_align specs), sp_fill := (sp_fill specs)[0 := CHR ''0'']\<rparr>))"

definition on_localized :: "arg_type \<Rightarrow> format_specs \<Rightarrow> string + format_specs" where
  "on_localized t specs = err_bind (require_numeric_argument t) (\<lambda>_. Inr (specs\<lparr>sp_localized := True\<rparr>))"

definition sign_of :: "char \<Rightarrow> sign_t" where
  "sign_of c =
     (if c = CHR ''+'' then Sign_plus else if c = CHR ''-'' then Sign_minus else if c = CHR '' '' then Sign_space else Sign_none)"

text \<open>\<open>parse_format_specs\<close>, one step for each part; a step at the end of the string ends the parse.\<close>

definition and_then :: "string + string \<times> specs_state \<Rightarrow> (string \<Rightarrow> specs_state \<Rightarrow> string + string \<times> specs_state) \<Rightarrow> string + string \<times> specs_state" where
  "and_then r f = err_bind r (\<lambda>(p, st). if p = [] then Inr (p, st) else f p st)"

definition with_flag :: "bool \<Rightarrow> (format_specs \<Rightarrow> string + format_specs) \<Rightarrow> string \<Rightarrow> specs_state \<Rightarrow> string + string \<times> specs_state" where
  "with_flag present f p st =
     (if present then err_bind (f (fst st)) (\<lambda>specs. Inr (tl p, specs, snd st)) else Inr (p, st))"

definition parse_format_specs :: "fmt_arg list \<Rightarrow> arg_type \<Rightarrow> string \<Rightarrow> specs_state \<Rightarrow> string + string \<times> specs_state" where
  "parse_format_specs args t begin' st =
     (if 1 < length begin' \<and> begin' ! 1 = CHR ''}'' \<and> is_ascii_letter (hd begin') \<and> hd begin' \<noteq> CHR ''L'' then parse_type begin' st
      else if begin' = [] then Inr (begin', st)
      else
        and_then (err_bind (parse_align begin' (fst st)) (\<lambda>(p, specs). Inr (p, specs, snd st))) (\<lambda>p st.
        and_then (with_flag (sign_of (hd p) \<noteq> Sign_none) (on_sign t (sign_of (hd p))) p st) (\<lambda>p st.
        and_then (with_flag (hd p = CHR ''#'') (on_hash t) p st) (\<lambda>p st.
        and_then (with_flag (hd p = CHR ''0'') (on_zero t) p st) (\<lambda>p st.
        and_then (parse_width args p st) (\<lambda>p st.
        and_then (if hd p = CHR ''.'' then parse_precision args t p st else Inr (p, st)) (\<lambda>p st.
        err_bind (with_flag (hd p = CHR ''L'') (on_localized t) p st) (\<lambda>(p, st).
          if p \<noteq> [] \<and> hd p \<noteq> CHR ''}'' then parse_type p st else Inr (p, st)))))))))"

section \<open>Every parser returns a rest\<close>

text \<open>The rest is never longer than what was to parse; this is why the loops over the format string end.\<close>

definition rest_within :: "nat \<Rightarrow> string + string \<times> 'a \<Rightarrow> bool" where
  "rest_within n m = (case m of Inl _ \<Rightarrow> True | Inr (r, _) \<Rightarrow> length r \<le> n)"

lemma rest_within_simps [simp]: "rest_within n (Inl e)" "rest_within n (Inr (r, x)) \<longleftrightarrow> length r \<le> n"
  by (simp_all add: rest_within_def)

lemma rest_within_mono: "rest_within n m \<Longrightarrow> n \<le> n' \<Longrightarrow> rest_within n' m"
  by (auto simp: rest_within_def split: sum.splits)

lemma rest_within_bind:
  "rest_within n m \<Longrightarrow> (\<And>r x. length r \<le> n \<Longrightarrow> rest_within n (f (r, x))) \<Longrightarrow> rest_within n (err_bind m f)"
  by (cases m) auto

lemma rest_within_bind_any: "(\<And>x. rest_within n (f x)) \<Longrightarrow> rest_within n (err_bind m f)"
  by (cases m) simp_all

lemma rest_within_and_then:
  assumes m: "rest_within n m" and f: "\<And>q st. q \<noteq> [] \<Longrightarrow> rest_within (length q) (f q st)"
  shows "rest_within n (and_then m f)"
  unfolding and_then_def
proof (rule rest_within_bind [OF m])
  fix r :: string and st :: specs_state assume "length r \<le> n"
  then have "r \<noteq> [] \<Longrightarrow> rest_within n (f r st)" using rest_within_mono [OF f [of r st]] by blast
  then show "rest_within n (case (r, st) of (p, st) \<Rightarrow> if p = [] then Inr (p, st) else f p st)" using \<open>length r \<le> n\<close> by simp
qed

lemma length_nonnegative_loop: "length (snd (snd (nonnegative_loop v prev p))) \<le> length p"
  by (induction v prev p rule: nonnegative_loop.induct) auto

lemma length_parse_nonnegative_int: "length (snd (parse_nonnegative_int p)) \<le> length p"
  using length_nonnegative_loop [of 0 0 p] by (auto simp: parse_nonnegative_int_def Let_def split: prod.splits)

lemma length_parse_nonnegative_int': "parse_nonnegative_int p = (v, r) \<Longrightarrow> length r \<le> length p"
  using length_parse_nonnegative_int [of p] by simp

lemma within_parse_arg_id: "rest_within (length p) (map_sum id prod.swap (parse_arg_id p))"
  by (auto simp: parse_arg_id_def do_parse_arg_id_def Let_def dest: length_parse_nonnegative_int' split: prod.splits)

lemma within_arg_id_bind:
  "(\<And>i r. length r \<le> length p \<Longrightarrow> rest_within n (f (i, r))) \<Longrightarrow> rest_within n (err_bind (parse_arg_id p) f)"
  using within_parse_arg_id [of p] by (cases "parse_arg_id p") (auto split: prod.splits)

lemma within_closing_brace:
  "length p \<le> n \<Longrightarrow> rest_within n (err_bind (closing_brace p) (\<lambda>p. Inr (p, st)))"
  by (cases p) (simp_all add: closing_brace_def)

lemma within_dynamic:
  "length p \<le> n \<Longrightarrow> rest_within n
     (err_bind (if p \<noteq> [] then err_bind (parse_arg_id p) (\<lambda>(id', p). err_bind (g id') (\<lambda>st. Inr (p, st))) else Inr (p, st))
       (\<lambda>(p, st). err_bind (closing_brace p) (\<lambda>p. Inr (p, st))))"
proof (rule rest_within_bind)
  assume le: "length p \<le> n"
  have "rest_within n (err_bind (parse_arg_id p) (\<lambda>(id', p). err_bind (g id') (\<lambda>st. Inr (p, st))))"
    using le by (intro within_arg_id_bind) (auto intro: rest_within_bind_any)
  then show "rest_within n (if p \<noteq> [] then err_bind (parse_arg_id p) (\<lambda>(id', p). err_bind (g id') (\<lambda>st. Inr (p, st))) else Inr (p, st))"
    using le by simp
qed (auto intro: within_closing_brace)

lemma within_parse_width: "p \<noteq> [] \<Longrightarrow> rest_within (length p) (parse_width args p st)"
  using within_dynamic [of "tl p" "length p" "\<lambda>i. on_dynamic_width args i st" st]
  by (auto simp: parse_width_def Let_def dest: length_parse_nonnegative_int' split: prod.splits option.splits)

lemma within_parse_precision: "p \<noteq> [] \<Longrightarrow> rest_within (length p) (parse_precision args t p st)"
  unfolding parse_precision_def Let_def
proof (rule rest_within_bind)
  have n: "length (tl (tl p)) \<le> length p" by simp
  show "rest_within (length p)
     (if tl p \<noteq> [] \<and> is_digit (hd (tl p)) then
           (case parse_nonnegative_int (tl p) of
              (Some precision, p) \<Rightarrow> Inr (p, (fst st)\<lparr>sp_precision := int precision\<rparr>, snd st)
            | (None, p) \<Rightarrow> Inl ''number is too big'')
         else if tl p \<noteq> [] \<and> hd (tl p) = CHR ''{'' then
            err_bind (if tl (tl p) \<noteq> []
                      then err_bind (parse_arg_id (tl (tl p))) (\<lambda>(id', p). err_bind (on_dynamic_precision args id' st) (\<lambda>st. Inr (p, st)))
                      else Inr (tl (tl p), st))
              (\<lambda>(p, st). err_bind (closing_brace p) (\<lambda>p. Inr (p, st)))
         else Inl ''missing precision specifier'')"
    using within_dynamic [OF n, of "\<lambda>i. on_dynamic_precision args i st" st] length_parse_nonnegative_int [of "tl p"]
    by (auto split: prod.splits option.splits)
qed auto

lemma within_parse_type: "rest_within (length p) (parse_type p st)"
  by (simp add: parse_type_def Let_def)

lemma within_with_flag: "rest_within (length p) (with_flag b f p st)"
  by (auto simp: with_flag_def intro: rest_within_bind_any)

lemma within_parse_align: "rest_within (length p) (parse_align p specs)"
  by (simp add: parse_align_def Let_def)

lemma within_parse_format_specs: "rest_within (length p) (parse_format_specs args t p st)"
proof -
  have last: "rest_within (length q) (err_bind (with_flag b f q st) (\<lambda>(p, st). if p \<noteq> [] \<and> hd p \<noteq> CHR ''}'' then parse_type p st else Inr (p, st)))"
    for q b f st
    by (rule rest_within_bind [OF within_with_flag]) (auto intro: rest_within_mono [OF within_parse_type])
  have align: "rest_within (length p) (err_bind (parse_align p (fst st)) (\<lambda>(p, specs). Inr (p, specs, snd st)))"
    by (rule rest_within_bind [OF within_parse_align]) simp
  show ?thesis
    unfolding parse_format_specs_def
    by (auto intro!: within_parse_type rest_within_and_then align within_with_flag within_parse_width within_parse_precision last)
qed

section \<open>Replacement fields\<close>

text \<open>The state of \<open>format_handler\<close>: what is written, and the indexing.\<close>

type_synonym out_state = "string \<times> int"

definition on_text :: "string \<Rightarrow> out_state \<Rightarrow> out_state" where
  "on_text t st = (fst st @ t, snd st)"

definition on_arg_id :: "arg_id \<Rightarrow> out_state \<Rightarrow> string + nat \<times> out_state" where
  "on_arg_id id' st =
     (case id' of
        Auto_id \<Rightarrow> err_bind (next_arg_id (snd st)) (\<lambda>(i, n). Inr (i, fst st, n))
      | Index_id i \<Rightarrow> err_bind (check_arg_id (snd st)) (\<lambda>n. Inr (i, fst st, n))
      | Name_id _ \<Rightarrow> Inl ''argument not found'')"

definition on_replacement_field :: "fmt_arg list \<Rightarrow> nat \<Rightarrow> out_state \<Rightarrow> string + out_state" where
  "on_replacement_field args id' st =
     err_bind (get_arg args id') (\<lambda>a. err_bind (default_format a) (\<lambda>t. Inr (on_text t st)))"

definition missing_brace :: string where
  "missing_brace = ''missing '' @ [CHR 0x27, CHR 0x7D, CHR 0x27] @ '' in format string''"

definition unmatched_brace :: string where
  "unmatched_brace = ''unmatched '' @ [CHR 0x27, CHR 0x7D, CHR 0x27] @ '' in format string''"

definition on_format_specs :: "fmt_arg list \<Rightarrow> nat \<Rightarrow> string \<Rightarrow> out_state \<Rightarrow> string + string \<times> out_state" where
  "on_format_specs args id' begin' st =
     err_bind (get_arg args id') (\<lambda>a.
     err_bind (parse_format_specs args (arg_type_of a) begin' (format_specs_new, snd st)) (\<lambda>(p, specs, n).
       if p = [] \<or> hd p \<noteq> CHR ''}'' then Inl missing_brace
       else err_bind (write_arg specs a) (\<lambda>t. Inr (p, on_text t (fst st, n)))))"

text \<open>\<open>field_end\<close> is what follows the argument id.\<close>

definition field_end :: "fmt_arg list \<Rightarrow> arg_id \<Rightarrow> string \<Rightarrow> out_state \<Rightarrow> string + string \<times> out_state" where
  "field_end args id' p st =
     err_bind (on_arg_id id' st) (\<lambda>(i, st).
       let c = (if p \<noteq> [] then hd p else CHR 0x00) in
       if c = CHR ''}'' then err_bind (on_replacement_field args i st) (\<lambda>st. Inr (tl p, st))
       else if c = CHR '':'' then
         err_bind (on_format_specs args i (tl p) st) (\<lambda>(p, st).
           if p = [] \<or> hd p \<noteq> CHR ''}'' then Inl ''unknown format specifier'' else Inr (tl p, st))
       else Inl missing_brace)"

definition parse_replacement_field :: "fmt_arg list \<Rightarrow> string \<Rightarrow> out_state \<Rightarrow> string + string \<times> out_state" where
  "parse_replacement_field args begin' st =
     (let p = tl begin' in
      if p = [] then Inl invalid_format
      else if hd p = CHR ''}'' then
        err_bind (on_arg_id Auto_id st) (\<lambda>(i, st). err_bind (on_replacement_field args i st) (\<lambda>st. Inr (tl p, st)))
      else if hd p = CHR ''{'' then Inr (tl p, on_text ''{'' st)
      else err_bind (parse_arg_id p) (\<lambda>(id', p). field_end args id' p st))"

lemma within_on_format_specs: "rest_within (length p) (on_format_specs args i p st)"
  unfolding on_format_specs_def
  by (rule rest_within_bind_any, rule rest_within_bind [OF within_parse_format_specs]) (auto intro!: rest_within_bind_any)

lemma within_field_end: "rest_within (length q) (field_end args i q st)"
  unfolding field_end_def
proof (rule rest_within_bind_any, clarify, unfold Let_def)
  fix j out n
  have "rest_within (length q) (on_format_specs args j (tl q) (out, n))"
    by (rule rest_within_mono [OF within_on_format_specs]) simp
  then have "rest_within (length q) (err_bind (on_format_specs args j (tl q) (out, n)) (\<lambda>(p, st).
      if p = [] \<or> hd p \<noteq> CHR ''}'' then Inl ''unknown format specifier'' else Inr (tl p, st)))"
    by (rule rest_within_bind) auto
  moreover have "rest_within (length q) (err_bind (on_replacement_field args j (out, n)) (\<lambda>st. Inr (tl q, st)))"
    by (rule rest_within_bind_any) simp
  ultimately show "rest_within (length q)
    (if (if q \<noteq> [] then hd q else CHR 0x00) = CHR ''}'' then err_bind (on_replacement_field args j (out, n)) (\<lambda>st. Inr (tl q, st))
     else if (if q \<noteq> [] then hd q else CHR 0x00) = CHR '':'' then
       err_bind (on_format_specs args j (tl q) (out, n)) (\<lambda>(p, st).
         if p = [] \<or> hd p \<noteq> CHR ''}'' then Inl ''unknown format specifier'' else Inr (tl p, st))
     else Inl missing_brace)"
    by simp
qed

lemma within_parse_replacement_field: "p \<noteq> [] \<Longrightarrow> rest_within (length p - 1) (parse_replacement_field args p st)"
proof -
  have "rest_within (length (tl p)) (err_bind (parse_arg_id (tl p)) (\<lambda>(id', p). field_end args id' p st))"
    by (rule within_arg_id_bind) (auto intro: rest_within_mono [OF within_field_end])
  then show ?thesis
    unfolding parse_replacement_field_def Let_def by (auto intro!: rest_within_bind_any split: prod.splits)
qed

section \<open>The two loops over the format string\<close>

text \<open>The simple loop for short strings; \<open>text'\<close> is what lies between \<open>begin\<close> and the position.\<close>

function simple_loop :: "fmt_arg list \<Rightarrow> string \<Rightarrow> string \<Rightarrow> out_state \<Rightarrow> string + out_state" where
  "simple_loop args text' [] st = Inr (on_text text' st)"
| "simple_loop args text' (c # p) st =
     (if c = CHR ''{'' then
        (case parse_replacement_field args (c # p) (on_text text' st) of
           Inl e \<Rightarrow> Inl e
         | Inr (p, st) \<Rightarrow> simple_loop args [] p st)
      else if c = CHR ''}'' then
        (case p of
           [] \<Rightarrow> Inl unmatched_brace
         | d # p \<Rightarrow> if d \<noteq> CHR ''}'' then Inl unmatched_brace else simple_loop args [] p (on_text (text' @ [c]) st))
      else simple_loop args (text' @ [c]) p st)"
  by pat_completeness auto
termination
proof (relation "measure (\<lambda>(args, text', p, st). length p)")
  fix args text' c p st r q out
  assume "parse_replacement_field args (c # p) (on_text text' st) = Inr r" "(q, out) = r"
  then show "((args, [], q, out), (args, text', c # p, st)) \<in> measure (\<lambda>(args, text', p, st). length p)"
    using within_parse_replacement_field [of "c # p" args "on_text text' st"] by auto
qed auto

text \<open>The writer of the other loop, for a text without opening braces.\<close>

function writer_loop :: "string \<Rightarrow> out_state \<Rightarrow> string + out_state" where
  "writer_loop text' st =
     (if CHR ''}'' \<notin> set text' then Inr (on_text text' st)
      else
        (let front = takeWhile (\<lambda>c. c \<noteq> CHR ''}'') text'; p = drop (length front + 1) text' in
         if p = [] \<or> hd p \<noteq> CHR ''}'' then Inl unmatched_brace
         else writer_loop (tl p) (on_text (front @ ''}'') st)))"
  by pat_completeness auto
termination by (relation "measure (\<lambda>(t, st). length t)") (auto simp: Let_def)

declare writer_loop.simps [simp del]

definition format_writer :: "string \<Rightarrow> out_state \<Rightarrow> string + out_state" where
  "format_writer text' st = (if text' = [] then Inr st else writer_loop text' st)"

text \<open>The loop with two passes of \<open>memchr\<close>.\<close>

function two_pass_loop :: "fmt_arg list \<Rightarrow> string \<Rightarrow> out_state \<Rightarrow> string + out_state" where
  "two_pass_loop args begin' st =
     (if begin' = [] then Inr st
      else if hd begin' \<noteq> CHR ''{'' \<and> CHR ''{'' \<notin> set (tl begin') then format_writer begin' st
      else
        (let front = takeWhile (\<lambda>c. c \<noteq> CHR ''{'') begin'; p = drop (length front) begin' in
         case format_writer front st of
           Inl e \<Rightarrow> Inl e
         | Inr st \<Rightarrow>
             (case parse_replacement_field args p st of
                Inl e \<Rightarrow> Inl e
              | Inr (begin', st) \<Rightarrow> two_pass_loop args begin' st)))"
  by pat_completeness auto
termination
proof (relation "measure (\<lambda>(args, p, st). length p)")
  fix args begin' st front p st' r q out
  assume "begin' \<noteq> []" "\<not> (hd begin' \<noteq> CHR ''{'' \<and> CHR ''{'' \<notin> set (tl begin'))"
    "front = takeWhile (\<lambda>c. c \<noteq> CHR ''{'') begin'" "p = drop (length front) begin'"
    "parse_replacement_field args p st' = Inr r" "(q, out) = r"
  moreover from this have "p = dropWhile (\<lambda>c. c \<noteq> CHR ''{'') begin'" "CHR ''{'' \<in> set begin'"
    by (simp_all add: dropWhile_eq_drop) (cases begin', auto)
  then have "p \<noteq> []" by (auto simp: dropWhile_eq_Nil_conv)
  ultimately show "((args, q, out), (args, begin', st)) \<in> measure (\<lambda>(args, p, st). length p)"
    using within_parse_replacement_field [of p args st'] by (cases p) auto
qed auto

declare two_pass_loop.simps [simp del]

definition parse_format_string :: "fmt_arg list \<Rightarrow> string \<Rightarrow> out_state \<Rightarrow> string + out_state" where
  "parse_format_string args s st = (if length s < 32 then simple_loop args [] s st else two_pass_loop args s st)"

definition vformat :: "string \<Rightarrow> fmt_arg list \<Rightarrow> string + string" where
  "vformat s args =
     (if s = ''{}'' then err_bind (get_arg args 0) default_format
      else err_bind (parse_format_string args s ([], 0)) (\<lambda>st. Inr (fst st)))"

end
