(* ===== verification/Fmt_Format_Proofs.thy ===== *)
theory Fmt_Format_Proofs
  imports Fmt_Format Log_Core
begin

text \<open>
  What \<open>fmt::format\<close> computes. The two loops over the format string and the short cut for \<^verbatim>\<open>{}\<close> agree, so
  the length of the string does not matter; a format string that is put together from texts and fields is read
  back as these; without arguments it is the function \<open>fmt_vformat\<close> of the log statements.
\<close>

section \<open>The loops agree\<close>

lemma on_text_on_text [simp]: "on_text t (on_text s st) = on_text (s @ t) st" "on_text [] st = st"
  by (simp_all add: on_text_def)

lemma simple_loop_text: "simple_loop args t p st = simple_loop args [] p (on_text t st)"
proof (induction "length p" arbitrary: p t st rule: less_induct)
  case less
  show ?case
  proof (cases p)
    case (Cons c q)
    show ?thesis
    proof (cases "c = CHR ''{'' \<or> c = CHR ''}''")
      case True
      then show ?thesis by (elim disjE) (simp_all add: Cons split: sum.split prod.split list.split)
    next
      case False
      then show ?thesis
        using less [of q "t @ [c]" st] less [of q "[c]" "on_text t st"] by (simp add: Cons)
    qed
  qed simp
qed

lemma simple_loop_plain:
  "CHR ''{'' \<notin> set t \<Longrightarrow> CHR ''}'' \<notin> set t \<Longrightarrow> simple_loop args [] (t @ p) st = simple_loop args [] p (on_text t st)"
proof (induction t arbitrary: st)
  case (Cons c t)
  have "c \<noteq> CHR ''{''" "c \<noteq> CHR ''}''" using Cons.prems by auto
  then show ?case using simple_loop_text [of args "[c]" "t @ p" st] Cons by simp
qed simp

lemma simple_loop_writer:
  "CHR ''{'' \<notin> set t \<Longrightarrow> p = [] \<or> hd p = CHR ''{'' \<Longrightarrow>
    simple_loop args [] (t @ p) st = err_bind (writer_loop t st) (\<lambda>st. simple_loop args [] p st)"
proof (induction t st rule: writer_loop.induct)
  case (1 t st)
  show ?case
  proof (cases "CHR ''}'' \<in> set t")
    case False
    then show ?thesis using 1(2) by (subst writer_loop.simps) (simp add: simple_loop_plain)
  next
    case True
    then obtain b r where t: "t = b @ CHR ''}'' # r" and b: "CHR ''}'' \<notin> set b" by (meson split_list_first)
    have tw: "takeWhile (\<lambda>c. c \<noteq> CHR ''}'') t = b" unfolding t by (subst takeWhile_append2) (use b in auto)
    have open': "CHR ''{'' \<notin> set b" "CHR ''{'' \<notin> set r" using 1(2) by (simp_all add: t)
    have lhs: "simple_loop args [] (t @ p) st = simple_loop args [] (CHR ''}'' # r @ p) (on_text b st)"
      using simple_loop_plain [OF open'(1) b, of args "CHR ''}'' # r @ p" st] by (simp add: t)
    have rest: "drop (length b + 1) t = r" by (simp add: t)
    have w: "writer_loop t st = (if r = [] \<or> hd r \<noteq> CHR ''}'' then Inl unmatched_brace else writer_loop (tl r) (on_text (b @ ''}'') st))"
      using True by (subst writer_loop.simps) (simp only: tw rest Let_def if_True not_True_eq_False if_False)
    show ?thesis
    proof (cases "r = [] \<or> hd r \<noteq> CHR ''}''")
      case True
      then show ?thesis using 1(3) unfolding lhs w by (cases r; cases p; auto)
    next
      case False
      then obtain r' where r: "r = CHR ''}'' # r'" by (cases r) auto
      have "simple_loop args [] (r' @ p) (on_text (b @ ''}'') st) = err_bind (writer_loop r' (on_text (b @ ''}'') st)) (\<lambda>st. simple_loop args [] p st)"
        using 1(1) [OF _ refl refl, unfolded tw rest] 1(3) open' True by (simp add: r)
      then show ?thesis unfolding lhs w by (simp add: r)
    qed
  qed
qed

lemma simple_loop_format_writer:
  "CHR ''{'' \<notin> set t \<Longrightarrow> p = [] \<or> hd p = CHR ''{'' \<Longrightarrow>
    simple_loop args [] (t @ p) st = err_bind (format_writer t st) (\<lambda>st. simple_loop args [] p st)"
  by (cases "t = []") (simp_all add: format_writer_def simple_loop_writer)

lemma loops_agree: "two_pass_loop args s st = simple_loop args [] s st"
proof (induction args s st rule: two_pass_loop.induct)
  case (1 args s st)
  show ?case
  proof (cases "CHR ''{'' \<in> set s")
    case False
    then have "simple_loop args [] s st = (if s = [] then Inr st else format_writer s st)"
      using simple_loop_format_writer [of s "[]" args st] by (cases "format_writer s st") (auto simp: format_writer_def)
    then show ?thesis using False by (subst two_pass_loop.simps) (cases s; auto)
  next
    case True
    let ?b = "takeWhile (\<lambda>c. c \<noteq> CHR ''{'') s" and ?p = "dropWhile (\<lambda>c. c \<noteq> CHR ''{'') s"
    have p: "?p \<noteq> []" "hd ?p = CHR ''{''" using True hd_dropWhile [of "\<lambda>c. c \<noteq> CHR ''{''" s] by (auto simp: dropWhile_eq_Nil_conv)
    have b: "CHR ''{'' \<notin> set ?b" using set_takeWhileD by fastforce
    have cond: "s \<noteq> []" "\<not> (hd s \<noteq> CHR ''{'' \<and> CHR ''{'' \<notin> set (tl s))" using True by (cases s; auto)+
    have drop: "drop (length ?b) s = ?p" by (simp add: dropWhile_eq_drop)
    have step: "simple_loop args [] ?p st' = (case parse_replacement_field args ?p st' of Inl e \<Rightarrow> Inl e | Inr (q, st) \<Rightarrow> simple_loop args [] q st)" for st'
      using p by (cases ?p) simp_all
    have "simple_loop args [] s st = err_bind (format_writer ?b st) (\<lambda>st. simple_loop args [] ?p st)"
      using simple_loop_format_writer [OF b, of ?p args st] p by simp
    also have "\<dots> = two_pass_loop args s st"
      using 1 [OF cond refl refl, unfolded drop]
      by (subst two_pass_loop.simps) (simp add: cond drop step Let_def split: sum.split prod.split)
    finally show ?thesis ..
  qed
qed

lemma vformat_simple: "vformat s args = err_bind (simple_loop args [] s ([], 0)) (\<lambda>st. Inr (fst st))"
proof -
  have "err_bind (simple_loop args [] ''{}'' ([], 0)) (\<lambda>st. Inr (fst st)) = err_bind (get_arg args 0) default_format"
  proof (cases "get_arg args 0")
    case (Inl e)
    then show ?thesis by (simp add: parse_replacement_field_def on_arg_id_def next_arg_id_def on_replacement_field_def)
  next
    case (Inr a)
    then show ?thesis
      by (cases "default_format a") (simp_all add: parse_replacement_field_def on_arg_id_def next_arg_id_def on_replacement_field_def on_text_def)
  qed
  then show ?thesis by (simp add: vformat_def parse_format_string_def loops_agree)
qed

section \<open>Without arguments\<close>

lemma field_end_no_args: "\<exists>e. field_end [] i p st = Inl e"
proof (cases "on_arg_id i st")
  case (Inl e)
  then show ?thesis by (simp add: field_end_def)
next
  case (Inr x)
  then show ?thesis by (cases x) (simp add: field_end_def on_replacement_field_def on_format_specs_def get_arg_def Let_def)
qed

lemma field_no_args:
  assumes "p = [] \<or> hd p \<noteq> CHR ''{''"
  shows "\<exists>e. parse_replacement_field [] (c # p) st = Inl e"
proof (cases "p = [] \<or> hd p = CHR ''}''")
  case True
  then show ?thesis using assms
    by (cases "on_arg_id Auto_id st") (auto simp: parse_replacement_field_def on_replacement_field_def get_arg_def split: prod.split)
next
  case False
  then show ?thesis
  proof (cases "parse_arg_id p")
    case (Inr x)
    then show ?thesis using False assms field_end_no_args [of "fst x" "snd x" st]
      by (cases x) (auto simp: parse_replacement_field_def)
  qed (use False assms in \<open>auto simp: parse_replacement_field_def\<close>)
qed

definition formatted_text :: "string + out_state \<Rightarrow> string option" where
  "formatted_text r = (case r of Inl _ \<Rightarrow> None | Inr st \<Rightarrow> Some (fst st))"

lemma prepend: "map_option ((@) (out @ [c])) r = map_option ((@) out) (map_option ((#) c) r)" "map_option ((@) []) r = r"
  by (cases r; simp)+

lemma simple_loop_no_args:
  "formatted_text (simple_loop [] [] s (out, n)) = map_option ((@) out) (fmt_vformat s)"
proof (induction s arbitrary: out n rule: fmt_vformat.induct)
  case 1
  then show ?case by (simp add: formatted_text_def on_text_def)
next
  case (2 c cs)
  consider (open') "c = CHR ''{''" | (close) "c = CHR ''}''" | (plain) "c \<noteq> CHR ''{''" "c \<noteq> CHR ''}''" by blast
  then show ?case
  proof cases
    case open'
    show ?thesis
    proof (cases "cs = [] \<or> hd cs \<noteq> CHR ''{''")
      case True
      obtain e where "parse_replacement_field [] (c # cs) (out, n) = Inl e" using field_no_args [OF True] by blast
      then show ?thesis using True by (cases cs) (auto simp: open' formatted_text_def)
    next
      case False
      then obtain ds where cs: "cs = CHR ''{'' # ds" by (cases cs) auto
      have "simple_loop [] [] (c # cs) (out, n) = simple_loop [] [] ds (out @ ''{'', n)"
        using simple_loop.simps(2) [of "[]" "[]" c cs "(out, n)"]
        by (simp add: open' cs on_text_def parse_replacement_field_def del: simple_loop.simps)
      moreover have "formatted_text (simple_loop [] [] ds (out @ ''{'', n)) = map_option ((@) (out @ ''{'')) (fmt_vformat ds)"
        by (rule 2(1) [OF _ cs]) (simp_all add: open')
      ultimately show ?thesis by (simp add: open' cs prepend)
    qed
  next
    case close
    show ?thesis
    proof (cases "cs = [] \<or> hd cs \<noteq> CHR ''}''")
      case True
      then show ?thesis by (cases cs) (auto simp: close formatted_text_def)
    next
      case False
      then obtain ds where cs: "cs = CHR ''}'' # ds" by (cases cs) auto
      have "simple_loop [] [] (c # cs) (out, n) = simple_loop [] [] ds (out @ ''}'', n)"
        using simple_loop.simps(2) [of "[]" "[]" c cs "(out, n)"] by (simp add: close cs on_text_def del: simple_loop.simps)
      moreover have "formatted_text (simple_loop [] [] ds (out @ ''}'', n)) = map_option ((@) (out @ ''}'')) (fmt_vformat ds)"
        by (rule 2(1) [OF _ cs]) (simp_all add: close)
      ultimately show ?thesis by (simp add: close cs prepend)
    qed
  next
    case plain
    then show ?thesis using 2(2) [of "out @ [c]" n] simple_loop_text [of "[]" "[c]" cs "(out, n)"]
      by (simp add: on_text_def option.map_comp comp_def)
  qed
qed

lemma vformat_no_args: "(case vformat s [] of Inl _ \<Rightarrow> None | Inr t \<Rightarrow> Some t) = fmt_vformat s"
  using simple_loop_no_args [of s "[]" 0] by (cases "simple_loop [] [] s ([], 0)") (simp_all add: vformat_simple formatted_text_def prepend)

section \<open>Integers without a specification\<close>

lemma write_plain_int_text:
  assumes "- (2 ^ (if wide then 63 else 31)) \<le> v" "v < 2 ^ (if wide then 64 else 32)"
  shows "write_plain_int wide v = Some (dec_int v)"
proof -
  define w :: nat where "w = (if wide then 64 else 32)"
  define k where "k = nat \<bar>v\<bar>"
  have k: "k < 2 ^ (if wide then 64 else 32)" using assms by (cases wide) (simp_all add: k_def nat_less_iff)
  have abs_value: "(if v < 0 then (2 ^ w - 1 - nat (v mod 2 ^ w) + 1) mod 2 ^ w else nat (v mod 2 ^ w)) = k"
  proof (cases "v < 0")
    case True
    have "v mod 2 ^ w = (v + 2 ^ w) mod 2 ^ w" by simp
    also have "\<dots> = v + 2 ^ w" using True assms by (intro mod_pos_pos_trivial) (cases wide; simp add: w_def)+
    finally have "v mod 2 ^ w = v + 2 ^ w" .
    moreover have "0 < k" "k < 2 ^ w" using True k by (simp_all add: k_def w_def)
    ultimately show ?thesis using True assms by (cases wide) (simp_all add: w_def k_def nat_diff_distrib' flip: nat_diff_distrib)
  next
    case False
    then show ?thesis using assms by (cases wide) (simp_all add: w_def k_def)
  qed
  have "format_decimal wide (replicate (length (dec_nat k)) (CHR 0x00)) k (length (dec_nat k)) = Some (0, length (dec_nat k), dec_nat k)"
    using format_decimal_text [OF k, of "length (dec_nat k)" "replicate (length (dec_nat k)) (CHR 0x00)"] by (simp add: blit_def)
  moreover have "dec_int v = (if v < 0 then ''-'' else []) @ dec_nat k" by (simp add: dec_int_def k_def)
  ultimately show ?thesis unfolding write_plain_int_def Let_def abs_value [unfolded w_def] by (simp add: count_digits_exact [OF k])
qed

section \<open>Format strings are read back\<close>

text \<open>A format string in its parts. A field has its argument, by position or by number, and perhaps a
  specification: a fill character and an alignment, a sign, the flags \<^verbatim>\<open>#\<close> and \<^verbatim>\<open>0\<close>, a width, which may be
  the value of another argument, and a type.\<close>

datatype width_spec = No_width | Width nat | Argument_width "nat option"

record field_spec =
  fd_align :: "(nat option \<times> align) option"
  fd_sign :: sign_t
  fd_alt :: bool
  fd_zero :: bool
  fd_width :: width_spec
  fd_type :: "char option"

datatype fmt_piece = Text string | Field "nat option" "field_spec option"

definition double_brace :: "char \<Rightarrow> string" where
  "double_brace c = (if c = CHR ''{'' \<or> c = CHR ''}'' then [c, c] else [c])"

fun print_id :: "nat option \<Rightarrow> string" where
  "print_id None = []"
| "print_id (Some i) = dec_nat i"

fun align_char :: "align \<Rightarrow> char" where
  "align_char Align_left = CHR ''<''"
| "align_char Align_right = CHR ''>''"
| "align_char _ = CHR ''^''"

fun print_align :: "(nat option \<times> align) option \<Rightarrow> string" where
  "print_align None = []"
| "print_align (Some (None, a)) = [align_char a]"
| "print_align (Some (Some cp, a)) = utf8_string [cp] @ [align_char a]"

fun print_sign :: "sign_t \<Rightarrow> string" where
  "print_sign Sign_none = []"
| "print_sign Sign_minus = ''-''"
| "print_sign Sign_plus = ''+''"
| "print_sign Sign_space = '' ''"

fun print_width :: "width_spec \<Rightarrow> string" where
  "print_width No_width = []"
| "print_width (Width n) = dec_nat n"
| "print_width (Argument_width i) = ''{'' @ print_id i @ ''}''"

fun print_type :: "char option \<Rightarrow> string" where
  "print_type None = []"
| "print_type (Some c) = [c]"

definition print_spec :: "field_spec \<Rightarrow> string" where
  "print_spec f = print_align (fd_align f) @ print_sign (fd_sign f) @ (if fd_alt f then ''#'' else []) @
     (if fd_zero f then ''0'' else []) @ print_width (fd_width f) @ print_type (fd_type f)"

fun print_fmt_piece :: "fmt_piece \<Rightarrow> string" where
  "print_fmt_piece (Text t) = concat (map double_brace t)"
| "print_fmt_piece (Field i None) = ''{'' @ print_id i @ ''}''"
| "print_fmt_piece (Field i (Some f)) = ''{'' @ print_id i @ '':'' @ print_spec f @ ''}''"

text \<open>What the parts mean, with the handlers of the parser.\<close>

definition id_of :: "nat option \<Rightarrow> arg_id" where
  "id_of i = (case i of None \<Rightarrow> Auto_id | Some k \<Rightarrow> Index_id k)"

definition set_align :: "(nat option \<times> align) option \<Rightarrow> format_specs \<Rightarrow> format_specs" where
  "set_align al specs = (case al of None \<Rightarrow> specs | Some (c, a) \<Rightarrow>
     specs\<lparr>sp_fill := (case c of None \<Rightarrow> sp_fill specs | Some cp \<Rightarrow> utf8_string [cp]), sp_align := a\<rparr>)"

definition apply_spec :: "fmt_arg list \<Rightarrow> arg_type \<Rightarrow> field_spec \<Rightarrow> specs_state \<Rightarrow> string + specs_state" where
  "apply_spec args t f st = (case st of (specs, n) \<Rightarrow>
     (let specs = set_align (fd_align f) specs in
      err_bind (if fd_sign f \<noteq> Sign_none then on_sign t (fd_sign f) specs else Inr specs) (\<lambda>specs.
      err_bind (if fd_alt f then on_hash t specs else Inr specs) (\<lambda>specs.
      err_bind (if fd_zero f then on_zero t specs else Inr specs) (\<lambda>specs.
      err_bind (case fd_width f of
                  No_width \<Rightarrow> Inr (specs, n)
                | Width w \<Rightarrow> Inr (specs\<lparr>sp_width := w\<rparr>, n)
                | Argument_width i \<Rightarrow> on_dynamic_width args (id_of i) (specs, n)) (\<lambda>(specs, n).
        Inr (case fd_type f of None \<Rightarrow> specs | Some c \<Rightarrow> specs\<lparr>sp_type := parse_presentation_type c\<rparr>, n)))))))"

fun apply_piece :: "fmt_arg list \<Rightarrow> fmt_piece \<Rightarrow> out_state \<Rightarrow> string + out_state" where
  "apply_piece args (Text t) st = Inr (on_text t st)"
| "apply_piece args (Field i None) st = err_bind (on_arg_id (id_of i) st) (\<lambda>(k, st). on_replacement_field args k st)"
| "apply_piece args (Field i (Some f)) st =
     err_bind (on_arg_id (id_of i) st) (\<lambda>(k, st).
     err_bind (get_arg args k) (\<lambda>a.
     err_bind (apply_spec args (arg_type_of a) f (format_specs_new, snd st)) (\<lambda>(specs, n).
     err_bind (write_arg specs a) (\<lambda>t. Inr (on_text t (fst st, n))))))"

primrec apply_pieces :: "fmt_arg list \<Rightarrow> fmt_piece list \<Rightarrow> out_state \<Rightarrow> string + out_state" where
  "apply_pieces args [] st = Inr st"
| "apply_pieces args (p # ps) st = err_bind (apply_piece args p st) (apply_pieces args ps)"

section \<open>Numbers and argument ids are read back\<close>

lemma is_digit_digit_char: "d < 10 \<Longrightarrow> is_digit (digit_char d)" "d < 10 \<Longrightarrow> (of_char (digit_char d) :: nat) - 48 = d"
  by (simp_all add: is_digit_def digit_char_def)

lemma nonnegative_loop_dec_nat:
  "n < 2 ^ 32 \<Longrightarrow> nonnegative_loop 0 0 (dec_nat n @ r) = nonnegative_loop n (n div 10) r"
proof (induction n arbitrary: r rule: less_induct)
  case (less n)
  show ?case
  proof (cases "n < 10")
    case True
    then show ?thesis by (simp add: dec_nat_rec is_digit_digit_char)
  next
    case False
    have "nonnegative_loop 0 0 (dec_nat (n div 10) @ digit_char (n mod 10) # r) = nonnegative_loop (n div 10) (n div 10 div 10) (digit_char (n mod 10) # r)"
      using False less.prems by (intro less.IH) simp_all
    also have "\<dots> = nonnegative_loop n (n div 10) r" using less.prems by (simp add: is_digit_digit_char mult.commute)
    finally show ?thesis using False by (simp add: dec_nat_rec)
  qed
qed

lemma nonnegative_loop_stop: "r = [] \<or> \<not> is_digit (hd r) \<Longrightarrow> nonnegative_loop v prev r = (v, prev, r)"
  by (cases r) simp_all

lemma parse_nonnegative_int_dec_nat:
  assumes "n \<le> int_max" "r = [] \<or> \<not> is_digit (hd r)"
  shows "parse_nonnegative_int (dec_nat n @ r) = (Some n, r)"
proof -
  have n: "n < 2 ^ 32" "n < 10 ^ Suc 9" using assms(1) by (simp_all add: int_max_def)
  have loop: "nonnegative_loop 0 0 (dec_nat n @ r) = (n, n div 10, r)"
    using nonnegative_loop_dec_nat [OF n(1), of r] nonnegative_loop_stop [OF assms(2)] by simp
  have len: "length (dec_nat n) \<le> 10" using length_dec_nat [OF n(2)] by simp
  have "n div 10 * 10 + (of_char ((dec_nat n @ r) ! (length (dec_nat n) - 1)) - 48) = n" if "length (dec_nat n) = 10"
  proof -
    have "10 \<le> n" using that by (cases "n < 10") (simp_all add: length_dec_nat_small)
    then have "(dec_nat n @ r) ! (length (dec_nat n) - 1) = digit_char (n mod 10)" by (simp add: dec_nat_rec nth_append)
    then show ?thesis by (simp add: is_digit_digit_char)
  qed
  moreover have "length (dec_nat n) \<le> 9 \<or> length (dec_nat n) = 10" using len by linarith
  ultimately show ?thesis using assms(1) by (elim disjE) (simp_all add: parse_nonnegative_int_def loop Let_def)
qed

lemma hd_dec_nat: "hd (dec_nat n) = CHR ''0'' \<longleftrightarrow> n = 0" "is_digit (hd (dec_nat n))"
proof -
  have "(hd (dec_nat n) = CHR ''0'' \<longleftrightarrow> n = 0) \<and> is_digit (hd (dec_nat n))"
  proof (induction n rule: less_induct)
    case (less n)
    show ?case
    proof (cases "n < 10")
      case True
      then have "digit_char n = CHR ''0'' \<longleftrightarrow> n = 0" using is_digit_digit_char(2) [of n] digit_chars(1) by auto
      then show ?thesis using True by (simp add: dec_nat_rec is_digit_digit_char)
    next
      case False
      then show ?thesis using less.IH [of "n div 10"] dec_nat_head(2) [of "n div 10"] by (simp add: dec_nat_rec hd_append)
    qed
  qed
  then show "hd (dec_nat n) = CHR ''0'' \<longleftrightarrow> n = 0" "is_digit (hd (dec_nat n))" by blast+
qed

definition id_ok :: "nat option \<Rightarrow> bool" where
  "id_ok i \<longleftrightarrow> (case i of None \<Rightarrow> True | Some k \<Rightarrow> k \<le> int_max)"

lemma not_digits: "\<not> is_digit (CHR ''}'')" "\<not> is_digit (CHR '':'')" "\<not> is_digit (CHR ''{'')" "\<not> is_digit (CHR ''.'')"
  "\<not> is_digit (CHR ''+'')" "\<not> is_digit (CHR ''-'')" "\<not> is_digit (CHR '' '')" "\<not> is_digit (CHR ''#'')"
  by (simp_all add: is_digit_def)

lemma parse_arg_id_print:
  assumes "id_ok i" "c = CHR ''}'' \<or> c = CHR '':''"
  shows "parse_arg_id (print_id i @ c # r) = Inr (id_of i, c # r)"
proof (cases i)
  case None
  then show ?thesis using assms(2) by (auto simp: parse_arg_id_def id_of_def)
next
  case (Some k)
  have h: "hd (dec_nat k @ c # r) = hd (dec_nat k)" using dec_nat_head(2) [of k] by (simp add: hd_append)
  have "hd (dec_nat k) \<noteq> CHR ''}''" "hd (dec_nat k) \<noteq> CHR '':''" using hd_dec_nat(2) [of k] not_digits by metis+
  moreover have "parse_nonnegative_int (dec_nat k @ c # r) = (Some k, c # r)"
    using assms not_digits by (intro parse_nonnegative_int_dec_nat) (auto simp: id_ok_def Some)
  moreover have "dec_nat 0 = ''0''" by (simp add: dec_nat_rec digit_chars)
  ultimately show ?thesis using assms(2) hd_dec_nat [of k]
    by (auto simp: parse_arg_id_def do_parse_arg_id_def Let_def Some id_of_def h)
qed

section \<open>Specifications are read back\<close>

text \<open>A character of the parts behind the alignment cannot be taken for one.\<close>

definition safe_char :: "char \<Rightarrow> bool" where
  "safe_char c \<longleftrightarrow> (of_char c :: nat) < 128 \<and> align_of c = Align_none"

lemma safe_digit: "is_digit c \<Longrightarrow> safe_char c"
  by (auto simp: is_digit_def safe_char_def align_of_def)

lemma safe_chars: "safe_char (CHR ''+'')" "safe_char (CHR ''-'')" "safe_char (CHR '' '')" "safe_char (CHR ''#'')"
  "safe_char (CHR ''{'')" "safe_char (CHR ''}'')"
  by (simp_all add: safe_char_def align_of_def)

lemma type_char:
  assumes "parse_presentation_type c \<noteq> Type_none"
  shows "is_ascii_letter c" "safe_char c" "\<not> is_digit c" "c \<notin> {CHR ''{'', CHR ''}'', CHR ''+'', CHR ''-'', CHR '' '', CHR ''#'', CHR ''.'', CHR ''L''}"
proof -
  have "list_all (\<lambda>c. is_ascii_letter c \<and> safe_char c \<and> \<not> is_digit c \<and>
      c \<notin> set [CHR ''{'', CHR ''}'', CHR ''+'', CHR ''-'', CHR '' '', CHR ''#'', CHR ''.'', CHR ''L'']) ''doxXbBaAeEfFgGcsp''"
    by code_simp
  moreover have "c \<in> set ''doxXbBaAeEfFgGcsp''"
    using assms unfolding parse_presentation_type_def by (simp split: if_splits)
  ultimately have "is_ascii_letter c \<and> safe_char c \<and> \<not> is_digit c \<and>
      c \<notin> set [CHR ''{'', CHR ''}'', CHR ''+'', CHR ''-'', CHR '' '', CHR ''#'', CHR ''.'', CHR ''L'']"
    unfolding list_all_iff by (rule bspec)
  then show "is_ascii_letter c" "safe_char c" "\<not> is_digit c"
    "c \<notin> {CHR ''{'', CHR ''}'', CHR ''+'', CHR ''-'', CHR '' '', CHR ''#'', CHR ''.'', CHR ''L''}"
    by simp_all
qed

definition spec_ok :: "field_spec \<Rightarrow> bool" where
  "spec_ok f \<longleftrightarrow>
     (case fd_align f of None \<Rightarrow> True
      | Some (c, a) \<Rightarrow> a \<in> {Align_left, Align_right, Align_center}
          \<and> (case c of None \<Rightarrow> True | Some cp \<Rightarrow> is_code_point_valid cp \<and> cp \<noteq> 123)) \<and>
     (case fd_width f of No_width \<Rightarrow> True | Width n \<Rightarrow> 0 < n \<and> n \<le> int_max | Argument_width i \<Rightarrow> id_ok i) \<and>
     (case fd_type f of None \<Rightarrow> True | Some c \<Rightarrow> parse_presentation_type c \<noteq> Type_none) \<and>
     print_spec f \<noteq> []"

text \<open>The parts of a specification from the width on, from the zero flag on, and so forth.\<close>

definition from_type :: "field_spec \<Rightarrow> string \<Rightarrow> string" where
  "from_type f r = print_type (fd_type f) @ CHR ''}'' # r"
definition from_width :: "field_spec \<Rightarrow> string \<Rightarrow> string" where
  "from_width f r = print_width (fd_width f) @ from_type f r"
definition from_zero :: "field_spec \<Rightarrow> string \<Rightarrow> string" where
  "from_zero f r = (if fd_zero f then ''0'' else []) @ from_width f r"
definition from_hash :: "field_spec \<Rightarrow> string \<Rightarrow> string" where
  "from_hash f r = (if fd_alt f then ''#'' else []) @ from_zero f r"
definition from_sign :: "field_spec \<Rightarrow> string \<Rightarrow> string" where
  "from_sign f r = print_sign (fd_sign f) @ from_hash f r"

lemma print_spec_from_sign: "print_spec f @ CHR ''}'' # r = print_align (fd_align f) @ from_sign f r"
  by (simp add: print_spec_def from_sign_def from_hash_def from_zero_def from_width_def from_type_def)

lemma from_nonempty: "from_type f r \<noteq> []" "from_width f r \<noteq> []" "from_zero f r \<noteq> []" "from_hash f r \<noteq> []" "from_sign f r \<noteq> []"
  by (simp_all add: from_sign_def from_hash_def from_zero_def from_width_def from_type_def)

lemma hd_from_type:
  assumes "spec_ok f"
  shows "\<not> is_digit (hd (from_type f r))" "hd (from_type f r) \<notin> {CHR ''{'', CHR ''+'', CHR ''-'', CHR '' '', CHR ''#'', CHR ''.'', CHR ''L''}"
proof -
  have "\<not> is_digit (hd (from_type f r)) \<and> hd (from_type f r) \<notin> {CHR ''{'', CHR ''+'', CHR ''-'', CHR '' '', CHR ''#'', CHR ''.'', CHR ''L''}"
  proof (cases "fd_type f")
    case (Some c)
    then have "parse_presentation_type c \<noteq> Type_none" using assms by (simp add: spec_ok_def)
    from type_char [OF this] show ?thesis by (simp add: from_type_def Some)
  qed (simp add: from_type_def not_digits)
  then show "\<not> is_digit (hd (from_type f r))" "hd (from_type f r) \<notin> {CHR ''{'', CHR ''+'', CHR ''-'', CHR '' '', CHR ''#'', CHR ''.'', CHR ''L''}"
    by blast+
qed

lemma hd_from_width:
  assumes "spec_ok f"
  shows "hd (from_width f r) \<notin> {CHR ''0'', CHR ''+'', CHR ''-'', CHR '' '', CHR ''#''}"
proof (cases "fd_width f")
  case No_width
  then show ?thesis using hd_from_type [OF assms, of r] by (auto simp: from_width_def is_digit_def)
next
  case (Width n)
  have "is_digit (hd (dec_nat n))" "hd (dec_nat n) \<noteq> CHR ''0''" using hd_dec_nat [of n] assms Width by (simp_all add: spec_ok_def)
  then show ?thesis using not_digits dec_nat_head(2) [of n] by (auto simp: from_width_def Width hd_append)
qed (simp add: from_width_def)

lemma hd_from_zero: "spec_ok f \<Longrightarrow> hd (from_zero f r) \<notin> {CHR ''+'', CHR ''-'', CHR '' '', CHR ''#''}"
  using hd_from_width [of f r] by (simp add: from_zero_def)

lemma hd_from_hash: "spec_ok f \<Longrightarrow> hd (from_hash f r) \<notin> {CHR ''+'', CHR ''-'', CHR '' ''}"
  using hd_from_zero [of f r] by (simp add: from_hash_def)

text \<open>One step for each part.\<close>

lemma with_sign:
  assumes "spec_ok f"
  shows "with_flag (sign_of (hd (from_sign f r)) \<noteq> Sign_none) (on_sign t (sign_of (hd (from_sign f r)))) (from_sign f r) (specs, n) =
    err_bind (if fd_sign f \<noteq> Sign_none then on_sign t (fd_sign f) specs else Inr specs) (\<lambda>specs. Inr (from_hash f r, specs, n))"
  using hd_from_hash [OF assms, of r] by (cases "fd_sign f") (auto simp: from_sign_def with_flag_def sign_of_def)

lemma with_hash:
  assumes "spec_ok f"
  shows "with_flag (hd (from_hash f r) = CHR ''#'') (on_hash t) (from_hash f r) (specs, n) =
    err_bind (if fd_alt f then on_hash t specs else Inr specs) (\<lambda>specs. Inr (from_zero f r, specs, n))"
  using hd_from_zero [OF assms, of r] by (auto simp: from_hash_def with_flag_def)

lemma with_zero:
  assumes "spec_ok f"
  shows "with_flag (hd (from_zero f r) = CHR ''0'') (on_zero t) (from_zero f r) (specs, n) =
    err_bind (if fd_zero f then on_zero t specs else Inr specs) (\<lambda>specs. Inr (from_width f r, specs, n))"
  using hd_from_width [OF assms, of r] by (auto simp: from_zero_def with_flag_def)

lemma with_width:
  assumes "spec_ok f"
  shows "parse_width args (from_width f r) (specs, n) =
    err_bind (case fd_width f of
                No_width \<Rightarrow> Inr (specs, n)
              | Width w \<Rightarrow> Inr (specs\<lparr>sp_width := w\<rparr>, n)
              | Argument_width i \<Rightarrow> on_dynamic_width args (id_of i) (specs, n)) (\<lambda>st. Inr (from_type f r, st))"
proof (cases "fd_width f")
  case No_width
  then show ?thesis using hd_from_type [OF assms, of r] by (simp add: from_width_def parse_width_def)
next
  case (Width w)
  have "parse_nonnegative_int (dec_nat w @ from_type f r) = (Some w, from_type f r)"
    using assms hd_from_type [OF assms] by (intro parse_nonnegative_int_dec_nat) (simp_all add: spec_ok_def Width)
  then show ?thesis using hd_dec_nat(2) [of w] dec_nat_head(2) [of w]
    by (simp add: from_width_def parse_width_def Width hd_append)
next
  case (Argument_width i)
  have "parse_arg_id (print_id i @ CHR ''}'' # from_type f r) = Inr (id_of i, CHR ''}'' # from_type f r)"
    using assms by (intro parse_arg_id_print) (simp_all add: spec_ok_def Argument_width)
  then show ?thesis
    by (cases "on_dynamic_width args (id_of i) (specs, n)")
      (simp_all add: from_width_def parse_width_def Argument_width not_digits closing_brace_def Let_def)
qed

lemma with_type:
  assumes "spec_ok f"
  shows "(if from_type f r \<noteq> [] \<and> hd (from_type f r) \<noteq> CHR ''}'' then parse_type (from_type f r) (specs, n) else Inr (from_type f r, specs, n)) =
    Inr (CHR ''}'' # r, case fd_type f of None \<Rightarrow> specs | Some c \<Rightarrow> specs\<lparr>sp_type := parse_presentation_type c\<rparr>, n)"
proof (cases "fd_type f")
  case (Some c)
  then have "parse_presentation_type c \<noteq> Type_none" using assms by (simp add: spec_ok_def)
  with type_char [OF this] show ?thesis by (simp add: from_type_def Some parse_type_def)
qed (simp add: from_type_def)

text \<open>The alignment.\<close>

lemma of_char_byte: "unat (byte_of_char c) = of_char c"
proof -
  obtain n where n: "c = char_of (n::nat)" "n < 256" using char_of_byte_of_char [of c] unat_u8 [of "byte_of_char c"]
    by (auto simp: char_of_byte_def dest: sym)
  then have "byte_of_char c = of_nat n" using byte_of_char_of_byte [of "of_nat n"] by (simp add: char_of_byte_def unat_of_nat_u8)
  then show ?thesis using n by (simp add: unat_of_nat_u8)
qed

lemma code_point_length_ascii: "(of_char c :: nat) < 128 \<Longrightarrow> code_point_length (byte_of_char c) = 1"
  by (rule lead_length(1)) (simp add: of_char_byte)

lemma unat_numeral_u8: "unat (123 :: u8) = 123" "x + 192 \<noteq> (123::nat)" "x + 224 \<noteq> (123::nat)" "x + 240 \<noteq> (123::nat)"
  by simp_all

lemma utf8_lead:
  assumes "is_code_point_valid cp"
  shows "code_point_length (hd (utf8_text cp)) = length (utf8_text cp)" "length (utf8_text cp) \<le> 4"
    "hd (utf8_text cp) = 123 \<Longrightarrow> cp = 123" "cp < 128 \<or> 128 \<le> unat (hd (utf8_text cp))"
proof -
  note cases' = utf8_append_cases [OF assms]
  have top: "cp div 262144 < 8" using assms by (simp add: is_code_point_valid_def CODE_POINT_MAX_def less_mult_imp_div_less)
  have "code_point_length (hd (utf8_text cp)) = length (utf8_text cp) \<and> length (utf8_text cp) \<le> 4
      \<and> (hd (utf8_text cp) = 123 \<longrightarrow> cp = 123) \<and> (cp < 128 \<or> 128 \<le> unat (hd (utf8_text cp)))"
  proof -
    consider (1) "cp < 0x80" | (2) "0x80 \<le> cp" "cp < 0x800" | (3) "0x800 \<le> cp" "cp < 0x10000" | (4) "0x10000 \<le> cp" by linarith
    then show ?thesis
    proof cases
      case 1
      then have u: "unat (of_nat cp :: u8) = cp" by (simp add: unat_of_nat_u8)
      then have "(of_nat cp :: u8) = 123 \<longrightarrow> cp = 123" by (metis unat_numeral_u8)
      then show ?thesis using cases'(1) [OF 1] lead_length(1) [of "of_nat cp"] 1 u by simp
    next
      case 2
      define x where "x = cp div 64"
      have x: "x < 32" using 2 by (simp add: x_def less_mult_imp_div_less)
      then have u: "unat (of_nat (x + 192) :: u8) = x + 192" by (intro unat_of_nat_u8) linarith
      then have "(of_nat (x + 192) :: u8) \<noteq> 123" by (metis unat_numeral_u8)
      moreover have "code_point_length (of_nat (x + 192) :: u8) = 2" by (rule lead_length(2); use u x in linarith)
      ultimately show ?thesis using cases'(2) [OF 2, folded x_def] u by (simp del: of_nat_add)
    next
      case 3
      define x where "x = cp div 4096"
      have x: "x < 16" using 3 by (simp add: x_def less_mult_imp_div_less)
      then have u: "unat (of_nat (x + 224) :: u8) = x + 224" by (intro unat_of_nat_u8) linarith
      then have "(of_nat (x + 224) :: u8) \<noteq> 123" by (metis unat_numeral_u8)
      moreover have "code_point_length (of_nat (x + 224) :: u8) = 3" by (rule lead_length(3); use u x in linarith)
      ultimately show ?thesis using cases'(3) [OF 3, folded x_def] u by (simp del: of_nat_add)
    next
      case 4
      define x where "x = cp div 262144"
      have x: "x < 8" using top by (simp add: x_def)
      then have u: "unat (of_nat (x + 240) :: u8) = x + 240" by (intro unat_of_nat_u8) linarith
      then have "(of_nat (x + 240) :: u8) \<noteq> 123" by (metis unat_numeral_u8)
      moreover have "code_point_length (of_nat (x + 240) :: u8) = 4" by (rule lead_length(4); use u x in linarith)
      ultimately show ?thesis using cases'(4) [OF 4, folded x_def] u by (simp del: of_nat_add)
    qed
  qed
  then show "code_point_length (hd (utf8_text cp)) = length (utf8_text cp)" "length (utf8_text cp) \<le> 4"
    "hd (utf8_text cp) = 123 \<Longrightarrow> cp = 123" "cp < 128 \<or> 128 \<le> unat (hd (utf8_text cp))" by blast+
qed

lemma safe_tail:
  assumes "spec_ok f"
  shows "\<exists>c q. from_sign f r = c # q \<and> safe_char c \<and> (q \<noteq> [] \<longrightarrow> print_align (fd_align f) = [] \<longrightarrow> safe_char (hd q))"
proof -
  define t where "t = print_sign (fd_sign f) @ (if fd_alt f then ''#'' else []) @ (if fd_zero f then ''0'' else []) @
    print_width (fd_width f) @ print_type (fd_type f)"
  have digits: "list_all safe_char (dec_nat n)" for n
    using dec_nat_chars [of n] is_digit_digit_char(1) safe_digit by (fastforce simp: list_all_iff)
  have "list_all safe_char (print_sign (fd_sign f))" by (cases "fd_sign f") (simp_all add: safe_chars)
  moreover have "list_all safe_char (print_width (fd_width f))"
  proof (cases "fd_width f")
    case (Argument_width i)
    then show ?thesis using digits by (cases i) (simp_all add: safe_chars)
  qed (simp_all add: digits)
  moreover have "list_all safe_char (print_type (fd_type f))"
    using assms type_char(2) by (cases "fd_type f") (simp_all add: spec_ok_def)
  moreover have "safe_char (CHR ''0'')" by (simp add: safe_char_def align_of_def)
  ultimately have safe: "list_all safe_char t" by (simp add: t_def safe_chars)
  have r: "from_sign f r = t @ CHR ''}'' # r"
    by (simp add: t_def from_sign_def from_hash_def from_zero_def from_width_def from_type_def)
  show ?thesis
  proof (cases t)
    case Nil
    then have "print_align (fd_align f) \<noteq> []" using assms by (simp add: spec_ok_def print_spec_def t_def)
    then show ?thesis by (simp add: r Nil safe_chars)
  next
    case (Cons c t')
    then show ?thesis using safe by (cases t') (simp_all add: r safe_chars)
  qed
qed

lemma align_of_char: "a \<in> {Align_left, Align_right, Align_center} \<Longrightarrow> align_of (align_char a) = a"
  by (auto simp: align_of_def)

lemma parse_align_print:
  assumes "spec_ok f"
  shows "parse_align (print_align (fd_align f) @ from_sign f r) specs = Inr (from_sign f r, set_align (fd_align f) specs)"
proof -
  obtain c q where t: "from_sign f r = c # q" "safe_char c" "q \<noteq> [] \<longrightarrow> print_align (fd_align f) = [] \<longrightarrow> safe_char (hd q)"
    using safe_tail [OF assms] by blast
  consider (none) "fd_align f = None" | (plain) a where "fd_align f = Some (None, a)" | (filled) cp a where "fd_align f = Some (Some cp, a)"
    by (metis option.exhaust surj_pair)
  then show ?thesis
  proof cases
    case none
    then have "code_point_length (byte_of_char c) = 1" using t(2) by (intro code_point_length_ascii) (simp add: safe_char_def)
    then show ?thesis using t none by (cases q) (auto simp: parse_align_def Let_def safe_char_def set_align_def)
  next
    case (plain a)
    then have a: "align_of (align_char a) = a" "a \<noteq> Align_none" using assms align_of_char by (auto simp: spec_ok_def)
    have "(of_char (align_char a) :: nat) < 128" by (cases a) simp_all
    then have "code_point_length (byte_of_char (align_char a)) = 1" by (rule code_point_length_ascii)
    then show ?thesis using t a by (simp add: parse_align_def Let_def safe_char_def plain set_align_def)
  next
    case (filled cp a)
    then have a: "align_of (align_char a) = a" "a \<noteq> Align_none" and cp: "is_code_point_valid cp" "cp \<noteq> 123"
      using assms align_of_char by (auto simp: spec_ok_def)
    note lead = utf8_lead [OF cp(1)]
    have text': "utf8_string [cp] = map char_of_byte (utf8_text cp)" by (simp add: utf8_string_def)
    have pos: "utf8_text cp \<noteq> []" using utf8_text_pos [OF cp(1)] by auto
    have h: "hd (utf8_string [cp]) = char_of_byte (hd (utf8_text cp))" using pos by (simp add: text' hd_map)
    have n: "code_point_length (byte_of_char (hd (utf8_string [cp]))) = length (utf8_string [cp])" unfolding h byte_of_char_of_byte using lead(1) by (simp add: text')
    have "hd (utf8_string [cp]) \<noteq> CHR ''{''"
    proof
      assume "hd (utf8_string [cp]) = CHR ''{''"
      then have "byte_of_char (char_of_byte (hd (utf8_text cp))) = byte_of_char (CHR ''{'')" by (simp only: h)
      then have "hd (utf8_text cp) = byte_of_char (CHR ''{'')" by (simp only: byte_of_char_of_byte)
      then have "hd (utf8_text cp) = 123" by (simp add: byte_of_char_def)
      then show False using lead(3) cp(2) by simp
    qed
    moreover have "utf8_string [cp] \<noteq> []" "length (utf8_string [cp]) \<le> 4" using pos lead(2) by (simp_all add: text')
    ultimately show ?thesis using a n by (simp add: parse_align_def Let_def filled set_align_def hd_append nth_append)
  qed
qed

lemma and_then_err_bind:
  "(\<And>x. fst (g x) \<noteq> []) \<Longrightarrow> and_then (err_bind m (\<lambda>x. Inr (g x))) f = err_bind m (\<lambda>x. f (fst (g x)) (snd (g x)))"
proof (cases m)
  case (Inr x)
  assume "\<And>x. fst (g x) \<noteq> []"
  then have "fst (g x) \<noteq> []" .
  then show ?thesis by (cases "g x") (simp add: and_then_def Inr)
qed (simp add: and_then_def)

text \<open>The short cut for a type alone is taken only when there is nothing else.\<close>

lemma type_only:
  assumes "spec_ok f" "begin' = print_spec f @ CHR ''}'' # r"
    and "1 < length begin' \<and> begin' ! 1 = CHR ''}'' \<and> is_ascii_letter (hd begin') \<and> hd begin' \<noteq> CHR ''L''"
  shows "\<exists>c. f = \<lparr>fd_align = None, fd_sign = Sign_none, fd_alt = False, fd_zero = False, fd_width = No_width, fd_type = Some c\<rparr>"
proof -
  have letters: "\<not> is_ascii_letter (CHR ''+'')" "\<not> is_ascii_letter (CHR ''-'')" "\<not> is_ascii_letter (CHR '' '')" "\<not> is_ascii_letter (CHR ''#'')"
    "\<not> is_ascii_letter (CHR ''0'')" "\<not> is_ascii_letter (CHR ''{'')" "\<not> is_ascii_letter (align_char a)" for a
    by (cases a; simp add: is_ascii_letter_def)+
  have digit: "\<not> is_ascii_letter (hd (dec_nat n))" for n using hd_dec_nat(2) [of n] by (auto simp: is_digit_def is_ascii_letter_def)
  have none: "fd_align f = None"
  proof (cases "fd_align f")
    case (Some x)
    then obtain c a where x: "fd_align f = Some (c, a)" by (cases x) simp
    show ?thesis
    proof (cases c)
      case None
      then show ?thesis using assms(2,3) letters by (simp add: print_spec_def x)
    next
      case (Some cp)
      have valid: "is_code_point_valid cp" using assms(1) by (simp add: spec_ok_def x Some)
      note lead = utf8_lead [OF valid]
      have pos: "utf8_text cp \<noteq> []" using utf8_text_pos [OF valid] by auto
      have text': "utf8_string [cp] = map char_of_byte (utf8_text cp)" by (simp add: utf8_string_def)
      have b: "begin' = utf8_string [cp] @ align_char a # from_sign f r"
        using assms(2) print_spec_from_sign [of f r] by (simp add: x Some)
      show ?thesis
      proof (cases "length (utf8_text cp) = 1")
        case True
        then have "begin' ! 1 = align_char a" by (simp add: b text' nth_append)
        then show ?thesis using assms(3) by (cases a) simp_all
      next
        case False
        then have "128 \<le> unat (hd (utf8_text cp))" using lead(4) utf8_append_cases(1) [OF valid] by auto
        moreover have "hd begin' = char_of_byte (hd (utf8_text cp))" using pos by (simp add: b text' hd_append hd_map)
        ultimately have "128 \<le> (of_char (hd begin') :: nat)" using of_char_byte [of "hd begin'"] by simp
        then show ?thesis using assms(3) by (simp add: is_ascii_letter_def)
      qed
    qed
  qed
  have b: "begin' = from_sign f r" using assms(2) print_spec_from_sign [of f r] none by simp
  have sign: "fd_sign f = Sign_none" using assms(3) letters by (cases "fd_sign f") (simp_all add: b from_sign_def)
  have alt: "\<not> fd_alt f" using assms(3) letters by (auto simp: b from_sign_def sign from_hash_def)
  have zero: "\<not> fd_zero f" using assms(3) letters alt by (auto simp: b from_sign_def sign from_hash_def from_zero_def)
  have hd: "hd begin' = hd (from_width f r)" using alt zero by (simp add: b from_sign_def sign from_hash_def from_zero_def)
  have width: "fd_width f = No_width"
  proof (cases "fd_width f")
    case (Width n)
    then show ?thesis using assms(3) hd digit [of n] dec_nat_head(2) [of n] by (simp add: from_width_def hd_append)
  next
    case (Argument_width i)
    then show ?thesis using assms(3) hd letters by (simp add: from_width_def)
  qed
  obtain c where "fd_type f = Some c"
    using assms(1) by (cases "fd_type f") (simp_all add: spec_ok_def print_spec_def none sign alt zero width)
  then show ?thesis using none sign alt zero width by (intro exI [of _ c]) (cases f, simp)
qed

lemma parse_format_specs_print:
  assumes ok: "spec_ok f"
  shows "parse_format_specs args t (print_spec f @ CHR ''}'' # r) (specs, n) =
    err_bind (apply_spec args t f (specs, n)) (\<lambda>st. Inr (CHR ''}'' # r, st))"
proof (cases "1 < length (print_spec f @ CHR ''}'' # r) \<and> (print_spec f @ CHR ''}'' # r) ! 1 = CHR ''}''
    \<and> is_ascii_letter (hd (print_spec f @ CHR ''}'' # r)) \<and> hd (print_spec f @ CHR ''}'' # r) \<noteq> CHR ''L''")
  case True
  then obtain c where f: "f = \<lparr>fd_align = None, fd_sign = Sign_none, fd_alt = False, fd_zero = False, fd_width = No_width, fd_type = Some c\<rparr>"
    using type_only [OF ok refl] by blast
  have "parse_presentation_type c \<noteq> Type_none" using ok by (simp add: f spec_ok_def)
  with True show ?thesis by (simp add: f print_spec_def parse_format_specs_def parse_type_def apply_spec_def set_align_def)
next
  case False
  let ?b = "print_spec f @ CHR ''}'' # r"
  have start: "err_bind (parse_align ?b (fst (specs, n))) (\<lambda>(p, specs'). Inr (p, specs', snd (specs, n))) =
      Inr (from_sign f r, set_align (fd_align f) specs, n)"
    unfolding print_spec_from_sign by (simp add: parse_align_print [OF ok])
  have l: "hd (from_type f r) \<noteq> CHR ''.''" "hd (from_type f r) \<noteq> CHR ''L''" using hd_from_type [OF ok] by auto
  define k6 where "k6 = (\<lambda>p st. err_bind (with_flag (hd p = CHR ''L'') (on_localized t) p st) (\<lambda>(p, st).
    if p \<noteq> [] \<and> hd p \<noteq> CHR ''}'' then parse_type p st else Inr (p, st)))"
  define k5 where "k5 = (\<lambda>p st. and_then (if hd p = CHR ''.'' then parse_precision args t p st else Inr (p, st)) k6)"
  define k4 where "k4 = (\<lambda>p st. and_then (parse_width args p st) k5)"
  define k3 where "k3 = (\<lambda>p st. and_then (with_flag (hd p = CHR ''0'') (on_zero t) p st) k4)"
  define k2 where "k2 = (\<lambda>p st. and_then (with_flag (hd p = CHR ''#'') (on_hash t) p st) k3)"
  define k1 where "k1 = (\<lambda>p st. and_then (with_flag (sign_of (hd p) \<noteq> Sign_none) (on_sign t (sign_of (hd p))) p st) k2)"
  define res where "res = (\<lambda>st. Inr (CHR ''}'' # r, case fd_type f of None \<Rightarrow> fst st | Some c \<Rightarrow> (fst st)\<lparr>sp_type := parse_presentation_type c\<rparr>, snd st)
    :: string + string \<times> specs_state)"
  have r5: "k5 (from_type f r) st = res st" for st
  proof (cases st)
    case (Pair specs' n')
    show ?thesis unfolding Pair res_def k5_def k6_def fst_conv snd_conv
      using l from_nonempty(1) [of f r] with_type [OF ok, of r specs' n'] by (simp add: and_then_def with_flag_def)
  qed
  have r4: "k4 (from_width f r) (specs', n') = err_bind (case fd_width f of
                No_width \<Rightarrow> Inr (specs', n')
              | Width w \<Rightarrow> Inr (specs'\<lparr>sp_width := w\<rparr>, n')
              | Argument_width i \<Rightarrow> on_dynamic_width args (id_of i) (specs', n')) res" for specs' n'
    unfolding k4_def with_width [OF ok] by (subst and_then_err_bind) (simp_all add: from_nonempty r5)
  have r3: "k3 (from_zero f r) (specs', n') =
      err_bind (if fd_zero f then on_zero t specs' else Inr specs') (\<lambda>specs. k4 (from_width f r) (specs, n'))" for specs' n'
    unfolding k3_def with_zero [OF ok] by (subst and_then_err_bind) (simp_all add: from_nonempty)
  have r2: "k2 (from_hash f r) (specs', n') =
      err_bind (if fd_alt f then on_hash t specs' else Inr specs') (\<lambda>specs. k3 (from_zero f r) (specs, n'))" for specs' n'
    unfolding k2_def with_hash [OF ok] by (subst and_then_err_bind) (simp_all add: from_nonempty)
  have r1: "k1 (from_sign f r) (specs', n') =
      err_bind (if fd_sign f \<noteq> Sign_none then on_sign t (fd_sign f) specs' else Inr specs') (\<lambda>specs. k2 (from_hash f r) (specs, n'))" for specs' n'
    unfolding k1_def with_sign [OF ok] by (subst and_then_err_bind) (simp_all add: from_nonempty)
  have "parse_format_specs args t ?b (specs, n) = and_then (Inr (from_sign f r, set_align (fd_align f) specs, n)) k1"
    unfolding parse_format_specs_def if_not_P [OF False] start k1_def k2_def k3_def k4_def k5_def k6_def by simp
  also have "\<dots> = k1 (from_sign f r) (set_align (fd_align f) specs, n)" by (simp add: and_then_def from_nonempty)
  also have "\<dots> = err_bind (apply_spec args t f (specs, n)) (\<lambda>st. Inr (CHR ''}'' # r, st))"
    by (simp only: r1 r2 r3 r4 apply_spec_def err_bind_assoc split_def fst_conv snd_conv Let_def err_bind.simps res_def)
  finally show ?thesis .
qed

section \<open>The parts are rendered in order\<close>

definition fmt_piece_ok :: "fmt_piece \<Rightarrow> bool" where
  "fmt_piece_ok p = (case p of Text _ \<Rightarrow> True | Field i f \<Rightarrow> id_ok i \<and> (case f of None \<Rightarrow> True | Some f \<Rightarrow> spec_ok f))"

lemma simple_loop_brace:
  "simple_loop args [] (CHR ''{'' # p) st = err_bind (parse_replacement_field args (CHR ''{'' # p) st) (\<lambda>(p, st). simple_loop args [] p st)"
  by (simp add: on_text_def split: sum.split)

lemma simple_loop_doubled: "simple_loop args [] (concat (map double_brace t) @ s) st = simple_loop args [] s (on_text t st)"
proof (induction t arbitrary: st)
  case (Cons c t)
  consider (open') "c = CHR ''{''" | (close) "c = CHR ''}''" | (plain) "c \<noteq> CHR ''{''" "c \<noteq> CHR ''}''" by blast
  then show ?case
  proof cases
    case open'
    have "parse_replacement_field args (CHR ''{'' # CHR ''{'' # concat (map double_brace t) @ s) st = Inr (concat (map double_brace t) @ s, on_text ''{'' st)"
      by (simp add: parse_replacement_field_def)
    moreover have "double_brace c = ''{{''" by (simp add: open' double_brace_def)
    ultimately show ?thesis by (simp add: open' simple_loop_brace Cons.IH del: simple_loop.simps)
  next
    case close
    then show ?thesis using Cons.IH [of "on_text ''}'' st"] by (simp add: double_brace_def)
  next
    case plain
    moreover from plain have "double_brace c = [c]" by (simp add: double_brace_def)
    ultimately show ?thesis
      using Cons.IH [of "on_text [c] st"] simple_loop_text [of args "[c]" "concat (map double_brace t) @ s" st] by simp
  qed
qed simp

lemma hd_print_id:
  assumes "c = CHR ''}'' \<or> c = CHR '':''" "i \<noteq> None \<or> c = CHR '':''"
  shows "hd (print_id i @ c # r) \<noteq> CHR ''}''" "hd (print_id i @ c # r) \<noteq> CHR ''{''"
proof -
  have "hd (print_id i @ c # r) \<noteq> CHR ''}'' \<and> hd (print_id i @ c # r) \<noteq> CHR ''{''"
  proof (cases i)
    case (Some k)
    then show ?thesis using hd_dec_nat(2) [of k] dec_nat_head(2) [of k] not_digits by (auto simp: hd_append)
  qed (use assms in simp)
  then show "hd (print_id i @ c # r) \<noteq> CHR ''}''" "hd (print_id i @ c # r) \<noteq> CHR ''{''" by blast+
qed

lemma replacement_field_print:
  assumes "id_ok i" "c = CHR ''}'' \<or> c = CHR '':''" "i \<noteq> None \<or> c = CHR '':''"
  shows "parse_replacement_field args (CHR ''{'' # print_id i @ c # r) st = field_end args (id_of i) (c # r) st"
  using hd_print_id [OF assms(2,3), of r] parse_arg_id_print [OF assms(1,2), of r] by (simp add: parse_replacement_field_def Let_def)

lemma field_end_plain: "field_end args i (CHR ''}'' # r) st = err_bind (on_arg_id i st) (\<lambda>(k, st). err_bind (on_replacement_field args k st) (\<lambda>st. Inr (r, st)))"
  by (simp add: field_end_def)

lemma parse_piece:
  assumes "fmt_piece_ok p"
  shows "simple_loop args [] (print_fmt_piece p @ s) st = err_bind (apply_piece args p st) (simple_loop args [] s)"
proof (cases p)
  case (Text t)
  then show ?thesis by (simp add: simple_loop_doubled)
next
  case (Field i f)
  then have i: "id_ok i" using assms by (simp add: fmt_piece_ok_def)
  show ?thesis
  proof (cases f)
    case None
    have "parse_replacement_field args (CHR ''{'' # print_id i @ CHR ''}'' # s) st = field_end args (id_of i) (CHR ''}'' # s) st"
    proof (cases i)
      case None
      then show ?thesis by (simp add: parse_replacement_field_def field_end_plain id_of_def)
    next
      case (Some k)
      then show ?thesis using i by (intro replacement_field_print) simp_all
    qed
    then show ?thesis
      by (simp add: Field None simple_loop_brace field_end_plain err_bind_assoc split_def del: simple_loop.simps)
  next
    case (Some g)
    then have g: "spec_ok g" using assms by (simp add: fmt_piece_ok_def Field)
    have "parse_replacement_field args (CHR ''{'' # print_id i @ CHR '':'' # print_spec g @ CHR ''}'' # s) st =
        field_end args (id_of i) (CHR '':'' # print_spec g @ CHR ''}'' # s) st"
      using i by (intro replacement_field_print) simp_all
    also have "\<dots> = err_bind (apply_piece args p st) (\<lambda>st. Inr (s, st))"
      by (simp add: field_end_def on_format_specs_def parse_format_specs_print [OF g] err_bind_assoc split_def Field Some)
    finally show ?thesis
      by (simp add: Field Some simple_loop_brace err_bind_assoc split_def del: simple_loop.simps)
  qed
qed

lemma parse_pieces:
  "list_all fmt_piece_ok ps \<Longrightarrow> simple_loop args [] (concat (map print_fmt_piece ps) @ s) st = err_bind (apply_pieces args ps st) (simple_loop args [] s)"
proof (induction ps arbitrary: st)
  case (Cons p ps)
  have "simple_loop args [] (concat (map print_fmt_piece ps) @ s) = (\<lambda>st. err_bind (apply_pieces args ps st) (simple_loop args [] s))"
    using Cons by (intro ext) simp
  then show ?case using Cons.prems by (simp add: parse_piece err_bind_assoc)
qed simp

lemma vformat_print:
  assumes "list_all fmt_piece_ok ps"
  shows "vformat (concat (map print_fmt_piece ps)) args = err_bind (apply_pieces args ps ([], 0)) (\<lambda>st. Inr (fst st))"
proof -
  have "simple_loop args [] (concat (map print_fmt_piece ps)) ([], 0) = err_bind (apply_pieces args ps ([], 0)) (simple_loop args [] [])"
    using parse_pieces [OF assms, of args "[]" "([], 0)"] by simp
  then show ?thesis unfolding vformat_simple by (simp add: err_bind_assoc)
qed

lemmas field_steps = on_arg_id_def id_of_def next_arg_id_def check_arg_id_def get_arg_def on_replacement_field_def on_text_def

text \<open>C29: Format strings are read back as they were put together: the text that prints any texts, fields and
  specifications is formatted to the texts and the arguments in their order -- or to the first error of these
  --, no matter which of the two loops its length selects, and formatting without arguments is the scan
  for doubled braces that the log statements go through.\<close>

theorem format_pieces:
  assumes "list_all fmt_piece_ok ps"
  shows "vformat (concat (map print_fmt_piece ps)) args = err_bind (apply_pieces args ps ([], 0)) (\<lambda>st. Inr (fst st))
    \<and> two_pass_loop args s st = simple_loop args [] s st
    \<and> (case vformat s [] of Inl _ \<Rightarrow> None | Inr t \<Rightarrow> Some t) = fmt_vformat s"
  by (intro conjI vformat_print [OF assms] loops_agree vformat_no_args)

text \<open>A negative number with the zero flag, between doubled braces, and a text.\<close>

lemma format_pieces_witness:
  "vformat ''a{{b{:03}}}{}'' [Arg_int False True (- 7), Arg_string ''x''] = Inr ''a{b-07}x''"
proof -
  let ?f = "\<lparr>fd_align = None, fd_sign = Sign_none, fd_alt = False, fd_zero = True, fd_width = Width 3, fd_type = None\<rparr>"
  let ?s = "format_specs_new\<lparr>sp_align := Align_numeric, sp_fill := ''0'', sp_width := 3\<rparr>"
  have s: "apply_spec [Arg_int False True (- 7), Arg_string ''x''] Int_type ?f (format_specs_new, 1) = Inr (?s, 1)"
    by (simp add: apply_spec_def set_align_def on_zero_def format_specs_new_def require_numeric_argument_def is_arithmetic_type_def)
  have seven: "digit_char 7 = CHR ''7''" by code_simp
  have w: "write_arg ?s (Arg_int False True (- 7)) = Inr ''-07''"
    by (simp add: write_integer_def make_write_int_arg_abs write_dec_nat from_option_def seven length_dec_nat_small dec_nat_rec [of 7]
        format_specs_new_def write_int_def write_int_data_def write_padded_def fill_def shifts_def)
  define ps where "ps = [Text ''a{b'', Field None (Some ?f), Text ''}'', Field None None]"
  have "apply_pieces [Arg_int False True (- 7), Arg_string ''x''] ps ([], 0) = Inr (''a{b-07}x'', 2)"
    by (simp add: ps_def field_steps s w del: write_arg.simps)
  moreover have "list_all fmt_piece_ok ps" unfolding ps_def by code_simp
  moreover have "concat (map print_fmt_piece ps) = ''a{{b{:03}}}{}''" unfolding ps_def by code_simp
  ultimately show ?thesis using format_pieces [THEN conjunct1, of ps "[Arg_int False True (- 7), Arg_string ''x'']"] by simp
qed

section \<open>Three corners\<close>

text \<open>An empty specification before a text that begins with an alignment character: the closing brace is
  taken for a fill character, and the format string is refused.\<close>

lemma brace_taken_as_fill: "vformat (''{:}<'') [Arg_bool True] = Inl (''missing '' @ [CHR 0x27] @ ''}'' @ [CHR 0x27] @ '' in format string'')"
proof -
  have a: "parse_align ''}<'' format_specs_new = Inr ([], format_specs_new\<lparr>sp_fill := ''}'', sp_align := Align_left\<rparr>)" by code_simp
  have "parse_format_specs [Arg_bool True] Bool_type ''}<'' (format_specs_new, 1) = Inr ([], format_specs_new\<lparr>sp_fill := ''}'', sp_align := Align_left\<rparr>, 1)"
    by (simp add: parse_format_specs_def a and_then_def is_ascii_letter_def)
  then show ?thesis
    by (simp add: vformat_simple parse_replacement_field_def field_end_def on_format_specs_def parse_arg_id_def missing_brace_def field_steps)
qed

text \<open>The zero flag overwrites the first byte of a fill character of several bytes and leaves the others.\<close>

lemma zero_flag_breaks_fill:
  "parse_format_specs args Int_type [CHR 0xC3, CHR 0xA4, CHR ''<'', CHR ''0'', CHR ''3'', CHR ''}''] (format_specs_new, 1) =
    Inr (''}'', format_specs_new\<lparr>sp_fill := [CHR ''0'', CHR 0xA4], sp_align := Align_left, sp_width := 3\<rparr>, 1)"
proof -
  have a: "parse_align [CHR 0xC3, CHR 0xA4, CHR ''<'', CHR ''0'', CHR ''3'', CHR ''}''] format_specs_new =
      Inr (''03}'', format_specs_new\<lparr>sp_fill := [CHR 0xC3, CHR 0xA4], sp_align := Align_left\<rparr>)" by code_simp
  have w: "parse_width args ''3}'' (specs, n) = Inr (''}'', specs\<lparr>sp_width := 3\<rparr>, n)" for specs and n :: int
    by (simp add: parse_width_def is_digit_def parse_nonnegative_int_def int_max_def)
  show ?thesis
    by (simp add: parse_format_specs_def a w and_then_def with_flag_def sign_of_def is_ascii_letter_def on_zero_def
        require_numeric_argument_def is_arithmetic_type_def)
qed

text \<open>The precision of a text counts bytes, though its width counts columns: a character is cut in two.\<close>

lemma precision_splits_character: "vformat ''{:.1}'' [Arg_string [CHR 0xC3, CHR 0xA4]] = Inr [CHR 0xC3]"
  by code_simp

end
