(* ===== verification/Errors.thy ===== *)
theory Errors
  imports Fmt_Format_Proofs
begin

text \<open>
  Checks and their reports: \<^verbatim>\<open>src/common/Debugging/Errors.cpp\<close> and \<^verbatim>\<open>Errors.h\<close>, and the formatting of
  \<^verbatim>\<open>src/common/Utilities/StringFormat.h\<close> that they use. A function returns what it does, in order; the location
  and the text of a condition, which the macros take from the preprocessor, are arguments. The platform is not Windows.
\<close>

section \<open>Format strings\<close>

text \<open>\<open>Warhead::StringFormat\<close>: the text of an error in the format string is a text too; \<open>Inl\<close> is an
  exception that escapes from the handler.\<close>

definition StringFormat :: "string \<Rightarrow> fmt_arg list \<Rightarrow> string + string" where
  "StringFormat s args =
     (case vformat s args of
        Inr t \<Rightarrow> Inr t
      | Inl what \<Rightarrow> vformat (''An error occurred formatting string \"{}\": {}'') [Arg_string s, Arg_string what])"

section \<open>Messages\<close>

abbreviation (input) nl :: string where "nl \<equiv> [CHR 0x0A]"
abbreviation (input) apo :: string where "apo \<equiv> [CHR 0x27]"

definition head_format :: string where
  "head_format = nl @ ''>> {}'' @ nl @ nl @ ''# Location '' @ apo @ ''{}:{}'' @ apo @ nl @ ''# Function '' @ apo @ ''{}'' @ apo @ nl
     @ ''# Condition '' @ apo @ ''{}'' @ apo @ nl"

definition abort_format :: string where
  "abort_format = nl @ ''>> ABORTED'' @ nl @ nl @ ''# Location '' @ apo @ ''{}:{}'' @ apo @ nl @ ''# Function '' @ apo @ ''{}'' @ apo @ nl"

definition message_format :: string where
  "message_format = ''# Message '' @ apo @ ''{}'' @ apo @ nl"

definition debug_format :: string where
  "debug_format = nl @ ''# Debug info: '' @ apo @ ''{}'' @ apo @ nl"

definition frame_format :: string where
  "frame_format = ''#{0:-^{2}}#'' @ nl @ '' {1: ^{2}} '' @ nl @ ''#{0:-^{2}}#'' @ nl"

definition int_arg :: "int \<Rightarrow> fmt_arg" where
  "int_arg i = Arg_int False True i"

text \<open>A part that is appended unless it is empty.\<close>

definition append_part :: "string \<Rightarrow> string \<Rightarrow> string \<Rightarrow> string + string" where
  "append_part fmt part msg =
     (if part \<noteq> [] then err_bind (StringFormat fmt [Arg_string part]) (\<lambda>t. Inr (msg @ t)) else Inr msg)"

definition report_frame :: "string \<Rightarrow> string + string" where
  "report_frame msg = StringFormat frame_format [Arg_string [], Arg_string msg, int_arg 70]"

definition MakeMessage :: "string \<Rightarrow> string \<Rightarrow> int \<Rightarrow> string \<Rightarrow> string \<Rightarrow> string \<Rightarrow> string \<Rightarrow> string + string" where
  "MakeMessage messageType file' line' function' message fmtMessage debugInfo =
     err_bind (StringFormat head_format [Arg_string messageType, Arg_string file', int_arg line', Arg_string function', Arg_string message]) (\<lambda>msg.
     err_bind (append_part message_format fmtMessage msg) (\<lambda>msg.
     err_bind (append_part debug_format debugInfo msg) report_frame))"

definition MakeAbortMessage :: "string \<Rightarrow> int \<Rightarrow> string \<Rightarrow> string \<Rightarrow> string + string" where
  "MakeAbortMessage file' line' function' fmtMessage =
     err_bind (StringFormat abort_format [Arg_string file', int_arg line', Arg_string function']) (\<lambda>msg.
     err_bind (append_part message_format fmtMessage msg) report_frame)"

section \<open>What is printed\<close>

lemma default_int: "- (2 ^ 31) \<le> i \<Longrightarrow> i < 2 ^ 31 \<Longrightarrow> default_format (int_arg i) = Inr (dec_int i)"
  by (simp add: int_arg_def write_plain_int_text from_option_def)

lemma head_format_text:
  assumes "- (2 ^ 31) \<le> i" "i < 2 ^ 31"
  shows "StringFormat head_format [Arg_string a, Arg_string b, int_arg i, Arg_string c, Arg_string d] =
    Inr (nl @ ''>> '' @ a @ nl @ nl @ ''# Location '' @ apo @ b @ '':'' @ dec_int i @ apo @ nl @ ''# Function '' @ apo @ c @ apo @ nl
     @ ''# Condition '' @ apo @ d @ apo @ nl)"
proof -
  let ?ps = "[Text (nl @ ''>> ''), Field None None, Text (nl @ nl @ ''# Location '' @ apo), Field None None, Text '':'', Field None None,
    Text (apo @ nl @ ''# Function '' @ apo), Field None None, Text (apo @ nl @ ''# Condition '' @ apo), Field None None, Text (apo @ nl)]"
  have ok: "list_all fmt_piece_ok ?ps" by (simp add: fmt_piece_ok_def id_ok_def)
  have p: "concat (map print_fmt_piece ?ps) = head_format" by (simp add: head_format_def double_brace_def)
  show ?thesis using vformat_print [OF ok, of "[Arg_string a, Arg_string b, int_arg i, Arg_string c, Arg_string d]"] default_int [OF assms]
    unfolding p by (simp add: StringFormat_def field_steps)
qed

definition center :: "string \<Rightarrow> string" where
  "center msg = write_string msg (format_specs_new\<lparr>sp_width := 70, sp_align := Align_center\<rparr>)"

definition border :: string where
  "border = ''#'' @ replicate 70 (CHR ''-'') @ ''#'' @ nl"

lemma report_frame_text: "report_frame msg = Inr (border @ '' '' @ center msg @ '' '' @ nl @ border)"
proof -
  let ?args = "[Arg_string [], Arg_string msg, int_arg 70]"
  let ?f = "\<lambda>c. \<lparr>fd_align = Some (Some c, Align_center), fd_sign = Sign_none, fd_alt = False, fd_zero = False, fd_width = Argument_width (Some 2), fd_type = None\<rparr>"
  let ?s = "\<lambda>c. format_specs_new\<lparr>sp_fill := [c], sp_align := Align_center, sp_width := 70\<rparr>"
  let ?ps = "[Text ''#'', Field (Some 0) (Some (?f 45)), Text (''#'' @ nl @ '' ''), Field (Some 1) (Some (?f 32)), Text ('' '' @ nl @ ''#''),
    Field (Some 0) (Some (?f 45)), Text (''#'' @ nl)]"
  have ok: "list_all fmt_piece_ok ?ps" by code_simp
  have p: "concat (map print_fmt_piece ?ps) = frame_format" by code_simp
  have c: "utf8_string [45] = ''-''" "utf8_string [32] = '' ''" by code_simp+
  have spec: "apply_spec ?args t (?f k) (format_specs_new, n) = Inr (format_specs_new\<lparr>sp_fill := utf8_string [k], sp_align := Align_center, sp_width := 70\<rparr>, -1)"
    if "n \<le> 0" for t k n
    using that by (simp add: apply_spec_def set_align_def on_dynamic_width_def get_id_arg_def id_of_def check_arg_id_def get_arg_def int_arg_def get_dynamic_spec_def int_max_def)
  have dashes: "write_string [] (?s (CHR ''-'')) = replicate 70 (CHR ''-'')" by code_simp
  have msg: "write_string msg (?s (CHR '' '')) = center msg" by (simp add: center_def format_specs_new_def)
  have type: "sp_type format_specs_new = Type_none" by (simp add: format_specs_new_def)
  have "apply_pieces ?args ?ps ([], 0) = Inr (border @ '' '' @ center msg @ '' '' @ nl @ border, -1)"
    by (simp add: field_steps spec c dashes msg border_def check_string_type_spec_def type)
  then show ?thesis using vformat_print [OF ok, of ?args] by (simp only: p report_frame_def StringFormat_def err_bind.simps sum.case fst_conv)
qed


lemma part_text:
  "append_part message_format m msg = Inr (msg @ (if m = [] then [] else ''# Message '' @ apo @ m @ apo @ nl))"
  "append_part debug_format m msg = Inr (msg @ (if m = [] then [] else nl @ ''# Debug info: '' @ apo @ m @ apo @ nl))"
proof -
  let ?ps = "\<lambda>t. [Text (t @ apo), Field None None, Text (apo @ nl)]"
  have ok: "list_all fmt_piece_ok (?ps t)" for t by (simp add: fmt_piece_ok_def id_ok_def)
  have p: "concat (map print_fmt_piece (?ps ''# Message '')) = message_format" "concat (map print_fmt_piece (?ps (nl @ ''# Debug info: ''))) = debug_format"
    by (simp_all add: message_format_def debug_format_def double_brace_def)
  note print = vformat_print [OF ok, of "''# Message ''" "[Arg_string m]", unfolded p] vformat_print [OF ok, of "nl @ ''# Debug info: ''" "[Arg_string m]", unfolded p]
  show "append_part message_format m msg = Inr (msg @ (if m = [] then [] else ''# Message '' @ apo @ m @ apo @ nl))"
    "append_part debug_format m msg = Inr (msg @ (if m = [] then [] else nl @ ''# Debug info: '' @ apo @ m @ apo @ nl))"
    by (simp_all add: append_part_def StringFormat_def print field_steps)
qed

text \<open>A format error never escapes: it is reported in the text.\<close>

lemma StringFormat_total: "\<exists>t. StringFormat s args = Inr t"
proof (cases "vformat s args")
  case (Inl e)
  let ?ps = "[Text ''An error occurred formatting string \"'', Field None None, Text ''\": '', Field None None]"
  have ok: "list_all fmt_piece_ok ?ps" by (simp add: fmt_piece_ok_def id_ok_def)
  have p: "concat (map print_fmt_piece ?ps) = ''An error occurred formatting string \"{}\": {}''" by (simp add: double_brace_def)
  show ?thesis using vformat_print [OF ok, of "[Arg_string s, Arg_string e]"] unfolding p by (simp add: StringFormat_def Inl field_steps)
qed (simp add: StringFormat_def)

section \<open>Checks\<close>

text \<open>What the functions do, in order; \<open>Crash\<close> ends the program, with the text left for the debugger. C strings end at the
  first NUL.\<close>

datatype report_effect = Stderr string | Flush_stderr | Sleep_seconds nat | Crash string

definition c_str :: "string \<Rightarrow> string" where
  "c_str s = takeWhile (\<lambda>c. c \<noteq> CHR 0x00) s"

definition GetDebugInfo :: string where
  "GetDebugInfo = []"

definition Assert :: "string \<Rightarrow> int \<Rightarrow> string \<Rightarrow> string \<Rightarrow> string \<Rightarrow> string \<Rightarrow> string + report_effect list" where
  "Assert file' line' function' debugInfo message fmtMessage =
     err_bind (MakeMessage ''ASSERTION FAILED'' file' line' function' message fmtMessage debugInfo) (\<lambda>m.
       Inr [Stderr (c_str m), Flush_stderr, Crash (c_str m)])"

definition Fatal :: "string \<Rightarrow> int \<Rightarrow> string \<Rightarrow> string \<Rightarrow> string \<Rightarrow> string + report_effect list" where
  "Fatal file' line' function' message fmtMessage =
     err_bind (MakeMessage ''FATAL ERROR'' file' line' function' message fmtMessage []) (\<lambda>m.
       Inr [Stderr (c_str m), Flush_stderr, Sleep_seconds 10, Crash (c_str m)])"

definition Error :: "string \<Rightarrow> int \<Rightarrow> string \<Rightarrow> string \<Rightarrow> string + report_effect list" where
  "Error file' line' function' message =
     err_bind (MakeMessage ''ERROR'' file' line' function' message [] []) (\<lambda>m.
       Inr [Stderr (c_str m), Flush_stderr, Sleep_seconds 10, Crash (c_str m)])"

definition Warning :: "string \<Rightarrow> int \<Rightarrow> string \<Rightarrow> string \<Rightarrow> string + report_effect list" where
  "Warning file' line' function' message =
     err_bind (MakeMessage ''WARNING'' file' line' function' message [] []) (\<lambda>m. Inr [Stderr (c_str m)])"

definition Abort :: "string \<Rightarrow> int \<Rightarrow> string \<Rightarrow> string \<Rightarrow> string + report_effect list" where
  "Abort file' line' function' fmtMessage =
     err_bind (MakeAbortMessage file' line' function' fmtMessage) (\<lambda>m. Inr [Stderr (c_str m), Flush_stderr, Crash (c_str m)])"

definition AbortHandler :: "int \<Rightarrow> string + report_effect list" where
  "AbortHandler sigval =
     err_bind (StringFormat (''Caught signal {}'' @ nl) [int_arg sigval]) (\<lambda>m. Inr [Stderr (c_str m), Flush_stderr, Crash (c_str m)])"

text \<open>The arguments behind the condition of a macro: none, a text that is taken as it is, or a format string with arguments,
  for which the overload is a template that formats them.\<close>

definition va_message :: "(string \<times> fmt_arg list) option \<Rightarrow> string + string" where
  "va_message va = (case va of None \<Rightarrow> Inr [] | Some (s, args) \<Rightarrow> if args = [] then Inr s else StringFormat s args)"

definition WPAssert :: "string \<Rightarrow> int \<Rightarrow> string \<Rightarrow> string \<Rightarrow> bool \<Rightarrow> (string \<times> fmt_arg list) option \<Rightarrow> string + report_effect list" where
  "WPAssert file' line' function' cond_text cond va =
     (if \<not> cond then err_bind (va_message va) (Assert file' line' function' GetDebugInfo cond_text) else Inr [])"

definition WPAssert_NODEBUGINFO :: "string \<Rightarrow> int \<Rightarrow> string \<Rightarrow> string \<Rightarrow> bool \<Rightarrow> string + report_effect list" where
  "WPAssert_NODEBUGINFO file' line' function' cond_text cond =
     (if \<not> cond then Assert file' line' function' [] cond_text [] else Inr [])"

definition WPFatal :: "string \<Rightarrow> int \<Rightarrow> string \<Rightarrow> bool \<Rightarrow> string \<Rightarrow> (string \<times> fmt_arg list) option \<Rightarrow> string + report_effect list" where
  "WPFatal file' line' function' cond message va =
     (if \<not> cond then err_bind (va_message va) (Fatal file' line' function' message) else Inr [])"

definition WPError :: "string \<Rightarrow> int \<Rightarrow> string \<Rightarrow> bool \<Rightarrow> string \<Rightarrow> string + report_effect list" where
  "WPError file' line' function' cond msg = (if \<not> cond then Error file' line' function' msg else Inr [])"

definition WPWarning :: "string \<Rightarrow> int \<Rightarrow> string \<Rightarrow> bool \<Rightarrow> string \<Rightarrow> string + report_effect list" where
  "WPWarning file' line' function' cond msg = (if \<not> cond then Warning file' line' function' msg else Inr [])"

definition WPAbort :: "string \<Rightarrow> int \<Rightarrow> string \<Rightarrow> (string \<times> fmt_arg list) option \<Rightarrow> string + report_effect list" where
  "WPAbort file' line' function' va = err_bind (va_message va) (Abort file' line' function')"

definition ASSERT :: "bool \<Rightarrow> string \<Rightarrow> int \<Rightarrow> string \<Rightarrow> string \<Rightarrow> bool \<Rightarrow> (string \<times> fmt_arg list) option \<Rightarrow> string + report_effect list" where
  "ASSERT profiling file' line' function' cond_text cond va =
     (if profiling then Inr [] else WPAssert file' line' function' cond_text cond va)"

definition ASSERT_NOTNULL_IMPL :: "bool \<Rightarrow> string \<Rightarrow> int \<Rightarrow> 'a option \<Rightarrow> string \<Rightarrow> string + report_effect list \<times> 'a option" where
  "ASSERT_NOTNULL_IMPL profiling file' line' pointer expr =
     err_bind (ASSERT profiling file' line' ''ASSERT_NOTNULL_IMPL'' ''pointer'' (pointer \<noteq> None) (Some (''{}'', [Arg_string expr]))) (\<lambda>es.
       Inr (es, pointer))"

section \<open>The reports\<close>

definition in_frame :: "string \<Rightarrow> string" where
  "in_frame msg = border @ '' '' @ center msg @ '' '' @ nl @ border"

definition location_text :: "string \<Rightarrow> int \<Rightarrow> string \<Rightarrow> string" where
  "location_text file' line' function' =
     ''# Location '' @ apo @ file' @ '':'' @ dec_int line' @ apo @ nl @ ''# Function '' @ apo @ function' @ apo @ nl"

definition part :: "string \<Rightarrow> string \<Rightarrow> string" where
  "part name s = (if s = [] then [] else name @ apo @ s @ apo @ nl)"

lemma MakeMessage_text:
  assumes "- (2 ^ 31) \<le> i" "i < 2 ^ 31"
  shows "MakeMessage kind file' i function' cond msg debug =
    Inr (in_frame (nl @ ''>> '' @ kind @ nl @ nl @ location_text file' i function' @ ''# Condition '' @ apo @ cond @ apo @ nl
      @ part ''# Message '' msg @ part (nl @ ''# Debug info: '') debug))"
  by (simp add: MakeMessage_def head_format_text [OF assms] part_text report_frame_text in_frame_def location_text_def part_def)

lemma MakeAbortMessage_text:
  assumes "- (2 ^ 31) \<le> i" "i < 2 ^ 31"
  shows "MakeAbortMessage file' i function' msg = Inr (in_frame (nl @ ''>> ABORTED'' @ nl @ nl @ location_text file' i function' @ part ''# Message '' msg))"
proof -
  let ?ps = "[Text (nl @ ''>> ABORTED'' @ nl @ nl @ ''# Location '' @ apo), Field None None, Text '':'', Field None None,
    Text (apo @ nl @ ''# Function '' @ apo), Field None None, Text (apo @ nl)]"
  have ok: "list_all fmt_piece_ok ?ps" by (simp add: fmt_piece_ok_def id_ok_def)
  have p: "concat (map print_fmt_piece ?ps) = abort_format" by (simp add: abort_format_def double_brace_def)
  show ?thesis using vformat_print [OF ok, of "[Arg_string file', int_arg i, Arg_string function']"] default_int [OF assms]
    unfolding p by (simp add: StringFormat_def field_steps MakeAbortMessage_def part_text report_frame_text in_frame_def location_text_def part_def)
qed

lemma center_columns:
  "\<exists>l r. center t = replicate l (CHR '' '') @ t @ replicate r (CHR '' '') \<and> l + r = 70 - compute_width (bytes t) \<and> l = (l + r) div 2"
proof -
  define p where "p = 70 - compute_width (bytes t)"
  have "center t = replicate (p div 2) (CHR '' '') @ t @ replicate (p - p div 2) (CHR '' '')"
    by (simp add: center_def write_string_def write_padded_def format_specs_new_def shifts_def Let_def fill_char p_def)
  moreover have "p div 2 + (p - p div 2) = p" by simp
  ultimately show ?thesis unfolding p_def [symmetric] by metis
qed

lemma va_message_total: "\<exists>m. va_message va = Inr m"
  using StringFormat_total by (auto simp: va_message_def split: option.split)


lemma signal_text:
  assumes "- (2 ^ 31) \<le> i" "i < 2 ^ 31"
  shows "StringFormat (''Caught signal {}'' @ nl) [int_arg i] = Inr (''Caught signal '' @ dec_int i @ nl)"
proof -
  let ?ps = "[Text ''Caught signal '', Field None None, Text nl]"
  have ok: "list_all fmt_piece_ok ?ps" by (simp add: fmt_piece_ok_def id_ok_def)
  have p: "concat (map print_fmt_piece ?ps) = ''Caught signal {}'' @ nl" by (simp add: double_brace_def)
  show ?thesis using vformat_print [OF ok, of "[int_arg i]"] default_int [OF assms] unfolding p by (simp add: StringFormat_def field_steps)
qed



end
