(* ===== verification/Spec2Isabelle.thy ===== *)
theory Spec2Isabelle
  imports Server_Proofs Threading_Proofs Hffix_Writer Hffix_Fields Log_Output_Proofs Errors
begin

text \<open>
  WarheadFix is a small FIX server in C++: it listens on a TCP port, reads FIX 5.0 messages from its
  clients, accepts a Logon and then New Order Singles, answers the Logon, and logs what it does. This
  library models the program from its command line down to the bytes it sends, and proves what makes each
  part correct; the composition is in \<open>Server_Proofs\<close>.

  \<^bold>\<open>How the program is put together.\<close> \<^verbatim>\<open>main\<close> reads the configuration (\<open>ConfigMgr\<close>), makes the
  loggers and their sinks (\<open>Log\<close>), and starts the network: a \<open>SocketMgr\<close> with an \<open>AsyncAcceptor\<close> and a
  \<open>NetworkThread\<close>. An accepted connection becomes an \<open>AuthSession\<close>, a \<open>Socket\<close> with a read
  \<open>MessageBuffer\<close> and a queue of \<open>MessageBuffer\<close>s to write. The thread updates its sessions; the system
  tells a session's socket that bytes have arrived or can be written. The session wraps what it read in a
  \<open>ByteBuffer\<close>, checks the protocol version, and lets \<open>FixMessage\<close> read the message with the library
  hffix; \<open>FixMessage\<close> also writes the reply with it.

  \<^bold>\<open>The theories\<close>, with the sources they model (paths below \<^verbatim>\<open>src/\<close>):

  \<^item> \<open>Prelude\<close>: the machine types of \<^verbatim>\<open>src/common/Define.h\<close>, \<^verbatim>\<open>size_t\<close> arithmetic, memory as byte
    lists (\<open>segment\<close>, \<open>blit\<close>, \<open>mem_read\<close>, \<open>mem_write\<close>), errors as sums (\<open>err_bind\<close>).
  \<^item> \<open>Message_Buffer\<close>: \<^verbatim>\<open>src/common/Utilities/MessageBuffer.h\<close>; the contract \<open>byte_fifo\<close>.
  \<^item> \<open>Byte_Converter\<close>, \<open>Byte_Buffer\<close>, \<open>Wire_Codecs\<close>: \<^verbatim>\<open>ByteConverter.h\<close> and
    \<^verbatim>\<open>src/shared/Packets/ByteBuffer.*\<close>. A stream operator and its inverse are a \<open>wire_codec\<close>; the codecs
    of integers, strings and packed GUIDs are composed to that of a whole packet.
  \<^item> \<open>String_Util\<close>, \<open>Utf8\<close>: \<^verbatim>\<open>Util.cpp\<close>, \<^verbatim>\<open>Tokenize.cpp\<close>, \<^verbatim>\<open>StringFormat.cpp\<close>,
    \<^verbatim>\<open>StringConvert.h\<close>; the validation of \<^verbatim>\<open>deps/utf8cpp\<close> against an encoder.
  \<^item> \<open>Timer\<close>: \<^verbatim>\<open>src/common/Utilities/Timer.*\<close>, \<^verbatim>\<open>Duration.h\<close>.
  \<^item> \<open>Log_Core\<close>, \<open>Config\<close>, \<open>Logging\<close>: \<^verbatim>\<open>src/common/Logging/Log.*\<close> and
    \<^verbatim>\<open>src/common/Configuration/Config.*\<close>. \<open>Log_Files\<close>, \<open>Log_Files_Proofs\<close>: the rotating file sink of
    \<^verbatim>\<open>deps/spdlog\<close> that \<^verbatim>\<open>Log.cpp\<close> creates.
  \<^item> \<open>Log_Pattern\<close>, \<open>Log_Pattern_Proofs\<close>: the pattern formatter of \<^verbatim>\<open>deps/spdlog\<close>, its flags, padding and
    caches. \<open>Log_Output\<close>, \<open>Log_Output_Proofs\<close>: its loggers, the coloured console sink and the way of a
    statement to console and files.
  \<^item> \<open>Fmt_Write\<close>, \<open>Fmt_Utf8\<close>, \<open>Fmt_Format\<close>, \<open>Fmt_Format_Proofs\<close>: \<^verbatim>\<open>deps/fmt\<close>: the digits of integers, padding, the
    columns of UTF-8 text, format strings and their specifications.
  \<^item> \<open>Errors\<close>: \<^verbatim>\<open>src/common/Debugging/Errors.*\<close>, the reports of failed checks.
  \<^item> \<open>Hffix_Numbers\<close>, \<open>Hffix_Time\<close>, \<open>Hffix_Message\<close>: the conversions, the writer, the reader and the field
    iterator of \<^verbatim>\<open>deps/hffix/hffix.hpp\<close>; \<open>Hffix_Proofs\<close> and \<open>Hffix_Writer\<close> hold the facts,
    \<open>Hffix_Fields\<close> the date and time accessors, with the contract \<open>field_codec\<close>.
  \<^item> \<open>Fix_Message\<close>, \<open>Fix_Message_Proofs\<close>: \<^verbatim>\<open>src/shared/FixMessage/FixMessage.cpp\<close>.
  \<^item> \<open>Socket\<close>, \<open>Socket_Proofs\<close>: \<^verbatim>\<open>src/shared/Network/Socket.h\<close>, both builds; the contract
    \<open>byte_stream\<close>.
  \<^item> \<open>Auth_Session\<close>, \<open>Auth_Session_Proofs\<close>, \<open>Auth_Session_Messages\<close>:
    \<^verbatim>\<open>src/app/Server/AuthSession.*\<close>.
  \<^item> \<open>Network\<close>, \<open>Network_Proofs\<close>: \<^verbatim>\<open>NetworkThread.h\<close>, \<^verbatim>\<open>SocketMgr.h\<close>,
    \<^verbatim>\<open>AsyncAcceptor.h\<close>, \<^verbatim>\<open>AuthSocketMgr.h\<close>; the contract \<open>managed_socket\<close>.
  \<^item> \<open>Threading\<close>, \<open>Threading_Proofs\<close>: the queues of \<^verbatim>\<open>src/common/Threading\<close>; the contract
    \<open>fifo_queue\<close>.
  \<^item> \<open>Server\<close>, \<open>Server_Proofs\<close>: \<^verbatim>\<open>src/app/Main.cpp\<close> and the running server.

  \<^bold>\<open>Conventions.\<close> A class is a record with the class's name; a member function \<open>f\<close> of a class \<open>C\<close> is
  \<open>C_f\<close> or \<open>f\<close>, with the object last and returned changed. A C++ exception, a failed assertion, an
  access outside of an object and an endless loop are values of an error type, never missing cases. What
  the code asks of the system (clock, random iteration order of a hash map, results of calls on sockets and
  files, uninitialised memory) is an argument. Integers have their width: \<^verbatim>\<open>uint8\<close> to \<^verbatim>\<open>uint64\<close>
  are words, \<^verbatim>\<open>size_t\<close> is \<open>nat\<close> with \<open>sz_add\<close> and its kin where it can wrap, signed integers are
  \<open>int\<close> with \<open>int_wrap\<close>.

  \<^bold>\<open>What the lemmas show.\<close> Buffers and codecs: representation invariants kept by every operation, the
  bytes in the buffer as a FIFO, wire format and round trips. FIX: number, date and message round trips; the
  reader stays within its buffer on every message that is complete, valid and without data fields, and the
  crafted messages for which the application leaves it. Socket: the bytes sent are the queued messages in
  order, whatever the system answers; everything is sent to a peer that reads. Session: the protocol as an
  invariant of every sequence of events, what each read leads to, the bytes of the reply. Network: the
  bookkeeping of the threads under every interleaving, the accept loop, start and stop. Threading: four
  queues refine a list; the lock-free one also when its producers interleave. Logging: the level cache is
  exact, a type finds the logger of its longest prefix, files overlay in layers, log files keep the newest
  lines, and a statement comes out as the line its pattern says, whatever the formatter has cached. fmt: the
  table-driven digit counters are exact, padding counts columns, a format string is read back as it was put
  together, and no error of a format string escapes from a report. Server: all invariants together, for every run.

  \<^bold>\<open>Bounds and fuel.\<close> \<open>find_if\<close> has as fuel the length of the buffer plus two: every step of the iterator
  is determined by the end of the field before, so a longer search repeats a field and never ends, which is
  the error \<open>diverges\<close>. \<open>mp_destroy\<close> has as fuel the number of nodes ever made; \<open>mpsc_destroy\<close> shows that
  it is enough. \<open>fh_open_loop\<close> has the five tries of the source. All other loops end by structure or a
  measure. Lengths are below \<open>2\<^sup>6\<^sup>4\<close>, line counts of configuration files below \<open>2\<^sup>3\<^sup>2\<close>, connection counts
  below \<open>2\<^sup>3\<^sup>1\<close>, where a hypothesis says so.

  \<^bold>\<open>Not modelled.\<close> Boost.Asio is not part of the repository: its sockets are the history of the calls on
  them, its completions are steps. The one-line wrappers in \<^verbatim>\<open>src/common/Asio\<close>, the crash reporter for
  Windows, the revision strings, and the parts of fmt, spdlog, utf8cpp and hffix that the program does not use are
  left out: of fmt floating-point numbers, pointers, custom types, named arguments, locales, dates and compiled
  format strings; of spdlog asynchronous loggers, backtraces, custom flags, other sinks and its own copy of fmt,
  which the build replaces by \<^verbatim>\<open>deps/fmt\<close>. So are the floating-point conversions of \<^verbatim>\<open>StringConvert.h\<close>. Memory orders of the lock-free queues are taken as sequentially
  consistent, and the threads interleave at the operations that take a lock or access an atomic.
\<close>

end
